(* ===== verification/QofPrelude.thy ===== *)
theory QofPrelude
  imports Complex_Main "HOL-Library.Word"
begin

text \<open>
  Shared vocabulary of the QoF development: names for the C integer types, the
  named theorem collections of the components, and the generic list lemmas their
  proofs share. Nothing here models a source file.

  The C types \<open>uint8_t\<close>, \<open>uint16_t\<close>, \<open>uint32_t\<close>, \<open>uint64_t\<close> are words of
  their width, with wrapping arithmetic; \<open>size_t\<close> is taken to be 64 bits wide; a
  C \<open>int\<close> is a 32-bit word read with \<^const>\<open>sint\<close>; \<open>gboolean\<close> is \<^typ>\<open>bool\<close>.
  A heap address is a natural number and a C pointer an \<open>addr option\<close>, \<open>None\<close>
  being \<open>NULL\<close>.
\<close>

type_synonym u8 = "8 word"
type_synonym u16 = "16 word"
type_synonym u32 = "32 word"
type_synonym u64 = "64 word"
type_synonym i32 = "32 word"
type_synonym addr = nat
type_synonym ptr = "addr option"

text \<open>First and last element of a list as a pointer, with a default for the empty list.\<close>

definition first_or :: "ptr \<Rightarrow> addr list \<Rightarrow> ptr" where
  "first_or d xs = (case xs of [] \<Rightarrow> d | x # _ \<Rightarrow> Some x)"

definition last_or :: "ptr \<Rightarrow> addr list \<Rightarrow> ptr" where
  "last_or d xs = (if xs = [] then d else Some (last xs))"

lemma first_or_simps [simp]:
  "first_or d [] = d"
  "first_or d (x # xs) = Some x"
  by (simp_all add: first_or_def)

lemma last_or_simps [simp]:
  "last_or d [] = d"
  "last_or d (xs @ [x]) = Some x"
  "last_or d (x # xs) = last_or (Some x) xs"
  by (simp_all add: last_or_def)

lemma first_or_append [simp]: "first_or d (xs @ ys) = first_or (first_or d ys) xs"
  by (cases xs) simp_all

lemma last_or_append [simp]: "last_or d (xs @ ys) = last_or (last_or d xs) ys"
  by (auto simp: last_or_def)

lemma first_or_None [simp]: "first_or None xs = None \<longleftrightarrow> xs = []"
  by (cases xs) simp_all

lemma last_or_None [simp]: "last_or None xs = None \<longleftrightarrow> xs = []"
  by (simp add: last_or_def)

lemma first_or_in_set: "first_or None xs = Some x \<Longrightarrow> x \<in> set xs"
  by (cases xs) auto

lemma last_or_in_set: "last_or None xs = Some x \<Longrightarrow> x \<in> set xs"
  by (auto simp: last_or_def split: if_splits)

lemma remove1_middle: "x \<notin> set as \<Longrightarrow> remove1 x (as @ x # bs) = as @ bs"
  by (simp add: remove1_append)

lemma distinct_split:
  assumes "distinct xs" and "x \<in> set xs"
  obtains as bs where "xs = as @ x # bs" and "x \<notin> set as" and "x \<notin> set bs"
    and "set as \<inter> set bs = {}" and "distinct as" and "distinct bs"
proof -
  from assms(2) obtain as bs where "xs = as @ x # bs" by (blast dest: split_list)
  with assms(1) that show thesis by auto
qed

text \<open>Counters that stay below a bound of their own width do not wrap.\<close>

lemma unat_plus1_less: "x < y \<Longrightarrow> unat (x + 1) = Suc (unat x)" for x y :: "'a::len word"
proof -
  assume "x < y"
  then have "Suc (unat x) \<le> unat y" by (simp add: word_less_nat_alt)
  also have "unat y < 2 ^ LENGTH('a)" by (rule unsigned_less)
  finally show ?thesis by (simp add: unat_word_ariths)
qed

lemma unat_minus1: "0 < x \<Longrightarrow> unat (x - 1) = unat x - 1" for x :: "'a::len word"
  by (simp add: unat_minus_one word_neq_0_conv)

end
