(* ===== verification/PicQ.thy ===== *)
theory PicQ
  imports QofPrelude
begin

text \<open>
  The generic pickable queue of \<open>src/picq.c\<close> (declared in \<open>include/qof/picq.h\<close>): a
  doubly linked list whose nodes can be removed from any point. The flow table keeps its
  active and close queues in it, the fragment table its fragment queue.

  A node's two link fields \<open>p\<close> and \<open>n\<close> are two functions on addresses (the field
  heaps of the record \<open>links\<close>), so that several queues share one heap; the queue structure
  is the record \<open>PicQ\<close> of its \<open>tail\<close> and \<open>head\<close> pointers. \<open>n\<close> points
  towards the head and \<open>p\<close> towards the tail, so a queue represents the list of its
  nodes from the tail to the head (\<open>picq\<close>). The assertion of \<open>piqEnQ\<close> and
  \<open>piqUnshift\<close> that the node is unlinked is the \<open>None\<close> result.

  The locale \<open>pickable_queue\<close> is the interface the two tables rely on; its
  interpretation at the end discharges it for the functions of \<open>picq.c\<close>.
\<close>

record links =
  node_p :: "addr \<Rightarrow> ptr"
  node_n :: "addr \<Rightarrow> ptr"

record PicQ =
  q_tail :: ptr
  q_head :: ptr

definition set_p :: "addr \<Rightarrow> ptr \<Rightarrow> links \<Rightarrow> links" where
  "set_p a v h = h\<lparr>node_p := (node_p h)(a := v)\<rparr>"

definition set_n :: "addr \<Rightarrow> ptr \<Rightarrow> links \<Rightarrow> links" where
  "set_n a v h = h\<lparr>node_n := (node_n h)(a := v)\<rparr>"

definition piqPick :: "links \<Rightarrow> PicQ \<Rightarrow> addr \<Rightarrow> links \<times> PicQ" where
  "piqPick h queue node =
     (if node_n h node = None \<and> node_p h node = None \<and>
         \<not> (q_head queue = Some node \<and> q_tail queue = Some node)
      then (h, queue)
      else
        let (h1, q1) =
              (case node_p h node of
                 Some a \<Rightarrow> (set_n a (node_n h node) h, queue)
               | None \<Rightarrow> (h, queue\<lparr>q_tail := node_n h node\<rparr>));
            (h2, q2) =
              (case node_n h1 node of
                 Some b \<Rightarrow> (set_p b (node_p h1 node) h1, q1)
               | None \<Rightarrow> (h1, q1\<lparr>q_head := node_p h1 node\<rparr>))
        in (set_p node None (set_n node None h2), q2))"

definition piqEnQ :: "links \<Rightarrow> PicQ \<Rightarrow> addr \<Rightarrow> (links \<times> PicQ) option" where
  "piqEnQ h queue node =
     (if \<not> (node_n h node = None \<and> node_p h node = None) then None
      else
        let (h1, q1) =
              (case q_head queue of
                 Some a \<Rightarrow> (set_n a (Some node) h, queue)
               | None \<Rightarrow> (h, queue\<lparr>q_tail := Some node\<rparr>))
        in Some (set_p node (q_head q1) h1, q1\<lparr>q_head := Some node\<rparr>))"

definition piqUnshift :: "links \<Rightarrow> PicQ \<Rightarrow> addr \<Rightarrow> (links \<times> PicQ) option" where
  "piqUnshift h queue node =
     (if \<not> (node_n h node = None \<and> node_p h node = None) then None
      else
        let (h1, q1) =
              (case q_tail queue of
                 Some a \<Rightarrow> (set_p a (Some node) h, queue)
               | None \<Rightarrow> (h, queue\<lparr>q_head := Some node\<rparr>))
        in Some (set_n node (q_tail q1) h1, q1\<lparr>q_tail := Some node\<rparr>))"

definition piqShift :: "links \<Rightarrow> PicQ \<Rightarrow> links \<times> PicQ \<times> ptr" where
  "piqShift h queue =
     (case q_head queue of
        Some node \<Rightarrow> (let (h', q') = piqPick h queue node in (h', q', Some node))
      | None \<Rightarrow> (h, queue, None))"

definition piqDeQ :: "links \<Rightarrow> PicQ \<Rightarrow> links \<times> PicQ \<times> ptr" where
  "piqDeQ h queue =
     (case q_tail queue of
        Some node \<Rightarrow> (let (h', q') = piqPick h queue node in (h', q', Some node))
      | None \<Rightarrow> (h, queue, None))"

text \<open>
  A segment of linked nodes between a predecessor and a successor pointer, and the list
  a queue represents. A free node has both links \<open>NULL\<close>.
\<close>

fun dseg :: "links \<Rightarrow> ptr \<Rightarrow> addr list \<Rightarrow> ptr \<Rightarrow> bool" where
  "dseg h pv [] nx = True"
| "dseg h pv (x # xs) nx =
     (node_p h x = pv \<and> node_n h x = first_or nx xs \<and> dseg h (Some x) xs nx)"

definition picq :: "links \<Rightarrow> PicQ \<Rightarrow> addr list \<Rightarrow> bool" where
  "picq h q xs \<longleftrightarrow>
     distinct xs \<and> dseg h None xs None \<and>
     q_tail q = first_or None xs \<and> q_head q = last_or None xs"

definition unlinked :: "links \<Rightarrow> addr \<Rightarrow> bool" where
  "unlinked h a \<longleftrightarrow> node_n h a = None \<and> node_p h a = None"


subsection \<open>Segments\<close>

lemma dseg_append [simp]:
  "dseg h pv (xs @ ys) nx \<longleftrightarrow> dseg h pv xs (first_or nx ys) \<and> dseg h (last_or pv xs) ys nx"
  by (induction xs arbitrary: pv) auto

lemma dseg_frame:
  "(\<And>x. x \<in> set xs \<Longrightarrow> node_p h' x = node_p h x \<and> node_n h' x = node_n h x) \<Longrightarrow>
   dseg h' pv xs nx = dseg h pv xs nx"
  by (induction xs arbitrary: pv) auto

lemma dseg_set_p [simp]: "a \<notin> set xs \<Longrightarrow> dseg (set_p a v h) pv xs nx = dseg h pv xs nx"
  by (rule dseg_frame) (auto simp: set_p_def)

lemma dseg_set_n [simp]: "a \<notin> set xs \<Longrightarrow> dseg (set_n a v h) pv xs nx = dseg h pv xs nx"
  by (rule dseg_frame) (auto simp: set_n_def)

lemma set_p_sel [simp]:
  "node_p (set_p a v h) = (node_p h)(a := v)" "node_n (set_p a v h) = node_n h"
  by (simp_all add: set_p_def)

lemma set_n_sel [simp]:
  "node_n (set_n a v h) = (node_n h)(a := v)" "node_p (set_n a v h) = node_p h"
  by (simp_all add: set_n_def)

text \<open>Relinking the end of a segment: the last node's \<open>n\<close>, the first node's \<open>p\<close>.\<close>

lemma dseg_relink_last:
  "dseg h pv (xs @ [x]) nx \<Longrightarrow> x \<notin> set xs \<Longrightarrow> dseg (set_n x nx' h) pv (xs @ [x]) nx'"
  by simp

lemma dseg_relink_first:
  "dseg h pv (x # xs) nx \<Longrightarrow> x \<notin> set xs \<Longrightarrow> dseg (set_p x pv' h) pv' (x # xs) nx"
  by simp

lemma dseg_ends:
  assumes "dseg h pv (as @ x # bs) nx"
  shows "node_p h x = last_or pv as" and "node_n h x = first_or nx bs"
  using assms by simp_all

subsection \<open>The operations on the represented list\<close>

lemma picqD:
  assumes "picq h q xs"
  shows "distinct xs" "dseg h None xs None" "q_tail q = first_or None xs"
    "q_head q = last_or None xs"
  using assms by (simp_all add: picq_def)

lemma picq_frame:
  assumes "picq h q xs"
    and "\<And>x. x \<in> set xs \<Longrightarrow> node_p h' x = node_p h x \<and> node_n h' x = node_n h x"
  shows "picq h' q xs"
  using assms dseg_frame [of xs h' h None None] by (auto simp: picq_def)

lemma piqPick_unlinked:
  assumes "picq h q xs" and "x \<notin> set xs" and "unlinked h x"
  shows "piqPick h q x = (h, q)"
proof -
  have "q_head q \<noteq> Some x" using assms(1,2) by (auto simp: picq_def dest: last_or_in_set)
  with assms(3) show ?thesis by (simp add: piqPick_def unlinked_def)
qed

text \<open>Picking from the middle leaves the rest of the queue linked, whichever neighbours exist.\<close>

lemma piqPick_split:
  assumes rep: "picq h q (as @ x # bs)" and pick: "piqPick h q x = (h', q')"
  shows "picq h' q' (as @ bs) \<and> unlinked h' x \<and>
    (\<forall>y. y \<notin> set (as @ x # bs) \<longrightarrow> node_p h' y = node_p h y \<and> node_n h' y = node_n h y)"
proof -
  from rep have d: "distinct (as @ x # bs)" and s: "dseg h None (as @ x # bs) None"
    and t: "q_tail q = first_or None (as @ x # bs)" and hd: "q_head q = last_or None (as @ x # bs)"
    by (simp_all only: picqD)
  from s have np: "node_p h x = last_or None as" and nn: "node_n h x = first_or None bs"
    by (rule dseg_ends)+
  have guard: "\<not> (node_n h x = None \<and> node_p h x = None \<and> \<not> (q_head q = Some x \<and> q_tail q = Some x))"
    using t hd np nn by auto
  show ?thesis
  proof (cases as rule: rev_cases)
    case Nil
    then show ?thesis
      using pick guard d s t hd np nn
      by (cases bs) (auto simp: piqPick_def picq_def unlinked_def)
  next
    case (snoc as' a)
    then show ?thesis
      using pick guard d s t hd np nn
      by (cases bs) (auto simp: piqPick_def picq_def unlinked_def last_or_def)
  qed
qed

lemma piqPick_picq:
  assumes rep: "picq h q xs" and x: "x \<in> set xs" and pick: "piqPick h q x = (h', q')"
  shows "picq h' q' (remove1 x xs)" and "unlinked h' x"
    and "\<And>y. y \<notin> set xs \<Longrightarrow> node_p h' y = node_p h y \<and> node_n h' y = node_n h y"
proof -
  from rep have "distinct xs" by (rule picqD)
  then obtain as bs where xs: "xs = as @ x # bs" and na: "x \<notin> set as"
    using x by (rule distinct_split)
  from piqPick_split [OF rep [unfolded xs] pick]
  show "picq h' q' (remove1 x xs)" and "unlinked h' x"
    and "\<And>y. y \<notin> set xs \<Longrightarrow> node_p h' y = node_p h y \<and> node_n h' y = node_n h y"
    unfolding xs by (simp_all add: remove1_middle [OF na])
qed

lemma piqEnQ_picq:
  assumes rep: "picq h q xs" and x: "x \<notin> set xs" and u: "unlinked h x"
  shows "\<exists>h' q'. piqEnQ h q x = Some (h', q') \<and> picq h' q' (xs @ [x]) \<and>
    (\<forall>y. y \<notin> set xs \<longrightarrow> y \<noteq> x \<longrightarrow> node_p h' y = node_p h y \<and> node_n h' y = node_n h y)"
proof (cases xs rule: rev_cases)
  case Nil
  with assms show ?thesis by (auto simp: piqEnQ_def picq_def unlinked_def)
next
  case (snoc ys y)
  with assms show ?thesis by (auto simp: piqEnQ_def picq_def unlinked_def last_or_def)
qed

lemma piqUnshift_picq:
  assumes rep: "picq h q xs" and x: "x \<notin> set xs" and u: "unlinked h x"
  shows "\<exists>h' q'. piqUnshift h q x = Some (h', q') \<and> picq h' q' (x # xs) \<and>
    (\<forall>y. y \<notin> set xs \<longrightarrow> y \<noteq> x \<longrightarrow> node_p h' y = node_p h y \<and> node_n h' y = node_n h y)"
proof (cases xs)
  case Nil
  with assms show ?thesis by (auto simp: piqUnshift_def picq_def unlinked_def)
next
  case (Cons y ys)
  with assms show ?thesis by (auto simp: piqUnshift_def picq_def unlinked_def last_or_def)
qed

subsection \<open>The interface the tables rely on\<close>

text \<open>
  \<open>rep h q xs\<close>: in heap \<open>h\<close> the queue \<open>q\<close> holds the nodes \<open>xs\<close>, from tail
  to head; \<open>free h x\<close>: node \<open>x\<close> is in no queue. Every operation says what becomes of
  its own queue, of the node, of the other queues of the heap and of the other free nodes.
\<close>

locale pickable_queue =
  fixes rep :: "'h \<Rightarrow> 'q \<Rightarrow> 'a list \<Rightarrow> bool"
    and free :: "'h \<Rightarrow> 'a \<Rightarrow> bool"
    and tail :: "'q \<Rightarrow> 'a option"
    and head :: "'q \<Rightarrow> 'a option"
    and pick :: "'h \<Rightarrow> 'q \<Rightarrow> 'a \<Rightarrow> 'h \<times> 'q"
    and enq :: "'h \<Rightarrow> 'q \<Rightarrow> 'a \<Rightarrow> ('h \<times> 'q) option"
  assumes rep_distinct: "rep h q xs \<Longrightarrow> distinct xs"
    and rep_tail: "rep h q xs \<Longrightarrow> tail q = (if xs = [] then None else Some (hd xs))"
    and rep_head: "rep h q xs \<Longrightarrow> head q = (if xs = [] then None else Some (last xs))"
    and pick_out: "rep h q xs \<Longrightarrow> x \<notin> set xs \<Longrightarrow> free h x \<Longrightarrow> pick h q x = (h, q)"
    and pick_in: "rep h q xs \<Longrightarrow> x \<in> set xs \<Longrightarrow> pick h q x = (h', q') \<Longrightarrow>
      rep h' q' (remove1 x xs) \<and> free h' x"
    and pick_rep_other: "rep h q xs \<Longrightarrow> x \<in> set xs \<Longrightarrow> pick h q x = (h', q') \<Longrightarrow>
      rep h q2 ys \<Longrightarrow> set xs \<inter> set ys = {} \<Longrightarrow> rep h' q2 ys"
    and pick_free_other: "rep h q xs \<Longrightarrow> x \<in> set xs \<Longrightarrow> pick h q x = (h', q') \<Longrightarrow>
      y \<notin> set xs \<Longrightarrow> free h y \<Longrightarrow> free h' y"
    and enq_ok: "rep h q xs \<Longrightarrow> x \<notin> set xs \<Longrightarrow> free h x \<Longrightarrow>
      \<exists>h' q'. enq h q x = Some (h', q') \<and> rep h' q' (xs @ [x])"
    and enq_rep_other: "rep h q xs \<Longrightarrow> x \<notin> set xs \<Longrightarrow> free h x \<Longrightarrow>
      enq h q x = Some (h', q') \<Longrightarrow> rep h q2 ys \<Longrightarrow> set xs \<inter> set ys = {} \<Longrightarrow> x \<notin> set ys \<Longrightarrow>
      rep h' q2 ys"
    and enq_free_other: "rep h q xs \<Longrightarrow> x \<notin> set xs \<Longrightarrow> free h x \<Longrightarrow>
      enq h q x = Some (h', q') \<Longrightarrow> y \<notin> set xs \<Longrightarrow> y \<noteq> x \<Longrightarrow> free h y \<Longrightarrow> free h' y"
begin

lemma pick_any:
  assumes "rep h q xs" and "x \<in> set xs \<or> free h x" and "pick h q x = (h', q')"
  shows "rep h' q' (remove1 x xs) \<and> free h' x"
proof (cases "x \<in> set xs")
  case True
  with assms show ?thesis by (blast dest: pick_in)
next
  case False
  with assms show ?thesis by (auto simp: pick_out remove1_idem)
qed

lemma pick_any_other:
  assumes "rep h q xs" and "x \<in> set xs \<or> free h x" and "pick h q x = (h', q')"
    and "rep h q2 ys" and "set xs \<inter> set ys = {}"
  shows "rep h' q2 ys"
  using assms by (cases "x \<in> set xs") (auto simp: pick_out dest: pick_rep_other)

lemma pick_any_free:
  assumes "rep h q xs" and "x \<in> set xs \<or> free h x" and "pick h q x = (h', q')"
    and "y \<notin> set xs" and "free h y"
  shows "free h' y"
  using assms by (cases "x \<in> set xs") (auto simp: pick_out dest: pick_free_other)

text \<open>
  Pick a node from one queue and enqueue it at the head of another one: how a flow is
  closed. The node may also be in no queue yet.
\<close>

lemma transfer:
  assumes r1: "rep h q1 xs" and r2: "rep h q2 ys" and dis: "set xs \<inter> set ys = {}"
    and x: "x \<in> set xs \<or> free h x" and ny: "x \<notin> set ys" and p: "pick h q1 x = (h1, q1')"
  shows "\<exists>h2 q2'. enq h1 q2 x = Some (h2, q2') \<and> rep h2 q1' (remove1 x xs) \<and>
    rep h2 q2' (ys @ [x]) \<and>
    (\<forall>y. y \<notin> set xs \<longrightarrow> y \<notin> set ys \<longrightarrow> y \<noteq> x \<longrightarrow> free h y \<longrightarrow> free h2 y)"
proof -
  from r1 x p have a: "rep h1 q1' (remove1 x xs)" and f: "free h1 x"
    by (blast dest: pick_any)+
  have b: "rep h1 q2 ys" using r1 x p r2 dis by (rule pick_any_other)
  have fr: "\<And>y. y \<notin> set xs \<Longrightarrow> free h y \<Longrightarrow> free h1 y" using r1 x p by (rule pick_any_free)
  from enq_ok [OF b ny f] obtain h2 q2' where e: "enq h1 q2 x = Some (h2, q2')"
    and r: "rep h2 q2' (ys @ [x])" by blast
  have sub: "set (remove1 x xs) \<subseteq> set xs" by (rule set_remove1_subset)
  have nx: "x \<notin> set (remove1 x xs)" using rep_distinct [OF r1] by simp
  have "rep h2 q1' (remove1 x xs)"
    using b ny f e a _ nx by (rule enq_rep_other) (use dis sub in blast)
  with e r fr enq_free_other [OF b ny f e] show ?thesis by blast
qed

text \<open>Pick a node and enqueue it again at the head of its own queue: how a flow is ticked.\<close>

lemma move_to_head:
  assumes r: "rep h q xs" and x: "x \<in> set xs \<or> free h x" and p: "pick h q x = (h1, q1)"
    and other: "rep h q2 ys" and dis: "set xs \<inter> set ys = {}" and ny: "x \<notin> set ys"
  shows "\<exists>h2 q'. enq h1 q1 x = Some (h2, q') \<and> rep h2 q' (remove1 x xs @ [x]) \<and> rep h2 q2 ys \<and>
    (\<forall>y. y \<notin> set xs \<longrightarrow> y \<noteq> x \<longrightarrow> free h y \<longrightarrow> free h2 y)"
proof -
  from r x p have a: "rep h1 q1 (remove1 x xs)" and f: "free h1 x"
    by (blast dest: pick_any)+
  have nx: "x \<notin> set (remove1 x xs)" using rep_distinct [OF r] by simp
  have sub: "set (remove1 x xs) \<subseteq> set xs" by (rule set_remove1_subset)
  from enq_ok [OF a nx f] obtain h2 q' where e: "enq h1 q1 x = Some (h2, q')"
    and rr: "rep h2 q' (remove1 x xs @ [x])" by blast
  have "rep h1 q2 ys" using r x p other dis by (rule pick_any_other)
  then have "rep h2 q2 ys" using a nx f e sub dis ny by (blast intro: enq_rep_other)
  moreover have "\<And>y. y \<notin> set xs \<Longrightarrow> y \<noteq> x \<Longrightarrow> free h y \<Longrightarrow> free h2 y"
    using pick_any_free [OF r x p] enq_free_other [OF a nx f e] sub by blast
  ultimately show ?thesis using e rr by blast
qed

end

interpretation piq: pickable_queue picq unlinked q_tail q_head piqPick piqEnQ
proof (unfold_locales, goal_cases)
  case (1 h q xs)
  then show ?case by (rule picqD)
next
  case (2 h q xs)
  then show ?case by (cases xs) (simp_all add: picq_def)
next
  case (3 h q xs)
  then show ?case by (auto simp: picq_def last_or_def)
next
  case (4 h q xs x)
  then show ?case by (rule piqPick_unlinked)
next
  case (5 h q xs x h' q')
  then show ?case using piqPick_picq by blast
next
  case (6 h q xs x h' q' q2 ys)
  show ?case
    by (rule picq_frame [OF 6(4)]) (use 6 piqPick_picq(3) [OF 6(1-3)] in blast)
next
  case (7 h q xs x h' q' y)
  then show ?case using piqPick_picq(3) [OF 7(1-3)] by (simp add: unlinked_def)
next
  case (8 h q xs x)
  then show ?case using piqEnQ_picq by blast
next
  case (9 h q xs x h' q' q2 ys)
  have "\<And>y. y \<notin> set xs \<Longrightarrow> y \<noteq> x \<Longrightarrow> node_p h' y = node_p h y \<and> node_n h' y = node_n h y"
    using piqEnQ_picq [OF 9(1-3)] 9(4) by auto
  then show ?case using 9 by (intro picq_frame [OF 9(5)]) blast
next
  case (10 h q xs x h' q' y)
  then show ?case using piqEnQ_picq [OF 10(1-3)] by (auto simp: unlinked_def)
qed

lemma piqDeQ_picq:
  assumes "picq h q xs"
  shows "\<exists>h' q'. piqDeQ h q = (h', q', first_or None xs) \<and> picq h' q' (tl xs)"
proof (cases xs)
  case Nil
  with assms show ?thesis by (simp add: piqDeQ_def picq_def)
next
  case (Cons x ys)
  obtain h' q' where p: "piqPick h q x = (h', q')" by (cases "piqPick h q x") auto
  from assms Cons have "q_tail q = Some x" by (simp add: picq_def)
  moreover have "picq h' q' ys" using piqPick_picq(1) [OF assms _ p] Cons by simp
  ultimately show ?thesis using p Cons by (simp add: piqDeQ_def)
qed

lemma piqShift_picq:
  assumes "picq h q xs"
  shows "\<exists>h' q'. piqShift h q = (h', q', last_or None xs) \<and> picq h' q' (butlast xs)"
proof (cases xs rule: rev_cases)
  case Nil
  with assms show ?thesis by (simp add: piqShift_def picq_def)
next
  case (snoc ys x)
  obtain h' q' where p: "piqPick h q x = (h', q')" by (cases "piqPick h q x") auto
  from assms snoc have t: "q_head q = Some x" and "x \<notin> set ys" by (simp_all add: picq_def)
  then have "remove1 x xs = ys" using snoc by (simp add: remove1_append)
  then have "picq h' q' ys" using piqPick_picq(1) [OF assms _ p] snoc by simp
  with t p snoc show ?thesis by (simp add: piqShift_def)
qed

text \<open>A node still linked into some queue cannot be enqueued: the assertion fails.\<close>

lemma piqEnQ_linked: "\<not> unlinked h x \<Longrightarrow> piqEnQ h q x = None \<and> piqUnshift h q x = None"
  by (auto simp: piqEnQ_def piqUnshift_def unlinked_def)

subsection \<open>Properties\<close>

text \<open>C33: Picking any node of a well-formed queue removes exactly that node from the list the
  queue represents, leaves the node unlinked, and does not disturb a second queue of the same
  heap that shares no node with it.\<close>

theorem piqPick_removes:
  assumes "picq h q xs" and "x \<in> set xs" and "piqPick h q x = (h', q')"
    and "picq h q2 ys" and "set xs \<inter> set ys = {}"
  shows "picq h' q' (remove1 x xs) \<and> unlinked h' x \<and> picq h' q2 ys"
  using piq.pick_in [OF assms(1-3)] piq.pick_rep_other [OF assms] by blast

definition ex_links :: links where
  "ex_links = \<lparr>node_p = (\<lambda>a. if a = 2 then Some 1 else if a = 3 then Some 2 else None),
               node_n = (\<lambda>a. if a = 1 then Some 2 else if a = 2 then Some 3 else None)\<rparr>"

definition ex_queue :: PicQ where
  "ex_queue = \<lparr>q_tail = Some 1, q_head = Some 3\<rparr>"

lemma ex_queue_picq: "picq ex_links ex_queue [1, 2, 3]"
  by (simp add: picq_def ex_links_def ex_queue_def)

lemma ex_single_picq: "picq ex_links \<lparr>q_tail = Some 9, q_head = Some 9\<rparr> [9]"
  by (simp add: picq_def ex_links_def)

theorem piqPick_removes_witness:
  "picq (fst (piqPick ex_links ex_queue 2)) (snd (piqPick ex_links ex_queue 2)) [1, 3] \<and>
   unlinked (fst (piqPick ex_links ex_queue 2)) 2 \<and>
   picq (fst (piqPick ex_links ex_queue 2)) \<lparr>q_tail = Some 9, q_head = Some 9\<rparr> [9]"
  using piqPick_removes [OF ex_queue_picq, of 2 "fst (piqPick ex_links ex_queue 2)"
      "snd (piqPick ex_links ex_queue 2)", OF _ _ ex_single_picq]
  by simp

text \<open>C34: The queue is first in, first out from head to tail, and a double-ended list at the
  other ends: enqueueing an unlinked node succeeds and appends it at the head, dequeueing
  returns the tail node (\<open>NULL\<close> when empty), \<open>piqUnshift\<close> adds at the tail and
  \<open>piqShift\<close> takes from the head.\<close>

theorem piq_deque_refinement:
  assumes "picq h q xs" and "x \<notin> set xs" and "unlinked h x"
  shows "(\<exists>h' q'. piqEnQ h q x = Some (h', q') \<and> picq h' q' (xs @ [x])) \<and>
    (\<exists>h' q'. piqUnshift h q x = Some (h', q') \<and> picq h' q' (x # xs)) \<and>
    (\<exists>h' q'. piqDeQ h q = (h', q', first_or None xs) \<and> picq h' q' (tl xs)) \<and>
    (\<exists>h' q'. piqShift h q = (h', q', last_or None xs) \<and> picq h' q' (butlast xs))"
  using piq.enq_ok [OF assms] piqUnshift_picq [OF assms] piqDeQ_picq [OF assms(1)]
    piqShift_picq [OF assms(1)] by blast

theorem piq_deque_refinement_witness:
  "(\<exists>h' q'. piqEnQ ex_links ex_queue 7 = Some (h', q') \<and> picq h' q' [1, 2, 3, 7]) \<and>
   (\<exists>h' q'. piqDeQ ex_links ex_queue = (h', q', Some 1) \<and> picq h' q' [2, 3])"
proof -
  have "unlinked ex_links 7" by (simp add: unlinked_def ex_links_def)
  from piq_deque_refinement [OF ex_queue_picq _ this] show ?thesis by simp
qed

end
