(* ===== verification/PacketTypes.thy ===== *)
theory PacketTypes
  imports QofPrelude
begin

text \<open>
  The data structures shared by the decoder, the fragment table, the flow table and the
  exporter: the flow key of \<open>include/qof/yafcore.h\<close> and the packet information
  structures of \<open>include/qof/decode.h\<close>, with the protocol numbers and TCP flags.

  The address union of the flow key is two pairs of fields: every reader and writer in the
  code selects the member by the key's version, so the storage the two members share is
  never observed across versions. Byte arrays are lists of bytes.
\<close>

unbundle bit_operations_syntax

record yfFlowKey =
  k_sp :: u16
  k_dp :: u16
  k_proto :: u8
  k_version :: u8
  k_vlanId :: u16
  k_sip4 :: u32
  k_dip4 :: u32
  k_sip6 :: "u8 list"
  k_dip6 :: "u8 list"

record yfIPFragInfo =
  fi_ipid :: u32
  fi_offset :: u16
  fi_iphlen :: u16
  fi_l4hlen :: u16
  fi_frag :: u8
  fi_more :: u8

record yfL2Info =
  l2_smac :: "u8 list"
  l2_dmac :: "u8 list"
  l2_l2hlen :: u16
  l2_vlan_tag :: u16
  l2_mpls_count :: u32
  l2_mpls_label :: "u32 list"

record yfIPInfo =
  ip_ttl :: u8
  ip_ecn :: u8

record yfTCPInfo =
  ti_seq :: u32
  ti_ack :: u32
  ti_tsval :: u32
  ti_tsecr :: u32
  ti_sack :: u32
  ti_rwin :: u16
  ti_mss :: u16
  ti_ws :: u8
  ti_flags :: u8

record yfPBuf =
  pb_ptime :: u64
  pb_key :: yfFlowKey
  pb_allHeaderLen :: u64
  pb_iplen :: u16
  pb_ifnum :: u16
  pb_ipinfo :: yfIPInfo
  pb_tcpinfo :: yfTCPInfo
  pb_l2info :: yfL2Info

text \<open>The zeroed structures (\<open>memset\<close>, \<open>yg_slice_new0\<close>).\<close>

definition zero_tcpinfo :: yfTCPInfo where
  "zero_tcpinfo = \<lparr>ti_seq = 0, ti_ack = 0, ti_tsval = 0, ti_tsecr = 0, ti_sack = 0,
     ti_rwin = 0, ti_mss = 0, ti_ws = 0, ti_flags = 0\<rparr>"

definition zero_key :: yfFlowKey where
  "zero_key = \<lparr>k_sp = 0, k_dp = 0, k_proto = 0, k_version = 0, k_vlanId = 0, k_sip4 = 0,
     k_dip4 = 0, k_sip6 = replicate 16 0, k_dip6 = replicate 16 0\<rparr>"

definition YF_MPLS_LABEL_COUNT_MAX :: nat where
  "YF_MPLS_LABEL_COUNT_MAX = 10"

definition zero_l2info :: yfL2Info where
  "zero_l2info = \<lparr>l2_smac = replicate 6 0, l2_dmac = replicate 6 0, l2_l2hlen = 0,
     l2_vlan_tag = 0, l2_mpls_count = 0, l2_mpls_label = replicate YF_MPLS_LABEL_COUNT_MAX 0\<rparr>"

definition zero_ipinfo :: yfIPInfo where
  "zero_ipinfo = \<lparr>ip_ttl = 0, ip_ecn = 0\<rparr>"

definition zero_pbuf :: yfPBuf where
  "zero_pbuf = \<lparr>pb_ptime = 0, pb_key = zero_key, pb_allHeaderLen = 0, pb_iplen = 0,
     pb_ifnum = 0, pb_ipinfo = zero_ipinfo, pb_tcpinfo = zero_tcpinfo, pb_l2info = zero_l2info\<rparr>"

abbreviation YF_TYPE_IPv4 :: u16 where "YF_TYPE_IPv4 \<equiv> 0x0800"
abbreviation YF_TYPE_IPv6 :: u16 where "YF_TYPE_IPv6 \<equiv> 0x86DD"
abbreviation YF_TYPE_IPANY :: u16 where "YF_TYPE_IPANY \<equiv> 0x0000"

abbreviation YF_PROTO_IP6_HOP :: u8 where "YF_PROTO_IP6_HOP \<equiv> 0"
abbreviation YF_PROTO_ICMP :: u8 where "YF_PROTO_ICMP \<equiv> 1"
abbreviation YF_PROTO_TCP :: u8 where "YF_PROTO_TCP \<equiv> 6"
abbreviation YF_PROTO_UDP :: u8 where "YF_PROTO_UDP \<equiv> 17"
abbreviation YF_PROTO_IP6_ROUTE :: u8 where "YF_PROTO_IP6_ROUTE \<equiv> 43"
abbreviation YF_PROTO_IP6_FRAG :: u8 where "YF_PROTO_IP6_FRAG \<equiv> 44"
abbreviation YF_PROTO_GRE :: u8 where "YF_PROTO_GRE \<equiv> 47"
abbreviation YF_PROTO_ICMP6 :: u8 where "YF_PROTO_ICMP6 \<equiv> 58"
abbreviation YF_PROTO_IP6_NONEXT :: u8 where "YF_PROTO_IP6_NONEXT \<equiv> 59"
abbreviation YF_PROTO_IP6_DOPT :: u8 where "YF_PROTO_IP6_DOPT \<equiv> 60"

abbreviation YF_TF_FIN :: u8 where "YF_TF_FIN \<equiv> 0x01"
abbreviation YF_TF_SYN :: u8 where "YF_TF_SYN \<equiv> 0x02"
abbreviation YF_TF_RST :: u8 where "YF_TF_RST \<equiv> 0x04"
abbreviation YF_TF_PSH :: u8 where "YF_TF_PSH \<equiv> 0x08"
abbreviation YF_TF_ACK :: u8 where "YF_TF_ACK \<equiv> 0x10"
abbreviation YF_TF_URG :: u8 where "YF_TF_URG \<equiv> 0x20"
abbreviation YF_TF_ECE :: u8 where "YF_TF_ECE \<equiv> 0x40"
abbreviation YF_TF_CWR :: u8 where "YF_TF_CWR \<equiv> 0x80"

text \<open>Is any of the given flag bits set?\<close>

definition has_flag :: "u8 \<Rightarrow> u8 \<Rightarrow> bool" where
  "has_flag flags f \<longleftrightarrow> flags AND f \<noteq> 0"

end
