(* ===== verification/GHash.thy ===== *)
theory GHash
  imports QofPrelude
begin

text \<open>
  The hash table of GLib, which the flow table and the fragment table index their nodes with.
  Its code is not part of the repository: a table is a value of an unspecified type \<open>'t\<close>,
  and the four operations the two tables call are the record \<open>ghash\<close>, an argument of
  every definition that uses a table. What the library documents of them is the locale
  \<open>ghash_table\<close>: a lookup finds what was inserted last under an equal key and not removed
  since. Keys are compared with the equality function the table was created with.

  GLib requires of the caller that equal keys have equal hashes and that the equality is
  symmetric and transitive (\<open>hash_contract\<close>). Under that contract an array of buckets
  implements the operations, so the contract is what the two key types have to prove.
\<close>

record ('t, 'k, 'v) ghash =
  gh_new :: 't
  gh_lookup :: "'t \<Rightarrow> 'k \<Rightarrow> 'v option"
  gh_insert :: "'t \<Rightarrow> 'k \<Rightarrow> 'v \<Rightarrow> 't"
  gh_remove :: "'t \<Rightarrow> 'k \<Rightarrow> 't"

locale ghash_table =
  fixes ops :: "('t, 'k, 'v) ghash"
    and eq :: "'k \<Rightarrow> 'k \<Rightarrow> bool"
  assumes lookup_new: "gh_lookup ops (gh_new ops) k = None"
    and lookup_insert: "gh_lookup ops (gh_insert ops t k v) k' =
      (if eq k k' then Some v else gh_lookup ops t k')"
    and lookup_remove: "gh_lookup ops (gh_remove ops t k) k' =
      (if eq k k' then None else gh_lookup ops t k')"

type_synonym ('k, 'v) buckets = "u32 \<Rightarrow> ('k \<times> 'v) list"

definition bucket_ops :: "('k \<Rightarrow> u32) \<Rightarrow> ('k \<Rightarrow> 'k \<Rightarrow> bool) \<Rightarrow> (('k, 'v) buckets, 'k, 'v) ghash" where
  "bucket_ops hash eq =
     \<lparr>gh_new = (\<lambda>_. []),
      gh_lookup = (\<lambda>t k. map_option snd (find (\<lambda>e. eq (fst e) k) (t (hash k)))),
      gh_insert = (\<lambda>t k v. t(hash k := (k, v) # filter (\<lambda>e. \<not> eq (fst e) k) (t (hash k)))),
      gh_remove = (\<lambda>t k. t(hash k := filter (\<lambda>e. \<not> eq (fst e) k) (t (hash k))))\<rparr>"

lemma find_filter_keep:
  "(\<And>x. x \<in> set xs \<Longrightarrow> P x \<Longrightarrow> Q x) \<Longrightarrow> find P (filter Q xs) = find P xs"
  by (induction xs) auto

lemma find_filter_drop: "(\<And>x. x \<in> set xs \<Longrightarrow> P x \<Longrightarrow> \<not> Q x) \<Longrightarrow> find P (filter Q xs) = None"
  by (induction xs) auto

locale hash_contract =
  fixes hash :: "'k \<Rightarrow> u32"
    and eq :: "'k \<Rightarrow> 'k \<Rightarrow> bool"
  assumes eq_sym: "eq a b \<Longrightarrow> eq b a"
    and eq_trans: "eq a b \<Longrightarrow> eq b c \<Longrightarrow> eq a c"
    and eq_hash: "eq a b \<Longrightarrow> hash a = hash b"
begin

lemma find_removed:
  "find (\<lambda>e. eq (fst e) k') (filter (\<lambda>e. \<not> eq (fst e) k) es) =
     (if eq k k' then None else find (\<lambda>e. eq (fst e) k') es)"
proof (cases "eq k k'")
  case True
  then show ?thesis by (auto intro!: find_filter_drop intro: eq_sym eq_trans)
next
  case False
  then show ?thesis by (auto intro!: find_filter_keep dest: eq_sym eq_trans)
qed

lemma bucket_table: "ghash_table (bucket_ops hash eq :: (('k, 'v) buckets, 'k, 'v) ghash) eq"
proof unfold_locales
  fix t :: "('k, 'v) buckets" and k k' :: 'k and v :: 'v
  show "gh_lookup (bucket_ops hash eq) (gh_new (bucket_ops hash eq)) k = (None :: 'v option)"
    by (simp add: bucket_ops_def)
  show "gh_lookup (bucket_ops hash eq) (gh_insert (bucket_ops hash eq) t k v) k' =
      (if eq k k' then Some v else gh_lookup (bucket_ops hash eq) t k')"
    using eq_hash [of k k'] by (cases "hash k = hash k'") (auto simp: bucket_ops_def find_removed)
  show "gh_lookup (bucket_ops hash eq) (gh_remove (bucket_ops hash eq) t k) k' =
      (if eq k k' then None else gh_lookup (bucket_ops hash eq) t k')"
    using eq_hash [of k k'] by (cases "hash k = hash k'") (auto simp: bucket_ops_def find_removed)
qed

end

end
