(* ===== verification/FlowKey.thy ===== *)
theory FlowKey
  imports PacketTypes GHash
begin

text \<open>
  The flow key operations of \<open>src/yaftab.c\<close>: hash, equality, reversal and copy. The
  interpretation \<open>flowkey\<close> shows that the hash and the equality keep the contract of the
  hash table; the reversal swaps the two directions of a biflow and is its own inverse.
\<close>

text \<open>A 32-bit load from a byte array, in host (little-endian) order.\<close>

definition load32 :: "u8 list \<Rightarrow> nat \<Rightarrow> u32" where
  "load32 bs i = ucast (bs ! i) OR push_bit 8 (ucast (bs ! (i + 1))) OR
     push_bit 16 (ucast (bs ! (i + 2))) OR push_bit 24 (ucast (bs ! (i + 3)))"

definition yfFlowKeyHash :: "yfFlowKey \<Rightarrow> u32" where
  "yfFlowKeyHash key =
     (let vlan_mask = 0x0FFF AND k_vlanId key
      in if k_version key = 4
         then push_bit 16 (ucast (k_sp key)) XOR ucast (k_dp key) XOR
              push_bit 12 (ucast (k_proto key)) XOR push_bit 4 (ucast (k_version key)) XOR
              push_bit 20 (ucast vlan_mask) XOR k_sip4 key XOR k_dip4 key
         else push_bit 16 (ucast (k_sp key)) XOR ucast (k_dp key) XOR
              push_bit 12 (ucast (k_proto key)) XOR push_bit 4 (ucast (k_version key)) XOR
              push_bit 20 (ucast vlan_mask) XOR
              load32 (k_sip6 key) 0 XOR load32 (k_sip6 key) 4 XOR
              load32 (k_sip6 key) 8 XOR load32 (k_sip6 key) 12 XOR
              load32 (k_dip6 key) 0 XOR load32 (k_dip6 key) 4 XOR
              load32 (k_dip6 key) 8 XOR load32 (k_dip6 key) 12)"

definition yfFlowKeyEqual :: "yfFlowKey \<Rightarrow> yfFlowKey \<Rightarrow> bool" where
  "yfFlowKeyEqual a b =
     (let a_vlan_mask = 0x0FFF AND k_vlanId a; b_vlan_mask = 0x0FFF AND k_vlanId b
      in if k_sp a = k_sp b \<and> k_dp a = k_dp b \<and> k_proto a = k_proto b \<and>
            k_version a = k_version b \<and> a_vlan_mask = b_vlan_mask
         then if k_version a = 4 \<and> k_sip4 a = k_sip4 b \<and> k_dip4 a = k_dip4 b then True
              else if k_version a = 6 \<and> k_sip6 a = k_sip6 b \<and> k_dip6 a = k_dip6 b then True
              else False
         else False)"

text \<open>The reversal writes into a second key structure \<open>rv\<close>, leaving the addresses there
  alone for any other version than 4 and 6.\<close>

definition yfFlowKeyReverse :: "yfFlowKey \<Rightarrow> yfFlowKey \<Rightarrow> yfFlowKey" where
  "yfFlowKeyReverse fwd rv =
     (let rv = (if k_proto fwd = YF_PROTO_ICMP \<or> k_proto fwd = YF_PROTO_ICMP6
                 then rv\<lparr>k_sp := k_sp fwd, k_dp := k_dp fwd\<rparr>
                 else rv\<lparr>k_sp := k_dp fwd, k_dp := k_sp fwd\<rparr>);
          rv = rv\<lparr>k_proto := k_proto fwd, k_version := k_version fwd, k_vlanId := k_vlanId fwd\<rparr>
      in if k_version fwd = 4 then rv\<lparr>k_sip4 := k_dip4 fwd, k_dip4 := k_sip4 fwd\<rparr>
         else if k_version fwd = 6 then rv\<lparr>k_sip6 := k_dip6 fwd, k_dip6 := k_sip6 fwd\<rparr>
         else rv)"

text \<open>With compact IPv4 flows the copy leaves out the IPv6 addresses of an IPv4 key.\<close>

definition yfFlowKeyCopy :: "yfFlowKey \<Rightarrow> yfFlowKey \<Rightarrow> yfFlowKey" where
  "yfFlowKeyCopy src dst =
     (if k_version src = 4 then src\<lparr>k_sip6 := k_sip6 dst, k_dip6 := k_dip6 dst\<rparr> else src)"

definition key_ok :: "yfFlowKey \<Rightarrow> bool" where
  "key_ok k \<longleftrightarrow> k_version k = 4 \<or> k_version k = 6"

text \<open>What the equality compares: the six-tuple under the version's addresses.\<close>

definition key_tuple :: "yfFlowKey \<Rightarrow> u16 \<times> u16 \<times> u8 \<times> u8 \<times> u16 \<times> (u32 \<times> u32 + u8 list \<times> u8 list)" where
  "key_tuple k = (k_sp k, k_dp k, k_proto k, k_version k, 0x0FFF AND k_vlanId k,
     if k_version k = 4 then Inl (k_sip4 k, k_dip4 k) else Inr (k_sip6 k, k_dip6 k))"

lemma yfFlowKeyEqual_iff: "yfFlowKeyEqual a b \<longleftrightarrow> key_ok a \<and> key_ok b \<and> key_tuple a = key_tuple b"
  by (auto simp: yfFlowKeyEqual_def key_tuple_def key_ok_def Let_def)

lemma yfFlowKeyHash_tuple: "key_tuple a = key_tuple b \<Longrightarrow> yfFlowKeyHash a = yfFlowKeyHash b"
  by (auto simp: key_tuple_def yfFlowKeyHash_def Let_def split: if_splits)

interpretation flowkey: hash_contract yfFlowKeyHash yfFlowKeyEqual
  by unfold_locales (auto simp: yfFlowKeyEqual_iff dest: yfFlowKeyHash_tuple)

lemma yfFlowKeyEqual_refl [simp]: "yfFlowKeyEqual k k \<longleftrightarrow> key_ok k"
  by (simp add: yfFlowKeyEqual_iff)

lemma yfFlowKeyCopy_equal: "key_ok k \<Longrightarrow> yfFlowKeyEqual (yfFlowKeyCopy k d) k"
  by (auto simp: yfFlowKeyEqual_iff yfFlowKeyCopy_def key_ok_def key_tuple_def)

lemma yfFlowKeyCopy_fields [simp]:
  "k_version (yfFlowKeyCopy k d) = k_version k" "k_proto (yfFlowKeyCopy k d) = k_proto k"
  "key_ok (yfFlowKeyCopy k d) = key_ok k"
  by (simp_all add: yfFlowKeyCopy_def key_ok_def)

lemma yfFlowKeyReverse_ok [simp]: "key_ok (yfFlowKeyReverse k d) = key_ok k"
  by (simp add: yfFlowKeyReverse_def key_ok_def Let_def)

lemma yfFlowKeyReverse_cong:
  "yfFlowKeyEqual a b \<Longrightarrow> yfFlowKeyEqual (yfFlowKeyReverse a d) (yfFlowKeyReverse b d')"
  by (auto simp: yfFlowKeyEqual_iff yfFlowKeyReverse_def key_tuple_def Let_def key_ok_def)

lemma yfFlowKeyReverse_twice: "key_ok k \<Longrightarrow> yfFlowKeyEqual (yfFlowKeyReverse (yfFlowKeyReverse k d) d') k"
  by (auto simp: yfFlowKeyEqual_iff yfFlowKeyReverse_def key_tuple_def Let_def key_ok_def)

text \<open>For IPv4 and IPv6 keys the reversal is an involution up to key equality, and two keys
  are equal exactly when their reversals are: a biflow is found under either direction's key.\<close>

lemma yfFlowKeyReverse_involution:
  assumes "key_ok k"
  shows "yfFlowKeyEqual (yfFlowKeyReverse (yfFlowKeyReverse k d) d') k \<and>
    (yfFlowKeyEqual (yfFlowKeyReverse k d) (yfFlowKeyReverse l d') \<longleftrightarrow> yfFlowKeyEqual k l)"
  using assms
  by (auto simp: yfFlowKeyEqual_iff yfFlowKeyReverse_def key_tuple_def Let_def key_ok_def split: if_splits)

text \<open>Keys that the flow table takes for equal have the same hash, and a table indexed by hash
  buckets and this equality returns for a key what was last stored under an equal key.\<close>

lemma flow_index_lookup:
  "(yfFlowKeyEqual a b \<longrightarrow> yfFlowKeyHash a = yfFlowKeyHash b) \<and>
   gh_lookup (bucket_ops yfFlowKeyHash yfFlowKeyEqual)
     (gh_insert (bucket_ops yfFlowKeyHash yfFlowKeyEqual) t a v) b =
   (if yfFlowKeyEqual a b then Some v else gh_lookup (bucket_ops yfFlowKeyHash yfFlowKeyEqual) t b)"
  using flowkey.eq_hash [of a b] ghash_table.lookup_insert [OF flowkey.bucket_table, of t a v b] by simp

end
