(* ===== verification/StreamStat.thy ===== *)
theory StreamStat
  imports QofPrelude
begin

text \<open>
  The streaming statistics of \<open>src/streamstat.c\<close>. A C \<open>int\<close> is a 32-bit word with
  signed comparison; the \<open>double\<close> fields \<open>mean\<close> and \<open>s\<close> are reals, that is,
  the model follows the exact arithmetic of the algorithm and leaves floating-point rounding
  out. Signed division truncates towards zero.
\<close>

record sstMinMax =
  mm_min :: i32
  mm_max :: i32

record sstMean =
  sm_last :: i32
  sm_n :: i32
  sm_mm :: sstMinMax
  sm_mean :: real
  sm_s :: real

record sstLinSmooth =
  ls_alpha :: i32
  ls_n :: i32
  ls_mm :: sstMinMax
  ls_val :: i32

definition sstMinMaxInit :: sstMinMax where
  "sstMinMaxInit = \<lparr>mm_min = 0, mm_max = 0\<rparr>"

definition sstMinMaxAdd :: "sstMinMax \<Rightarrow> i32 \<Rightarrow> sstMinMax" where
  "sstMinMaxAdd v x =
     (if mm_max v <s x then v\<lparr>mm_max := x\<rparr>
      else if x <s mm_min v then v\<lparr>mm_min := x\<rparr> else v)"

definition sstMeanInit :: sstMean where
  "sstMeanInit = \<lparr>sm_last = 0, sm_n = 0, sm_mm = sstMinMaxInit, sm_mean = 0, sm_s = 0\<rparr>"

definition i32_real :: "i32 \<Rightarrow> real" where
  "i32_real x = real_of_int (sint x)"

definition sstMeanAdd :: "sstMean \<Rightarrow> i32 \<Rightarrow> sstMean" where
  "sstMeanAdd v x =
     (let v = v\<lparr>sm_last := x, sm_n := sm_n v + 1\<rparr>
      in if sm_n v = 1
         then v\<lparr>sm_mm := \<lparr>mm_min = x, mm_max = x\<rparr>, sm_mean := i32_real x, sm_s := 0\<rparr>
         else
           let v = v\<lparr>sm_mm := sstMinMaxAdd (sm_mm v) x\<rparr>;
               pmean = sm_mean v;
               v = v\<lparr>sm_mean := sm_mean v + (i32_real x - sm_mean v) / i32_real (sm_n v)\<rparr>
           in v\<lparr>sm_s := sm_s v + (i32_real x - pmean) * (i32_real x - sm_mean v)\<rparr>)"

definition sstVariance :: "sstMean \<Rightarrow> real" where
  "sstVariance v = (if sm_n v \<le>s 1 then 0 else sm_s v / i32_real (sm_n v - 1))"

definition sstStdev :: "sstMean \<Rightarrow> real" where
  "sstStdev v = sqrt (sstVariance v)"

definition sstLinSmoothInit :: sstLinSmooth where
  "sstLinSmoothInit = \<lparr>ls_alpha = 0, ls_n = 0, ls_mm = sstMinMaxInit, ls_val = 0\<rparr>"

text \<open>C's signed division.\<close>

definition c_sdiv :: "i32 \<Rightarrow> i32 \<Rightarrow> i32" where
  "c_sdiv a b = word_of_int (sgn (sint a) * sgn (sint b) * (\<bar>sint a\<bar> div \<bar>sint b\<bar>))"

definition kDefaultAlpha :: i32 where
  "kDefaultAlpha = 8"

definition sstLinSmoothAdd :: "sstLinSmooth \<Rightarrow> i32 \<Rightarrow> sstLinSmooth" where
  "sstLinSmoothAdd v x =
     (let v = (if ls_val v = 0 \<and> mm_min (ls_mm v) = 0 \<and> mm_max (ls_mm v) = 0
               then v\<lparr>ls_val := x, ls_mm := \<lparr>mm_min = x, mm_max = x\<rparr>,
                      ls_alpha := (if ls_alpha v = 0 then kDefaultAlpha else ls_alpha v)\<rparr>
               else v\<lparr>ls_mm := sstMinMaxAdd (ls_mm v) x,
                      ls_val := c_sdiv (ls_val v * (ls_alpha v - 1) + x) (ls_alpha v)\<rparr>)
      in v\<lparr>ls_n := ls_n v + 1\<rparr>)"

subsection \<open>Minimum and maximum\<close>

lemma sstMinMaxAdd_sint:
  assumes "mm_min v \<le>s mm_max v"
  shows "sint (mm_min (sstMinMaxAdd v x)) = min (sint (mm_min v)) (sint x)"
    and "sint (mm_max (sstMinMaxAdd v x)) = max (sint (mm_max v)) (sint x)"
    and "mm_min (sstMinMaxAdd v x) \<le>s mm_max (sstMinMaxAdd v x)"
  using assms by (auto simp: sstMinMaxAdd_def word_sless_alt word_sle_eq)

subsection \<open>Mean and variance\<close>

text \<open>The state after a non-empty list of samples, by their sums.\<close>

definition mean_of :: "sstMean \<Rightarrow> i32 list \<Rightarrow> bool" where
  "mean_of v ws \<longleftrightarrow>
     sint (sm_n v) = int (length ws) \<and> sm_last v = last ws \<and>
     sint (mm_min (sm_mm v)) = Min (sint ` set ws) \<and>
     sint (mm_max (sm_mm v)) = Max (sint ` set ws) \<and>
     real (length ws) * sm_mean v = (\<Sum>w\<leftarrow>ws. i32_real w) \<and>
     sm_s v = (\<Sum>w\<leftarrow>ws. (i32_real w)\<^sup>2) - real (length ws) * (sm_mean v)\<^sup>2"

lemma welford_step:
  fixes n :: nat and m x S Q :: real
  assumes n: "0 < n" and S: "real n * m = S" and m': "m' = m + (x - m) / real (Suc n)"
  shows "real (Suc n) * m' = S + x"
    and "(Q - real n * m\<^sup>2) + (x - m) * (x - m') = (Q + x\<^sup>2) - real (Suc n) * m'\<^sup>2"
proof -
  have k: "real (Suc n) \<noteq> 0" by simp
  show a: "real (Suc n) * m' = S + x"
    unfolding m' S [symmetric] using k by (simp add: field_simps del: of_nat_Suc) (simp add: algebra_simps)
  from S have d: "real (Suc n) * (m' - m) = x - m"
    using a by (simp add: algebra_simps)
  have "real (Suc n) * m'\<^sup>2 - real n * m\<^sup>2 - x\<^sup>2 + (x - m) * (x - m') =
        (m' + m) * (real (Suc n) * (m' - m)) + m\<^sup>2 - x\<^sup>2 + (x - m) * (x - m')"
    by (simp add: power2_eq_square algebra_simps)
  also have "\<dots> = 0" unfolding d by (simp add: power2_eq_square algebra_simps)
  finally show "(Q - real n * m\<^sup>2) + (x - m) * (x - m') = (Q + x\<^sup>2) - real (Suc n) * m'\<^sup>2" by simp
qed

lemma sint_plus1:
  fixes x :: i32
  assumes "sint x = int k" and "Suc k < 2 ^ 31"
  shows "sint (x + 1) = int (Suc k)"
  using assms by (simp add: sint_word_ariths signed_take_bit_int_eq_self)

lemma mean_of_first: "mean_of (sstMeanAdd sstMeanInit x) [x]"
  by (simp add: mean_of_def sstMeanAdd_def sstMeanInit_def Let_def i32_real_def)

lemma mean_of_add:
  assumes m: "mean_of v ws" and ne: "ws \<noteq> []" and len: "Suc (length ws) < 2 ^ 31"
  shows "mean_of (sstMeanAdd v x) (ws @ [x])"
proof -
  let ?v = "sstMeanAdd v x" and ?k = "length ws"
  have n: "sint (sm_n v) = int ?k" using m by (simp add: mean_of_def)
  have n1: "sint (sm_n v + 1) = int (Suc ?k)" using n len by (rule sint_plus1)
  have r1: "i32_real (sm_n v + 1) = real (Suc ?k)"
    by (simp only: i32_real_def n1 of_int_of_nat_eq)
  have ne1: "sm_n v + 1 \<noteq> 1"
  proof
    assume "sm_n v + 1 = 1"
    with n have "?k = 0" by simp
    with ne show False by simp
  qed
  have le: "mm_min (sm_mm v) \<le>s mm_max (sm_mm v)"
    using m ne by (simp add: mean_of_def word_sle_eq)
  have flds: "sm_n ?v = sm_n v + 1" "sm_last ?v = x" "sm_mm ?v = sstMinMaxAdd (sm_mm v) x"
    "sm_mean ?v = sm_mean v + (i32_real x - sm_mean v) / real (Suc ?k)"
    "sm_s ?v = sm_s v + (i32_real x - sm_mean v) * (i32_real x - sm_mean ?v)"
    using ne1 r1 by (simp_all add: sstMeanAdd_def Let_def del: of_nat_Suc)
  have ws: "real ?k * sm_mean v = (\<Sum>w\<leftarrow>ws. i32_real w)"
    "sm_s v = (\<Sum>w\<leftarrow>ws. (i32_real w)\<^sup>2) - real ?k * (sm_mean v)\<^sup>2"
    using m by (simp_all add: mean_of_def)
  have k: "0 < ?k" using ne by simp
  note st = welford_step(1) [OF k ws(1) flds(4)]
    welford_step(2) [OF k ws(1) flds(4), of "\<Sum>w\<leftarrow>ws. (i32_real w)\<^sup>2"]
  have f: "finite (sint ` set ws)" "sint ` set ws \<noteq> {}" using ne by simp_all
  have mm: "sint (mm_min (sm_mm ?v)) = Min (sint ` set (ws @ [x]))"
    "sint (mm_max (sm_mm ?v)) = Max (sint ` set (ws @ [x]))"
    using m sstMinMaxAdd_sint [OF le, of x] f
    by (simp_all add: mean_of_def flds min.commute max.commute)
  show ?thesis
    using mm st n1 ws flds by (simp add: mean_of_def)
qed

lemma mean_of_fold:
  assumes "ws \<noteq> []" and "length ws < 2 ^ 31"
  shows "mean_of (foldl sstMeanAdd sstMeanInit ws) ws"
  using assms
proof (induction ws rule: rev_induct)
  case Nil
  then show ?case by simp
next
  case (snoc x ws)
  then show ?case
    by (cases "ws = []") (simp_all add: mean_of_first mean_of_add)
qed

lemma sum_squares_dev:
  fixes m :: real
  assumes "real (length ws) * m = (\<Sum>w\<leftarrow>ws. f w)"
  shows "(\<Sum>w\<leftarrow>ws. (f w - m)\<^sup>2) = (\<Sum>w\<leftarrow>ws. (f w)\<^sup>2) - real (length ws) * m\<^sup>2"
proof -
  have "(\<Sum>w\<leftarrow>ws. (f w - m)\<^sup>2) = (\<Sum>w\<leftarrow>ws. (f w)\<^sup>2) - 2 * m * (\<Sum>w\<leftarrow>ws. f w) + real (length ws) * m\<^sup>2"
    by (induction ws) (simp_all add: power2_eq_square algebra_simps)
  then show ?thesis unfolding assms [symmetric] by (simp add: power2_eq_square)
qed

subsection \<open>Linear smoothing\<close>

lemma linsmooth_range:
  fixes v a x lo hi :: int
  assumes "0 < a" "lo \<le> v" "v \<le> hi" "lo \<le> x" "x \<le> hi"
  shows "lo \<le> (v * (a - 1) + x) div a" and "(v * (a - 1) + x) div a \<le> hi"
proof -
  have "lo * a \<le> v * (a - 1) + x"
    using assms mult_right_mono [of lo v "a - 1"] by (simp add: algebra_simps)
  then have "(lo * a) div a \<le> (v * (a - 1) + x) div a" using assms(1) by (intro zdiv_mono1)
  then show "lo \<le> (v * (a - 1) + x) div a" using assms(1) by simp
  have "v * (a - 1) + x \<le> hi * a"
    using assms mult_right_mono [of v hi "a - 1"] by (simp add: algebra_simps)
  then have "(v * (a - 1) + x) div a \<le> (hi * a) div a" using assms(1) by (intro zdiv_mono1)
  then show "(v * (a - 1) + x) div a \<le> hi" using assms(1) by simp
qed

text \<open>The smoother keeps within the range of its samples as long as the product with the
  weight fits an \<open>int\<close>.\<close>

definition smooth_in :: "int \<Rightarrow> int \<Rightarrow> sstLinSmooth \<Rightarrow> bool" where
  "smooth_in lo hi v \<longleftrightarrow>
     0 < sint (ls_alpha v) \<and> 0 < lo \<and> hi * sint (ls_alpha v) < 2 ^ 31 \<and>
     lo \<le> sint (ls_val v) \<and> sint (ls_val v) \<le> hi"

lemma sint_of_int_range: "- (2 ^ 31) \<le> k \<Longrightarrow> k < 2 ^ 31 \<Longrightarrow> sint (word_of_int k :: i32) = k"
  by (simp add: signed_of_int signed_take_bit_int_eq_self)

lemma sint_smooth_step:
  fixes v a x :: i32
  assumes a: "0 < sint a" and lo: "0 < lo" and hi: "hi * sint a < 2 ^ 31"
    and v: "lo \<le> sint v" "sint v \<le> hi" and x: "lo \<le> sint x" "sint x \<le> hi"
  shows "lo \<le> sint (c_sdiv (v * (a - 1) + x) a)" and "sint (c_sdiv (v * (a - 1) + x) a) \<le> hi"
proof -
  let ?k = "sint v * (sint a - 1) + sint x"
  have nn: "0 \<le> sint v * (sint a - 1)" using a lo v by (intro mult_nonneg_nonneg) simp_all
  have up: "?k \<le> hi * sint a"
    using mult_right_mono [of "sint v" hi "sint a - 1"] a v x by (simp add: algebra_simps)
  have k: "0 \<le> ?k" "?k < 2 ^ 31" using nn x lo up hi by linarith+
  have w: "v * (a - 1) + x = word_of_int ?k" by simp
  have sk: "sint (v * (a - 1) + x) = ?k"
    unfolding w using k by (intro sint_of_int_range) simp_all
  have r: "lo \<le> ?k div sint a" "?k div sint a \<le> hi"
    using linsmooth_range [OF a v x] by simp_all
  have hi': "hi < 2 ^ 31" using a hi lo v by (smt (verit) mult_le_cancel_left1)
  have q: "0 < ?k div sint a" "?k div sint a < 2 ^ 31" using r lo hi' by linarith+
  have kp: "0 < ?k" using nn x lo by linarith
  have "c_sdiv (v * (a - 1) + x) a = word_of_int (?k div sint a)"
    unfolding c_sdiv_def sk using a kp by simp
  then have "sint (c_sdiv (v * (a - 1) + x) a) = ?k div sint a"
    using q by (simp only: sint_of_int_range)
  with r show "lo \<le> sint (c_sdiv (v * (a - 1) + x) a)" "sint (c_sdiv (v * (a - 1) + x) a) \<le> hi"
    by simp_all
qed

lemma smooth_in_add:
  assumes v: "smooth_in lo hi v" and x: "lo \<le> sint x" "sint x \<le> hi"
  shows "smooth_in lo hi (sstLinSmoothAdd v x) \<and> ls_alpha (sstLinSmoothAdd v x) = ls_alpha v"
proof -
  have "ls_val v \<noteq> 0" using v by (auto simp: smooth_in_def)
  then show ?thesis
    using v sint_smooth_step [of "ls_alpha v" lo hi "ls_val v" x] x
    by (auto simp: sstLinSmoothAdd_def Let_def smooth_in_def)
qed

subsection \<open>Properties\<close>

text \<open>C38: Feeding a list of samples to \<open>sstMeanAdd\<close> leaves the number of samples, the last
  one, their signed minimum and maximum, their arithmetic mean and their sample variance (in
  exact arithmetic): the one-pass recurrence computes what the definitions of mean and variance
  say.\<close>

theorem sstMean_correct:
  fixes ws :: "i32 list"
  assumes "ws \<noteq> []" and "length ws < 2 ^ 31"
  defines "v \<equiv> foldl sstMeanAdd sstMeanInit ws"
  shows "sint (sm_n v) = int (length ws) \<and> sm_last v = last ws \<and>
    sint (mm_min (sm_mm v)) = Min (sint ` set ws) \<and> sint (mm_max (sm_mm v)) = Max (sint ` set ws) \<and>
    sm_mean v = (\<Sum>w\<leftarrow>ws. i32_real w) / real (length ws) \<and>
    (1 < length ws \<longrightarrow>
      sstVariance v = (\<Sum>w\<leftarrow>ws. (i32_real w - sm_mean v)\<^sup>2) / (real (length ws) - 1))"
proof -
  have m: "mean_of v ws" unfolding v_def using assms(1,2) by (rule mean_of_fold)
  have mean: "real (length ws) * sm_mean v = (\<Sum>w\<leftarrow>ws. i32_real w)" using m by (simp add: mean_of_def)
  have s: "sm_s v = (\<Sum>w\<leftarrow>ws. (i32_real w - sm_mean v)\<^sup>2)"
    using m sum_squares_dev [OF mean] by (simp add: mean_of_def)
  have n: "sint (sm_n v) = int (length ws)" using m by (simp add: mean_of_def)
  have "1 < length ws \<Longrightarrow> \<not> sm_n v \<le>s 1 \<and> i32_real (sm_n v - 1) = real (length ws) - 1"
  proof -
    assume l: "1 < length ws"
    have "sint (sm_n v - 1) = int (length ws) - 1"
      using n l assms(2) by (simp add: sint_word_ariths signed_take_bit_int_eq_self)
    then show ?thesis using n l unfolding i32_real_def by (simp only:) (simp add: word_sle_eq)
  qed
  with m s mean assms(1) show ?thesis
    by (auto simp: mean_of_def sstVariance_def field_simps)
qed

theorem sstMean_correct_witness:
  "sm_mean (foldl sstMeanAdd sstMeanInit [2, 4, 9]) = 5 \<and>
   sstVariance (foldl sstMeanAdd sstMeanInit [2, 4, 9]) = 13 \<and>
   sint (mm_max (sm_mm (foldl sstMeanAdd sstMeanInit [2, 4, 9]))) = 9"
proof -
  let ?v = "foldl sstMeanAdd sstMeanInit [2, 4, 9]"
  have m: "sm_mean ?v = 5" and x: "sint (mm_max (sm_mm ?v)) = 9"
    using sstMean_correct [of "[2, 4, 9]"] by (simp_all add: i32_real_def del: foldl_Cons)
  have "sstVariance ?v = (\<Sum>w\<leftarrow>[2, 4, 9]. (i32_real w - 5)\<^sup>2) / 2"
    using sstMean_correct [of "[2, 4, 9]"] unfolding m by (simp del: foldl_Cons)
  with m x show ?thesis by (simp add: i32_real_def power2_eq_square del: foldl_Cons)
qed

text \<open>The smoothed value stays within the range of the samples: from a fresh smoother with a
  positive weight, samples between a positive bound and an upper bound whose product with the
  weight fits an \<open>int\<close> never take the estimate out of that range (no overflow, no drift).\<close>

lemma sstLinSmooth_within_samples:
  assumes "0 < sint a" and "0 < lo" and "hi * sint a < 2 ^ 31" and "ws \<noteq> []"
    and "\<forall>w \<in> set ws. lo \<le> sint w \<and> sint w \<le> hi"
  shows "let v = foldl sstLinSmoothAdd (sstLinSmoothInit\<lparr>ls_alpha := a\<rparr>) ws
    in lo \<le> sint (ls_val v) \<and> sint (ls_val v) \<le> hi"
proof -
  let ?v0 = "sstLinSmoothInit\<lparr>ls_alpha := a\<rparr>"
  obtain w ws' where ws: "ws = w # ws'" using assms(4) by (cases ws) auto
  have "a \<noteq> 0" using assms(1) by auto
  then have "smooth_in lo hi (sstLinSmoothAdd ?v0 w)"
    using assms ws by (simp add: smooth_in_def sstLinSmoothAdd_def sstLinSmoothInit_def
        sstMinMaxInit_def Let_def)
  moreover have "\<And>v. smooth_in lo hi v \<Longrightarrow> \<forall>w \<in> set ws'. lo \<le> sint w \<and> sint w \<le> hi \<Longrightarrow>
      smooth_in lo hi (foldl sstLinSmoothAdd v ws')"
    by (induction ws') (simp_all add: smooth_in_add)
  ultimately have "smooth_in lo hi (foldl sstLinSmoothAdd ?v0 ws)" using assms(5) ws by simp
  then show ?thesis by (simp add: smooth_in_def Let_def)
qed

end
