(* ===== verification/TcpDyn.thy ===== *)
theory TcpDyn
  imports StreamStat PacketTypes
begin

text \<open>
  The small TCP observers of the flow meter: round-trip time (\<open>src/qofrtt.c\<close>),
  acknowledgments (\<open>src/qofack.c\<close>), receiver window (\<open>src/qofrwin.c\<close>) and
  options (\<open>src/qofopt.c\<close>), with the wrap-around comparison of sequence numbers the
  files share. \<open>obs_ms\<close> is a 30-bit field, as declared.

  The round-trip observer is shown to simulate a two-sided state machine, and to measure the
  time between a segment and the first answer to its answer; the others are characterised over
  whole streams of segments.
\<close>

subsection \<open>Sequence number comparison\<close>

definition qfWrapCompare :: "u32 \<Rightarrow> u32 \<Rightarrow> int" where
  "qfWrapCompare a b = (if a = b then 0 else if (a - b) AND 0x80000000 \<noteq> 0 then -1 else 1)"

lemma and_sign_bit: "((x::u32) AND 0x80000000 \<noteq> 0) \<longleftrightarrow> 2 ^ 31 \<le> unat x"
proof -
  have "(0x80000000::u32) = 2 ^ 31" by simp
  then have "(x AND 0x80000000 \<noteq> 0) \<longleftrightarrow> bit x 31" by (simp only: and_exp_eq_0_iff_not_bit not_not)
  also have "\<dots> \<longleftrightarrow> odd (unat x div 2 ^ 31)" using bit_unsigned_iff [of x 31, where 'a = nat] by (simp add: bit_iff_odd)
  also have "\<dots> \<longleftrightarrow> 2 ^ 31 \<le> unat x"
  proof -
    have "unat x < 2 ^ LENGTH(32)" by (rule unsigned_less)
    then have "unat x div 2 ^ 31 < 2" by (simp add: less_mult_imp_div_less)
    then have "odd (unat x div 2 ^ 31) \<longleftrightarrow> unat x div 2 ^ 31 \<noteq> 0"
      by (auto simp: less_2_cases_iff)
    then show ?thesis by (simp add: div_eq_0_iff not_less)
  qed
  finally show ?thesis .
qed

lemma qfWrapCompare_alt:
  "qfWrapCompare a b = (if a = b then 0 else if 2 ^ 31 \<le> unat (a - b) then -1 else 1)"
  unfolding qfWrapCompare_def and_sign_bit ..

lemma qfWrapCompare_refl [simp]: "qfWrapCompare a a = 0"
  by (simp add: qfWrapCompare_def)

lemma qfWrapCompare_gt: "qfWrapCompare a b > 0 \<longleftrightarrow> a \<noteq> b \<and> unat (a - b) < 2 ^ 31"
  by (simp add: qfWrapCompare_alt)

lemma qfWrapCompare_lt: "qfWrapCompare a b < 0 \<longleftrightarrow> 2 ^ 31 \<le> unat (a - b)"
  by (auto simp: qfWrapCompare_alt)

lemma qfWrapCompare_ge: "qfWrapCompare a b \<ge> 0 \<longleftrightarrow> unat (a - b) < 2 ^ 31"
  using qfWrapCompare_lt [of a b] by linarith

text \<open>Inside a window of half the sequence space the comparison is the order of the offsets.\<close>

lemma qfWrapCompare_window:
  assumes "i < 2 ^ 31" "j < 2 ^ 31"
  shows "qfWrapCompare (base + of_nat i) (base + of_nat j) = sgn (int i - int j)"
proof -
  have d: "(base + of_nat i) - (base + of_nat j) = (of_nat i - of_nat j :: u32)" by simp
  have ij: "(of_nat i = (of_nat j :: u32)) \<longleftrightarrow> i = j"
    using assms by (simp add: word_of_nat_eq_iff take_bit_nat_eq_self)
  show ?thesis
  proof (cases "j \<le> i")
    case True
    have u: "unat (of_nat i - of_nat j :: u32) = i - j"
      using assms True by (simp add: unat_of_nat flip: of_nat_diff)
    show ?thesis unfolding qfWrapCompare_alt d u using assms ij True by (auto simp: sgn_if)
  next
    case False
    have e: "(of_nat i - of_nat j :: u32) = of_nat (2 ^ 32 - (j - i))"
      using False assms by (simp add: of_nat_diff)
    have u: "unat (of_nat i - of_nat j :: u32) = 2 ^ 32 - (j - i)"
      unfolding e unat_of_nat using False assms by simp
    show ?thesis unfolding qfWrapCompare_alt d u using assms ij False by (auto simp: sgn_if)
  qed
qed

subsection \<open>Round-trip time\<close>

record qfRttDir =
  rd_tsack :: u32
  rd_lms :: u32
  rd_ackwait :: bool
  rd_ecrwait :: bool
  rd_obs_ms :: "30 word"

record qfRtt =
  rtt_val :: sstLinSmooth
  rtt_fwd :: qfRttDir
  rtt_rev :: qfRttDir

definition zero_rttdir :: qfRttDir where
  "zero_rttdir = \<lparr>rd_tsack = 0, rd_lms = 0, rd_ackwait = False, rd_ecrwait = False, rd_obs_ms = 0\<rparr>"

definition zero_rtt :: qfRtt where
  "zero_rtt = \<lparr>rtt_val = sstLinSmoothInit, rtt_fwd = zero_rttdir, rtt_rev = zero_rttdir\<rparr>"

definition qfRttSetAckWait :: "qfRttDir \<Rightarrow> u32 \<Rightarrow> u32 \<Rightarrow> qfRttDir" where
  "qfRttSetAckWait dir seq ms =
     dir\<lparr>rd_ackwait := True, rd_ecrwait := False, rd_lms := ms, rd_tsack := seq\<rparr>"

definition qfRttSetEcrWait :: "qfRttDir \<Rightarrow> u32 \<Rightarrow> u32 \<Rightarrow> qfRttDir" where
  "qfRttSetEcrWait dir tsval ms =
     dir\<lparr>rd_ackwait := False, rd_ecrwait := True, rd_lms := ms, rd_tsack := tsval\<rparr>"

definition qfRttSample :: "qfRtt \<Rightarrow> qfRtt" where
  "qfRttSample rtt =
     (if rd_obs_ms (rtt_fwd rtt) \<noteq> 0 \<and> rd_obs_ms (rtt_rev rtt) \<noteq> 0
      then rtt\<lparr>rtt_val := sstLinSmoothAdd (rtt_val rtt)
                 (ucast (rd_obs_ms (rtt_fwd rtt)) + ucast (rd_obs_ms (rtt_rev rtt)))\<rparr>
      else rtt)"

text \<open>The two directions a segment sees: its own (\<open>fdir\<close>) and the opposite (\<open>rdir\<close>).\<close>

definition rtt_dir :: "bool \<Rightarrow> qfRtt \<Rightarrow> qfRttDir" where
  "rtt_dir reverse rtt = (if reverse then rtt_rev rtt else rtt_fwd rtt)"

definition rtt_set_dir :: "bool \<Rightarrow> qfRttDir \<Rightarrow> qfRtt \<Rightarrow> qfRtt" where
  "rtt_set_dir reverse d rtt = (if reverse then rtt\<lparr>rtt_rev := d\<rparr> else rtt\<lparr>rtt_fwd := d\<rparr>)"

definition qfRttSegment ::
  "qfRtt \<Rightarrow> u32 \<Rightarrow> u32 \<Rightarrow> u32 \<Rightarrow> u32 \<Rightarrow> u32 \<Rightarrow> u8 \<Rightarrow> bool \<Rightarrow> qfRtt" where
  "qfRttSegment rtt seq ack tsval tsecr ms tcpflags reverse =
     (let fdir = rtt_dir reverse rtt; rdir = rtt_dir (\<not> reverse) rtt
      in if rd_ackwait fdir \<and> has_flag tcpflags YF_TF_ACK \<and> qfWrapCompare ack (rd_tsack fdir) \<ge> 0
         then
           let rtt = rtt_set_dir reverse (fdir\<lparr>rd_obs_ms := ucast (ms - rd_lms fdir)\<rparr>) rtt;
               rtt = qfRttSample rtt;
               rtt = rtt_set_dir reverse ((rtt_dir reverse rtt)\<lparr>rd_ackwait := False\<rparr>) rtt
           in if tsval \<noteq> 0 then rtt_set_dir (\<not> reverse) (qfRttSetEcrWait rdir tsval ms) rtt else rtt
         else if rd_ecrwait fdir \<and> qfWrapCompare tsecr (rd_tsack fdir) \<ge> 0
         then
           let rtt = (if ucast (rd_obs_ms fdir) < ms - rd_lms fdir
                      then qfRttSample (rtt_set_dir reverse
                             (fdir\<lparr>rd_obs_ms := ucast (ms - rd_lms fdir)\<rparr>) rtt)
                      else rtt);
               rtt = rtt_set_dir reverse ((rtt_dir reverse rtt)\<lparr>rd_ecrwait := False\<rparr>) rtt
           in rtt_set_dir (\<not> reverse) (qfRttSetAckWait rdir seq ms) rtt
         else if \<not> rd_ackwait rdir \<and> \<not> rd_ecrwait rdir
         then rtt_set_dir (\<not> reverse) (qfRttSetAckWait rdir seq ms) rtt
         else rtt)"

text \<open>One TCP segment as the observers see it.\<close>

record rtt_seg =
  rs_seq :: u32
  rs_ack :: u32
  rs_tsval :: u32
  rs_tsecr :: u32
  rs_ms :: u32
  rs_flags :: u8
  rs_rev :: bool

definition rtt_feed :: "qfRtt \<Rightarrow> rtt_seg \<Rightarrow> qfRtt" where
  "rtt_feed rtt s = qfRttSegment rtt (rs_seq s) (rs_ack s) (rs_tsval s) (rs_tsecr s) (rs_ms s)
     (rs_flags s) (rs_rev s)"

text \<open>The abstract observer: what each direction is waiting for, and since when.\<close>

datatype rtt_wait = Idle | AwaitAck u32 u32 | AwaitEcr u32 u32

definition wait_of :: "qfRttDir \<Rightarrow> rtt_wait" where
  "wait_of d = (if rd_ackwait d then AwaitAck (rd_tsack d) (rd_lms d)
                else if rd_ecrwait d then AwaitEcr (rd_tsack d) (rd_lms d) else Idle)"

definition one_wait :: "qfRttDir \<Rightarrow> bool" where
  "one_wait d \<longleftrightarrow> \<not> (rd_ackwait d \<and> rd_ecrwait d)"

fun answers :: "rtt_wait \<Rightarrow> rtt_seg \<Rightarrow> bool" where
  "answers Idle s = False"
| "answers (AwaitAck q t) s = (has_flag (rs_flags s) YF_TF_ACK \<and> qfWrapCompare (rs_ack s) q \<ge> 0)"
| "answers (AwaitEcr q t) s = (qfWrapCompare (rs_tsecr s) q \<ge> 0)"

text \<open>The machine's state is the pair of the waits of the segment's own and of the opposite
  direction; the label is the segment.\<close>

inductive rtt_step :: "rtt_wait \<Rightarrow> rtt_wait \<Rightarrow> rtt_seg \<Rightarrow> rtt_wait \<Rightarrow> rtt_wait \<Rightarrow> bool" where
  acked_ts: "answers (AwaitAck q t) s \<Longrightarrow> rs_tsval s \<noteq> 0 \<Longrightarrow>
     rtt_step (AwaitAck q t) w s Idle (AwaitEcr (rs_tsval s) (rs_ms s))"
| acked: "answers (AwaitAck q t) s \<Longrightarrow> rs_tsval s = 0 \<Longrightarrow> rtt_step (AwaitAck q t) w s Idle w"
| echoed: "answers (AwaitEcr q t) s \<Longrightarrow>
     rtt_step (AwaitEcr q t) w s Idle (AwaitAck (rs_seq s) (rs_ms s))"
| arm: "\<not> answers v s \<Longrightarrow> rtt_step v Idle s v (AwaitAck (rs_seq s) (rs_ms s))"
| stay: "\<not> answers v s \<Longrightarrow> w \<noteq> Idle \<Longrightarrow> rtt_step v w s v w"

inductive_simps rtt_step_idle: "rtt_step Idle w s v' w'"
inductive_simps rtt_step_ack: "rtt_step (AwaitAck q t) w s v' w'"
inductive_simps rtt_step_ecr: "rtt_step (AwaitEcr q t) w s v' w'"

lemmas rtt_ops = qfRttSetAckWait_def qfRttSetEcrWait_def qfRttSample_def rtt_dir_def rtt_set_dir_def

lemma qfRttSample_dirs [simp]:
  "rtt_fwd (qfRttSample r) = rtt_fwd r" "rtt_rev (qfRttSample r) = rtt_rev r"
  by (simp_all add: qfRttSample_def)

lemma rtt_dirs [simp]:
  "rtt_dir d (qfRttSample r) = rtt_dir d r"
  "rtt_dir d (rtt_set_dir d x r) = x"
  "rtt_dir d (rtt_set_dir (\<not> d) x r) = rtt_dir d r"
  "rtt_dir (\<not> d) (rtt_set_dir d x r) = rtt_dir (\<not> d) r"
  by (simp_all add: rtt_dir_def rtt_set_dir_def)

lemma wait_of_armed [simp]:
  "wait_of (qfRttSetAckWait d q t) = AwaitAck q t" "wait_of (qfRttSetEcrWait d q t) = AwaitEcr q t"
  "one_wait (qfRttSetAckWait d q t)" "one_wait (qfRttSetEcrWait d q t)"
  by (simp_all add: rtt_ops wait_of_def one_wait_def)

lemma rtt_feed_waits:
  assumes one: "one_wait (rtt_dir (rs_rev s) r)" "one_wait (rtt_dir (\<not> rs_rev s) r)"
  shows "rtt_step (wait_of (rtt_dir (rs_rev s) r)) (wait_of (rtt_dir (\<not> rs_rev s) r)) s
      (wait_of (rtt_dir (rs_rev s) (rtt_feed r s))) (wait_of (rtt_dir (\<not> rs_rev s) (rtt_feed r s)))"
    and "one_wait (rtt_dir (rs_rev s) (rtt_feed r s))"
    and "one_wait (rtt_dir (\<not> rs_rev s) (rtt_feed r s))"
proof -
  consider (ack) "rd_ackwait (rtt_dir (rs_rev s) r)" "\<not> rd_ecrwait (rtt_dir (rs_rev s) r)"
    | (ecr) "\<not> rd_ackwait (rtt_dir (rs_rev s) r)" "rd_ecrwait (rtt_dir (rs_rev s) r)"
    | (idle) "\<not> rd_ackwait (rtt_dir (rs_rev s) r)" "\<not> rd_ecrwait (rtt_dir (rs_rev s) r)"
    using one(1) by (auto simp: one_wait_def)
  then have "rtt_step (wait_of (rtt_dir (rs_rev s) r)) (wait_of (rtt_dir (\<not> rs_rev s) r)) s
      (wait_of (rtt_dir (rs_rev s) (rtt_feed r s))) (wait_of (rtt_dir (\<not> rs_rev s) (rtt_feed r s))) \<and>
      one_wait (rtt_dir (rs_rev s) (rtt_feed r s)) \<and> one_wait (rtt_dir (\<not> rs_rev s) (rtt_feed r s))"
  proof cases
    case ack
    then show ?thesis using one
      by (simp add: rtt_feed_def qfRttSegment_def Let_def rtt_step_ack wait_of_def one_wait_def
          qfRttSetAckWait_def qfRttSetEcrWait_def)
  next
    case ecr
    then show ?thesis using one
      by (simp add: rtt_feed_def qfRttSegment_def Let_def rtt_step_ecr wait_of_def one_wait_def
          qfRttSetAckWait_def qfRttSetEcrWait_def)
  next
    case idle
    then show ?thesis using one
      by (simp add: rtt_feed_def qfRttSegment_def Let_def rtt_step_idle wait_of_def one_wait_def
          qfRttSetAckWait_def qfRttSetEcrWait_def)
  qed
  then show "rtt_step (wait_of (rtt_dir (rs_rev s) r)) (wait_of (rtt_dir (\<not> rs_rev s) r)) s
      (wait_of (rtt_dir (rs_rev s) (rtt_feed r s))) (wait_of (rtt_dir (\<not> rs_rev s) (rtt_feed r s)))"
    "one_wait (rtt_dir (rs_rev s) (rtt_feed r s))"
    "one_wait (rtt_dir (\<not> rs_rev s) (rtt_feed r s))" by simp_all
qed

text \<open>Over a whole trace neither direction ever waits for two things at once.\<close>

lemma rtt_feeds_one_wait: "one_wait (rtt_dir d (foldl rtt_feed zero_rtt ss))"
proof -
  have "\<forall>d. one_wait (rtt_dir d r) \<Longrightarrow> \<forall>d. one_wait (rtt_dir d (foldl rtt_feed r ss))" for r
  proof (induction ss arbitrary: r)
    case (Cons s ss)
    have "one_wait (rtt_dir d (rtt_feed r s))" for d
      using rtt_feed_waits(2,3) [of s r] Cons.prems by (cases "d = rs_rev s") auto
    then show ?case using Cons.IH [of "rtt_feed r s"] by simp
  qed simp
  moreover have "\<forall>d. one_wait (rtt_dir d zero_rtt)"
    by (simp add: zero_rtt_def zero_rttdir_def rtt_dir_def one_wait_def)
  ultimately show ?thesis by blast
qed

lemma rtt_set_val [simp]: "rtt_val (rtt_set_dir d x r) = rtt_val r"
  by (simp add: rtt_set_dir_def)

lemma qfRttSample_val:
  "rtt_val (qfRttSample r) =
     (if rd_obs_ms (rtt_dir d r) \<noteq> 0 \<and> rd_obs_ms (rtt_dir (\<not> d) r) \<noteq> 0
      then sstLinSmoothAdd (rtt_val r) (ucast (rd_obs_ms (rtt_dir d r)) + ucast (rd_obs_ms (rtt_dir (\<not> d) r)))
      else rtt_val r)"
  by (simp add: qfRttSample_def rtt_dir_def add.commute)

text \<open>The two ways an observation is made.\<close>

lemma rtt_feed_acked:
  assumes "rd_ackwait (rtt_dir (rs_rev s) r)" and "has_flag (rs_flags s) YF_TF_ACK"
    and "qfWrapCompare (rs_ack s) (rd_tsack (rtt_dir (rs_rev s) r)) \<ge> 0"
    and "rs_tsval s \<noteq> 0" and "rd_obs_ms (rtt_dir (\<not> rs_rev s) r) = 0"
  shows "rd_obs_ms (rtt_dir (rs_rev s) (rtt_feed r s)) = ucast (rs_ms s - rd_lms (rtt_dir (rs_rev s) r))"
    and "rtt_dir (\<not> rs_rev s) (rtt_feed r s) =
      qfRttSetEcrWait (rtt_dir (\<not> rs_rev s) r) (rs_tsval s) (rs_ms s)"
    and "rtt_val (rtt_feed r s) = rtt_val r"
  using assms by (simp_all add: rtt_feed_def qfRttSegment_def Let_def qfRttSample_val [of _ "rs_rev s"])

lemma rtt_feed_echoed:
  assumes "\<not> rd_ackwait (rtt_dir (rs_rev s) r)" and "rd_ecrwait (rtt_dir (rs_rev s) r)"
    and "qfWrapCompare (rs_tsecr s) (rd_tsack (rtt_dir (rs_rev s) r)) \<ge> 0"
    and "ucast (rd_obs_ms (rtt_dir (rs_rev s) r)) < rs_ms s - rd_lms (rtt_dir (rs_rev s) r)"
    and "(ucast (rs_ms s - rd_lms (rtt_dir (rs_rev s) r)) :: 30 word) \<noteq> 0"
    and "rd_obs_ms (rtt_dir (\<not> rs_rev s) r) \<noteq> 0"
  shows "rtt_val (rtt_feed r s) = sstLinSmoothAdd (rtt_val r)
      (ucast (ucast (rs_ms s - rd_lms (rtt_dir (rs_rev s) r)) :: 30 word) +
       ucast (rd_obs_ms (rtt_dir (\<not> rs_rev s) r)))"
  using assms by (simp add: rtt_feed_def qfRttSegment_def Let_def qfRttSample_val [of _ "rs_rev s"])

subsection \<open>Acknowledgments\<close>

record qfAck =
  ack_fan :: u32
  ack_fanlms :: u32
  ack_dup_ct :: u32
  ack_sel_ct :: u32

definition zero_ack :: qfAck where
  "zero_ack = \<lparr>ack_fan = 0, ack_fanlms = 0, ack_dup_ct = 0, ack_sel_ct = 0\<rparr>"

definition qfAckSegment :: "qfAck \<Rightarrow> u32 \<Rightarrow> u32 \<Rightarrow> u32 \<Rightarrow> u32 \<Rightarrow> qfAck" where
  "qfAckSegment qa ack sack oct ms =
     (let qa = (if ack_fan qa = 0 \<or> qfWrapCompare ack (ack_fan qa) > 0
                then qa\<lparr>ack_fan := ack, ack_fanlms := ms\<rparr>
                else if oct = 0 then qa\<lparr>ack_dup_ct := ack_dup_ct qa + 1\<rparr> else qa)
      in if sack \<noteq> 0 \<and> qfWrapCompare sack ack > 0
         then qa\<lparr>ack_sel_ct := ack_sel_ct qa + 1\<rparr> else qa)"

text \<open>A segment of the stream as (acknowledgment, selective acknowledgment, octets, time).\<close>

definition ack_feed :: "qfAck \<Rightarrow> u32 \<times> u32 \<times> u32 \<times> u32 \<Rightarrow> qfAck" where
  "ack_feed qa s = (case s of (ack, sack, oct, ms) \<Rightarrow> qfAckSegment qa ack sack oct ms)"

text \<open>The empty segments that acknowledge nothing new, in a stream given by offsets: each one
  whose offset does not exceed the largest before it.\<close>

fun dups :: "nat \<Rightarrow> (nat \<times> u32 \<times> u32 \<times> u32) list \<Rightarrow> nat" where
  "dups m [] = 0"
| "dups m ((k, sack, oct, ms) # ss) =
     (if m < k then dups k ss else (if oct = 0 then 1 else 0) + dups m ss)"

definition ack_stream :: "u32 \<Rightarrow> (nat \<times> u32 \<times> u32 \<times> u32) list \<Rightarrow> (u32 \<times> u32 \<times> u32 \<times> u32) list" where
  "ack_stream base = map (\<lambda>(k, r). (base + of_nat k, r))"

definition ack_window :: "u32 \<Rightarrow> nat \<Rightarrow> bool" where
  "ack_window base k \<longleftrightarrow> k < 2 ^ 31 \<and> base + of_nat k \<noteq> 0"

lemma ack_feed_fold:
  assumes "ack_window base m" "ack_fan qa = base + of_nat m"
    and "\<forall>(k, r) \<in> set ss. ack_window base k"
  shows "ack_fan (foldl ack_feed qa (ack_stream base ss)) = base + of_nat (fold max (map fst ss) m) \<and>
    ack_dup_ct (foldl ack_feed qa (ack_stream base ss)) = ack_dup_ct qa + of_nat (dups m ss)"
  using assms
proof (induction ss arbitrary: qa m)
  case Nil
  then show ?case by (simp add: ack_stream_def)
next
  case (Cons s ss)
  obtain k sack oct ms where s: "s = (k, sack, oct, ms)" by (cases s) auto
  let ?qa = "qfAckSegment qa (base + of_nat k) sack oct ms"
  have k: "ack_window base k" using Cons.prems(3) s by simp
  have c: "qfWrapCompare (base + of_nat k) (base + of_nat m) = sgn (int k - int m)"
    using k Cons.prems(1) by (intro qfWrapCompare_window) (simp_all add: ack_window_def)
  have nz: "ack_fan qa \<noteq> 0" using Cons.prems(1,2) by (simp add: ack_window_def)
  have f: "ack_fan ?qa = base + of_nat (max k m)"
    "ack_dup_ct ?qa = ack_dup_ct qa + (if k \<le> m \<and> oct = 0 then 1 else 0)"
    using nz c Cons.prems(2) by (auto simp: qfAckSegment_def Let_def max_def sgn_if)
  have w: "ack_window base (max k m)" using k Cons.prems(1) by (simp add: max_def)
  have st: "foldl ack_feed qa (ack_stream base (s # ss)) = foldl ack_feed ?qa (ack_stream base ss)"
    by (simp add: s ack_stream_def ack_feed_def)
  show ?case unfolding st using Cons.IH [OF w f(1)] Cons.prems(3) f(2)
    by (auto simp: s max_def)
qed

subsection \<open>Receiver window\<close>

record qfRwin =
  rw_val :: sstMean
  rw_stall :: u32
  rw_scale :: u8

definition zero_rwin :: qfRwin where
  "zero_rwin = \<lparr>rw_val = sstMeanInit, rw_stall = 0, rw_scale = 0\<rparr>"

definition qfRwinScale :: "qfRwin \<Rightarrow> u8 \<Rightarrow> qfRwin" where
  "qfRwinScale qr wscale = qr\<lparr>rw_scale := wscale\<rparr>"

definition qfRwinSegment :: "qfRwin \<Rightarrow> u32 \<Rightarrow> qfRwin" where
  "qfRwinSegment qr unscaled =
     (let qr = (if 0 <s sm_last (rw_val qr) \<and> unscaled = 0
                then qr\<lparr>rw_stall := rw_stall qr + 1\<rparr> else qr)
      in qr\<lparr>rw_val := sstMeanAdd (rw_val qr) (push_bit (unat (rw_scale qr)) unscaled)\<rparr>)"

text \<open>The number of times the window closes: a zero right after a positive value.\<close>

fun closings :: "i32 \<Rightarrow> i32 list \<Rightarrow> nat" where
  "closings p [] = 0"
| "closings p (w # ws) = (if 0 <s p \<and> w = 0 then 1 else 0) + closings w ws"

lemma sstMeanAdd_last [simp]: "sm_last (sstMeanAdd v x) = x"
  by (simp add: sstMeanAdd_def Let_def)

lemma push_bit_window_eq_0:
  fixes w :: u32
  assumes "unat w < 2 ^ 16" and "s \<le> (14 :: u8)"
  shows "push_bit (unat s) w = 0 \<longleftrightarrow> w = 0"
proof -
  have s: "unat s \<le> 14" using assms(2) by (simp add: word_le_nat_alt)
  have "unat w * 2 ^ unat s < 2 ^ 16 * 2 ^ 14"
  proof -
    have "unat w * 2 ^ unat s \<le> unat w * 2 ^ 14" using s by (intro mult_le_mono2 power_increasing) simp_all
    also have "\<dots> < 2 ^ 16 * 2 ^ 14" using assms(1) by simp
    finally show ?thesis .
  qed
  then have "unat w * 2 ^ unat s < 2 ^ 32" by simp
  then have "unat (push_bit (unat s) w) = unat w * 2 ^ unat s"
    by (simp only: unsigned_push_bit_eq) (simp add: push_bit_eq_mult take_bit_nat_eq_self)
  then show ?thesis by (simp flip: unat_eq_0)
qed

lemma qfRwin_fold:
  fixes ws :: "u32 list"
  assumes "\<forall>w \<in> set ws. unat w < 2 ^ 16" and "rw_scale qr \<le> 14"
  defines "sc \<equiv> map (push_bit (unat (rw_scale qr))) ws"
  shows "rw_stall (foldl qfRwinSegment qr ws) = rw_stall qr + of_nat (closings (sm_last (rw_val qr)) sc) \<and>
    rw_val (foldl qfRwinSegment qr ws) = foldl sstMeanAdd (rw_val qr) sc"
  using assms(1,2) unfolding sc_def
proof (induction ws arbitrary: qr)
  case (Cons w ws)
  let ?qr = "qfRwinSegment qr w"
  have f: "rw_scale ?qr = rw_scale qr" "rw_val ?qr = sstMeanAdd (rw_val qr) (push_bit (unat (rw_scale qr)) w)"
    "rw_stall ?qr = rw_stall qr + (if 0 <s sm_last (rw_val qr) \<and> w = 0 then 1 else 0)"
    by (simp_all add: qfRwinSegment_def Let_def)
  have z: "push_bit (unat (rw_scale qr)) w = 0 \<longleftrightarrow> w = 0"
    using Cons.prems by (intro push_bit_window_eq_0) simp_all
  have p: "\<forall>w \<in> set ws. unat w < 2 ^ 16" "rw_scale ?qr \<le> 14" using Cons.prems f(1) by simp_all
  show ?case using Cons.IH [OF p] f z by simp
qed simp

subsection \<open>Options\<close>

record qfOpt =
  op_flags :: u32
  op_mss_opt :: u16
  op_mss :: u16

definition zero_opt :: qfOpt where
  "zero_opt = \<lparr>op_flags = 0, op_mss_opt = 0, op_mss = 0\<rparr>"

abbreviation QF_OPT_ECT0 :: u32 where "QF_OPT_ECT0 \<equiv> 0x01"
abbreviation QF_OPT_ECT1 :: u32 where "QF_OPT_ECT1 \<equiv> 0x02"
abbreviation QF_OPT_CE :: u32 where "QF_OPT_CE \<equiv> 0x04"
abbreviation QF_OPT_TS :: u32 where "QF_OPT_TS \<equiv> 0x10"
abbreviation QF_OPT_SACK :: u32 where "QF_OPT_SACK \<equiv> 0x20"
abbreviation QF_OPT_WS :: u32 where "QF_OPT_WS \<equiv> 0x40"

definition opt_set :: "bool \<Rightarrow> u32 \<Rightarrow> qfOpt \<Rightarrow> qfOpt" where
  "opt_set c f qo = (if c then qo\<lparr>op_flags := op_flags qo OR f\<rparr> else qo)"

definition qfOptSegment :: "qfOpt \<Rightarrow> yfTCPInfo \<Rightarrow> yfIPInfo \<Rightarrow> u16 \<Rightarrow> qfOpt" where
  "qfOptSegment qo tcpinfo ipinfo oct =
     (let qo = opt_set (ip_ecn ipinfo AND 0x03 = 0x01) QF_OPT_ECT1 qo;
          qo = opt_set (ip_ecn ipinfo AND 0x03 = 0x02) QF_OPT_ECT0 qo;
          qo = opt_set (ip_ecn ipinfo AND 0x03 = 0x03) QF_OPT_CE qo;
          qo = opt_set (ti_tsval tcpinfo \<noteq> 0) QF_OPT_TS qo;
          qo = opt_set (ti_ws tcpinfo \<noteq> 0) QF_OPT_WS qo;
          qo = opt_set (ti_sack tcpinfo \<noteq> 0) QF_OPT_SACK qo;
          qo = (if ti_mss tcpinfo \<noteq> 0 then qo\<lparr>op_mss_opt := ti_mss tcpinfo\<rparr> else qo)
      in if op_mss qo < oct then qo\<lparr>op_mss := oct\<rparr> else qo)"

definition opt_feed :: "qfOpt \<Rightarrow> yfTCPInfo \<times> yfIPInfo \<times> u16 \<Rightarrow> qfOpt" where
  "opt_feed qo s = (case s of (t, i, oct) \<Rightarrow> qfOptSegment qo t i oct)"

text \<open>What the observer takes a segment as evidence of, by the bit of the option flags that records it: a value
  that is not zero.\<close>

definition shows_opt :: "nat \<Rightarrow> yfTCPInfo \<times> yfIPInfo \<times> u16 \<Rightarrow> bool" where
  "shows_opt n s \<longleftrightarrow> (case s of (t, i, oct) \<Rightarrow>
     n = 0 \<and> ip_ecn i AND 3 = 2 \<or> n = 1 \<and> ip_ecn i AND 3 = 1 \<or> n = 2 \<and> ip_ecn i AND 3 = 3 \<or>
     n = 4 \<and> ti_tsval t \<noteq> 0 \<or> n = 5 \<and> ti_sack t \<noteq> 0 \<or> n = 6 \<and> ti_ws t \<noteq> 0)"

lemma opt_set_bit:
  "bit (op_flags (opt_set c (2 ^ k) qo)) n \<longleftrightarrow> bit (op_flags qo) n \<or> c \<and> n = k \<and> k < 32"
  by (auto simp: opt_set_def bit_or_iff bit_exp_iff)

lemma opt_set_mss [simp]:
  "op_mss (opt_set c f qo) = op_mss qo" "op_mss_opt (opt_set c f qo) = op_mss_opt qo"
  by (simp_all add: opt_set_def)

lemma opt_set_bits [simp]:
  "bit (op_flags (opt_set c QF_OPT_ECT0 qo)) n \<longleftrightarrow> bit (op_flags qo) n \<or> c \<and> n = 0"
  "bit (op_flags (opt_set c QF_OPT_ECT1 qo)) n \<longleftrightarrow> bit (op_flags qo) n \<or> c \<and> n = 1"
  "bit (op_flags (opt_set c QF_OPT_CE qo)) n \<longleftrightarrow> bit (op_flags qo) n \<or> c \<and> n = 2"
  "bit (op_flags (opt_set c QF_OPT_TS qo)) n \<longleftrightarrow> bit (op_flags qo) n \<or> c \<and> n = 4"
  "bit (op_flags (opt_set c QF_OPT_SACK qo)) n \<longleftrightarrow> bit (op_flags qo) n \<or> c \<and> n = 5"
  "bit (op_flags (opt_set c QF_OPT_WS qo)) n \<longleftrightarrow> bit (op_flags qo) n \<or> c \<and> n = 6"
  using opt_set_bit [of c 0 qo n] opt_set_bit [of c 1 qo n] opt_set_bit [of c 2 qo n]
    opt_set_bit [of c 4 qo n] opt_set_bit [of c 5 qo n] opt_set_bit [of c 6 qo n]
  by simp_all

lemma opt_feed_simps [simp]:
  "bit (op_flags (opt_feed qo s)) n \<longleftrightarrow> bit (op_flags qo) n \<or> shows_opt n s"
  "op_mss (opt_feed qo s) = max (op_mss qo) (snd (snd s))"
  "op_mss_opt (opt_feed qo s) = (if ti_mss (fst s) \<noteq> 0 then ti_mss (fst s) else op_mss_opt qo)"
proof -
  obtain t i oct where s: "s = (t, i, oct)" by (cases s) auto
  show "bit (op_flags (opt_feed qo s)) n \<longleftrightarrow> bit (op_flags qo) n \<or> shows_opt n s"
    by (auto simp: s opt_feed_def qfOptSegment_def Let_def shows_opt_def)
  show "op_mss (opt_feed qo s) = max (op_mss qo) (snd (snd s))"
    by (auto simp: s opt_feed_def qfOptSegment_def Let_def max_def)
  show "op_mss_opt (opt_feed qo s) = (if ti_mss (fst s) \<noteq> 0 then ti_mss (fst s) else op_mss_opt qo)"
    by (simp add: s opt_feed_def qfOptSegment_def Let_def)
qed

subsection \<open>Properties\<close>

lemma ucast30:
  fixes x :: u32
  assumes "unat x < 2 ^ 30"
  shows "ucast (ucast x :: 30 word) = x" and "(ucast x :: 30 word) = 0 \<longleftrightarrow> x = 0"
proof -
  have u: "unat (ucast x :: 30 word) = unat x"
    using assms by (simp add: unsigned_ucast_eq take_bit_nat_eq_self)
  have "unat (ucast (ucast x :: 30 word) :: u32) = unat x"
    using assms by (simp add: unsigned_ucast_eq unsigned_take_bit_eq take_bit_nat_eq_self)
  then show "ucast (ucast x :: 30 word) = x" by (simp only: word_unat_eq_iff)
  show "(ucast x :: 30 word) = 0 \<longleftrightarrow> x = 0" using u by (metis unat_eq_0)
qed

text \<open>C29: The round-trip observer runs the two-sided state machine: after any trace from the zeroed
  structure neither direction waits for both an acknowledgment and an echo, and the next segment
  takes the waits of the two directions through a step of \<open>rtt_step\<close>.\<close>

theorem rtt_simulates:
  "let r = foldl rtt_feed zero_rtt ss; r' = rtt_feed r s; d = rs_rev s
   in one_wait (rtt_fwd r) \<and> one_wait (rtt_rev r) \<and>
      rtt_step (wait_of (rtt_dir d r)) (wait_of (rtt_dir (\<not> d) r)) s
        (wait_of (rtt_dir d r')) (wait_of (rtt_dir (\<not> d) r'))"
  using rtt_feed_waits(1) [of s, OF rtt_feeds_one_wait rtt_feeds_one_wait]
    rtt_feeds_one_wait [of False ss] rtt_feeds_one_wait [of True ss]
  by (simp add: Let_def rtt_dir_def)

text \<open>A segment, its acknowledgment carrying a timestamp, and the echo of that timestamp give
  a first estimate that is exactly the time from the first to the third: the round trip through
  the observation point, whichever side started and however the clock wraps.\<close>

lemma rtt_three_way:
  assumes "rs_rev s2 = (\<not> rs_rev s1)" and "rs_rev s3 = rs_rev s1"
    and "has_flag (rs_flags s2) YF_TF_ACK" and "qfWrapCompare (rs_ack s2) (rs_seq s1) \<ge> 0"
    and "rs_tsval s2 \<noteq> 0" and "qfWrapCompare (rs_tsecr s3) (rs_tsval s2) \<ge> 0"
    and "rs_ms s2 \<noteq> rs_ms s1" "unat (rs_ms s2 - rs_ms s1) < 2 ^ 30"
    and "rs_ms s3 \<noteq> rs_ms s2" "unat (rs_ms s3 - rs_ms s2) < 2 ^ 30"
  shows "let v = rtt_val (foldl rtt_feed zero_rtt [s1, s2, s3])
    in ls_val v = rs_ms s3 - rs_ms s1 \<and> mm_min (ls_mm v) = rs_ms s3 - rs_ms s1 \<and> ls_n v = 1"
proof -
  have c: "ucast (ucast (rs_ms s2 - rs_ms s1) :: 30 word) = rs_ms s2 - rs_ms s1"
    "ucast (ucast (rs_ms s3 - rs_ms s2) :: 30 word) = rs_ms s3 - rs_ms s2"
    "(ucast (rs_ms s2 - rs_ms s1) :: 30 word) \<noteq> 0" "(ucast (rs_ms s3 - rs_ms s2) :: 30 word) \<noteq> 0"
    using ucast30 assms(7-10) by simp_all
  let ?d = "rs_rev s1" and ?r1 = "rtt_feed zero_rtt s1"
  let ?r2 = "rtt_feed ?r1 s2"
  have z: "\<not> rd_ackwait (rtt_dir d zero_rtt)" "\<not> rd_ecrwait (rtt_dir d zero_rtt)"
      "rtt_dir d zero_rtt = zero_rttdir" "rd_obs_ms zero_rttdir = 0" for d
    by (simp_all add: rtt_dir_def zero_rtt_def zero_rttdir_def)
  have 1: "rtt_dir ?d ?r1 = zero_rttdir"
    "rtt_dir (\<not> ?d) ?r1 = qfRttSetAckWait zero_rttdir (rs_seq s1) (rs_ms s1)"
    "rtt_val ?r1 = sstLinSmoothInit"
    using z by (simp_all add: rtt_feed_def qfRttSegment_def) (simp add: zero_rtt_def)
  have 2: "rd_obs_ms (rtt_dir (\<not> ?d) ?r2) = ucast (rs_ms s2 - rs_ms s1)"
    "rtt_dir ?d ?r2 = qfRttSetEcrWait zero_rttdir (rs_tsval s2) (rs_ms s2)"
    "rtt_val ?r2 = sstLinSmoothInit"
    using rtt_feed_acked [of s2 ?r1] assms(1,3,4,5) 1 z by (simp_all add: qfRttSetAckWait_def)
  have 3: "rtt_val (rtt_feed ?r2 s3) = sstLinSmoothAdd sstLinSmoothInit
      ((rs_ms s3 - rs_ms s2) + (rs_ms s2 - rs_ms s1))"
    using rtt_feed_echoed [of s3 ?r2] assms(2,6) 2 c z(4)
    by (simp add: qfRttSetEcrWait_def assms(9) word_gt_0)
  show ?thesis
    using 3 by (simp add: sstLinSmoothAdd_def sstLinSmoothInit_def sstMinMaxInit_def Let_def)
qed

definition ex_syn :: rtt_seg where
  "ex_syn = \<lparr>rs_seq = 1000, rs_ack = 0, rs_tsval = 7, rs_tsecr = 0, rs_ms = 0xFFFFFFF0, rs_flags = 2, rs_rev = False\<rparr>"

definition ex_synack :: rtt_seg where
  "ex_synack = \<lparr>rs_seq = 5000, rs_ack = 1001, rs_tsval = 70, rs_tsecr = 7, rs_ms = 4, rs_flags = 0x12, rs_rev = True\<rparr>"

definition ex_ack :: rtt_seg where
  "ex_ack = \<lparr>rs_seq = 1001, rs_ack = 5001, rs_tsval = 9, rs_tsecr = 70, rs_ms = 10, rs_flags = 0x10, rs_rev = False\<rparr>"

text \<open>C30: For acknowledgments within half the sequence space (the number 0, which the code takes
  for \<open>unset\<close>, apart), the observer ends with the largest one, across the wrap of the sequence
  space, and its duplicate counter counts the empty segments that acknowledge nothing new.\<close>

theorem ack_tracks_maximum:
  assumes "\<forall>(k, r) \<in> set ((k0, r0) # ss). ack_window base k"
  shows "let qa = foldl ack_feed zero_ack (ack_stream base ((k0, r0) # ss))
    in ack_fan qa = base + of_nat (Max (set (k0 # map fst ss))) \<and> ack_dup_ct qa = of_nat (dups k0 ss)"
proof -
  let ?qa = "ack_feed zero_ack (base + of_nat k0, r0)"
  have "ack_fan ?qa = base + of_nat k0" "ack_dup_ct ?qa = 0"
    by (simp_all add: ack_feed_def qfAckSegment_def zero_ack_def Let_def split: prod.splits)
  moreover have "ack_window base k0" "\<forall>(k, r) \<in> set ss. ack_window base k" using assms by auto
  ultimately have "ack_fan (foldl ack_feed ?qa (ack_stream base ss)) = base + of_nat (fold max (map fst ss) k0) \<and>
      ack_dup_ct (foldl ack_feed ?qa (ack_stream base ss)) = of_nat (dups k0 ss)"
    using ack_feed_fold [of base k0 ?qa ss] by simp
  moreover have "fold max (map fst ss) k0 = Max (set (k0 # map fst ss))"
    by (simp only: Max.set_eq_fold)
  ultimately show ?thesis by (simp add: ack_stream_def)
qed

theorem ack_tracks_maximum_witness:
  "let qa = foldl ack_feed zero_ack (ack_stream 0xFFFFFFF0 [(4, 0, 0, 1), (4, 0, 0, 2), (36, 0, 9, 3), (20, 0, 0, 4)])
   in ack_fan qa = 20 \<and> ack_dup_ct qa = 2"
proof -
  have e: "\<forall>(k, r) \<in> set ((4, 0, 0, 1) # [(4, 0, 0, 2), (36, 0, 9, 3), (20, 0, 0, 4)]). ack_window 0xFFFFFFF0 k"
    by (simp add: ack_window_def)
  show ?thesis using ack_tracks_maximum [OF e] by (simp add: Let_def del: foldl_Cons)
qed

text \<open>C31: With a window scale of at most 14 (the protocol's limit) the window observer counts
  exactly the closings of the window (a zero right after a positive window) and its statistics
  are those of the scaled windows.\<close>

theorem rwin_counts_stalls:
  fixes ws :: "u32 list"
  assumes "\<forall>w \<in> set ws. unat w < 2 ^ 16" and "sc \<le> 14"
  shows "let qr = foldl qfRwinSegment (qfRwinScale zero_rwin sc) ws; vs = map (push_bit (unat sc)) ws
    in rw_stall qr = of_nat (closings 0 vs) \<and> rw_val qr = foldl sstMeanAdd sstMeanInit vs"
  using qfRwin_fold [of ws "qfRwinScale zero_rwin sc"] assms
  by (simp add: qfRwinScale_def zero_rwin_def sstMeanInit_def Let_def)

theorem rwin_counts_stalls_witness:
  "rw_stall (foldl qfRwinSegment (qfRwinScale zero_rwin 7) [5, 0, 0, 8, 0]) = 2"
  using rwin_counts_stalls [of "[5, 0, 0, 8, 0]" 7]
  by (simp add: Let_def word_sless_alt push_bit_eq_mult del: foldl_Cons)

text \<open>After any stream of segments a flag is set exactly when the observer took some segment as evidence of it, the
  observed segment size is the largest payload and the declared one the last that was not zero.\<close>

lemma opts_fed:
  "let qo = foldl opt_feed zero_opt ss
   in (bit (op_flags qo) n \<longleftrightarrow> (\<exists>s \<in> set ss. shows_opt n s)) \<and>
      op_mss qo = fold max (map (snd \<circ> snd) ss) 0 \<and>
      op_mss_opt qo = last (0 # filter (\<lambda>m. m \<noteq> 0) (map (ti_mss \<circ> fst) ss))"
proof -
  have "bit (op_flags (foldl opt_feed qo ss)) n \<longleftrightarrow> bit (op_flags qo) n \<or> (\<exists>s \<in> set ss. shows_opt n s)"
    "op_mss (foldl opt_feed qo ss) = fold max (map (snd \<circ> snd) ss) (op_mss qo)"
    "op_mss_opt (foldl opt_feed qo ss) = last (op_mss_opt qo # filter (\<lambda>m. m \<noteq> 0) (map (ti_mss \<circ> fst) ss))"
    for qo
    by (induction ss arbitrary: qo) (auto simp: max.commute)
  then show ?thesis by (simp add: zero_opt_def)
qed

end
