(* ===== verification/TcpSeq.thy ===== *)
theory TcpSeq
  imports TcpDyn
begin

text \<open>
  Sequence number tracking (\<open>src/qofseq.c\<close>): a stack of at most eight gaps in the sequence
  space, the next expected sequence number, and the loss, reordering and retransmission
  counters. \<open>gaps\<close> is a list of eight cells; a cell with two zeros is empty.

  Within half the sequence space and while the gap stack does not overflow, the tracker is
  shown to keep exactly the set of octets skipped and not yet seen; the loss it reports is the
  size of that set.
\<close>

record qfSeqGap =
  sg_a :: u32
  sg_b :: u32

abbreviation QF_SEQGAP_CT :: nat where "QF_SEQGAP_CT \<equiv> 8"

record qfSeq =
  sq_gaps :: "qfSeqGap list"
  sq_seg_iat :: sstMean
  sq_seg_variat :: sstMean
  sq_initlms :: u32
  sq_initsval :: u32
  sq_advlms :: u32
  sq_advtsval :: u32
  sq_isn :: u32
  sq_nsn :: u32
  sq_wrapct :: u32
  sq_lmswrap :: u32
  sq_tsvalwrap :: u32
  sq_rtx :: u32
  sq_ooo :: u32
  sq_maxooo :: u32
  sq_seqlost :: u32
  sq_lossct :: u32
  sq_losslms :: u32

definition no_gap :: qfSeqGap where
  "no_gap = \<lparr>sg_a = 0, sg_b = 0\<rparr>"

definition zero_seq :: qfSeq where
  "zero_seq = \<lparr>sq_gaps = replicate QF_SEQGAP_CT no_gap, sq_seg_iat = sstMeanInit,
     sq_seg_variat = sstMeanInit, sq_initlms = 0, sq_initsval = 0, sq_advlms = 0, sq_advtsval = 0,
     sq_isn = 0, sq_nsn = 0, sq_wrapct = 0, sq_lmswrap = 0, sq_tsvalwrap = 0, sq_rtx = 0,
     sq_ooo = 0, sq_maxooo = 0, sq_seqlost = 0, sq_lossct = 0, sq_losslms = 0\<rparr>"

subsection \<open>The gap stack\<close>

definition qfSeqGapEmpty :: "qfSeqGap list \<Rightarrow> nat \<Rightarrow> bool" where
  "qfSeqGapEmpty sg i \<longleftrightarrow> \<not> (sg_a (sg ! i) \<noteq> 0 \<or> sg_b (sg ! i) \<noteq> 0)"

text \<open>The block move down reads one cell past the array into the last cell, which is then
  cleared.\<close>

definition qfSeqGapShift :: "qfSeqGap list \<Rightarrow> nat \<Rightarrow> qfSeqGap list" where
  "qfSeqGapShift sg i = take i sg @ drop (Suc i) sg @ [no_gap]"

text \<open>The block move up duplicates cell \<open>i\<close> and drops the last; its length is lost.\<close>

definition qfSeqGapUnshift :: "qfSeqGap list \<Rightarrow> nat \<Rightarrow> u32 \<times> qfSeqGap list" where
  "qfSeqGapUnshift sg i =
     (sg_b (sg ! (QF_SEQGAP_CT - 1)) - sg_a (sg ! (QF_SEQGAP_CT - 1)),
      take (Suc i) sg @ butlast (drop i sg))"

definition qfSeqGapPush :: "qfSeq \<Rightarrow> u32 \<Rightarrow> u32 \<Rightarrow> u16 \<Rightarrow> qfSeq" where
  "qfSeqGapPush qs a b mss =
     (let qs = qs\<lparr>sq_ooo := sq_ooo qs + ((b - a) div (ucast mss + 1) + 1)\<rparr>
      in if \<not> qfSeqGapEmpty (sq_gaps qs) 0 \<and> a = sg_a (sq_gaps qs ! 0)
         then qs\<lparr>sq_gaps := (sq_gaps qs)[0 := (sq_gaps qs ! 0)\<lparr>sg_b := b\<rparr>]\<rparr>
         else case qfSeqGapUnshift (sq_gaps qs) 0 of (lost, sg) \<Rightarrow>
           qs\<lparr>sq_seqlost := sq_seqlost qs + lost, sq_gaps := sg[0 := \<lparr>sg_a = a, sg_b = b\<rparr>]\<rparr>)"

text \<open>The inner loop of the fill: the first cell that is empty or does not start after \<open>a\<close>.\<close>

fun gap_seek :: "u32 \<Rightarrow> qfSeqGap list \<Rightarrow> nat" where
  "gap_seek a [] = 0"
| "gap_seek a (g # gs) =
     (if (sg_a g \<noteq> 0 \<or> sg_b g \<noteq> 0) \<and> qfWrapCompare a (sg_a g) < 0 then Suc (gap_seek a gs) else 0)"

text \<open>Splitting cell \<open>i\<close>. For the last cell, \<open>gaps[i+1].b\<close> is the word after the array:
  the counter \<open>n\<close> of \<open>seg_iat\<close>, the second word of the structure that follows.\<close>

definition gap_split :: "qfSeq \<Rightarrow> nat \<Rightarrow> u32 \<Rightarrow> u32 \<Rightarrow> qfSeq" where
  "gap_split qs i a b =
     (case qfSeqGapUnshift (sq_gaps qs) i of (lost, sg) \<Rightarrow>
        let qs = qs\<lparr>sq_seqlost := sq_seqlost qs + lost, sq_gaps := sg[i := (sg ! i)\<lparr>sg_a := b\<rparr>]\<rparr>
        in if Suc i < QF_SEQGAP_CT
           then qs\<lparr>sq_gaps := (sq_gaps qs)[Suc i := (sq_gaps qs ! Suc i)\<lparr>sg_b := a\<rparr>]\<rparr>
           else qs\<lparr>sq_seg_iat := (sq_seg_iat qs)\<lparr>sm_n := a\<rparr>\<rparr>)"

text \<open>The outer loop, with the retransmitted octets as accumulator; the bound of the seek,
  \<open>QF_SEQGAP_CT\<close>, is the length of the array.\<close>

function gap_fill_loop :: "qfSeq \<Rightarrow> u32 \<Rightarrow> u32 \<Rightarrow> u32 \<Rightarrow> qfSeq \<times> u32" where
  "gap_fill_loop qs a b rtxoct =
     (if qfWrapCompare b a > 0 then
        let i = gap_seek a (sq_gaps qs); g = sq_gaps qs ! i
        in if i = length (sq_gaps qs) \<or> qfSeqGapEmpty (sq_gaps qs) i
           then (qs, rtxoct + (b - a))
           else if qfWrapCompare b (sg_b g) > 0 \<and> qfWrapCompare a (sg_b g) > 0
           then (qs, rtxoct + (b - a))
           else
             let rtxoct = (if qfWrapCompare b (sg_b g) > 0 then rtxoct + (b - sg_b g) else rtxoct);
                 b = (if qfWrapCompare b (sg_b g) > 0 then sg_b g else b);
                 again = qfWrapCompare a (sg_a g) < 0;
                 nexa = (if again then a else 0); nexb = (if again then b else 0);
                 a = (if again then sg_a g else a)
             in if a = sg_a g \<and> b = sg_b g
                then (qs\<lparr>sq_gaps := qfSeqGapShift (sq_gaps qs) i\<rparr>, rtxoct)
                else if b = sg_b g
                then (qs\<lparr>sq_gaps := (sq_gaps qs)[i := g\<lparr>sg_b := a\<rparr>]\<rparr>, rtxoct)
                else if a = sg_a g
                then (qs\<lparr>sq_gaps := (sq_gaps qs)[i := g\<lparr>sg_a := b\<rparr>]\<rparr>, rtxoct)
                else gap_fill_loop (gap_split qs i a b) nexa nexb rtxoct
      else (qs, rtxoct))"
  by pat_completeness auto

lemma gap_seek_le: "gap_seek a gs \<le> length gs"
  by (induction gs) auto

lemma gap_seek_stops:
  assumes "gap_seek a gs < length gs" and "\<not> qfSeqGapEmpty gs (gap_seek a gs)"
  shows "qfWrapCompare a (sg_a (gs ! gap_seek a gs)) \<ge> 0"
  using assms by (induction gs) (auto simp: qfSeqGapEmpty_def split: if_splits)

text \<open>The loop ends because the branch that would iterate is never taken: the seek stops only at
  a cell that does not start after \<open>a\<close>.\<close>

termination gap_fill_loop
proof (relation "measure (\<lambda>(qs, a, b, r). if qfWrapCompare b a > 0 then 1 else 0)", goal_cases)
  case 1
  show ?case by simp
next
  case (2 qs a b rtxoct i g r b' again nexa nexb a')
  have "i < length (sq_gaps qs)" using gap_seek_le [of a "sq_gaps qs"] 2(2,4) by simp
  then have "\<not> again" using gap_seek_stops [of a "sq_gaps qs"] 2 by simp
  then show ?case using 2 by simp
qed

declare gap_fill_loop.simps [simp del]

definition qfSeqGapFill :: "qfSeq \<Rightarrow> u32 \<Rightarrow> u32 \<Rightarrow> qfSeq \<times> bool" where
  "qfSeqGapFill qs a b =
     (case gap_fill_loop qs a b 0 of (qs, rtxoct) \<Rightarrow>
        if rtxoct \<noteq> 0 then (qs\<lparr>sq_rtx := sq_rtx qs + 1\<rparr>, True) else (qs, False))"

definition qfCountLoss :: "qfSeq \<Rightarrow> qfRtt \<Rightarrow> u32 \<Rightarrow> qfSeq" where
  "qfCountLoss qs rtt ms =
     (if sq_losslms qs + ls_val (rtt_val rtt) < ms
      then qs\<lparr>sq_losslms := ms, sq_lossct := sq_lossct qs + 1\<rparr> else qs)"

subsection \<open>Segments\<close>

definition qfSeqFirstSegment ::
  "qfSeq \<Rightarrow> u8 \<Rightarrow> u32 \<Rightarrow> u32 \<Rightarrow> u32 \<Rightarrow> u32 \<Rightarrow> bool \<Rightarrow> qfSeq" where
  "qfSeqFirstSegment qs flags seq oct ms tsval do_ts =
     (let qs = qs\<lparr>sq_isn := seq,
                  sq_nsn := seq + oct + (if has_flag flags YF_TF_SYN then 1 else 0),
                  sq_advlms := ms\<rparr>
      in if do_ts \<and> tsval \<noteq> 0 then qs\<lparr>sq_initlms := ms, sq_initsval := tsval\<rparr> else qs)"

abbreviation k2e32 :: u64 where "k2e32 \<equiv> 0x100000000"

definition qfTimestampHz :: "qfSeq \<Rightarrow> u32" where
  "qfTimestampHz qs =
     (let val_interval = ucast (sq_tsvalwrap qs) * k2e32 + ucast (sq_advtsval qs) - ucast (sq_initsval qs);
          lms_interval = ucast (sq_lmswrap qs) * k2e32 + ucast (sq_advlms qs) - ucast (sq_initlms qs)
      in if lms_interval \<noteq> 0 \<and> sq_initsval qs \<noteq> 0 \<and> sq_advtsval qs \<noteq> 0
         then ucast (val_interval * 1000 div lms_interval) else 0)"

text \<open>The interarrival statistics of an advancing segment; \<open>lastms\<close> is the time of the
  advance before it.\<close>

definition seq_iat :: "qfSeq \<Rightarrow> u32 \<Rightarrow> u32 \<Rightarrow> u32 \<Rightarrow> bool \<Rightarrow> qfSeq" where
  "seq_iat qs lastms ms tsval do_ts =
     (let iat = ms - lastms;
          qs = qs\<lparr>sq_seg_iat := sstMeanAdd (sq_seg_iat qs) iat\<rparr>;
          hz = qfTimestampHz qs
      in if do_ts \<and> tsval \<noteq> 0 \<and> hz \<noteq> 0
         then let idt = (1000 * (tsval - sq_advtsval qs)) div hz
              in qs\<lparr>sq_seg_variat := sstMeanAdd (sq_seg_variat qs) (iat - idt)\<rparr>
         else qs)"

text \<open>A segment at or beyond the next expected sequence number.\<close>

definition seq_advance ::
  "qfSeq \<Rightarrow> qfRtt \<Rightarrow> u16 \<Rightarrow> u32 \<Rightarrow> u32 \<Rightarrow> u32 \<Rightarrow> u32 \<Rightarrow> bool \<Rightarrow> bool \<Rightarrow> qfSeq" where
  "seq_advance qs rtt mss seq oct ms tsval do_ts do_iat =
     (let qs = (if seq \<noteq> sq_nsn qs then
                  let qs = qfCountLoss (qfSeqGapPush qs (sq_nsn qs) seq mss) rtt ms
                  in if sq_maxooo qs < seq - sq_nsn qs then qs\<lparr>sq_maxooo := seq - sq_nsn qs\<rparr> else qs
                else qs);
          qs = (if seq + oct < sq_nsn qs then qs\<lparr>sq_wrapct := sq_wrapct qs + 1\<rparr> else qs);
          qs = qs\<lparr>sq_nsn := seq + oct\<rparr>;
          qs = (if do_ts \<and> tsval \<noteq> 0 then
                  let qs = (if tsval < sq_advtsval qs then qs\<lparr>sq_tsvalwrap := sq_tsvalwrap qs + 1\<rparr> else qs);
                      qs = (if ms < sq_advlms qs then qs\<lparr>sq_lmswrap := sq_lmswrap qs + 1\<rparr> else qs)
                  in qs\<lparr>sq_advtsval := tsval\<rparr>
                else qs);
          lastms = sq_advlms qs;
          qs = qs\<lparr>sq_advlms := ms\<rparr>
      in if do_iat then seq_iat qs lastms ms tsval do_ts else qs)"

definition qfSeqSegment ::
  "qfSeq \<Rightarrow> qfRtt \<Rightarrow> u16 \<Rightarrow> u8 \<Rightarrow> u32 \<Rightarrow> u32 \<Rightarrow> u32 \<Rightarrow> u32 \<Rightarrow> bool \<Rightarrow> bool \<Rightarrow> qfSeq \<times> bool" where
  "qfSeqSegment qs rtt mss flags seq oct ms tsval do_ts do_iat =
     (if oct = 0 then (qs, False)
      else if qfWrapCompare seq (sq_nsn qs) < 0 then
        let qs = (if sq_maxooo qs < seq - sq_nsn qs then qs\<lparr>sq_maxooo := seq - sq_nsn qs\<rparr> else qs)
        in case qfSeqGapFill qs seq (seq + oct) of (qs, rtx) \<Rightarrow>
             (if rtx then qfCountLoss qs rtt ms else qs, False)
      else (seq_advance qs rtt mss seq oct ms tsval do_ts do_iat, True))"

subsection \<open>Counts\<close>

definition qfSeqCount :: "qfSeq \<Rightarrow> u8 \<Rightarrow> u64" where
  "qfSeqCount qs flags =
     (let sc = ucast (sq_nsn qs - sq_isn qs) + k2e32 * ucast (sq_wrapct qs);
          sc = (if sc \<noteq> 0 then sc - 1 else sc);
          sc = (if sc AND ucast (flags AND YF_TF_SYN) \<noteq> 0 \<and> sc \<noteq> 0 then sc - 1 else sc)
      in if sc AND ucast (flags AND YF_TF_FIN) \<noteq> 0 \<and> sc \<noteq> 0 then sc - 1 else sc)"

text \<open>The loop of \<open>qfSeqCountLost\<close>: add the gaps up to the first empty one, clearing them.\<close>

fun count_gaps :: "qfSeqGap list \<Rightarrow> u32 \<Rightarrow> qfSeqGap list \<times> u32" where
  "count_gaps [] lost = ([], lost)"
| "count_gaps (g # gs) lost =
     (if sg_a g \<noteq> 0 \<or> sg_b g \<noteq> 0
      then case count_gaps gs (lost + (sg_b g - sg_a g)) of (gs', lost') \<Rightarrow> (no_gap # gs', lost')
      else (g # gs, lost))"

definition qfSeqCountLost :: "qfSeq \<Rightarrow> qfSeq \<times> u32" where
  "qfSeqCountLost qs =
     (case count_gaps (sq_gaps qs) (sq_seqlost qs) of (gs, lost) \<Rightarrow>
        (qs\<lparr>sq_gaps := gs, sq_seqlost := lost\<rparr>, lost))"

subsection \<open>Gaps as intervals of offsets\<close>

text \<open>Intervals below \<open>n\<close>, from the highest down, none empty and no two touching.\<close>

fun gaps_ok :: "nat \<Rightarrow> (nat \<times> nat) list \<Rightarrow> bool" where
  "gaps_ok n [] = True"
| "gaps_ok n ((x, y) # ps) = (x < y \<and> y < n \<and> gaps_ok x ps)"

definition missing :: "(nat \<times> nat) list \<Rightarrow> nat set" where
  "missing ps = (\<Union>(x, y) \<in> set ps. {x..<y})"

definition gap_at :: "u32 \<Rightarrow> nat \<times> nat \<Rightarrow> qfSeqGap" where
  "gap_at base p = \<lparr>sg_a = base + of_nat (fst p), sg_b = base + of_nat (snd p)\<rparr>"

definition seq_rep :: "u32 \<Rightarrow> qfSeq \<Rightarrow> nat \<Rightarrow> (nat \<times> nat) list \<Rightarrow> bool" where
  "seq_rep base qs n ps \<longleftrightarrow> n < 2 ^ 31 \<and> gaps_ok n ps \<and> length ps \<le> QF_SEQGAP_CT \<and>
     sq_nsn qs = base + of_nat n \<and>
     sq_gaps qs = map (gap_at base) ps @ replicate (QF_SEQGAP_CT - length ps) no_gap"

text \<open>The fill on intervals: the segment fills the interval its first octet lies in.\<close>

fun fill_ivs :: "(nat \<times> nat) list \<Rightarrow> nat \<Rightarrow> nat \<Rightarrow> (nat \<times> nat) list" where
  "fill_ivs [] a b = []"
| "fill_ivs ((x, y) # ps) a b =
     (if a < x then (x, y) # fill_ivs ps a b
      else if y \<le> a then (x, y) # ps
      else (if b < y then [(b, y)] else []) @ (if x < a then [(x, a)] else []) @ ps)"

lemma missing_simps [simp]:
  "missing [] = {}" "missing ((x, y) # ps) = {x..<y} \<union> missing ps"
  "missing (ps @ qs) = missing ps \<union> missing qs"
  by (auto simp: missing_def)

lemma finite_missing [simp]: "finite (missing ps)"
  by (auto simp: missing_def)

lemma gaps_ok_below: "gaps_ok n ps \<Longrightarrow> u \<in> missing ps \<Longrightarrow> u < n"
  by (induction n ps rule: gaps_ok.induct) force+

lemma gaps_ok_touch: "gaps_ok n ps \<Longrightarrow> u \<in> missing ps \<Longrightarrow> Suc u < n"
  by (induction n ps rule: gaps_ok.induct) force+

lemma gaps_ok_mono: "gaps_ok n ps \<Longrightarrow> n \<le> m \<Longrightarrow> gaps_ok m ps"
  by (cases ps) auto

lemma gaps_ok_member: "gaps_ok n ps \<Longrightarrow> (x, y) \<in> set ps \<Longrightarrow> x < y \<and> y < n"
  by (induction n ps rule: gaps_ok.induct) force+

lemma gaps_ok_prefix: "gaps_ok n (pre @ (x, y) # post) \<Longrightarrow> p \<in> set pre \<Longrightarrow> y < fst p"
proof (induction n pre rule: gaps_ok.induct)
  case (2 n u v pre)
  have "y < u" using gaps_ok_member [of u "pre @ (x, y) # post" x y] 2 by simp
  then show ?case using 2 by auto
qed simp

lemma gaps_ok_edge: "gaps_ok n ps \<Longrightarrow> (x, y) \<in> set ps \<Longrightarrow> y \<notin> missing ps"
proof (induction n ps rule: gaps_ok.induct)
  case (2 n u v ps)
  show ?case
  proof (cases "(x, y) = (u, v)")
    case True
    then show ?thesis using 2 gaps_ok_below [of u ps y] by auto
  next
    case False
    then show ?thesis using 2 gaps_ok_member [of u ps x y] by auto
  qed
qed simp

lemma gaps_ok_fill: "gaps_ok n ps \<Longrightarrow> a < b \<Longrightarrow> gaps_ok n (fill_ivs ps a b)"
  by (induction n ps rule: gaps_ok.induct) (auto intro: gaps_ok_mono)

text \<open>What is filled is the longest run of missing octets at the start of the segment.\<close>

lemma missing_fill:
  assumes "gaps_ok n ps" and "a < b"
  shows "missing (fill_ivs ps a b) = missing ps - {u \<in> {a..<b}. {a..u} \<subseteq> missing ps}"
  using assms
proof (induction n ps rule: gaps_ok.induct)
  case (2 n x y ps)
  have ok: "x < y" "gaps_ok x ps" using 2 by auto
  note below = gaps_ok_touch [OF ok(2)]
  consider "a < x" | "x \<le> a" "y \<le> a" | "x \<le> a" "a < y" by linarith
  then show ?case
  proof cases
    case 1
    have "{a..u} \<subseteq> missing ((x, y) # ps) \<longleftrightarrow> {a..u} \<subseteq> missing ps" if "a \<le> u" for u
    proof
      assume s: "{a..u} \<subseteq> missing ((x, y) # ps)"
      have "u < x - 1"
      proof (rule ccontr)
        assume "\<not> u < x - 1"
        then have "x - 1 \<in> {a..u}" using 1 by auto
        then have "x - 1 \<in> missing ((x, y) # ps)" using s by blast
        then have "x - 1 \<in> missing ps" using 1 by auto
        then show False using below 1 by force
      qed
      moreover have "v < x \<Longrightarrow> v \<in> missing ((x, y) # ps) \<Longrightarrow> v \<in> missing ps" for v by simp
      ultimately show "{a..u} \<subseteq> missing ps" using s by (auto simp: subset_iff)
    qed auto
    then have "{u \<in> {a..<b}. {a..u} \<subseteq> missing ((x, y) # ps)} = {u \<in> {a..<b}. {a..u} \<subseteq> missing ps}" by auto
    moreover have "{x..<y} \<inter> {u \<in> {a..<b}. {a..u} \<subseteq> missing ps} = {}"
      using gaps_ok_below [OF ok(2)] by fastforce
    ultimately show ?thesis using 1 2 by auto
  next
    case 2
    have "a \<notin> missing ((x, y) # ps)" using 2 gaps_ok_below [OF ok(2), of a] by auto
    then have e: "{u \<in> {a..<b}. {a..u} \<subseteq> missing ((x, y) # ps)} = {}" by auto
    show ?thesis unfolding e using 2 by simp
  next
    case 3
    have y: "y \<notin> missing ((x, y) # ps)" using ok gaps_ok_below [OF ok(2), of y] by auto
    have "{u \<in> {a..<b}. {a..u} \<subseteq> missing ((x, y) # ps)} = {a..<min b y}"
    proof (intro equalityI subsetI)
      fix u assume u: "u \<in> {u \<in> {a..<b}. {a..u} \<subseteq> missing ((x, y) # ps)}"
      have "u < y"
      proof (rule ccontr)
        assume "\<not> u < y"
        then have "y \<in> {a..u}" using 3 by simp
        then show False using u y by blast
      qed
      then show "u \<in> {a..<min b y}" using u by auto
    next
      fix u assume "u \<in> {a..<min b y}"
      then show "u \<in> {u \<in> {a..<b}. {a..u} \<subseteq> missing ((x, y) # ps)}" using 3 by auto
    qed
    moreover have "missing ps \<inter> {a..<min b y} = {}" using gaps_ok_below [OF ok(2)] 3 by fastforce
    ultimately show ?thesis using 3 2(3) by auto
  qed
qed simp

lemma card_missing: "gaps_ok n ps \<Longrightarrow> card (missing ps) = (\<Sum>(x, y) \<leftarrow> ps. y - x)"
proof (induction n ps rule: gaps_ok.induct)
  case (2 n x y ps)
  have "{x..<y} \<inter> missing ps = {}" using 2 gaps_ok_below [of x ps] by fastforce
  then show ?case using 2 by (simp add: card_Un_disjoint)
qed simp

subsection \<open>The fill implements the intervals\<close>

lemma of_nat_window_eq:
  "i < 2 ^ 31 \<Longrightarrow> j < 2 ^ 31 \<Longrightarrow> (of_nat i = (of_nat j :: u32)) \<longleftrightarrow> i = j"
  by (simp add: word_of_nat_eq_iff take_bit_nat_eq_self)

lemma gap_at_nonempty:
  "x < y \<Longrightarrow> y < 2 ^ 31 \<Longrightarrow> sg_a (gap_at base (x, y)) \<noteq> 0 \<or> sg_b (gap_at base (x, y)) \<noteq> 0"
  using of_nat_window_eq [of x y] by (auto simp: gap_at_def) (metis add_left_cancel)

lemma gap_seek_at:
  assumes "gaps_ok n ps" "n < 2 ^ 31" "a < 2 ^ 31"
  shows "gap_seek (base + of_nat a) (map (gap_at base) ps @ replicate k no_gap) =
    length (takeWhile (\<lambda>p. a < fst p) ps)"
  using assms
proof (induction n ps rule: gaps_ok.induct)
  case (1 n)
  then show ?case by (cases k) (simp_all add: no_gap_def)
next
  case (2 n x y ps)
  have xy: "x < y" "y < 2 ^ 31" "x < 2 ^ 31" "gaps_ok x ps" using 2 by auto
  have "qfWrapCompare (base + of_nat a) (sg_a (gap_at base (x, y))) < 0 \<longleftrightarrow> a < x"
    using qfWrapCompare_window [of a x base] xy 2 by (auto simp: gap_at_def sgn_if)
  then show ?case using 2 xy gap_at_nonempty [of x y base] by simp
qed

lemma fill_ivs_skip: "\<forall>p \<in> set pre. a < fst p \<Longrightarrow> fill_ivs (pre @ ps) a b = pre @ fill_ivs ps a b"
  by (induction pre) auto

lemma fill_ivs_length: "length (fill_ivs ps a b) \<le> Suc (length ps)"
  by (induction ps a b rule: fill_ivs.induct) auto

definition set_ivs :: "u32 \<Rightarrow> (nat \<times> nat) list \<Rightarrow> qfSeq \<Rightarrow> qfSeq" where
  "set_ivs base ps qs = qs\<lparr>sq_gaps := map (gap_at base) ps @ replicate (QF_SEQGAP_CT - length ps) no_gap\<rparr>"

lemma set_ivs_same: "seq_rep base qs n ps \<Longrightarrow> set_ivs base ps qs = qs"
  by (simp add: set_ivs_def seq_rep_def)

lemma gap_split_at:
  assumes "sq_gaps qs = pre @ g # mid @ [no_gap]" and "length (sq_gaps qs) = QF_SEQGAP_CT"
  shows "gap_split qs (length pre) a b =
    qs\<lparr>sq_gaps := pre @ \<lparr>sg_a = b, sg_b = sg_b g\<rparr> # \<lparr>sg_a = sg_a g, sg_b = a\<rparr> # mid\<rparr>"
proof -
  have l: "length pre + length mid = 6" using assms by simp
  have last: "(pre @ g # mid @ [no_gap]) ! 7 = no_gap"
    using l nth_append_length [of "pre @ g # mid" no_gap "[]"] by simp
  have g: "g\<lparr>sg_a := u\<rparr> = \<lparr>sg_a = u, sg_b = sg_b g\<rparr>" "g\<lparr>sg_b := u\<rparr> = \<lparr>sg_a = sg_a g, sg_b = u\<rparr>" for u
    by (cases g; simp)+
  show ?thesis
    using l by (simp add: gap_split_def qfSeqGapUnshift_def assms(1) last g no_gap_def nth_append
        list_update_append butlast_append)
qed

lemma gap_fill_done: "gap_fill_loop qs a a r = (qs, r)"
  by (simp add: gap_fill_loop.simps)

lemma gap_fill_once:
  assumes "qfWrapCompare b a > 0" "gap_seek a (sq_gaps qs) = i" "i < length (sq_gaps qs)"
    and "\<not> qfSeqGapEmpty (sq_gaps qs) i" "\<not> qfWrapCompare a (sg_b (sq_gaps qs ! i)) > 0"
    and "\<not> qfWrapCompare a (sg_a (sq_gaps qs ! i)) < 0"
  defines "g \<equiv> sq_gaps qs ! i"
  defines "b' \<equiv> (if qfWrapCompare b (sg_b g) > 0 then sg_b g else b)"
  defines "r \<equiv> (if qfWrapCompare b (sg_b g) > 0 then 0 + (b - sg_b g) else 0)"
  shows "gap_fill_loop qs a b 0 =
    (if a = sg_a g \<and> b' = sg_b g then (qs\<lparr>sq_gaps := qfSeqGapShift (sq_gaps qs) i\<rparr>, r)
     else if b' = sg_b g then (qs\<lparr>sq_gaps := (sq_gaps qs)[i := g\<lparr>sg_b := a\<rparr>]\<rparr>, r)
     else if a = sg_a g then (qs\<lparr>sq_gaps := (sq_gaps qs)[i := g\<lparr>sg_a := b'\<rparr>]\<rparr>, r)
     else (gap_split qs i a b', r))"
  using assms(1-6) unfolding b'_def r_def g_def
  by (subst gap_fill_loop.simps) (simp add: Let_def gap_fill_done)

lemma gap_fill_above:
  assumes "qfWrapCompare b a > 0" "gap_seek a (sq_gaps qs) = i" "i < length (sq_gaps qs)"
    and "qfWrapCompare b (sg_b (sq_gaps qs ! i)) > 0" "qfWrapCompare a (sg_b (sq_gaps qs ! i)) > 0"
  shows "gap_fill_loop qs a b 0 = (qs, b - a)"
  using assms by (subst gap_fill_loop.simps) (simp add: Let_def)

text \<open>A segment that starts in a gap, in the four ways it can lie in it.\<close>

lemma gap_fill_in_gap:
  assumes rep: "seq_rep base qs n (pre @ (x, y) # post)" and room: "length (pre @ (x, y) # post) < QF_SEQGAP_CT"
    and pre: "\<forall>p \<in> set pre. a < fst p" and a: "x \<le> a" "a < y" and b: "a < b" "b < 2 ^ 31"
  shows "gap_fill_loop qs (base + of_nat a) (base + of_nat b) 0 =
    (set_ivs base (fill_ivs (pre @ (x, y) # post) a b) qs, of_nat (b - min b y))"
proof -
  let ?ps = "pre @ (x, y) # post" and ?R = "map (gap_at base) post" and ?b = "min b y"
  let ?a' = "base + of_nat a" and ?b' = "base + of_nat b"
  obtain k where k: "QF_SEQGAP_CT - length ?ps = Suc k" using room by (cases "QF_SEQGAP_CT - length ?ps") auto
  have gs: "sq_gaps qs = map (gap_at base) pre @ gap_at base (x, y) # (?R @ replicate k no_gap) @ [no_gap]"
    using rep k by (simp add: seq_rep_def replicate_append_same)
  have len: "length (sq_gaps qs) = QF_SEQGAP_CT" using rep by (simp add: seq_rep_def)
  have ok: "gaps_ok n ?ps" "n < 2 ^ 31" using rep by (simp_all add: seq_rep_def)
  have "y - 1 \<in> missing ?ps" using a by auto
  then have "y < n" using gaps_ok_touch [OF ok(1)] by force
  then have y: "y < 2 ^ 31" "x < y" using ok(2) a by simp_all
  have i: "gap_seek ?a' (sq_gaps qs) = length pre"
    using gap_seek_at [OF ok, of a base] pre a y rep takeWhile_append2 [of pre "\<lambda>p. a < fst p" "(x, y) # post"]
    by (simp add: seq_rep_def)
  have ne: "\<not> qfSeqGapEmpty (sq_gaps qs) (length pre)"
    using gap_at_nonempty [OF y(2,1), of base] by (simp add: gs nth_append qfSeqGapEmpty_def)
  have g: "sq_gaps qs ! length pre = gap_at base (x, y)" by (simp add: gs nth_append)
  have cmp: "qfWrapCompare ?b' ?a' > 0" "qfWrapCompare ?b' (base + of_nat y) > 0 \<longleftrightarrow> y < b"
    "\<not> qfWrapCompare ?a' (base + of_nat y) > 0" "\<not> qfWrapCompare ?a' (base + of_nat x) < 0"
    using qfWrapCompare_window [of _ _ base] a b y by (simp_all add: sgn_if)
  have eq: "(?a' = base + of_nat x) \<longleftrightarrow> a = x" "(base + of_nat ?b = base + of_nat y) \<longleftrightarrow> \<not> b < y"
    using of_nat_window_eq a b y by (auto simp: min_def)
  have b': "(if y < b then base + of_nat y else ?b') = base + of_nat ?b"
    "(if y < b then 0 + (?b' - (base + of_nat y)) else 0) = of_nat (b - ?b)"
    by (auto simp: min_def of_nat_diff)
  have fv: "fill_ivs ?ps a b = pre @ (if b < y then [(b, y)] else []) @ (if x < a then [(x, a)] else []) @ post"
    using pre a by (simp add: fill_ivs_skip)
  have sel: "sg_a (gap_at base (x, y)) = base + of_nat x" "sg_b (gap_at base (x, y)) = base + of_nat y"
    by (simp_all add: gap_at_def)
  have len8: "length pre < length (sq_gaps qs)" using len room by simp
  have body: "gap_fill_loop qs ?a' ?b' 0 =
     (if a = x \<and> \<not> b < y then (qs\<lparr>sq_gaps := qfSeqGapShift (sq_gaps qs) (length pre)\<rparr>, of_nat (b - ?b))
      else if \<not> b < y then (qs\<lparr>sq_gaps := (sq_gaps qs)[length pre := (gap_at base (x, y))\<lparr>sg_b := ?a'\<rparr>]\<rparr>, of_nat (b - ?b))
      else if a = x then (qs\<lparr>sq_gaps := (sq_gaps qs)[length pre := (gap_at base (x, y))\<lparr>sg_a := base + of_nat ?b\<rparr>]\<rparr>, of_nat (b - ?b))
      else (gap_split qs (length pre) ?a' (base + of_nat ?b), of_nat (b - ?b)))"
    using gap_fill_once [OF cmp(1) i len8 ne] cmp eq b' unfolding g sel by (simp only: simp_thms if_cancel)
  have k8: "QF_SEQGAP_CT - (length pre + length post) = Suc (Suc k)" using k by simp
  show ?thesis
    unfolding body fv set_ivs_def using a k k8
      gap_split_at [of qs "map (gap_at base) pre" "gap_at base (x, y)", OF gs len, of ?a' "base + of_nat ?b"]
    by (auto simp: gs qfSeqGapShift_def gap_at_def list_update_append replicate_append_same)
qed

text \<open>A segment that starts outside every gap is retransmitted and fills nothing.\<close>

lemma gap_fill_outside:
  assumes rep: "seq_rep base qs n ps" and a: "a \<notin> missing ps" and b: "a < b" "b < 2 ^ 31"
  shows "fill_ivs ps a b = ps"
    and "\<exists>r. r \<noteq> 0 \<and> gap_fill_loop qs (base + of_nat a) (base + of_nat b) 0 = (qs, r)"
proof -
  show "fill_ivs ps a b = ps" using a by (induction ps) auto
  have ok: "gaps_ok n ps" "n < 2 ^ 31" and len: "length (sq_gaps qs) = QF_SEQGAP_CT"
    using rep by (simp_all add: seq_rep_def)
  have a31: "a < 2 ^ 31" using b by simp
  let ?i = "length (takeWhile (\<lambda>p. a < fst p) ps)"
  have i: "gap_seek (base + of_nat a) (sq_gaps qs) = ?i"
    using gap_seek_at [OF ok a31] rep by (simp add: seq_rep_def)
  have ba: "qfWrapCompare (base + of_nat b) (base + of_nat a) > 0" "of_nat b \<noteq> (of_nat a :: u32)"
    using qfWrapCompare_window [of b a base] of_nat_window_eq [of b a] b by simp_all
  have ps: "takeWhile (\<lambda>p. a < fst p) ps @ dropWhile (\<lambda>p. a < fst p) ps = ps" by simp
  show "\<exists>r. r \<noteq> 0 \<and> gap_fill_loop qs (base + of_nat a) (base + of_nat b) 0 = (qs, r)"
  proof (cases "dropWhile (\<lambda>p. a < fst p) ps")
    case Nil
    then have "?i = length ps" using ps by (metis append_Nil2)
    then have "?i = length (sq_gaps qs) \<or> qfSeqGapEmpty (sq_gaps qs) ?i"
      using rep len by (auto simp: seq_rep_def qfSeqGapEmpty_def nth_append no_gap_def)
    then show ?thesis using ba i by (subst gap_fill_loop.simps) (simp add: Let_def)
  next
    case (Cons p post)
    obtain x y where p: "p = (x, y)" by (cases p)
    have xa: "x \<le> a" using Cons p hd_dropWhile [of "\<lambda>p. a < fst p" ps] by auto
    have spl: "ps = takeWhile (\<lambda>p. a < fst p) ps @ (x, y) # post" using ps Cons p by simp
    have ya: "y \<le> a" using a xa by (subst (asm) spl) auto
    have "(x, y) \<in> set ps" by (subst spl) simp
    from gaps_ok_member [OF ok(1) this] have y: "x < y" "y < 2 ^ 31" using ok(2) by simp_all
    have g: "sq_gaps qs ! ?i = gap_at base (x, y)"
      using rep by (simp add: seq_rep_def) (subst spl, simp add: nth_append)
    have sel: "sg_a (gap_at base (x, y)) = base + of_nat x" "sg_b (gap_at base (x, y)) = base + of_nat y"
      by (simp_all add: gap_at_def)
    have ne: "\<not> qfSeqGapEmpty (sq_gaps qs) ?i"
      using gap_at_nonempty [OF y, of base] g by (simp add: qfSeqGapEmpty_def)
    have cmp: "qfWrapCompare (base + of_nat b) (base + of_nat y) > 0"
      "qfWrapCompare (base + of_nat a) (base + of_nat y) > 0 \<longleftrightarrow> y < a"
      "\<not> qfWrapCompare (base + of_nat a) (base + of_nat x) < 0"
      using qfWrapCompare_window [of _ _ base] y b ya xa by (simp_all add: sgn_if)
    have "of_nat a \<noteq> (of_nat x :: u32)" using of_nat_window_eq [of a x] ya y b by simp
    moreover have "?i < length (sq_gaps qs)"
      using rep arg_cong [OF spl, of length] by (simp add: seq_rep_def)
    moreover have "y = a \<Longrightarrow> (sq_gaps qs)[?i := (gap_at base (x, y))\<lparr>sg_b := base + of_nat a\<rparr>] = sq_gaps qs"
      using g list_update_id [of "sq_gaps qs" ?i] by (simp add: gap_at_def)
    ultimately show ?thesis
      using ba i ne cmp ya gap_fill_once [of "base + of_nat b" "base + of_nat a" qs ?i]
        gap_fill_above [of "base + of_nat b" "base + of_nat a" qs ?i]
      by (cases "y < a") (auto simp: g gap_at_def)
  qed
qed

lemma seq_rep_set_ivs:
  "seq_rep base qs n ps \<Longrightarrow> gaps_ok n ps' \<Longrightarrow> length ps' \<le> QF_SEQGAP_CT \<Longrightarrow> seq_rep base (set_ivs base ps' qs) n ps'"
  by (simp add: seq_rep_def set_ivs_def)

lemma qfSeqGapFill_rep:
  assumes rep: "seq_rep base qs n ps" and room: "length ps < QF_SEQGAP_CT" and b: "a < b" "b < 2 ^ 31"
  shows "qfSeqGapFill qs (base + of_nat a) (base + of_nat b) =
    (let rtx = \<not> {a..<b} \<subseteq> missing ps
     in ((set_ivs base (fill_ivs ps a b) qs)\<lparr>sq_rtx := sq_rtx qs + of_bool rtx\<rparr>, rtx))"
proof (cases "a \<in> missing ps")
  case True
  then obtain x y where xy: "(x, y) \<in> set ps" "x \<le> a" "a < y" by (auto simp: missing_def)
  have ok: "gaps_ok n ps" using rep by (simp add: seq_rep_def)
  obtain pre post where ps: "ps = pre @ (x, y) # post" using xy(1) by (meson split_list)
  have pre: "\<forall>p \<in> set pre. a < fst p"
    using gaps_ok_prefix [of n pre x y post] ok ps xy(3) by fastforce
  have y: "y < 2 ^ 31" using gaps_ok_member [OF ok xy(1)] rep by (simp add: seq_rep_def)
  have "{a..<b} \<subseteq> missing ps \<longleftrightarrow> b \<le> y"
  proof
    assume s: "{a..<b} \<subseteq> missing ps"
    show "b \<le> y"
    proof (rule ccontr)
      assume "\<not> b \<le> y"
      then have "y \<in> missing ps" using s xy by auto
      then show False using gaps_ok_edge [OF ok xy(1)] by simp
    qed
  next
    assume "b \<le> y"
    then show "{a..<b} \<subseteq> missing ps" using xy by (auto simp: missing_def intro!: bexI [of _ "(x, y)"])
  qed
  moreover have "of_nat (b - min b y) = (0 :: u32) \<longleftrightarrow> b \<le> y"
    using of_nat_window_eq [of "b - min b y" 0] b by (auto simp: min_def)
  moreover have "gap_fill_loop qs (base + of_nat a) (base + of_nat b) 0 =
    (set_ivs base (fill_ivs ps a b) qs, of_nat (b - min b y))"
    using gap_fill_in_gap [of base qs n pre x y post a b] rep room pre xy b unfolding ps by simp
  ultimately show ?thesis by (simp add: qfSeqGapFill_def Let_def set_ivs_def)
next
  case False
  then have "\<not> {a..<b} \<subseteq> missing ps" using b by auto
  moreover obtain r where "r \<noteq> 0" "gap_fill_loop qs (base + of_nat a) (base + of_nat b) 0 = (qs, r)"
    using gap_fill_outside(2) [OF rep False b] by auto
  ultimately show ?thesis
    using gap_fill_outside(1) [OF rep False b] set_ivs_same [OF rep] by (simp add: qfSeqGapFill_def Let_def)
qed

subsection \<open>Segments on sets of octets\<close>

text \<open>What the tracker does on sets, for a segment of \<open>l\<close> octets at offset \<open>s\<close>: the next expected
  offset, the octets it keeps as missing, and the number of retransmissions it has counted. An out-of-order
  segment takes out the run of missing octets it starts with.\<close>

definition kept_seg :: "nat \<times> nat set \<times> nat \<Rightarrow> nat \<times> nat \<times> 'e \<Rightarrow> nat \<times> nat set \<times> nat" where
  "kept_seg st sg = (case (st, sg) of ((n, M, r), (s, l, _)) \<Rightarrow>
     if l = 0 then (n, M, r)
     else if s < n
     then (n, M - {u \<in> {s..<s + l}. {s..u} \<subseteq> M}, r + of_bool (\<not> {s..<s + l} \<subseteq> M))
     else (s + l, M \<union> {n..<s}, r))"

type_synonym seg_env = "qfRtt \<times> u16 \<times> u8 \<times> u32 \<times> u32 \<times> bool \<times> bool"

definition seq_feed :: "u32 \<Rightarrow> qfSeq \<Rightarrow> nat \<times> nat \<times> seg_env \<Rightarrow> qfSeq" where
  "seq_feed base qs sg = (case sg of (s, l, rtt, mss, flags, ms, tsval, do_ts, do_iat) \<Rightarrow>
     fst (qfSeqSegment qs rtt mss flags (base + of_nat s) (of_nat l) ms tsval do_ts do_iat))"

definition seq_meets :: "u32 \<Rightarrow> qfSeq \<Rightarrow> nat \<times> nat set \<times> nat \<Rightarrow> bool" where
  "seq_meets base qs st \<longleftrightarrow> (case st of (n, M, r) \<Rightarrow>
     (\<exists>ps. seq_rep base qs n ps \<and> missing ps = M) \<and> sq_seqlost qs = 0 \<and> sq_rtx qs = of_nat r)"

lemma qfCountLoss_fields [simp]:
  "sq_gaps (qfCountLoss qs rtt ms) = sq_gaps qs" "sq_nsn (qfCountLoss qs rtt ms) = sq_nsn qs"
  "sq_seqlost (qfCountLoss qs rtt ms) = sq_seqlost qs" "sq_rtx (qfCountLoss qs rtt ms) = sq_rtx qs"
  by (simp_all add: qfCountLoss_def)

lemma qfSeqGapPush_fields [simp]:
  "sq_nsn (qfSeqGapPush qs a b mss) = sq_nsn qs" "sq_rtx (qfSeqGapPush qs a b mss) = sq_rtx qs"
  by (simp_all add: qfSeqGapPush_def qfSeqGapUnshift_def Let_def)

lemma seq_iat_fields [simp]:
  "sq_gaps (seq_iat qs l ms ts d) = sq_gaps qs" "sq_nsn (seq_iat qs l ms ts d) = sq_nsn qs"
  "sq_seqlost (seq_iat qs l ms ts d) = sq_seqlost qs" "sq_rtx (seq_iat qs l ms ts d) = sq_rtx qs"
  by (simp_all add: seq_iat_def Let_def)

lemma seq_advance_fields:
  fixes qs :: qfSeq and seq mss
  defines "q \<equiv> (if seq \<noteq> sq_nsn qs then qfSeqGapPush qs (sq_nsn qs) seq mss else qs)"
  shows "sq_gaps (seq_advance qs rtt mss seq oct ms ts d i) = sq_gaps q"
    and "sq_nsn (seq_advance qs rtt mss seq oct ms ts d i) = seq + oct"
    and "sq_seqlost (seq_advance qs rtt mss seq oct ms ts d i) = sq_seqlost q"
    and "sq_rtx (seq_advance qs rtt mss seq oct ms ts d i) = sq_rtx qs"
  by (simp_all add: seq_advance_def q_def Let_def)

lemma seq_rep_room:
  assumes "seq_rep base qs n ps" and "qfSeqGapEmpty (sq_gaps qs) (QF_SEQGAP_CT - 1)"
  shows "length ps < QF_SEQGAP_CT"
proof (rule ccontr)
  assume "\<not> length ps < QF_SEQGAP_CT"
  then have l: "length ps = QF_SEQGAP_CT" using assms(1) by (simp add: seq_rep_def)
  obtain x y where xy: "ps ! 7 = (x, y)" by (cases "ps ! 7")
  have "(x, y) \<in> set ps" using l xy nth_mem [of 7 ps] by simp
  then have "x < y" "y < 2 ^ 31" using assms(1) gaps_ok_member [of n ps x y] by (auto simp: seq_rep_def)
  then have "sg_a (gap_at base (x, y)) \<noteq> 0 \<or> sg_b (gap_at base (x, y)) \<noteq> 0" by (rule gap_at_nonempty)
  then show False using assms l xy by (auto simp: seq_rep_def qfSeqGapEmpty_def nth_append)
qed

lemma push_cell: "sg \<noteq> [] \<Longrightarrow> (take (Suc 0) sg @ butlast sg)[0 := v] = v # butlast sg"
  by (cases sg) simp_all

lemma qfSeqGapPush_rep:
  assumes rep: "seq_rep base qs n ps" and room: "length ps < QF_SEQGAP_CT" and s: "n < s" "s < 2 ^ 31"
  shows "sq_gaps (qfSeqGapPush qs (base + of_nat n) (base + of_nat s) mss) =
      map (gap_at base) ((n, s) # ps) @ replicate (QF_SEQGAP_CT - length ((n, s) # ps)) no_gap"
    and "sq_seqlost (qfSeqGapPush qs (base + of_nat n) (base + of_nat s) mss) = sq_seqlost qs"
proof -
  obtain k where k: "QF_SEQGAP_CT - length ps = Suc k" using room by (cases "QF_SEQGAP_CT - length ps") auto
  have gs: "sq_gaps qs = map (gap_at base) ps @ replicate k no_gap @ [no_gap]"
    using rep k by (simp add: seq_rep_def replicate_append_same)
  have len: "length ps + k = 7" using k room by simp
  have last: "sq_gaps qs ! 7 = no_gap"
    using nth_append_length [of "map (gap_at base) ps @ replicate k no_gap" no_gap "[]"] len gs by simp
  have new: "\<not> (\<not> qfSeqGapEmpty (sq_gaps qs) 0 \<and> base + of_nat n = sg_a (sq_gaps qs ! 0))"
  proof (cases ps)
    case Nil
    then show ?thesis using rep by (simp add: seq_rep_def qfSeqGapEmpty_def no_gap_def)
  next
    case (Cons p ps')
    obtain x y where "p = (x, y)" by (cases p)
    then have "sg_a (sq_gaps qs ! 0) = base + of_nat x" "x < n" "n < 2 ^ 31"
      using rep Cons by (auto simp: seq_rep_def gap_at_def)
    then show ?thesis using of_nat_window_eq [of n x] by simp
  qed
  have "sq_gaps qs \<noteq> []" using gs by simp
  note cell = push_cell [OF this]
  have push: "sq_gaps (qfSeqGapPush qs (base + of_nat n) (base + of_nat s) mss) =
      \<lparr>sg_a = base + of_nat n, sg_b = base + of_nat s\<rparr> # butlast (sq_gaps qs)"
    "sq_seqlost (qfSeqGapPush qs (base + of_nat n) (base + of_nat s) mss) =
      sq_seqlost qs + (sg_b no_gap - sg_a no_gap)"
    using new last by (auto simp: qfSeqGapPush_def qfSeqGapUnshift_def Let_def cell)
  have k7: "k = 7 - length ps" using len by simp
  show "sq_gaps (qfSeqGapPush qs (base + of_nat n) (base + of_nat s) mss) =
      map (gap_at base) ((n, s) # ps) @ replicate (QF_SEQGAP_CT - length ((n, s) # ps)) no_gap"
    unfolding push gs k7 by (simp add: butlast_append gap_at_def)
  show "sq_seqlost (qfSeqGapPush qs (base + of_nat n) (base + of_nat s) mss) = sq_seqlost qs"
    unfolding push by (simp add: no_gap_def)
qed

lemma seq_feed_fill:
  assumes m: "seq_meets base qs (n, M, r)" and room: "qfSeqGapEmpty (sq_gaps qs) (QF_SEQGAP_CT - 1)"
    and s: "s < n" "0 < l" "s + l < 2 ^ 31"
  shows "seq_meets base (seq_feed base qs (s, l, env)) (kept_seg (n, M, r) (s, l, env))"
proof -
  obtain ps where rep: "seq_rep base qs n ps" and M: "missing ps = M" and z: "sq_seqlost qs = 0"
    and r: "sq_rtx qs = of_nat r" using m by (auto simp: seq_meets_def)
  have len: "length ps < QF_SEQGAP_CT" using seq_rep_room [OF rep room] .
  have n: "n < 2 ^ 31" "sq_nsn qs = base + of_nat n" "gaps_ok n ps" using rep by (simp_all add: seq_rep_def)
  obtain rtt mss flags ms tsval do_ts do_iat where env: "env = (rtt, mss, flags, ms, tsval, do_ts, do_iat)"
    by (cases env) auto
  have l: "of_nat l \<noteq> (0 :: u32)" using of_nat_window_eq [of l 0] s by simp
  have c: "qfWrapCompare (base + of_nat s) (sq_nsn qs) < 0"
    using qfWrapCompare_window [of s n base] s n by (simp add: sgn_if)
  let ?q = "if sq_maxooo qs < base + of_nat s - sq_nsn qs then qs\<lparr>sq_maxooo := base + of_nat s - sq_nsn qs\<rparr> else qs"
  let ?q' = "set_ivs base (fill_ivs ps s (s + l)) ?q"
  have repq: "seq_rep base ?q n ps" using rep by (simp add: seq_rep_def)
  have e: "base + of_nat s + of_nat l = base + of_nat (s + l)" by simp
  have f: "qfSeqGapFill ?q (base + of_nat s) (base + of_nat s + of_nat l) =
      (let rtx = \<not> {s..<s + l} \<subseteq> M in (?q'\<lparr>sq_rtx := sq_rtx ?q + of_bool rtx\<rparr>, rtx))"
    unfolding e using qfSeqGapFill_rep [OF repq len, of s "s + l"] s M by simp
  have gok: "gaps_ok n (fill_ivs ps s (s + l))" "length (fill_ivs ps s (s + l)) \<le> QF_SEQGAP_CT"
    using gaps_ok_fill [OF n(3), of s "s + l"] fill_ivs_length [of ps s "s + l"] len s by auto
  have "seq_rep base ?q' n (fill_ivs ps s (s + l))" by (rule seq_rep_set_ivs [OF repq gok])
  then have rep': "seq_rep base (seq_feed base qs (s, l, env)) n (fill_ivs ps s (s + l))"
    using l c f by (simp add: seq_feed_def env qfSeqSegment_def Let_def seq_rep_def split: if_splits)
  have flds: "sq_seqlost (seq_feed base qs (s, l, env)) = 0"
    "sq_rtx (seq_feed base qs (s, l, env)) = of_nat r + of_bool (\<not> {s..<s + l} \<subseteq> M)"
    using l c f z r by (simp_all add: seq_feed_def env qfSeqSegment_def Let_def set_ivs_def)
  show ?thesis using rep' flds missing_fill [OF n(3), of s "s + l"] s M
    by (auto simp: seq_meets_def kept_seg_def)
qed

lemma seq_feed_advance:
  assumes m: "seq_meets base qs (n, M, r)" and room: "qfSeqGapEmpty (sq_gaps qs) (QF_SEQGAP_CT - 1)"
    and s: "n \<le> s" "0 < l" "s + l < 2 ^ 31"
  shows "seq_meets base (seq_feed base qs (s, l, env)) (kept_seg (n, M, r) (s, l, env))"
proof -
  obtain ps where rep: "seq_rep base qs n ps" and M: "missing ps = M" and z: "sq_seqlost qs = 0"
    and r: "sq_rtx qs = of_nat r" using m by (auto simp: seq_meets_def)
  have len: "length ps < QF_SEQGAP_CT" using seq_rep_room [OF rep room] .
  have n: "n < 2 ^ 31" "sq_nsn qs = base + of_nat n" "gaps_ok n ps" using rep by (simp_all add: seq_rep_def)
  obtain rtt mss flags ms tsval do_ts do_iat where env: "env = (rtt, mss, flags, ms, tsval, do_ts, do_iat)"
    by (cases env) auto
  have l: "of_nat l \<noteq> (0 :: u32)" using of_nat_window_eq [of l 0] s by simp
  have c: "\<not> qfWrapCompare (base + of_nat s) (sq_nsn qs) < 0"
    using qfWrapCompare_window [of s n base] s n by (simp add: sgn_if)
  have sn: "(base + of_nat s = sq_nsn qs) \<longleftrightarrow> s = n" using of_nat_window_eq [of s n] s n by simp
  define ps' where "ps' = (if s = n then ps else (n, s) # ps)"
  have f: "seq_feed base qs (s, l, env) =
      seq_advance qs rtt mss (base + of_nat s) (of_nat l) ms tsval do_ts do_iat"
    using l c by (simp add: seq_feed_def env qfSeqSegment_def)
  have flds: "sq_gaps (seq_feed base qs (s, l, env)) =
      map (gap_at base) ps' @ replicate (QF_SEQGAP_CT - length ps') no_gap"
    "sq_seqlost (seq_feed base qs (s, l, env)) = 0"
    using qfSeqGapPush_rep [OF rep len, of s mss] rep sn n(2) z s
    unfolding f seq_advance_fields by (auto simp: ps'_def seq_rep_def)
  have "sq_nsn (seq_feed base qs (s, l, env)) = base + of_nat (s + l)"
    "sq_rtx (seq_feed base qs (s, l, env)) = of_nat r"
    unfolding f seq_advance_fields using r by simp_all
  moreover have "gaps_ok (s + l) ps'" "length ps' \<le> QF_SEQGAP_CT"
    using n(3) s len gaps_ok_mono [of n ps "s + l"] by (auto simp: ps'_def)
  moreover have "missing ps' = M \<union> {n..<s}" using M by (auto simp: ps'_def)
  ultimately show ?thesis using flds s
    by (auto simp: seq_meets_def kept_seg_def seq_rep_def intro!: exI [of _ ps'])
qed

lemma seq_feed_meets:
  assumes "seq_meets base qs st" and "qfSeqGapEmpty (sq_gaps qs) (QF_SEQGAP_CT - 1)" and "s + l < 2 ^ 31"
  shows "seq_meets base (seq_feed base qs (s, l, env)) (kept_seg st (s, l, env))"
proof -
  obtain n M r where st: "st = (n, M, r)" by (cases st)
  obtain rtt mss flags ms tsval do_ts do_iat where env: "env = (rtt, mss, flags, ms, tsval, do_ts, do_iat)"
    by (cases env) auto
  consider "l = 0" | "0 < l" "s < n" | "0 < l" "n \<le> s" by linarith
  then show ?thesis
  proof cases
    case 1
    then show ?thesis using assms(1) by (simp add: env seq_feed_def qfSeqSegment_def kept_seg_def st)
  next
    case 2
    then show ?thesis using seq_feed_fill assms unfolding st by blast
  next
    case 3
    then show ?thesis using seq_feed_advance assms unfolding st by blast
  qed
qed

lemma count_gaps_at:
  assumes "gaps_ok n ps" "n < 2 ^ 31"
  shows "count_gaps (map (gap_at base) ps @ replicate k no_gap) lost =
    (replicate (length ps + k) no_gap, lost + of_nat (\<Sum>(x, y) \<leftarrow> ps. y - x))"
  using assms
proof (induction n ps arbitrary: lost rule: gaps_ok.induct)
  case (1 n)
  show ?case by (cases k) (simp_all add: no_gap_def)
next
  case (2 n x y ps)
  have xy: "x < y" "y < 2 ^ 31" "x < 2 ^ 31" "gaps_ok x ps" using 2 by auto
  have d: "sg_b (gap_at base (x, y)) - sg_a (gap_at base (x, y)) = of_nat (y - x)"
    using xy by (simp add: gap_at_def of_nat_diff)
  show ?case using 2(1) [of "lost + of_nat (y - x)"] xy gap_at_nonempty [OF xy(1,2), of base]
    by (simp add: d add.assoc)
qed

subsection \<open>Properties\<close>

text \<open>The last cell is free before every segment: the gap stack never overflows.\<close>

fun seq_room :: "u32 \<Rightarrow> qfSeq \<Rightarrow> (nat \<times> nat \<times> seg_env) list \<Rightarrow> bool" where
  "seq_room base qs [] = True"
| "seq_room base qs (sg # sgs) =
     (qfSeqGapEmpty (sq_gaps qs) (QF_SEQGAP_CT - 1) \<and> seq_room base (seq_feed base qs sg) sgs)"

lemma seq_feeds_meet:
  assumes "seq_meets base qs st" and "seq_room base qs sgs" and "\<forall>(s, l, e) \<in> set sgs. s + l < 2 ^ 31"
  shows "seq_meets base (foldl (seq_feed base) qs sgs) (foldl kept_seg st sgs)"
  using assms
proof (induction sgs arbitrary: qs st)
  case (Cons sg sgs)
  obtain s l e where sg: "sg = (s, l, e)" by (cases sg)
  have "seq_meets base (seq_feed base qs sg) (kept_seg st sg)"
    unfolding sg using Cons.prems sg by (intro seq_feed_meets) auto
  then show ?case using Cons.IH [of "seq_feed base qs sg" "kept_seg st sg"] Cons.prems by simp
qed simp

lemma seq_tracks_kept:
  assumes "n0 = l0 + (if has_flag flags YF_TF_SYN then 1 else 0)" and "n0 < 2 ^ 31"
    and "\<forall>(s, l, e) \<in> set sgs. s + l < 2 ^ 31"
    and "seq_room base (qfSeqFirstSegment zero_seq flags base (of_nat l0) ms tsval do_ts) sgs"
    and "foldl kept_seg (n0, {}, 0) sgs = (n, M, r)"
  defines "qs \<equiv> foldl (seq_feed base) (qfSeqFirstSegment zero_seq flags base (of_nat l0) ms tsval do_ts) sgs"
  shows "sq_nsn qs = base + of_nat n \<and> snd (qfSeqCountLost qs) = of_nat (card M) \<and> sq_rtx qs = of_nat r \<and>
    finite M \<and> card M < 2 ^ 32"
proof -
  let ?q0 = "qfSeqFirstSegment zero_seq flags base (of_nat l0) ms tsval do_ts"
  have "seq_rep base ?q0 n0 []"
    using assms(1,2) by (simp add: seq_rep_def qfSeqFirstSegment_def zero_seq_def Let_def)
  then have "seq_meets base ?q0 (n0, {}, 0)"
    by (auto simp: seq_meets_def qfSeqFirstSegment_def zero_seq_def Let_def intro!: exI [of _ "[]"])
  from seq_feeds_meet [OF this assms(4,3)] have "seq_meets base qs (n, M, r)" unfolding assms(5) qs_def .
  then obtain ps where ps: "seq_rep base qs n ps" "missing ps = M" "sq_seqlost qs = 0" "sq_rtx qs = of_nat r"
    by (auto simp: seq_meets_def)
  have "M \<subseteq> {..<n}" using ps gaps_ok_below [of n ps] by (auto simp: seq_rep_def)
  then have "card M \<le> n" using card_mono [of "{..<n}" M] by simp
  then show ?thesis
    using ps count_gaps_at [of n ps base "QF_SEQGAP_CT - length ps" 0] card_missing [of n ps]
    by (auto simp: qfSeqCountLost_def seq_rep_def)
qed

text \<open>The true account of a stream: the octets skipped and never seen, every octet of a segment being seen,
  and the segments below the next expected offset that carried an octet seen before. A stream whose retransmissions
  start where something is missing is one in which no segment brings a missing octet behind one already seen.\<close>

definition spec_seg :: "nat \<times> nat set \<times> nat \<Rightarrow> nat \<times> nat \<times> 'e \<Rightarrow> nat \<times> nat set \<times> nat" where
  "spec_seg st sg = (case (st, sg) of ((n, M, r), (s, l, _)) \<Rightarrow>
     if l = 0 then (n, M, r)
     else if s < n then (n, M - {s..<s + l}, r + of_bool (\<not> {s..<s + l} \<subseteq> M))
     else (s + l, M \<union> {n..<s}, r))"

fun starts_missing :: "nat \<times> nat set \<times> nat \<Rightarrow> (nat \<times> nat \<times> 'e) list \<Rightarrow> bool" where
  "starts_missing st [] = True"
| "starts_missing st (sg # sgs) =
     ((case (st, sg) of ((n, M, r), (s, l, _)) \<Rightarrow> s < n \<longrightarrow> (\<forall>u \<in> {s..<s + l} \<inter> M. {s..u} \<subseteq> M)) \<and>
      starts_missing (spec_seg st sg) sgs)"

text \<open>What the tracker keeps contains what is truly missing, and is the same when every fill starts in a gap.\<close>

lemma kept_above_spec:
  assumes "foldl kept_seg (n, M, r) sgs = (n1, M1, r1)" and "foldl spec_seg (n, N, q) sgs = (n2, M2, r2)"
    and "N \<subseteq> M" and "r \<le> q"
  shows "n1 = n2 \<and> M2 \<subseteq> M1 \<and> r1 \<le> r2"
  using assms
proof (induction sgs arbitrary: n M r N q)
  case (Cons sg sgs)
  obtain s l e where sg: "sg = (s, l, e)" by (cases sg)
  obtain n' M' r' where k: "kept_seg (n, M, r) sg = (n', M', r')" by (rule prod_cases3)
  obtain n'' N' q' where t: "spec_seg (n, N, q) sg = (n'', N', q')" by (rule prod_cases3)
  have "{s..<s + l} \<subseteq> N \<longrightarrow> {s..<s + l} \<subseteq> M" using Cons.prems(3) by blast
  then have "of_bool (\<not> {s..<s + l} \<subseteq> M) \<le> (of_bool (\<not> {s..<s + l} \<subseteq> N) :: nat)" by auto
  from add_mono [OF Cons.prems(4) this] have "r' \<le> q'"
    using k t Cons.prems(4) unfolding kept_seg_def spec_seg_def sg prod.case by (simp only: prod.inject split: if_splits) simp_all
  moreover have "n'' = n'" "N' \<subseteq> M'"
    using k t Cons.prems(3) by (auto simp: kept_seg_def spec_seg_def sg split: if_splits)
  ultimately show ?case using Cons.IH [of n' M' r' N' q'] Cons.prems(1,2) k t by simp
qed simp

lemma kept_is_spec: "starts_missing st sgs \<Longrightarrow> foldl kept_seg st sgs = foldl spec_seg st sgs"
proof (induction sgs arbitrary: st)
  case (Cons sg sgs)
  obtain n M r where st: "st = (n, M, r)" by (cases st)
  obtain s l e where sg: "sg = (s, l, e)" by (cases sg)
  have "{u \<in> {s..<s + l}. {s..u} \<subseteq> M} = {s..<s + l} \<inter> M" if "s < n"
    using Cons.prems that by (auto simp: st sg)
  then have "kept_seg st sg = spec_seg st sg" by (auto simp: kept_seg_def spec_seg_def st sg)
  then show ?case using Cons by simp
qed simp


definition ex_env :: seg_env where
  "ex_env = (zero_rtt, 1460, 0, 0, 0, False, False)"


subsection \<open>Where the counters say something else\<close>

text \<open>An out-of-order segment compares \<open>seq - nsn\<close>, which is negative and so at least
  \<open>2\<^sup>3\<^sup>1\<close> as an unsigned number: the maximum inversion is out of any sensible range after
  the first one.\<close>

lemma maxooo_after_fill:
  assumes "oct \<noteq> 0" and "qfWrapCompare seq (sq_nsn qs) < 0"
  shows "2 ^ 31 \<le> unat (sq_maxooo (fst (qfSeqSegment qs rtt mss flags seq oct ms tsval do_ts do_iat)))"
proof -
  let ?q = "if sq_maxooo qs < seq - sq_nsn qs then qs\<lparr>sq_maxooo := seq - sq_nsn qs\<rparr> else qs"
  have loop: "sq_maxooo (fst (gap_fill_loop q a b r)) = sq_maxooo q" for q a b r
  proof -
    have sp: "sq_maxooo (gap_split q i u v) = sq_maxooo q" for i u v
      by (simp add: gap_split_def qfSeqGapUnshift_def Let_def)
    show ?thesis by (subst gap_fill_loop.simps) (simp add: Let_def sp gap_fill_done)
  qed
  have fill: "sq_maxooo (fst (qfSeqGapFill q a b)) = sq_maxooo q" for q a b
    using loop [of q a b 0] by (auto simp: qfSeqGapFill_def split: prod.splits)
  have cl: "sq_maxooo (qfCountLoss q r m) = sq_maxooo q" for q r m by (simp add: qfCountLoss_def)
  obtain q' rtx where q': "qfSeqGapFill ?q seq (seq + oct) = (q', rtx)"
    by (cases "qfSeqGapFill ?q seq (seq + oct)")
  have "sq_maxooo (fst (qfSeqSegment qs rtt mss flags seq oct ms tsval do_ts do_iat)) = sq_maxooo q'"
    unfolding qfSeqSegment_def Let_def q' using assms by (simp add: cl)
  also have "\<dots> = sq_maxooo ?q" using fill [of ?q seq "seq + oct"] unfolding q' by simp
  finally have "sq_maxooo (fst (qfSeqSegment qs rtt mss flags seq oct ms tsval do_ts do_iat)) = sq_maxooo ?q" .
  moreover have "2 ^ 31 \<le> unat (seq - sq_nsn qs)" using assms(2) by (simp add: qfWrapCompare_lt)
  ultimately show ?thesis by (auto simp: word_less_nat_alt)
qed

text \<open>The timestamp of the advance is saved before the interdeparture time is computed from it,
  so that time is always zero and the variation samples are the interarrival times.\<close>

lemma idt_is_zero:
  assumes "sq_advtsval qs = tsval"
  shows "sq_seg_variat (seq_iat qs lastms ms tsval do_ts) =
    (if do_ts \<and> tsval \<noteq> 0 \<and> qfTimestampHz qs \<noteq> 0
     then sstMeanAdd (sq_seg_variat qs) (ms - lastms) else sq_seg_variat qs)"
  using assms by (simp add: seq_iat_def qfTimestampHz_def Let_def)

text \<open>Splitting the gap in the last cell writes past the array, into the counter of the
  interarrival statistics, and loses the lower half.\<close>

lemma gap_split_last_cell:
  assumes "length (sq_gaps qs) = QF_SEQGAP_CT"
  shows "sm_n (sq_seg_iat (gap_split qs 7 a b)) = a"
  using assms by (simp add: gap_split_def qfSeqGapUnshift_def Let_def)

text \<open>A segment over the start of a gap, or over two gaps, does not fill what it carries.\<close>

lemma fill_misses_overlap: "fill_ivs [(100, 200)] 50 150 = [(100, 200)]"
  by simp

end
