(* ===== verification/FlowTab.thy ===== *)
theory FlowTab
  imports PicQ FlowKey TcpSeq "HOL-Library.Monad_Syntax"
begin

text \<open>
  The flow table of \<open>src/yaftab.c\<close>: its structures and every operation on them. A flow node
  is an address; the record \<open>yfFlowTab\<close> holds, beside the fields of the C structure, the
  memory the table owns: the contents of the nodes, their queue links, the next address the
  allocator returns and the log of the addresses freed. The configuration fields of the C
  structure are grouped in \<open>flow_conf\<close> and its statistics in \<open>yfFlowTabStats\<close>.

  The hash table is a parameter (\<open>ops\<close>, see theory \<open>GHash\<close>) and so is the record writer
  (\<open>wr\<close>: what \<open>yfWriteFlow\<close> does with a flow). \<open>None\<close> is an abort: a failed
  assertion of the queue or a null pointer dereference. A pointer to one of the two values of a
  flow is the Boolean \<open>rev\<close>.
\<close>

record qfTcpVal =
  tv_seq :: qfSeq
  tv_ack :: qfAck
  tv_rwin :: qfRwin
  tv_opts :: qfOpt

record yfFlowVal =
  fv_tcp :: "qfTcpVal option"
  fv_oct :: u64
  fv_appoct :: u64
  fv_pkt :: u64
  fv_apppkt :: u64
  fv_minttl :: u8
  fv_maxttl :: u8
  fv_iflags :: u8
  fv_uflags :: u8
  fv_netIf :: u8

record yfFlow =
  f_fid :: u64
  f_stime :: u64
  f_etime :: u64
  f_rdtime :: i32
  f_reason :: u8
  f_sourceMacAddr :: "u8 list"
  f_destinationMacAddr :: "u8 list"
  f_val :: yfFlowVal
  f_rval :: yfFlowVal
  f_rtt :: qfRtt
  f_key :: yfFlowKey

record yfFlowNode =
  fn_state :: u32
  fn_f :: yfFlow

record yfFlowTabStats =
  stat_octets :: u64
  stat_packets :: u64
  stat_seqrej :: u64
  stat_flows :: u64
  stat_uniflows :: u64
  stat_peak :: u32
  stat_flush :: u32

record flow_conf =
  idle_ms :: u64
  active_ms :: u64
  max_flows :: u32
  uniflow :: bool
  silkmode :: bool
  macmode :: bool
  tcp_seq_enable :: bool
  tcp_ack_enable :: bool
  tcp_rtt_enable :: bool
  tcp_rwin_enable :: bool
  tcp_opt_enable :: bool
  tcp_ts_enable :: bool
  tcp_iat_enable :: bool

record 't yfFlowTab =
  ft_next_fid :: u64
  ft_ctime :: u64
  ft_flushtime :: u64
  ft_table :: 't
  ft_aq :: PicQ
  ft_cq :: PicQ
  ft_count :: u32
  ft_cq_count :: u32
  ft_conf :: flow_conf
  ft_stats :: yfFlowTabStats
  ft_nodes :: "addr \<Rightarrow> yfFlowNode"
  ft_links :: links
  ft_brk :: addr
  ft_freed :: "addr list"

abbreviation YAF_STATE_RST :: u32 where "YAF_STATE_RST \<equiv> 0x01"
abbreviation YAF_STATE_FFIN :: u32 where "YAF_STATE_FFIN \<equiv> 0x10"
abbreviation YAF_STATE_RFIN :: u32 where "YAF_STATE_RFIN \<equiv> 0x20"
abbreviation YAF_STATE_FFINACK :: u32 where "YAF_STATE_FFINACK \<equiv> 0x40"
abbreviation YAF_STATE_RFINACK :: u32 where "YAF_STATE_RFINACK \<equiv> 0x80"
abbreviation YAF_STATE_FIN :: u32 where "YAF_STATE_FIN \<equiv> 0xF0"

abbreviation YAF_END_IDLE :: u8 where "YAF_END_IDLE \<equiv> 1"
abbreviation YAF_END_ACTIVE :: u8 where "YAF_END_ACTIVE \<equiv> 2"
abbreviation YAF_END_CLOSED :: u8 where "YAF_END_CLOSED \<equiv> 3"
abbreviation YAF_END_FORCED :: u8 where "YAF_END_FORCED \<equiv> 4"
abbreviation YAF_END_RESOURCE :: u8 where "YAF_END_RESOURCE \<equiv> 5"
abbreviation YAF_END_MASK :: u8 where "YAF_END_MASK \<equiv> 0x7F"
abbreviation YAF_ENDF_ISCONT :: u8 where "YAF_ENDF_ISCONT \<equiv> 0x80"

definition YF_FLUSH_DELAY :: u64 where "YF_FLUSH_DELAY = 5000"
definition YF_MAX_CQ :: u32 where "YF_MAX_CQ = 2500"

text \<open>Zeroed structures.\<close>

definition zero_tcpval :: qfTcpVal where
  "zero_tcpval = \<lparr>tv_seq = zero_seq, tv_ack = zero_ack, tv_rwin = zero_rwin, tv_opts = zero_opt\<rparr>"

definition zero_val :: yfFlowVal where
  "zero_val = \<lparr>fv_tcp = None, fv_oct = 0, fv_appoct = 0, fv_pkt = 0, fv_apppkt = 0, fv_minttl = 0,
     fv_maxttl = 0, fv_iflags = 0, fv_uflags = 0, fv_netIf = 0\<rparr>"

definition zero_flow :: yfFlow where
  "zero_flow = \<lparr>f_fid = 0, f_stime = 0, f_etime = 0, f_rdtime = 0, f_reason = 0,
     f_sourceMacAddr = replicate 6 0, f_destinationMacAddr = replicate 6 0, f_val = zero_val,
     f_rval = zero_val, f_rtt = zero_rtt, f_key = zero_key\<rparr>"

definition zero_node :: yfFlowNode where
  "zero_node = \<lparr>fn_state = 0, fn_f = zero_flow\<rparr>"

definition zero_stats :: yfFlowTabStats where
  "zero_stats = \<lparr>stat_octets = 0, stat_packets = 0, stat_seqrej = 0, stat_flows = 0,
     stat_uniflows = 0, stat_peak = 0, stat_flush = 0\<rparr>"

definition no_links :: links where
  "no_links = \<lparr>node_p = (\<lambda>_. None), node_n = (\<lambda>_. None)\<rparr>"

definition empty_queue :: PicQ where
  "empty_queue = \<lparr>q_tail = None, q_head = None\<rparr>"

type_synonym 't flow_ops = "('t, yfFlowKey, addr) ghash"

definition yfFlowTabAlloc :: "'t flow_ops \<Rightarrow> flow_conf \<Rightarrow> 't yfFlowTab" where
  "yfFlowTabAlloc ops conf =
     \<lparr>ft_next_fid = 1, ft_ctime = 0, ft_flushtime = 0, ft_table = gh_new ops,
      ft_aq = empty_queue, ft_cq = empty_queue, ft_count = 0, ft_cq_count = 0, ft_conf = conf,
      ft_stats = zero_stats, ft_nodes = (\<lambda>_. zero_node), ft_links = no_links, ft_brk = 0, ft_freed = []\<rparr>"

subsection \<open>Nodes\<close>

definition flow_of :: "'t yfFlowTab \<Rightarrow> addr \<Rightarrow> yfFlow" where
  "flow_of ft fn = fn_f (ft_nodes ft fn)"

definition set_node :: "addr \<Rightarrow> yfFlowNode \<Rightarrow> 't yfFlowTab \<Rightarrow> 't yfFlowTab" where
  "set_node fn n ft = ft\<lparr>ft_nodes := (ft_nodes ft)(fn := n)\<rparr>"

definition flow_val :: "bool \<Rightarrow> yfFlow \<Rightarrow> yfFlowVal" where
  "flow_val r f = (if r then f_rval f else f_val f)"

definition set_val :: "bool \<Rightarrow> yfFlowVal \<Rightarrow> yfFlowNode \<Rightarrow> yfFlowNode" where
  "set_val r v n = n\<lparr>fn_f := (if r then (fn_f n)\<lparr>f_rval := v\<rparr> else (fn_f n)\<lparr>f_val := v\<rparr>)\<rparr>"

text \<open>An access through the \<open>tcp\<close> pointer of a value.\<close>

definition upd_tcp :: "(qfTcpVal \<Rightarrow> qfTcpVal) \<Rightarrow> yfFlowVal \<Rightarrow> yfFlowVal option" where
  "upd_tcp g v = (case fv_tcp v of None \<Rightarrow> None | Some t \<Rightarrow> Some (v\<lparr>fv_tcp := Some (g t)\<rparr>))"

definition yfFlowFree :: "'t yfFlowTab \<Rightarrow> addr \<Rightarrow> 't yfFlowTab" where
  "yfFlowFree ft fn = ft\<lparr>ft_freed := fn # ft_freed ft\<rparr>"

definition yfFlowTick :: "'t yfFlowTab \<Rightarrow> addr \<Rightarrow> 't yfFlowTab option" where
  "yfFlowTick ft fn =
     (if q_head (ft_aq ft) \<noteq> Some fn then
        let (h, q) = piqPick (ft_links ft) (ft_aq ft) fn
        in case piqEnQ h q fn of
             None \<Rightarrow> None
           | Some (h, q) \<Rightarrow> Some (ft\<lparr>ft_links := h, ft_aq := q\<rparr>)
      else Some ft)"

definition yfFlowClose :: "'t flow_ops \<Rightarrow> 't yfFlowTab \<Rightarrow> addr \<Rightarrow> u8 \<Rightarrow> 't yfFlowTab option" where
  "yfFlowClose ops ft fn reason =
     (let ft = ft\<lparr>ft_table := gh_remove ops (ft_table ft) (f_key (flow_of ft fn))\<rparr>;
          n = ft_nodes ft fn;
          n = n\<lparr>fn_f := (fn_f n)\<lparr>f_reason := (f_reason (fn_f n) AND NOT YAF_END_MASK) OR reason\<rparr>\<rparr>;
          ft = set_node fn n ft;
          (h, aq) = piqPick (ft_links ft) (ft_aq ft) fn
      in case piqEnQ h (ft_cq ft) fn of
           None \<Rightarrow> None
         | Some (h, cq) \<Rightarrow>
             Some (ft\<lparr>ft_links := h, ft_aq := aq, ft_cq := cq, ft_cq_count := ft_cq_count ft + 1,
                      ft_count := ft_count ft - 1\<rparr>))"

text \<open>The lookup returns the node and whether the packet is of the reverse direction. The
  reversed key is built in a local structure that is not initialised; of its contents nothing is
  read for IPv4 and IPv6 keys.\<close>

definition yfFlowGetNode ::
  "'t flow_ops \<Rightarrow> 't yfFlowTab \<Rightarrow> yfFlowKey \<Rightarrow> u64 \<Rightarrow> 't yfFlowTab \<times> addr \<times> bool" where
  "yfFlowGetNode ops ft key cont_fid =
     (case gh_lookup ops (ft_table ft) key of
        Some fn \<Rightarrow> (ft, fn, False)
      | None \<Rightarrow>
          case gh_lookup ops (ft_table ft) (yfFlowKeyReverse key zero_key) of
            Some fn \<Rightarrow> (ft, fn, True)
          | None \<Rightarrow>
              let fn = ft_brk ft;
                  f = zero_flow\<lparr>f_key := yfFlowKeyCopy key zero_key\<rparr>;
                  f = f\<lparr>f_fid := (if cont_fid \<noteq> 0 then cont_fid else ft_next_fid ft)\<rparr>;
                  ft = ft\<lparr>ft_brk := Suc fn,
                          ft_next_fid := (if cont_fid \<noteq> 0 then ft_next_fid ft else ft_next_fid ft + 1)\<rparr>;
                  f = f\<lparr>f_stime := ft_ctime ft, f_etime := ft_ctime ft\<rparr>;
                  ft = set_node fn (zero_node\<lparr>fn_f := f\<rparr>) ft;
                  ft = ft\<lparr>ft_table := gh_insert ops (ft_table ft) (f_key f) fn,
                          ft_count := ft_count ft + 1\<rparr>;
                  ft = (if stat_peak (ft_stats ft) < ft_count ft
                        then ft\<lparr>ft_stats := (ft_stats ft)\<lparr>stat_peak := ft_count ft\<rparr>\<rparr> else ft)
              in (ft, fn, False))"

subsection \<open>Packets\<close>

definition yfFlowPktIP :: "yfFlowVal \<Rightarrow> yfIPInfo \<Rightarrow> yfFlowVal" where
  "yfFlowPktIP val ipinfo =
     (let val = (if fv_minttl val = 0 \<or> ip_ttl ipinfo < fv_minttl val
                 then val\<lparr>fv_minttl := ip_ttl ipinfo\<rparr> else val)
      in if fv_maxttl val < ip_ttl ipinfo then val\<lparr>fv_maxttl := ip_ttl ipinfo\<rparr> else val)"

text \<open>The first part of \<open>yfFlowPktTCP\<close>: flags and sequence numbers.\<close>

definition flow_tcp_seq ::
  "'t yfFlowTab \<Rightarrow> qfRtt \<Rightarrow> yfFlowVal \<Rightarrow> yfTCPInfo \<Rightarrow> u16 \<Rightarrow> yfFlowVal option" where
  "flow_tcp_seq ft rtt val tcpinfo datalen =
     (let lms = ucast (ft_ctime ft) :: u32; conf = ft_conf ft
      in if fv_pkt val \<noteq> 0 then
           let val = val\<lparr>fv_uflags := fv_uflags val OR ti_flags tcpinfo\<rparr>
           in if tcp_seq_enable conf
              then upd_tcp (\<lambda>t. t\<lparr>tv_seq := fst (qfSeqSegment (tv_seq t) rtt (op_mss (tv_opts t))
                     (ti_flags tcpinfo) (ti_seq tcpinfo) (ucast datalen) lms (ti_tsval tcpinfo)
                     (tcp_ts_enable conf) (tcp_iat_enable conf))\<rparr>) val
              else Some val
         else
           let val = (if tcp_seq_enable conf \<or> tcp_ack_enable conf \<or> tcp_rwin_enable conf \<or>
                         tcp_opt_enable conf \<or> tcp_ts_enable conf \<or> tcp_iat_enable conf
                      then val\<lparr>fv_tcp := Some zero_tcpval\<rparr> else val);
               val = val\<lparr>fv_iflags := ti_flags tcpinfo\<rparr>
           in if tcp_seq_enable conf
              then upd_tcp (\<lambda>t. t\<lparr>tv_seq := qfSeqFirstSegment (tv_seq t) (ti_flags tcpinfo)
                     (ti_seq tcpinfo) (ucast datalen) lms (ti_tsval tcpinfo) (tcp_ts_enable conf)\<rparr>) val
              else Some val)"

text \<open>Its last part: the FIN and RST state of the node.\<close>

definition flow_tcp_state :: "u32 \<Rightarrow> bool \<Rightarrow> u8 \<Rightarrow> u32" where
  "flow_tcp_state state r flags =
     (let state =
            (if \<not> r then
               let state = (if has_flag flags YF_TF_FIN then state OR YAF_STATE_FFIN else state)
               in if state AND YAF_STATE_RFIN \<noteq> 0 \<and> has_flag flags YF_TF_ACK
                  then state OR YAF_STATE_FFINACK else state
             else
               let state = (if has_flag flags YF_TF_FIN then state OR YAF_STATE_RFIN else state)
               in if state AND YAF_STATE_FFIN \<noteq> 0 \<and> has_flag flags YF_TF_ACK
                  then state OR YAF_STATE_RFINACK else state)
      in if has_flag flags YF_TF_RST then state OR YAF_STATE_RST else state)"

definition yfFlowPktTCP ::
  "'t yfFlowTab \<Rightarrow> yfFlowNode \<Rightarrow> bool \<Rightarrow> yfTCPInfo \<Rightarrow> yfIPInfo \<Rightarrow> u16 \<Rightarrow> yfFlowNode option" where
  "yfFlowPktTCP ft n r tcpinfo ipinfo datalen =
     do {
       let lms = (ucast (ft_ctime ft) :: u32);
       let conf = ft_conf ft;
       val \<leftarrow> flow_tcp_seq ft (f_rtt (fn_f n)) (flow_val r (fn_f n)) tcpinfo datalen;
       val \<leftarrow> (if has_flag (ti_flags tcpinfo) YF_TF_ACK \<and> tcp_ack_enable conf
              then upd_tcp (\<lambda>t. t\<lparr>tv_ack := qfAckSegment (tv_ack t) (ti_ack tcpinfo)
                     (ti_sack tcpinfo) (ucast datalen) lms\<rparr>) val
              else Some val);
       let rtt = (if tcp_rtt_enable conf
              then qfRttSegment (f_rtt (fn_f n)) (ti_seq tcpinfo) (ti_ack tcpinfo) (ti_tsval tcpinfo)
                     (ti_tsecr tcpinfo) lms (ti_flags tcpinfo) r
              else f_rtt (fn_f n));
       val \<leftarrow> (if tcp_rwin_enable conf
              then upd_tcp (\<lambda>t. t\<lparr>tv_rwin := qfRwinSegment
                     (if ti_ws tcpinfo \<noteq> 0 then qfRwinScale (tv_rwin t) (ti_ws tcpinfo) else tv_rwin t)
                     (ucast (ti_rwin tcpinfo))\<rparr>) val
              else Some val);
       val \<leftarrow> (if tcp_opt_enable conf
              then upd_tcp (\<lambda>t. t\<lparr>tv_opts := qfOptSegment (tv_opts t) tcpinfo ipinfo datalen\<rparr>) val
              else Some val);
       let n = set_val r val (n\<lparr>fn_f := (fn_f n)\<lparr>f_rtt := rtt\<rparr>\<rparr>);
       Some (n\<lparr>fn_state := flow_tcp_state (fn_state n) r (ti_flags tcpinfo)\<rparr>)
     }"

text \<open>Closing a timed out flow and getting a node for the packet anew.\<close>

definition flow_renew ::
  "'t flow_ops \<Rightarrow> 't yfFlowTab \<Rightarrow> yfFlowKey \<Rightarrow> addr \<Rightarrow> u8 \<Rightarrow> ('t yfFlowTab \<times> addr \<times> bool) option" where
  "flow_renew ops ft key fn reason =
     (let cont_fid = f_fid (flow_of ft fn)
      in map_option (\<lambda>ft. yfFlowGetNode ops ft key cont_fid) (yfFlowClose ops ft fn reason))"

text \<open>What a packet does to its node once the node is known.\<close>

definition flow_count :: "'t yfFlowTab \<Rightarrow> yfFlowNode \<Rightarrow> bool \<Rightarrow> yfPBuf \<Rightarrow> yfFlowNode option" where
  "flow_count ft n r pbuf =
     (let l2info = pb_l2info pbuf;
          datalen = ucast (ucast (pb_iplen pbuf) - pb_allHeaderLen pbuf + ucast (l2_l2hlen l2info)) :: u16;
          val = flow_val r (fn_f n);
          n = (if fv_pkt val = 0 \<and> r
               then n\<lparr>fn_f := (fn_f n)\<lparr>f_rdtime := ucast (pb_ptime pbuf - f_stime (fn_f n))\<rparr>\<rparr> else n);
          n = set_val r (yfFlowPktIP val (pb_ipinfo pbuf)) n
      in do {
           n \<leftarrow> (if k_proto (f_key (fn_f n)) = YF_PROTO_TCP
                then yfFlowPktTCP ft n r (pb_tcpinfo pbuf) (pb_ipinfo pbuf) datalen else Some n);
           let val = flow_val r (fn_f n);
           let n = (if fv_pkt val = 0 \<and> macmode (ft_conf ft) \<and> \<not> r
                    then n\<lparr>fn_f := (fn_f n)\<lparr>f_sourceMacAddr := l2_smac l2info,
                                             f_destinationMacAddr := l2_dmac l2info\<rparr>\<rparr> else n);
           let val = val\<lparr>fv_oct := fv_oct val + ucast (pb_iplen pbuf),
                         fv_appoct := fv_appoct val + ucast datalen,
                         fv_pkt := fv_pkt val + 1,
                         fv_apppkt := (if datalen \<noteq> 0 then fv_apppkt val + 1 else fv_apppkt val)\<rparr>;
           let n = set_val r val n;
           Some (n\<lparr>fn_f := (fn_f n)\<lparr>f_etime := pb_ptime pbuf\<rparr>\<rparr>)
         })"

definition yfFlowPBuf :: "'t flow_ops \<Rightarrow> 't yfFlowTab \<Rightarrow> yfPBuf \<Rightarrow> 't yfFlowTab option" where
  "yfFlowPBuf ops ft pbuf =
     (let key = pb_key pbuf; stats = ft_stats ft
      in if pb_ptime pbuf < ft_ctime ft
         then Some (ft\<lparr>ft_stats := stats\<lparr>stat_seqrej := stat_seqrej stats + 1\<rparr>\<rparr>)
         else
           do {
             let ft = ft\<lparr>ft_ctime := pb_ptime pbuf,
                         ft_stats := stats\<lparr>stat_packets := stat_packets stats + 1,
                                          stat_octets := stat_octets stats + ucast (pb_iplen pbuf)\<rparr>\<rparr>;
             let (ft, fn, r) = yfFlowGetNode ops ft key 0;
             (ft, fn, r) \<leftarrow>
               (if active_ms (ft_conf ft) < pb_ptime pbuf - f_stime (flow_of ft fn) \<or>
                   silkmode (ft_conf ft) \<and>
                     0xFFFFFFFF < fv_oct (flow_val r (flow_of ft fn)) + ucast (pb_iplen pbuf)
                then map_option (\<lambda>(ft, fn, r).
                       (if silkmode (ft_conf ft)
                        then set_node fn ((ft_nodes ft fn)\<lparr>fn_f := (flow_of ft fn)\<lparr>f_reason := YAF_ENDF_ISCONT\<rparr>\<rparr>) ft
                        else ft, fn, r))
                     (flow_renew ops ft key fn YAF_END_ACTIVE)
                else Some (ft, fn, r));
             (ft, fn, r) \<leftarrow>
               (if idle_ms (ft_conf ft) < pb_ptime pbuf - f_etime (flow_of ft fn)
                then flow_renew ops ft key fn YAF_END_IDLE
                else Some (ft, fn, r));
             n \<leftarrow> flow_count ft (ft_nodes ft fn) r pbuf;
             let ft = set_node fn n ft;
             if fn_state n AND YAF_STATE_FIN = YAF_STATE_FIN \<or> fn_state n AND YAF_STATE_RST \<noteq> 0
             then yfFlowClose ops ft fn YAF_END_CLOSED
             else yfFlowTick ft fn
           })"

subsection \<open>Flushing\<close>

definition yfUniflow :: "yfFlow \<Rightarrow> yfFlow" where
  "yfUniflow bf = bf\<lparr>f_rval := zero_val, f_rdtime := 0\<rparr>"

definition yfUniflowReverse :: "yfFlow \<Rightarrow> yfFlow \<Rightarrow> yfFlow option" where
  "yfUniflowReverse bf uf =
     (if fv_pkt (f_rval bf) = 0 then None
      else Some (uf\<lparr>f_stime := f_stime bf + scast (f_rdtime bf), f_etime := f_etime bf, f_rdtime := 0,
                    f_sourceMacAddr := f_destinationMacAddr bf,
                    f_destinationMacAddr := f_sourceMacAddr bf,
                    f_key := yfFlowKeyReverse (f_key bf) (f_key uf),
                    f_val := f_rval bf, f_rval := zero_val, f_rtt := f_rtt bf, f_reason := f_reason bf\<rparr>))"

text \<open>A loop that closes the flow at the tail of the active queue as long as a condition holds.\<close>

partial_function (option) flow_close_while ::
  "'t flow_ops \<Rightarrow> ('t yfFlowTab \<Rightarrow> addr \<Rightarrow> bool) \<Rightarrow> u8 \<Rightarrow> 't yfFlowTab \<Rightarrow> 't yfFlowTab option" where
  "flow_close_while ops P reason ft =
     (case q_tail (ft_aq ft) of
        None \<Rightarrow> Some ft
      | Some fn \<Rightarrow>
          if P ft fn then Option.bind (yfFlowClose ops ft fn reason) (flow_close_while ops P reason)
          else Some ft)"

text \<open>Writing one flow, whole or split in two; the result is the writer's state, whether it
  succeeded and the number of records written.\<close>

type_synonym 'w writer = "'w \<Rightarrow> yfFlow \<Rightarrow> 'w \<times> bool"

definition flow_write :: "'w writer \<Rightarrow> bool \<Rightarrow> yfFlow \<Rightarrow> 'w \<Rightarrow> 'w \<times> bool \<times> u64" where
  "flow_write wr uni f w =
     (if uni then
        let uf = yfUniflow f; (w, wok) = wr w uf
        in if wok then
             case yfUniflowReverse f uf of
               Some uf \<Rightarrow> (let (w, wok) = wr w uf in (w, wok, if wok then 2 else 1))
             | None \<Rightarrow> (w, wok, 1)
           else (w, wok, 0)
      else let (w, wok) = wr w f in (w, wok, if wok then 1 else 0))"

partial_function (option) flow_flush_cq ::
  "'w writer \<Rightarrow> 't yfFlowTab \<Rightarrow> 'w \<Rightarrow> ('t yfFlowTab \<times> 'w \<times> bool) option" where
  "flow_flush_cq wr ft w =
     (case piqDeQ (ft_links ft) (ft_cq ft) of
        (h, q, None) \<Rightarrow> Some (ft\<lparr>ft_links := h, ft_cq := q\<rparr>, w, True)
      | (h, q, Some fn) \<Rightarrow>
          let ft = ft\<lparr>ft_links := h, ft_cq := q\<rparr>; f = flow_of ft fn; stats = ft_stats ft;
              stats = (if fv_oct (f_rval f) = 0 \<and> fv_pkt (f_rval f) = 0
                       then stats\<lparr>stat_uniflows := stat_uniflows stats + 1\<rparr> else stats);
              res = flow_write wr (uniflow (ft_conf ft)) f w;
              stats = stats\<lparr>stat_flows := stat_flows stats + snd (snd res)\<rparr>;
              ft = yfFlowFree (ft\<lparr>ft_stats := stats, ft_cq_count := ft_cq_count ft - 1\<rparr>) fn
          in if \<not> fst (snd res) then Some (ft, fst res, False) else flow_flush_cq wr ft (fst res))"

definition yfFlowTabFlush ::
  "'t flow_ops \<Rightarrow> 'w writer \<Rightarrow> 't yfFlowTab \<Rightarrow> 'w \<Rightarrow> bool \<Rightarrow> ('t yfFlowTab \<times> 'w \<times> bool) option" where
  "yfFlowTabFlush ops wr ft w close =
     (if \<not> close \<and> ft_flushtime ft \<noteq> 0 \<and> ft_ctime ft < ft_flushtime ft + YF_FLUSH_DELAY \<and>
         ft_cq_count ft < YF_MAX_CQ
      then Some (ft, w, True)
      else
        do {
          let ft = ft\<lparr>ft_flushtime := ft_ctime ft,
                      ft_stats := (ft_stats ft)\<lparr>stat_flush := stat_flush (ft_stats ft) + 1\<rparr>\<rparr>;
          ft \<leftarrow> flow_close_while ops
                 (\<lambda>ft fn. idle_ms (ft_conf ft) < ft_ctime ft - f_etime (flow_of ft fn)) YAF_END_IDLE ft;
          ft \<leftarrow> flow_close_while ops
                 (\<lambda>ft fn. max_flows (ft_conf ft) \<noteq> 0 \<and> max_flows (ft_conf ft) \<le> ft_count ft) YAF_END_RESOURCE ft;
          ft \<leftarrow> flow_close_while ops (\<lambda>ft fn. close) YAF_END_FORCED ft;
          flow_flush_cq wr ft w
        })"

text \<open>Freeing the table: both queues are walked from the head.\<close>

partial_function (option) flow_free_walk :: "ptr \<Rightarrow> 't yfFlowTab \<Rightarrow> 't yfFlowTab option" where
  "flow_free_walk p ft =
     (case p of None \<Rightarrow> Some ft
      | Some fn \<Rightarrow> flow_free_walk (node_p (ft_links ft) fn) (yfFlowFree ft fn))"

definition yfFlowTabFree :: "'t yfFlowTab \<Rightarrow> 't yfFlowTab option" where
  "yfFlowTabFree ft =
     Option.bind (flow_free_walk (q_head (ft_cq ft)) ft) (\<lambda>ft. flow_free_walk (q_head (ft_aq ft)) ft)"

definition yfFlowTabCurrentTime :: "'t yfFlowTab \<Rightarrow> u64" where
  "yfFlowTabCurrentTime ft = ft_ctime ft"

definition yfGetFlowTabStats :: "'t yfFlowTab \<Rightarrow> u64 \<times> u64 \<times> u64 \<times> u32 \<times> u32" where
  "yfGetFlowTabStats ft =
     (stat_packets (ft_stats ft), stat_flows (ft_stats ft), stat_seqrej (ft_stats ft),
      stat_peak (ft_stats ft), stat_flush (ft_stats ft))"

end
