(* ===== verification/FlowTabInv.thy ===== *)
theory FlowTabInv
  imports FlowTab
begin

text \<open>
  The invariant of the flow table and its preservation. \<open>as\<close> and \<open>cs\<close> are the nodes
  of the active and the close queue from tail to head, \<open>ns\<close> the nodes in the index: the
  active ones and, while a packet is being processed, the node made for it.

  The proofs use the hash table only through the laws of \<open>ghash_table\<close> (locale
  \<open>flow_index\<close>) and the queues only through those of \<open>pickable_queue\<close>.
\<close>

definition queues_ok :: "'t yfFlowTab \<Rightarrow> addr list \<Rightarrow> addr list \<Rightarrow> addr set \<Rightarrow> bool" where
  "queues_ok ft as cs ns \<longleftrightarrow>
     picq (ft_links ft) (ft_aq ft) as \<and> picq (ft_links ft) (ft_cq ft) cs \<and>
     finite ns \<and> set as \<subseteq> ns \<and> ns \<inter> set cs = {} \<and>
     (\<forall>a. a \<notin> set as \<longrightarrow> a \<notin> set cs \<longrightarrow> unlinked (ft_links ft) a) \<and>
     (\<forall>a \<in> ns \<union> set cs. a < ft_brk ft)"

definition counts_ok :: "'t yfFlowTab \<Rightarrow> addr list \<Rightarrow> addr set \<Rightarrow> bool" where
  "counts_ok ft cs ns \<longleftrightarrow> ft_count ft = of_nat (card ns) \<and> ft_cq_count ft = of_nat (length cs)"

definition index_ok :: "'t flow_ops \<Rightarrow> 't yfFlowTab \<Rightarrow> addr set \<Rightarrow> bool" where
  "index_ok ops ft ns \<longleftrightarrow>
     (\<forall>k a. gh_lookup ops (ft_table ft) k = Some a \<longleftrightarrow>
        a \<in> ns \<and> yfFlowKeyEqual (f_key (flow_of ft a)) k) \<and>
     (\<forall>a \<in> ns. \<forall>b \<in> ns.
        yfFlowKeyEqual (yfFlowKeyReverse (f_key (flow_of ft a)) zero_key) (f_key (flow_of ft b)) \<longrightarrow> a = b)"

text \<open>A value that has counted a packet of a TCP flow has its TCP structure if any observer that
  uses it is enabled.\<close>

definition tcp_needed :: "flow_conf \<Rightarrow> bool" where
  "tcp_needed c \<longleftrightarrow> tcp_seq_enable c \<or> tcp_ack_enable c \<or> tcp_rwin_enable c \<or> tcp_opt_enable c \<or>
     tcp_ts_enable c \<or> tcp_iat_enable c"

definition val_ok :: "flow_conf \<Rightarrow> yfFlow \<Rightarrow> yfFlowVal \<Rightarrow> bool" where
  "val_ok c f v \<longleftrightarrow>
     (k_proto (f_key f) = YF_PROTO_TCP \<and> tcp_needed c \<and> fv_pkt v \<noteq> 0 \<longrightarrow> fv_tcp v \<noteq> None)"

definition flow_ok :: "flow_conf \<Rightarrow> u64 \<Rightarrow> yfFlow \<Rightarrow> bool" where
  "flow_ok c t f \<longleftrightarrow> key_ok (f_key f) \<and> f_stime f \<le> f_etime f \<and> f_etime f \<le> t \<and>
     val_ok c f (f_val f) \<and> val_ok c f (f_rval f)"

definition flows_ok :: "'t yfFlowTab \<Rightarrow> addr set \<Rightarrow> bool" where
  "flows_ok ft A \<longleftrightarrow> (\<forall>a \<in> A. flow_ok (ft_conf ft) (ft_ctime ft) (flow_of ft a))"

definition idle_order :: "'t yfFlowTab \<Rightarrow> addr list \<Rightarrow> bool" where
  "idle_order ft as \<longleftrightarrow> sorted_wrt (\<lambda>a b. f_etime (flow_of ft a) \<le> f_etime (flow_of ft b)) as"

text \<open>Every node allocated is held or has been freed, once.\<close>

definition mem_ok :: "'t yfFlowTab \<Rightarrow> addr set \<Rightarrow> bool" where
  "mem_ok ft A \<longleftrightarrow> distinct (ft_freed ft) \<and> set (ft_freed ft) \<inter> A = {} \<and> set (ft_freed ft) \<union> A = {..<ft_brk ft}"

definition ft_core :: "'t flow_ops \<Rightarrow> 't yfFlowTab \<Rightarrow> addr list \<Rightarrow> addr list \<Rightarrow> addr set \<Rightarrow> bool" where
  "ft_core ops ft as cs ns \<longleftrightarrow> queues_ok ft as cs ns \<and> counts_ok ft cs ns \<and> index_ok ops ft ns \<and>
     flows_ok ft (ns \<union> set cs) \<and> mem_ok ft (ns \<union> set cs)"

definition ft_ok :: "'t flow_ops \<Rightarrow> 't yfFlowTab \<Rightarrow> addr list \<Rightarrow> addr list \<Rightarrow> addr set \<Rightarrow> bool" where
  "ft_ok ops ft as cs ns \<longleftrightarrow> ft_core ops ft as cs ns \<and> idle_order ft as"

text \<open>The packets and octets a set of nodes accounts for.\<close>

definition flow_pkts :: "yfFlow \<Rightarrow> u64" where
  "flow_pkts f = fv_pkt (f_val f) + fv_pkt (f_rval f)"

definition flow_octs :: "yfFlow \<Rightarrow> u64" where
  "flow_octs f = fv_oct (f_val f) + fv_oct (f_rval f)"

definition held :: "(yfFlow \<Rightarrow> u64) \<Rightarrow> 't yfFlowTab \<Rightarrow> addr set \<Rightarrow> u64" where
  "held m ft A = (\<Sum>a\<in>A. m (flow_of ft a))"

lemma flow_of_set_node [simp]: "flow_of (set_node fn n ft) a = (if a = fn then fn_f n else flow_of ft a)"
  by (simp add: flow_of_def set_node_def)

lemma set_node_fields [simp]:
  "ft_links (set_node fn n ft) = ft_links ft" "ft_aq (set_node fn n ft) = ft_aq ft"
  "ft_cq (set_node fn n ft) = ft_cq ft" "ft_brk (set_node fn n ft) = ft_brk ft"
  "ft_count (set_node fn n ft) = ft_count ft" "ft_cq_count (set_node fn n ft) = ft_cq_count ft"
  "ft_table (set_node fn n ft) = ft_table ft" "ft_conf (set_node fn n ft) = ft_conf ft"
  "ft_ctime (set_node fn n ft) = ft_ctime ft" "ft_stats (set_node fn n ft) = ft_stats ft"
  "ft_freed (set_node fn n ft) = ft_freed ft" "ft_next_fid (set_node fn n ft) = ft_next_fid ft"
  "ft_flushtime (set_node fn n ft) = ft_flushtime ft"
  "ft_nodes (set_node fn n ft) = (ft_nodes ft)(fn := n)"
  by (simp_all add: set_node_def)

lemma held_cong: "(\<And>a. a \<in> A \<Longrightarrow> m (flow_of ft' a) = m (flow_of ft a)) \<Longrightarrow> held m ft' A = held m ft A"
  by (simp add: held_def)

lemma held_insert: "finite A \<Longrightarrow> a \<notin> A \<Longrightarrow> held m ft (insert a A) = m (flow_of ft a) + held m ft A"
  by (simp add: held_def)

lemma idle_order_remove: "idle_order ft as \<Longrightarrow> distinct as \<Longrightarrow> idle_order ft (remove1 fn as)"
  by (simp add: idle_order_def distinct_remove1_removeAll removeAll_filter_not_eq sorted_wrt_filter)

lemma idle_order_cong:
  "(\<And>a. a \<in> set as \<Longrightarrow> f_etime (flow_of ft' a) = f_etime (flow_of ft a)) \<Longrightarrow> idle_order ft' as = idle_order ft as"
  unfolding idle_order_def by (induction as) auto

subsection \<open>Closing and ticking a flow\<close>

definition set_reason :: "u8 \<Rightarrow> yfFlow \<Rightarrow> yfFlow" where
  "set_reason x f = f\<lparr>f_reason := (f_reason f AND NOT YAF_END_MASK) OR x\<rparr>"

lemma set_reason_fields [simp]:
  "f_key (set_reason x f) = f_key f" "f_stime (set_reason x f) = f_stime f"
  "f_etime (set_reason x f) = f_etime f" "f_val (set_reason x f) = f_val f"
  "f_rval (set_reason x f) = f_rval f" "f_fid (set_reason x f) = f_fid f"
  by (simp_all add: set_reason_def)

lemma flow_ok_set_reason [simp]: "flow_ok c t (set_reason x f) = flow_ok c t f"
  by (simp add: flow_ok_def val_ok_def)

lemma flow_pkts_set_reason [simp]:
  "flow_pkts (set_reason x f) = flow_pkts f" "flow_octs (set_reason x f) = flow_octs f"
  by (simp_all add: flow_pkts_def flow_octs_def)

lemma yfFlowClose_frame:
  assumes "yfFlowClose ops ft fn reason = Some ft'"
  shows "flow_of ft' = (flow_of ft)(fn := set_reason reason (flow_of ft fn))"
    and "ft_conf ft' = ft_conf ft" "ft_ctime ft' = ft_ctime ft" "ft_stats ft' = ft_stats ft"
    and "ft_brk ft' = ft_brk ft" "ft_freed ft' = ft_freed ft" "ft_flushtime ft' = ft_flushtime ft"
    and "ft_count ft' = ft_count ft - 1" "ft_cq_count ft' = ft_cq_count ft + 1"
    and "ft_table ft' = gh_remove ops (ft_table ft) (f_key (flow_of ft fn))"
  using assms
  by (auto simp: yfFlowClose_def Let_def flow_of_def set_node_def set_reason_def fun_eq_iff
      split: prod.splits option.splits)

lemma yfFlowClose_queues:
  assumes q: "queues_ok ft as cs ns" and fn: "fn \<in> ns"
  shows "\<exists>ft'. yfFlowClose ops ft fn reason = Some ft' \<and> queues_ok ft' (remove1 fn as) (cs @ [fn]) (ns - {fn})"
proof -
  let ?h = "ft_links ft"
  have r: "picq ?h (ft_aq ft) as" "picq ?h (ft_cq ft) cs" and dis: "set as \<inter> set cs = {}"
    and f: "fn \<in> set as \<or> unlinked ?h fn" and nc: "fn \<notin> set cs" and sub: "set as \<subseteq> ns"
    using q fn by (auto simp: queues_ok_def)
  obtain h1 aq where p: "piqPick ?h (ft_aq ft) fn = (h1, aq)" by (cases "piqPick ?h (ft_aq ft) fn")
  from piq.transfer [OF r dis f nc p] obtain h2 cq where e: "piqEnQ h1 (ft_cq ft) fn = Some (h2, cq)"
    and a: "picq h2 aq (remove1 fn as)" and c: "picq h2 cq (cs @ [fn])"
    and u: "\<forall>y. y \<notin> set as \<longrightarrow> y \<notin> set cs \<longrightarrow> y \<noteq> fn \<longrightarrow> unlinked ?h y \<longrightarrow> unlinked h2 y" by blast
  have d: "distinct as" using r(1) by (rule picqD)
  from p e obtain ft' where ft': "yfFlowClose ops ft fn reason = Some ft'"
    and l: "ft_links ft' = h2" "ft_aq ft' = aq" "ft_cq ft' = cq"
    by (simp add: yfFlowClose_def Let_def)
  have "queues_ok ft' (remove1 fn as) (cs @ [fn]) (ns - {fn})"
    unfolding queues_ok_def l yfFlowClose_frame(5) [OF ft']
    using a c u q d fn sub by (auto simp: queues_ok_def set_remove1_eq)
  with ft' show ?thesis by blast
qed

lemma yfFlowTick_frame:
  assumes "yfFlowTick ft fn = Some ft'"
  shows "flow_of ft' = flow_of ft" "ft_conf ft' = ft_conf ft" "ft_ctime ft' = ft_ctime ft"
    "ft_stats ft' = ft_stats ft" "ft_brk ft' = ft_brk ft" "ft_freed ft' = ft_freed ft"
    "ft_count ft' = ft_count ft" "ft_cq_count ft' = ft_cq_count ft" "ft_table ft' = ft_table ft"
  using assms by (auto simp: yfFlowTick_def Let_def flow_of_def fun_eq_iff split: if_splits prod.splits option.splits)

lemma yfFlowTick_queues:
  assumes q: "queues_ok ft as cs ns" and fn: "fn \<in> ns"
  shows "\<exists>ft'. yfFlowTick ft fn = Some ft' \<and> queues_ok ft' (remove1 fn as @ [fn]) cs ns"
proof -
  let ?h = "ft_links ft"
  have r: "picq ?h (ft_aq ft) as" "picq ?h (ft_cq ft) cs" and dis: "set as \<inter> set cs = {}"
    and f: "fn \<in> set as \<or> unlinked ?h fn" and nc: "fn \<notin> set cs" and sub: "set as \<subseteq> ns"
    using q fn by (auto simp: queues_ok_def)
  show ?thesis
  proof (cases "q_head (ft_aq ft) = Some fn")
    case True
    then obtain as' where as: "as = as' @ [fn]"
      using piq.rep_head [OF r(1)] by (cases as rule: rev_cases) auto
    then have "remove1 fn as @ [fn] = as" using picqD(1) [OF r(1)] by (simp add: remove1_append)
    then show ?thesis using True q by (simp add: yfFlowTick_def)
  next
    case False
    obtain h1 aq where p: "piqPick ?h (ft_aq ft) fn = (h1, aq)" by (cases "piqPick ?h (ft_aq ft) fn")
    from piq.move_to_head [OF r(1) f p r(2) dis nc] obtain h2 aq' where e: "piqEnQ h1 aq fn = Some (h2, aq')"
      and a: "picq h2 aq' (remove1 fn as @ [fn])" and c: "picq h2 (ft_cq ft) cs"
      and u: "\<forall>y. y \<notin> set as \<longrightarrow> y \<noteq> fn \<longrightarrow> unlinked ?h y \<longrightarrow> unlinked h2 y" by blast
    have d: "distinct as" using r(1) by (rule picqD)
    from p e False obtain ft' where ft': "yfFlowTick ft fn = Some ft'"
      and l: "ft_links ft' = h2" "ft_aq ft' = aq'" "ft_cq ft' = ft_cq ft"
      by (simp add: yfFlowTick_def Let_def)
    have "queues_ok ft' (remove1 fn as @ [fn]) cs ns"
      unfolding queues_ok_def l yfFlowTick_frame(5) [OF ft']
      using a c u q d fn sub by (auto simp: queues_ok_def set_remove1_eq)
    with ft' show ?thesis by blast
  qed
qed

subsection \<open>The index\<close>

locale flow_index = ghash_table ops yfFlowKeyEqual for ops :: "('t, yfFlowKey, addr) ghash"
begin

lemma index_new:
  "index_ok ops (yfFlowTabAlloc ops conf) {}"
  by (simp add: index_ok_def yfFlowTabAlloc_def lookup_new)

lemma index_close:
  assumes i: "index_ok ops ft ns" and fn: "fn \<in> ns" and c: "yfFlowClose ops ft fn reason = Some ft'"
  shows "index_ok ops ft' (ns - {fn})"
proof -
  note fr = yfFlowClose_frame [OF c]
  have k: "f_key (flow_of ft' a) = f_key (flow_of ft a)" for a by (simp add: fr)
  have look: "gh_lookup ops (ft_table ft) k = Some a \<longleftrightarrow> a \<in> ns \<and> yfFlowKeyEqual (f_key (flow_of ft a)) k" for k a
    using i by (simp add: index_ok_def)
  have "gh_lookup ops (ft_table ft') k = Some a \<longleftrightarrow>
      a \<in> ns - {fn} \<and> yfFlowKeyEqual (f_key (flow_of ft a)) k" for k a
    using look [of k a] look [of k fn] fn by (auto simp: fr lookup_remove)
  then show ?thesis using i unfolding index_ok_def k by blast
qed

lemma index_cong:
  assumes "index_ok ops ft ns" and "ft_table ft' = ft_table ft"
    and "\<And>a. a \<in> ns \<Longrightarrow> f_key (flow_of ft' a) = f_key (flow_of ft a)"
  shows "index_ok ops ft' ns"
  using assms unfolding index_ok_def by auto

text \<open>The new node of a key that is not there in either direction.\<close>

lemma index_insert:
  assumes i: "index_ok ops ft ns" and n: "fn \<notin> ns" and ok: "key_ok key"
    and no: "gh_lookup ops (ft_table ft) key = None"
      "gh_lookup ops (ft_table ft) (yfFlowKeyReverse key zero_key) = None"
    and k: "f_key (flow_of ft' fn) = yfFlowKeyCopy key zero_key"
      "\<And>a. a \<in> ns \<Longrightarrow> f_key (flow_of ft' a) = f_key (flow_of ft a)"
    and t: "ft_table ft' = gh_insert ops (ft_table ft) (yfFlowKeyCopy key zero_key) fn"
  shows "index_ok ops ft' (insert fn ns)"
proof -
  let ?c = "yfFlowKeyCopy key zero_key" and ?R = "\<lambda>x. yfFlowKeyReverse x zero_key"
  let ?k = "\<lambda>a. f_key (flow_of ft a)"
  have look: "gh_lookup ops (ft_table ft) x = Some a \<longleftrightarrow> a \<in> ns \<and> yfFlowKeyEqual (?k a) x" for x a
    using i by (simp add: index_ok_def)
  have c: "yfFlowKeyEqual ?c key" using ok by (rule yfFlowKeyCopy_equal)
  have none: "\<not> yfFlowKeyEqual (?k a) key" "\<not> yfFlowKeyEqual (?k a) (?R key)" if "a \<in> ns" for a
    using look [of key a] look [of "?R key" a] no that by auto
  have nc: "\<not> yfFlowKeyEqual (?k a) ?c" if "a \<in> ns" for a
    using none(1) [OF that] c flowkey.eq_trans by blast
  have nr: "\<not> yfFlowKeyEqual (?R ?c) (?k a)" if "a \<in> ns" for a
    using none(2) [OF that] yfFlowKeyReverse_cong [OF c] flowkey.eq_sym flowkey.eq_trans by blast
  have nr': "\<not> yfFlowKeyEqual (?R (?k a)) ?c" if a: "a \<in> ns" for a
  proof
    assume e: "yfFlowKeyEqual (?R (?k a)) ?c"
    have "key_ok (?k a)" using e by (simp add: yfFlowKeyEqual_iff)
    then have "yfFlowKeyEqual (?R (?R (?k a))) (?k a)" by (rule yfFlowKeyReverse_twice)
    then show False
      using yfFlowKeyReverse_cong [OF e, of zero_key zero_key] nr [OF a] flowkey.eq_sym flowkey.eq_trans by blast
  qed
  have l: "gh_lookup ops (ft_table ft') x = Some a \<longleftrightarrow>
      (if a = fn then yfFlowKeyEqual ?c x else a \<in> ns \<and> yfFlowKeyEqual (?k a) x)" for x a
    using look [of x a] n nc [of a] by (auto simp: t lookup_insert dest: flowkey.eq_sym flowkey.eq_trans)
  have m: "f_key (flow_of ft' a) = (if a = fn then ?c else ?k a)" if "a \<in> insert fn ns" for a
    using k that by auto
  show ?thesis
    unfolding index_ok_def
  proof (intro conjI allI ballI impI)
    fix x a
    show "gh_lookup ops (ft_table ft') x = Some a \<longleftrightarrow>
        a \<in> insert fn ns \<and> yfFlowKeyEqual (f_key (flow_of ft' a)) x"
      using l [of x a] m [of a] by auto
  next
    fix a b assume ab: "a \<in> insert fn ns" "b \<in> insert fn ns"
      "yfFlowKeyEqual (?R (f_key (flow_of ft' a))) (f_key (flow_of ft' b))"
    then show "a = b"
      using m [of a] m [of b] nr [of b] nr' [of a] i by (auto simp: index_ok_def split: if_splits)
  qed
qed

end

subsection \<open>Steps of packet processing\<close>

definition same_env :: "'t yfFlowTab \<Rightarrow> 't yfFlowTab \<Rightarrow> bool" where
  "same_env ft ft' \<longleftrightarrow> ft_conf ft' = ft_conf ft \<and> ft_ctime ft' = ft_ctime ft \<and>
     stat_packets (ft_stats ft') = stat_packets (ft_stats ft) \<and>
     stat_octets (ft_stats ft') = stat_octets (ft_stats ft) \<and>
     stat_seqrej (ft_stats ft') = stat_seqrej (ft_stats ft)"

lemma same_env_trans: "same_env a b \<Longrightarrow> same_env b c \<Longrightarrow> same_env a c"
  by (simp add: same_env_def)

lemma queues_okD:
  assumes "queues_ok ft as cs ns"
  shows "distinct as" "distinct cs" "finite ns" "set as \<subseteq> ns" "ns \<inter> set cs = {}" "\<forall>a \<in> ns \<union> set cs. a < ft_brk ft"
  using assms by (auto simp: queues_ok_def dest: picqD(1))

context flow_index
begin

lemma close_ok:
  assumes ok: "ft_core ops ft as cs ns" and ord: "idle_order ft (remove1 fn as)" and fn: "fn \<in> ns"
  shows "\<exists>ft'. yfFlowClose ops ft fn reason = Some ft' \<and>
    ft_ok ops ft' (remove1 fn as) (cs @ [fn]) (ns - {fn}) \<and> same_env ft ft' \<and> ft_brk ft' = ft_brk ft \<and>
    flow_of ft' = (flow_of ft)(fn := set_reason reason (flow_of ft fn))"
proof -
  have q: "queues_ok ft as cs ns" using ok by (simp add: ft_core_def)
  note qd = queues_okD [OF q]
  from yfFlowClose_queues [OF q fn] obtain ft' where c: "yfFlowClose ops ft fn reason = Some ft'"
    and q': "queues_ok ft' (remove1 fn as) (cs @ [fn]) (ns - {fn})" by blast
  note fr = yfFlowClose_frame [OF c]
  have U: "(ns - {fn}) \<union> set (cs @ [fn]) = ns \<union> set cs" using fn by auto
  have "card ns = Suc (card (ns - {fn}))" using qd(3) fn by (rule card.remove)
  then have "counts_ok ft' (cs @ [fn]) (ns - {fn})" using ok by (simp add: ft_core_def counts_ok_def fr)
  moreover have "flows_ok ft' (ns \<union> set cs)" using ok by (auto simp: ft_core_def flows_ok_def fr)
  moreover have "idle_order ft' (remove1 fn as)"
    using ord idle_order_cong [of "remove1 fn as" ft' ft] by (simp add: fr)
  moreover have "mem_ok ft' (ns \<union> set cs)" using ok by (simp add: ft_core_def mem_ok_def fr)
  moreover have "index_ok ops ft' (ns - {fn})" using index_close [OF _ fn c] ok by (simp add: ft_core_def)
  ultimately have "ft_ok ops ft' (remove1 fn as) (cs @ [fn]) (ns - {fn})" unfolding ft_ok_def ft_core_def U using q' by blast
  then show ?thesis using c fr by (auto simp: same_env_def)
qed

lemma tick_ok:
  assumes ok: "ft_core ops ft as cs ns" and ord: "idle_order ft (remove1 fn as)" and fn: "fn \<in> ns" and last: "f_etime (flow_of ft fn) = ft_ctime ft"
  shows "\<exists>ft'. yfFlowTick ft fn = Some ft' \<and> ft_ok ops ft' (remove1 fn as @ [fn]) cs ns \<and>
    same_env ft ft' \<and> flow_of ft' = flow_of ft"
proof -
  have q: "queues_ok ft as cs ns" using ok by (simp add: ft_core_def)
  note qd = queues_okD [OF q]
  from yfFlowTick_queues [OF q fn] obtain ft' where c: "yfFlowTick ft fn = Some ft'"
    and q': "queues_ok ft' (remove1 fn as @ [fn]) cs ns" by blast
  note fr = yfFlowTick_frame [OF c]
  have "f_etime (flow_of ft a) \<le> ft_ctime ft" if "a \<in> set (remove1 fn as)" for a
    using ok that qd(4) set_remove1_subset [of fn as] by (auto simp: ft_core_def flows_ok_def flow_ok_def)
  then have "idle_order ft (remove1 fn as @ [fn])"
    using ord last by (auto simp: idle_order_def sorted_wrt_append)
  then have "ft_ok ops ft' (remove1 fn as @ [fn]) cs ns"
    using ok q' index_cong [of ft ns ft'] unfolding ft_ok_def ft_core_def
    by (simp add: counts_ok_def flows_ok_def mem_ok_def idle_order_def fr)
  then show ?thesis using c fr by (auto simp: same_env_def)
qed

end

lemma fresh_flow_measures [simp]:
  "flow_pkts (zero_flow\<lparr>f_fid := i, f_stime := s, f_etime := e, f_key := k\<rparr>) = 0"
  "flow_octs (zero_flow\<lparr>f_fid := i, f_stime := s, f_etime := e, f_key := k\<rparr>) = 0"
  by (simp_all add: flow_pkts_def flow_octs_def zero_flow_def zero_val_def)

lemma fresh_flow_ok: "key_ok k \<Longrightarrow> s \<le> e \<Longrightarrow> e \<le> t \<Longrightarrow>
    flow_ok c t (zero_flow\<lparr>f_fid := i, f_stime := s, f_etime := e, f_key := k\<rparr>)"
  by (simp add: flow_ok_def val_ok_def zero_flow_def zero_val_def)

text \<open>A new node in full.\<close>

lemma yfFlowGetNode_new:
  assumes "gh_lookup ops (ft_table ft) key = None"
    and "gh_lookup ops (ft_table ft) (yfFlowKeyReverse key zero_key) = None"
    and "yfFlowGetNode ops ft key cf = (ft', fn, r)"
  shows "fn = ft_brk ft" "\<not> r" "ft_brk ft' = Suc (ft_brk ft)"
    "ft_links ft' = ft_links ft" "ft_aq ft' = ft_aq ft" "ft_cq ft' = ft_cq ft"
    "ft_count ft' = ft_count ft + 1" "ft_cq_count ft' = ft_cq_count ft" "ft_conf ft' = ft_conf ft"
    "ft_ctime ft' = ft_ctime ft" "ft_freed ft' = ft_freed ft"
    "ft_table ft' = gh_insert ops (ft_table ft) (yfFlowKeyCopy key zero_key) fn"
    "\<exists>i. flow_of ft' = (flow_of ft)(fn := zero_flow\<lparr>f_fid := i, f_stime := ft_ctime ft,
       f_etime := ft_ctime ft, f_key := yfFlowKeyCopy key zero_key\<rparr>)"
    "same_env ft ft'"
proof -
  let ?i = "if cf \<noteq> 0 then cf else ft_next_fid ft"
  show "fn = ft_brk ft" "\<not> r" "ft_brk ft' = Suc (ft_brk ft)"
    "ft_links ft' = ft_links ft" "ft_aq ft' = ft_aq ft" "ft_cq ft' = ft_cq ft"
    "ft_count ft' = ft_count ft + 1" "ft_cq_count ft' = ft_cq_count ft" "ft_conf ft' = ft_conf ft"
    "ft_ctime ft' = ft_ctime ft" "ft_freed ft' = ft_freed ft" "same_env ft ft'"
    using assms by (auto simp: yfFlowGetNode_def Let_def same_env_def split: if_splits)
  show "ft_table ft' = gh_insert ops (ft_table ft) (yfFlowKeyCopy key zero_key) fn"
    using assms by (auto simp: yfFlowGetNode_def Let_def zero_flow_def split: if_splits)
  have "ft_nodes ft' = (ft_nodes ft)(fn := zero_node\<lparr>fn_f := zero_flow\<lparr>f_fid := ?i,
      f_stime := ft_ctime ft, f_etime := ft_ctime ft, f_key := yfFlowKeyCopy key zero_key\<rparr>\<rparr>)"
    using assms by (auto simp: yfFlowGetNode_def Let_def zero_flow_def split: if_splits)
  then have "flow_of ft' = (flow_of ft)(fn := zero_flow\<lparr>f_fid := ?i,
      f_stime := ft_ctime ft, f_etime := ft_ctime ft, f_key := yfFlowKeyCopy key zero_key\<rparr>)"
    by (simp add: flow_of_def fun_eq_iff)
  then show "\<exists>i. flow_of ft' = (flow_of ft)(fn := zero_flow\<lparr>f_fid := i, f_stime := ft_ctime ft,
       f_etime := ft_ctime ft, f_key := yfFlowKeyCopy key zero_key\<rparr>)" by blast
qed

context flow_index
begin

lemma getnode_ok:
  assumes ok: "ft_ok ops ft as cs (set as)" and key: "key_ok key"
    and g: "yfFlowGetNode ops ft key cf = (ft', fn, r)"
  shows "ft_ok ops ft' as cs (insert fn (set as))" and "same_env ft ft'"
    and "m \<in> {flow_pkts, flow_octs} \<Longrightarrow>
      held m ft' (insert fn (set as) \<union> set cs) = held m ft (set as \<union> set cs)"
    and "yfFlowKeyEqual (f_key (flow_of ft' fn)) (if r then yfFlowKeyReverse key zero_key else key)"
proof -
  have q: "queues_ok ft as cs (set as)" and i: "index_ok ops ft (set as)" using ok by (simp_all add: ft_ok_def ft_core_def)
  note qd = queues_okD [OF q]
  have "ft_ok ops ft' as cs (insert fn (set as)) \<and> same_env ft ft' \<and>
    (m \<in> {flow_pkts, flow_octs} \<longrightarrow> held m ft' (insert fn (set as) \<union> set cs) = held m ft (set as \<union> set cs)) \<and>
    yfFlowKeyEqual (f_key (flow_of ft' fn)) (if r then yfFlowKeyReverse key zero_key else key)"
  proof (cases "gh_lookup ops (ft_table ft) key = None \<and>
      gh_lookup ops (ft_table ft) (yfFlowKeyReverse key zero_key) = None")
    case False
    then have "ft' = ft" and k: "gh_lookup ops (ft_table ft) (if r then yfFlowKeyReverse key zero_key else key) = Some fn"
      using g by (auto simp: yfFlowGetNode_def split: option.splits)
    moreover have "fn \<in> set as" "yfFlowKeyEqual (f_key (flow_of ft fn)) (if r then yfFlowKeyReverse key zero_key else key)"
      using k i unfolding index_ok_def by blast+
    ultimately show ?thesis using ok by (simp add: insert_absorb same_env_def)
  next
    case True
    note new = yfFlowGetNode_new [OF True [THEN conjunct1] True [THEN conjunct2] g]
    obtain fid where fl: "flow_of ft' = (flow_of ft)(fn := zero_flow\<lparr>f_fid := fid, f_stime := ft_ctime ft,
        f_etime := ft_ctime ft, f_key := yfFlowKeyCopy key zero_key\<rparr>)" using new(13) by blast
    have out: "fn \<notin> set as \<union> set cs" using qd(6) new(1) by auto
    have "queues_ok ft' as cs (insert fn (set as))"
      using q out new(1) by (auto simp: queues_ok_def new(3-6) less_Suc_eq)
    moreover have "counts_ok ft' cs (insert fn (set as))"
      using ok out by (simp add: ft_ok_def ft_core_def counts_ok_def new(7,8))
    moreover have "index_ok ops ft' (insert fn (set as))"
      using i out key True new(12) by (intro index_insert [of ft "set as" fn key]) (auto simp: fl)
    moreover have "flows_ok ft' (insert fn (set as) \<union> set cs)"
      using ok key by (auto simp: ft_ok_def ft_core_def flows_ok_def fl new(9,10) intro!: fresh_flow_ok)
    moreover have "idle_order ft' as = idle_order ft as"
      using out by (intro idle_order_cong) (auto simp: fl)
    moreover have "idle_order ft as" using ok by (simp add: ft_ok_def ft_core_def)
    moreover have "mem_ok ft' (insert fn (set as) \<union> set cs)"
      using ok new(1) out by (auto simp: ft_ok_def ft_core_def mem_ok_def new(3,11) lessThan_Suc)
    moreover have "held m ft' (insert fn (set as) \<union> set cs) = held m ft (set as \<union> set cs)"
      if "m \<in> {flow_pkts, flow_octs}"
    proof -
      have "held m ft' (set as \<union> set cs) = held m ft (set as \<union> set cs)"
        by (rule held_cong) (use out in \<open>auto simp: fl\<close>)
      then show ?thesis using held_insert [of "set as \<union> set cs" fn m ft'] out that by (auto simp: fl)
    qed
    moreover have "yfFlowKeyEqual (yfFlowKeyCopy key zero_key) key" using key by (rule yfFlowKeyCopy_equal)
    ultimately show ?thesis using new(2,14) by (simp add: ft_ok_def ft_core_def fl)
  qed
  then show "ft_ok ops ft' as cs (insert fn (set as))" "same_env ft ft'"
    "m \<in> {flow_pkts, flow_octs} \<Longrightarrow> held m ft' (insert fn (set as) \<union> set cs) = held m ft (set as \<union> set cs)"
    "yfFlowKeyEqual (f_key (flow_of ft' fn)) (if r then yfFlowKeyReverse key zero_key else key)" by auto
qed

end

subsection \<open>Counting a packet\<close>

definition same_counts :: "yfFlowVal \<Rightarrow> yfFlowVal \<Rightarrow> bool" where
  "same_counts v v' \<longleftrightarrow> fv_pkt v' = fv_pkt v \<and> fv_oct v' = fv_oct v"

lemma upd_tcp_step:
  assumes "c \<Longrightarrow> fv_tcp v \<noteq> None"
  shows "\<exists>v'. (if c then upd_tcp g v else Some v) = Some v' \<and> same_counts v v' \<and>
    (fv_tcp v \<noteq> None \<longrightarrow> fv_tcp v' \<noteq> None)"
  using assms by (cases c) (auto simp: upd_tcp_def same_counts_def)

lemma flow_tcp_seq_ok:
  assumes "tcp_needed (ft_conf ft) \<Longrightarrow> fv_pkt v \<noteq> 0 \<Longrightarrow> fv_tcp v \<noteq> None"
  shows "\<exists>v'. flow_tcp_seq ft rtt v ti dl = Some v' \<and> same_counts v v' \<and>
    (tcp_needed (ft_conf ft) \<longrightarrow> fv_tcp v' \<noteq> None)"
  using assms
  by (cases "fv_pkt v = 0"; cases "tcp_seq_enable (ft_conf ft)")
    (auto simp: flow_tcp_seq_def Let_def upd_tcp_def same_counts_def tcp_needed_def)

lemma set_val_fields [simp]:
  "flow_val r (fn_f (set_val r v n)) = v" "flow_val (\<not> r) (fn_f (set_val r v n)) = flow_val (\<not> r) (fn_f n)"
  "f_key (fn_f (set_val r v n)) = f_key (fn_f n)" "f_stime (fn_f (set_val r v n)) = f_stime (fn_f n)"
  "f_etime (fn_f (set_val r v n)) = f_etime (fn_f n)" "fn_state (set_val r v n) = fn_state n"
  by (simp_all add: set_val_def flow_val_def)

lemma flow_val_upd [simp]:
  "flow_val r (f\<lparr>f_rtt := x\<rparr>) = flow_val r f" "flow_val r (f\<lparr>f_rdtime := y\<rparr>) = flow_val r f"
  "flow_val r (f\<lparr>f_etime := z\<rparr>) = flow_val r f"
  "flow_val r (f\<lparr>f_sourceMacAddr := s, f_destinationMacAddr := d\<rparr>) = flow_val r f"
  by (simp_all add: flow_val_def)

lemma yfFlowPktTCP_ok:
  assumes "tcp_needed (ft_conf ft) \<Longrightarrow> fv_pkt (flow_val r (fn_f n)) \<noteq> 0 \<Longrightarrow> fv_tcp (flow_val r (fn_f n)) \<noteq> None"
  shows "\<exists>n'. yfFlowPktTCP ft n r ti ii dl = Some n' \<and> same_counts (flow_val r (fn_f n)) (flow_val r (fn_f n')) \<and>
    flow_val (\<not> r) (fn_f n') = flow_val (\<not> r) (fn_f n) \<and> f_key (fn_f n') = f_key (fn_f n) \<and>
    f_stime (fn_f n') = f_stime (fn_f n) \<and>
    (tcp_needed (ft_conf ft) \<longrightarrow> fv_tcp (flow_val r (fn_f n')) \<noteq> None)"
proof -
  let ?c = "ft_conf ft"
  from flow_tcp_seq_ok [of ft, OF assms] obtain v1
    where 1: "flow_tcp_seq ft (f_rtt (fn_f n)) (flow_val r (fn_f n)) ti dl = Some v1"
      and s1: "same_counts (flow_val r (fn_f n)) v1" and t1: "tcp_needed ?c \<longrightarrow> fv_tcp v1 \<noteq> None" by blast
  let ?g2 = "\<lambda>t. t\<lparr>tv_ack := qfAckSegment (tv_ack t) (ti_ack ti) (ti_sack ti) (ucast dl) (ucast (ft_ctime ft))\<rparr>"
  obtain v2 where 2: "(if has_flag (ti_flags ti) YF_TF_ACK \<and> tcp_ack_enable ?c then upd_tcp ?g2 v1 else Some v1) = Some v2"
      and s2: "same_counts v1 v2" and t2: "tcp_needed ?c \<longrightarrow> fv_tcp v2 \<noteq> None"
    using upd_tcp_step [of "has_flag (ti_flags ti) YF_TF_ACK \<and> tcp_ack_enable ?c" v1 ?g2] t1
    by (auto simp: tcp_needed_def)
  let ?g3 = "\<lambda>t. t\<lparr>tv_rwin := qfRwinSegment
      (if ti_ws ti \<noteq> 0 then qfRwinScale (tv_rwin t) (ti_ws ti) else tv_rwin t) (ucast (ti_rwin ti))\<rparr>"
  obtain v3 where 3: "(if tcp_rwin_enable ?c then upd_tcp ?g3 v2 else Some v2) = Some v3"
      and s3: "same_counts v2 v3" and t3: "tcp_needed ?c \<longrightarrow> fv_tcp v3 \<noteq> None"
    using upd_tcp_step [of "tcp_rwin_enable ?c" v2 ?g3] t2 by (auto simp: tcp_needed_def)
  let ?g4 = "\<lambda>t. t\<lparr>tv_opts := qfOptSegment (tv_opts t) ti ii dl\<rparr>"
  obtain v4 where 4: "(if tcp_opt_enable ?c then upd_tcp ?g4 v3 else Some v3) = Some v4"
      and s4: "same_counts v3 v4" and t4: "tcp_needed ?c \<longrightarrow> fv_tcp v4 \<noteq> None"
    using upd_tcp_step [of "tcp_opt_enable ?c" v3 ?g4] t3 by (auto simp: tcp_needed_def)
  have "same_counts (flow_val r (fn_f n)) v4" using s1 s2 s3 s4 by (simp add: same_counts_def)
  then show ?thesis using t4 by (simp add: yfFlowPktTCP_def 1 2 3 4 Let_def)
qed

lemma flow_pkts_val: "flow_pkts f = fv_pkt (flow_val r f) + fv_pkt (flow_val (\<not> r) f)"
  "flow_octs f = fv_oct (flow_val r f) + fv_oct (flow_val (\<not> r) f)"
  by (cases r; simp add: flow_pkts_def flow_octs_def flow_val_def)+

lemma flow_count_ok:
  assumes f: "flow_ok (ft_conf ft) t (fn_f n)"
  shows "\<exists>n'. flow_count ft n r pbuf = Some n' \<and> f_key (fn_f n') = f_key (fn_f n) \<and>
    f_stime (fn_f n') = f_stime (fn_f n) \<and> f_etime (fn_f n') = pb_ptime pbuf \<and>
    flow_pkts (fn_f n') = flow_pkts (fn_f n) + 1 \<and>
    flow_octs (fn_f n') = flow_octs (fn_f n) + ucast (pb_iplen pbuf) \<and>
    (\<forall>d. val_ok (ft_conf ft) (fn_f n') (flow_val d (fn_f n')))"
proof -
  let ?v = "flow_val r (fn_f n)" and ?c = "ft_conf ft"
  let ?n0 = "if fv_pkt ?v = 0 \<and> r
     then n\<lparr>fn_f := (fn_f n)\<lparr>f_rdtime := ucast (pb_ptime pbuf - f_stime (fn_f n))\<rparr>\<rparr> else n"
  let ?n1 = "set_val r (yfFlowPktIP ?v (pb_ipinfo pbuf)) ?n0"
  let ?dl = "ucast (ucast (pb_iplen pbuf) - pb_allHeaderLen pbuf + ucast (l2_l2hlen (pb_l2info pbuf))) :: u16"
  have ip: "fv_pkt (yfFlowPktIP v i) = fv_pkt v" "fv_oct (yfFlowPktIP v i) = fv_oct v"
      "fv_tcp (yfFlowPktIP v i) = fv_tcp v" for v i by (simp_all add: yfFlowPktIP_def Let_def)
  have n1: "flow_val r (fn_f ?n1) = yfFlowPktIP ?v (pb_ipinfo pbuf)"
    "flow_val (\<not> r) (fn_f ?n1) = flow_val (\<not> r) (fn_f n)" "f_key (fn_f ?n1) = f_key (fn_f n)"
    "f_stime (fn_f ?n1) = f_stime (fn_f n)" by auto
  have vok: "val_ok ?c (fn_f n) (flow_val d (fn_f n))" for d using f by (simp add: flow_ok_def flow_val_def)
  have "\<exists>n2. (if k_proto (f_key (fn_f ?n1)) = YF_PROTO_TCP
        then yfFlowPktTCP ft ?n1 r (pb_tcpinfo pbuf) (pb_ipinfo pbuf) ?dl else Some ?n1) = Some n2 \<and>
      same_counts ?v (flow_val r (fn_f n2)) \<and> flow_val (\<not> r) (fn_f n2) = flow_val (\<not> r) (fn_f n) \<and>
      f_key (fn_f n2) = f_key (fn_f n) \<and> f_stime (fn_f n2) = f_stime (fn_f n) \<and>
      (k_proto (f_key (fn_f n)) = YF_PROTO_TCP \<and> tcp_needed ?c \<longrightarrow> fv_tcp (flow_val r (fn_f n2)) \<noteq> None)"
  proof (cases "k_proto (f_key (fn_f n)) = YF_PROTO_TCP")
    case True
    have "tcp_needed ?c \<Longrightarrow> fv_pkt (flow_val r (fn_f ?n1)) \<noteq> 0 \<Longrightarrow> fv_tcp (flow_val r (fn_f ?n1)) \<noteq> None"
      using vok [of r] True by (simp add: n1 ip val_ok_def)
    from yfFlowPktTCP_ok [of ft r ?n1, OF this] show ?thesis
      unfolding n1 using True by (simp add: same_counts_def ip)
  next
    case False
    then show ?thesis unfolding n1(3) by (auto simp: same_counts_def ip)
  qed
  then obtain n2 where e: "(if k_proto (f_key (fn_f ?n1)) = YF_PROTO_TCP
        then yfFlowPktTCP ft ?n1 r (pb_tcpinfo pbuf) (pb_ipinfo pbuf) ?dl else Some ?n1) = Some n2"
    and n2: "same_counts ?v (flow_val r (fn_f n2))" "flow_val (\<not> r) (fn_f n2) = flow_val (\<not> r) (fn_f n)"
      "f_key (fn_f n2) = f_key (fn_f n)" "f_stime (fn_f n2) = f_stime (fn_f n)"
      "k_proto (f_key (fn_f n)) = YF_PROTO_TCP \<and> tcp_needed ?c \<longrightarrow> fv_tcp (flow_val r (fn_f n2)) \<noteq> None" by blast
  define n3 where "n3 = (if fv_pkt (flow_val r (fn_f n2)) = 0 \<and> macmode ?c \<and> \<not> r
     then n2\<lparr>fn_f := (fn_f n2)\<lparr>f_sourceMacAddr := l2_smac (pb_l2info pbuf),
                               f_destinationMacAddr := l2_dmac (pb_l2info pbuf)\<rparr>\<rparr> else n2)"
  have n3: "flow_val d (fn_f n3) = flow_val d (fn_f n2)" "f_key (fn_f n3) = f_key (fn_f n2)"
    "f_stime (fn_f n3) = f_stime (fn_f n2)" for d by (simp_all add: n3_def)
  define v where "v = (flow_val r (fn_f n2))\<lparr>fv_oct := fv_oct (flow_val r (fn_f n2)) + ucast (pb_iplen pbuf),
       fv_appoct := fv_appoct (flow_val r (fn_f n2)) + ucast ?dl, fv_pkt := fv_pkt (flow_val r (fn_f n2)) + 1,
       fv_apppkt := (if ?dl \<noteq> 0 then fv_apppkt (flow_val r (fn_f n2)) + 1 else fv_apppkt (flow_val r (fn_f n2)))\<rparr>"
  define n4 where "n4 = (set_val r v n3)\<lparr>fn_f := (fn_f (set_val r v n3))\<lparr>f_etime := pb_ptime pbuf\<rparr>\<rparr>"
  have res: "flow_count ft n r pbuf = Some n4"
    unfolding flow_count_def Let_def e n4_def n3_def v_def by simp
  have n4: "flow_val r (fn_f n4) = v" "flow_val (\<not> r) (fn_f n4) = flow_val (\<not> r) (fn_f n)"
    "f_key (fn_f n4) = f_key (fn_f n)" "f_stime (fn_f n4) = f_stime (fn_f n)" "f_etime (fn_f n4) = pb_ptime pbuf"
    by (simp_all add: n4_def n3 n2)
  have v: "fv_pkt v = fv_pkt ?v + 1" "fv_oct v = fv_oct ?v + ucast (pb_iplen pbuf)" "fv_tcp v = fv_tcp (flow_val r (fn_f n2))"
    using n2(1) by (simp_all add: v_def same_counts_def)
  have "val_ok ?c (fn_f n4) (flow_val d (fn_f n4))" for d
    using n4(1,2) n2(5) vok [of "\<not> r"] v(3) by (cases "d = r") (auto simp: val_ok_def n4(3))
  then show ?thesis
    using res n4 v by (auto simp: flow_pkts_val [of _ r] algebra_simps)
qed

subsection \<open>A whole packet\<close>

context flow_index
begin

lemma renew_ok:
  assumes ok: "ft_ok ops ft as cs (insert fn (set as))" and key: "key_ok key"
  shows "\<exists>ft' fn' r'. flow_renew ops ft key fn reason = Some (ft', fn', r') \<and>
    ft_ok ops ft' (remove1 fn as) (cs @ [fn]) (insert fn' (set (remove1 fn as))) \<and> same_env ft ft' \<and>
    (\<forall>m \<in> {flow_pkts, flow_octs}. held m ft' (insert fn' (set (remove1 fn as)) \<union> set (cs @ [fn])) =
       held m ft (insert fn (set as) \<union> set cs)) \<and>
    yfFlowKeyEqual (f_key (flow_of ft' fn')) (if r' then yfFlowKeyReverse key zero_key else key)"
proof -
  have core: "ft_core ops ft as cs (insert fn (set as))" using ok by (simp add: ft_ok_def)
  have d: "distinct as" using queues_okD(1) core by (auto simp: ft_core_def)
  have "idle_order ft (remove1 fn as)" using ok d by (simp add: ft_ok_def idle_order_remove)
  from close_ok [OF core this, of reason] obtain ft1 where c: "yfFlowClose ops ft fn reason = Some ft1"
    and ok1: "ft_ok ops ft1 (remove1 fn as) (cs @ [fn]) (insert fn (set as) - {fn})" and e1: "same_env ft ft1"
    and f1: "flow_of ft1 = (flow_of ft)(fn := set_reason reason (flow_of ft fn))" by auto
  have S: "insert fn (set as) - {fn} = set (remove1 fn as)" using d by auto
  obtain ft' fn' r' where g: "yfFlowGetNode ops ft1 key (f_fid (flow_of ft fn)) = (ft', fn', r')"
    by (cases "yfFlowGetNode ops ft1 key (f_fid (flow_of ft fn))") auto
  note gn = getnode_ok [OF ok1 [unfolded S] key g]
  have U: "set (remove1 fn as) \<union> set (cs @ [fn]) = insert fn (set as) \<union> set cs" using S by auto
  have "held m ft1 (insert fn (set as) \<union> set cs) = held m ft (insert fn (set as) \<union> set cs)"
    if "m \<in> {flow_pkts, flow_octs}" for m
    using that by (intro held_cong) (auto simp: f1)
  then have "\<forall>m \<in> {flow_pkts, flow_octs}. held m ft' (insert fn' (set (remove1 fn as)) \<union> set (cs @ [fn])) =
       held m ft (insert fn (set as) \<union> set cs)" using gn(3) unfolding U by simp
  then show ?thesis using c g gn(1,2,4) same_env_trans [OF e1] by (simp add: flow_renew_def Let_def)
qed

text \<open>The end of a packet: its node is written back and closed or moved to the head.\<close>

lemma pbuf_end_ok:
  assumes ok: "ft_ok ops ft as cs (insert fn (set as))" and t: "ft_ctime ft = pb_ptime pbuf"
    and n: "flow_count ft (ft_nodes ft fn) r pbuf = Some n"
    and res: "res = (if P then yfFlowClose ops (set_node fn n ft) fn YAF_END_CLOSED
                     else yfFlowTick (set_node fn n ft) fn)"
  shows "\<exists>ft' as' cs'. res = Some ft' \<and> ft_ok ops ft' as' cs' (set as') \<and> same_env ft ft' \<and>
    held flow_pkts ft' (set as' \<union> set cs') = held flow_pkts ft (insert fn (set as) \<union> set cs) + 1 \<and>
    held flow_octs ft' (set as' \<union> set cs') =
      held flow_octs ft (insert fn (set as) \<union> set cs) + ucast (pb_iplen pbuf)"
proof -
  let ?ft = "set_node fn n ft" and ?A = "insert fn (set as) \<union> set cs"
  have core: "ft_core ops ft as cs (insert fn (set as))" and ord: "idle_order ft as" using ok by (simp_all add: ft_ok_def)
  have qd: "distinct as" "finite ?A" using queues_okD core by (auto simp: ft_core_def)
  have fok: "flow_ok (ft_conf ft) (ft_ctime ft) (fn_f (ft_nodes ft fn))"
    using core by (simp add: ft_core_def flows_ok_def flow_of_def)
  from flow_count_ok [of ft "ft_ctime ft" "ft_nodes ft fn" r pbuf, OF fok] n
  have f: "f_key (fn_f n) = f_key (flow_of ft fn)" "f_stime (fn_f n) = f_stime (flow_of ft fn)"
    "f_etime (fn_f n) = pb_ptime pbuf" "flow_pkts (fn_f n) = flow_pkts (flow_of ft fn) + 1"
    "flow_octs (fn_f n) = flow_octs (flow_of ft fn) + ucast (pb_iplen pbuf)"
    "\<forall>d. val_ok (ft_conf ft) (fn_f n) (flow_val d (fn_f n))" by (auto simp: flow_of_def)
  have "flow_ok (ft_conf ft) (ft_ctime ft) (fn_f n)"
    using fok f spec [OF f(6), of True] spec [OF f(6), of False] t
    by (auto simp: flow_ok_def flow_of_def flow_val_def)
  then have flows: "flows_ok ?ft ?A" using core by (auto simp: ft_core_def flows_ok_def)
  have core': "ft_core ops ?ft as cs (insert fn (set as))"
    using core flows index_cong [of ft "insert fn (set as)" ?ft] f(1)
    by (auto simp: ft_core_def queues_ok_def counts_ok_def mem_ok_def)
  have ord': "idle_order ?ft (remove1 fn as)"
    using idle_order_remove [OF ord qd(1), of fn] idle_order_cong [of "remove1 fn as" ?ft ft] qd(1) by auto
  have h0: "held m ?ft ?A = held m ft ?A - m (flow_of ft fn) + m (fn_f n)" for m
  proof -
    have "held m ft (?A - {fn}) = held m ?ft (?A - {fn})" by (simp add: held_def)
    moreover have "held m g ?A = m (flow_of g fn) + held m g (?A - {fn})" for g :: "'t yfFlowTab"
      unfolding held_def by (rule sum.remove [OF qd(2)]) simp
    ultimately show ?thesis by simp
  qed
  show ?thesis
  proof (cases P)
    case True
    from close_ok [OF core' ord', of YAF_END_CLOSED] True res obtain ft' where c: "res = Some ft'"
      and ok': "ft_ok ops ft' (remove1 fn as) (cs @ [fn]) (insert fn (set as) - {fn})" and e: "same_env ?ft ft'"
      and fl: "flow_of ft' = (flow_of ?ft)(fn := set_reason YAF_END_CLOSED (flow_of ?ft fn))" by auto
    have S: "insert fn (set as) - {fn} = set (remove1 fn as)" using qd(1) by auto
    have U: "set (remove1 fn as) \<union> set (cs @ [fn]) = ?A" using S by auto
    have "held m ft' ?A = held m ?ft ?A" if "m \<in> {flow_pkts, flow_octs}" for m
      using that by (intro held_cong) (auto simp: fl)
    then show ?thesis
      using c ok' e h0 f(4,5) unfolding S
      by (intro exI [of _ ft'] exI [of _ "remove1 fn as"] exI [of _ "cs @ [fn]"]) (simp only: U, simp add: same_env_def)
  next
    case False
    from tick_ok [OF core' ord'] f(3) t False res obtain ft' where c: "res = Some ft'"
      and ok': "ft_ok ops ft' (remove1 fn as @ [fn]) cs (insert fn (set as))" and e: "same_env ?ft ft'"
      and fl: "flow_of ft' = flow_of ?ft" by auto
    have S: "insert fn (set as) = set (remove1 fn as @ [fn])" using qd(1) by auto
    have "held m ft' ?A = held m ?ft ?A" for m by (simp only: held_def fl)
    then show ?thesis
      using c ok' e h0 f(4,5) unfolding S
      by (intro exI [of _ ft'] exI [of _ "remove1 fn as @ [fn]"] exI [of _ cs]) (simp add: same_env_def)
  qed
qed

end

lemma flow_ok_reason [simp]: "flow_ok c t (f\<lparr>f_reason := x\<rparr>) = flow_ok c t f"
  by (simp add: flow_ok_def val_ok_def)

lemma measures_reason [simp]:
  "flow_pkts (f\<lparr>f_reason := x\<rparr>) = flow_pkts f" "flow_octs (f\<lparr>f_reason := x\<rparr>) = flow_octs f"
  by (simp_all add: flow_pkts_def flow_octs_def)

lemma ft_ok_time:
  assumes "ft_ok ops ft as cs ns" and "ft_ctime ft \<le> t"
  shows "ft_ok ops (ft\<lparr>ft_ctime := t, ft_stats := s\<rparr>) as cs ns"
proof -
  have [simp]: "flow_of (ft\<lparr>ft_ctime := t, ft_stats := s\<rparr>) = flow_of ft" by (simp add: flow_of_def fun_eq_iff)
  show ?thesis
    using assms order.trans [of _ "ft_ctime ft" t]
    by (auto simp: ft_ok_def ft_core_def queues_ok_def counts_ok_def index_ok_def flows_ok_def flow_ok_def
        mem_ok_def idle_order_def)
qed

context flow_index
begin

lemma set_reason_ok:
  fixes fn x
  assumes ok: "ft_ok ops ft as cs ns"
  defines "ft' \<equiv> set_node fn ((ft_nodes ft fn)\<lparr>fn_f := (flow_of ft fn)\<lparr>f_reason := x\<rparr>\<rparr>) ft"
  shows "ft_ok ops ft' as cs ns" and "same_env ft ft'"
    and "m \<in> {flow_pkts, flow_octs} \<Longrightarrow> held m ft' A = held m ft A"
proof -
  have f: "flow_of ft' = (flow_of ft)(fn := (flow_of ft fn)\<lparr>f_reason := x\<rparr>)"
    by (auto simp: ft'_def fun_eq_iff)
  have "idle_order ft' as = idle_order ft as" by (rule idle_order_cong) (auto simp: f)
  moreover have "flows_ok ft' (ns \<union> set cs) = flows_ok ft (ns \<union> set cs)"
    unfolding flows_ok_def f by (auto simp: ft'_def)
  moreover have "index_ok ops ft ns \<Longrightarrow> index_ok ops ft' ns"
    by (erule index_cong) (auto simp: f, simp add: ft'_def)
  ultimately show "ft_ok ops ft' as cs ns"
    using ok by (simp add: ft_ok_def ft_core_def) (simp add: queues_ok_def counts_ok_def mem_ok_def ft'_def)
  show "same_env ft ft'" by (simp add: same_env_def ft'_def)
  show "m \<in> {flow_pkts, flow_octs} \<Longrightarrow> held m ft' A = held m ft A"
    by (intro held_cong) (auto simp: f)
qed

lemma renew_if_ok:
  assumes ok: "ft_ok ops ft as cs (insert fn (set as))" and key: "key_ok key"
    and res: "res = (if c then map_option (\<lambda>(ft, fn, r).
         (if silk then set_node fn ((ft_nodes ft fn)\<lparr>fn_f := (flow_of ft fn)\<lparr>f_reason := x\<rparr>\<rparr>) ft else ft, fn, r))
         (flow_renew ops ft key fn reason) else Some (ft, fn, r))"
  shows "\<exists>ft' fn' r' as' cs'. res = Some (ft', fn', r') \<and> ft_ok ops ft' as' cs' (insert fn' (set as')) \<and>
    same_env ft ft' \<and> (\<forall>m \<in> {flow_pkts, flow_octs}. held m ft' (insert fn' (set as') \<union> set cs') =
       held m ft (insert fn (set as) \<union> set cs))"
proof (cases c)
  case True
  from renew_ok [OF ok key, of reason] obtain ft1 fn1 r1 where n: "flow_renew ops ft key fn reason = Some (ft1, fn1, r1)"
    and ok1: "ft_ok ops ft1 (remove1 fn as) (cs @ [fn]) (insert fn1 (set (remove1 fn as)))" and e1: "same_env ft ft1"
    and h1: "\<forall>m \<in> {flow_pkts, flow_octs}. held m ft1 (insert fn1 (set (remove1 fn as)) \<union> set (cs @ [fn])) =
       held m ft (insert fn (set as) \<union> set cs)" by blast
  note sr = set_reason_ok [OF ok1, where fn = fn1 and x = x]
  show ?thesis
  proof (cases silk)
    case True
    then show ?thesis using \<open>c\<close> n sr h1 same_env_trans [OF e1] res
      by (intro exI [of _ "set_node fn1 ((ft_nodes ft1 fn1)\<lparr>fn_f := (flow_of ft1 fn1)\<lparr>f_reason := x\<rparr>\<rparr>) ft1"]
          exI [of _ fn1] exI [of _ r1] exI [of _ "remove1 fn as"] exI [of _ "cs @ [fn]"]) auto
  next
    case False
    then show ?thesis using \<open>c\<close> n ok1 h1 e1 res
      by (intro exI [of _ ft1] exI [of _ fn1] exI [of _ r1] exI [of _ "remove1 fn as"] exI [of _ "cs @ [fn]"]) auto
  qed
next
  case False
  then show ?thesis using ok res
    by (intro exI [of _ ft] exI [of _ fn] exI [of _ r] exI [of _ as] exI [of _ cs]) (simp add: same_env_def)
qed

lemma pbuf_ok:
  assumes ok: "ft_ok ops ft as cs (set as)" and key: "key_ok (pb_key pbuf)" and t: "ft_ctime ft \<le> pb_ptime pbuf"
  shows "\<exists>ft' as' cs'. yfFlowPBuf ops ft pbuf = Some ft' \<and> ft_ok ops ft' as' cs' (set as') \<and>
    ft_conf ft' = ft_conf ft \<and> ft_ctime ft' = pb_ptime pbuf \<and>
    stat_packets (ft_stats ft') = stat_packets (ft_stats ft) + 1 \<and>
    stat_seqrej (ft_stats ft') = stat_seqrej (ft_stats ft) \<and>
    stat_octets (ft_stats ft') = stat_octets (ft_stats ft) + ucast (pb_iplen pbuf) \<and>
    held flow_pkts ft' (set as' \<union> set cs') = held flow_pkts ft (set as \<union> set cs) + 1 \<and>
    held flow_octs ft' (set as' \<union> set cs') = held flow_octs ft (set as \<union> set cs) + ucast (pb_iplen pbuf)"
proof -
  define ft1 where "ft1 = ft\<lparr>ft_ctime := pb_ptime pbuf,
     ft_stats := (ft_stats ft)\<lparr>stat_packets := stat_packets (ft_stats ft) + 1,
                              stat_octets := stat_octets (ft_stats ft) + ucast (pb_iplen pbuf)\<rparr>\<rparr>"
  have ok1: "ft_ok ops ft1 as cs (set as)" unfolding ft1_def using ok t by (rule ft_ok_time)
  have h1: "held m ft1 A = held m ft A" for m A by (simp add: held_def ft1_def flow_of_def)
  obtain ft2 fn2 r2 where g: "yfFlowGetNode ops ft1 (pb_key pbuf) 0 = (ft2, fn2, r2)"
    by (cases "yfFlowGetNode ops ft1 (pb_key pbuf) 0") auto
  note ok2 = getnode_ok [OF ok1 key g]
  let ?c3 = "active_ms (ft_conf ft2) < pb_ptime pbuf - f_stime (flow_of ft2 fn2) \<or> silkmode (ft_conf ft2) \<and>
     0xFFFFFFFF < fv_oct (flow_val r2 (flow_of ft2 fn2)) + ucast (pb_iplen pbuf)"
  have conf: "ft_conf ft2 = ft_conf ft" using ok2(2) by (simp add: same_env_def ft1_def)
  let ?X3 = "if ?c3 then map_option (\<lambda>(ft, fn, r).
         (if silkmode (ft_conf ft) then set_node fn ((ft_nodes ft fn)\<lparr>fn_f := (flow_of ft fn)\<lparr>f_reason := YAF_ENDF_ISCONT\<rparr>\<rparr>) ft else ft, fn, r))
         (flow_renew ops ft2 (pb_key pbuf) fn2 YAF_END_ACTIVE) else Some (ft2, fn2, r2)"
  have X3: "?X3 = (if ?c3 then map_option (\<lambda>(ft', fn, r).
         (if silkmode (ft_conf ft) then set_node fn ((ft_nodes ft' fn)\<lparr>fn_f := (flow_of ft' fn)\<lparr>f_reason := YAF_ENDF_ISCONT\<rparr>\<rparr>) ft' else ft', fn, r))
         (flow_renew ops ft2 (pb_key pbuf) fn2 YAF_END_ACTIVE) else Some (ft2, fn2, r2))"
    using renew_ok [OF ok2(1) key, of YAF_END_ACTIVE] conf by (auto simp: same_env_def)
  from renew_if_ok [OF ok2(1) key X3] obtain ft3 fn3 r3 as3 cs3 where e3: "?X3 = Some (ft3, fn3, r3)"
    and ok3: "ft_ok ops ft3 as3 cs3 (insert fn3 (set as3))" and env3: "same_env ft2 ft3"
    and h3: "\<forall>m \<in> {flow_pkts, flow_octs}. held m ft3 (insert fn3 (set as3) \<union> set cs3) =
       held m ft2 (insert fn2 (set as) \<union> set cs)" by blast
  let ?X4 = "if idle_ms (ft_conf ft3) < pb_ptime pbuf - f_etime (flow_of ft3 fn3)
     then flow_renew ops ft3 (pb_key pbuf) fn3 YAF_END_IDLE else Some (ft3, fn3, r3)"
  have X4: "?X4 = (if idle_ms (ft_conf ft3) < pb_ptime pbuf - f_etime (flow_of ft3 fn3) then map_option (\<lambda>(ft, fn, r).
         (if False then set_node fn ((ft_nodes ft fn)\<lparr>fn_f := (flow_of ft fn)\<lparr>f_reason := 0\<rparr>\<rparr>) ft else ft, fn, r))
         (flow_renew ops ft3 (pb_key pbuf) fn3 YAF_END_IDLE) else Some (ft3, fn3, r3))"
    by (simp add: option.map_id id_def [symmetric] del: id_def)
  from renew_if_ok [OF ok3 key X4] obtain ft4 fn4 r4 as4 cs4 where e4: "?X4 = Some (ft4, fn4, r4)"
    and ok4: "ft_ok ops ft4 as4 cs4 (insert fn4 (set as4))" and env4: "same_env ft3 ft4"
    and h4: "\<forall>m \<in> {flow_pkts, flow_octs}. held m ft4 (insert fn4 (set as4) \<union> set cs4) =
       held m ft3 (insert fn3 (set as3) \<union> set cs3)" by blast
  have env: "same_env ft1 ft4" using ok2(2) env3 env4 same_env_trans by blast
  then have t4: "ft_ctime ft4 = pb_ptime pbuf" by (simp add: same_env_def ft1_def)
  have "flow_ok (ft_conf ft4) (ft_ctime ft4) (fn_f (ft_nodes ft4 fn4))"
    using ok4 by (simp add: ft_ok_def ft_core_def flows_ok_def flow_of_def)
  from flow_count_ok [OF this, of r4 pbuf] obtain n where n: "flow_count ft4 (ft_nodes ft4 fn4) r4 pbuf = Some n" by blast
  define res where "res = (if fn_state n AND YAF_STATE_FIN = YAF_STATE_FIN \<or> fn_state n AND YAF_STATE_RST \<noteq> 0
     then yfFlowClose ops (set_node fn4 n ft4) fn4 YAF_END_CLOSED else yfFlowTick (set_node fn4 n ft4) fn4)"
  have run: "yfFlowPBuf ops ft pbuf = res"
    using leD [OF t] unfolding yfFlowPBuf_def Let_def ft1_def [symmetric] g prod.case e3 Option.bind.simps e4 n res_def
    by simp
  from pbuf_end_ok [OF ok4 t4 n res_def] obtain ft' as' cs' where r: "res = Some ft'"
    and ok': "ft_ok ops ft' as' cs' (set as')" and e': "same_env ft4 ft'"
    and hp: "held flow_pkts ft' (set as' \<union> set cs') = held flow_pkts ft4 (insert fn4 (set as4) \<union> set cs4) + 1"
    and ho: "held flow_octs ft' (set as' \<union> set cs') =
      held flow_octs ft4 (insert fn4 (set as4) \<union> set cs4) + ucast (pb_iplen pbuf)" by blast
  have "held m ft4 (insert fn4 (set as4) \<union> set cs4) = held m ft (set as \<union> set cs)"
    if "m \<in> {flow_pkts, flow_octs}" for m
    using h3 h4 ok2(3) [of m] that h1 by auto
  then show ?thesis
    using run r ok' hp ho same_env_trans [OF env e']
    by (intro exI [of _ ft'] exI [of _ as'] exI [of _ cs']) (simp add: same_env_def ft1_def)
qed

end

end
