(* ===== verification/FlowTabFlush.thy ===== *)
theory FlowTabFlush
  imports FlowTabInv
begin

text \<open>
  The flush of the flow table: its loops end, it keeps the invariant, and what it leaves behind.
  The writer is arbitrary; a writer that always succeeds is described by the log of the records it
  has been given.
\<close>

lemma remove1_hd: "remove1 a (a # as) = as"
  by simp

lemma held_reason:
  assumes "flow_of ft' = (flow_of ft)(fn := set_reason x (flow_of ft fn))" and "m \<in> {flow_pkts, flow_octs}"
  shows "held m ft' A = held m ft A"
  using assms by (intro held_cong) auto

context flow_index
begin

lemma close_while_ok:
  assumes "ft_ok ops ft as cs (set as)"
  shows "\<exists>ft' ds es. flow_close_while ops P reason ft = Some ft' \<and> as = ds @ es \<and>
    ft_ok ops ft' es (cs @ ds) (set es) \<and> (es \<noteq> [] \<longrightarrow> \<not> P ft' (hd es)) \<and> same_env ft ft' \<and>
    (\<forall>a. f_etime (flow_of ft' a) = f_etime (flow_of ft a)) \<and>
    (\<forall>m \<in> {flow_pkts, flow_octs}. \<forall>A. held m ft' A = held m ft A)"
  using assms
proof (induction as arbitrary: ft cs)
  case Nil
  then have "q_tail (ft_aq ft) = None" using piq.rep_tail by (auto simp: ft_ok_def ft_core_def queues_ok_def)
  then show ?case using Nil by (subst flow_close_while.simps) (auto simp: same_env_def)
next
  case (Cons a as)
  have t: "q_tail (ft_aq ft) = Some a"
    using Cons.prems piq.rep_tail [of "ft_links ft" "ft_aq ft" "a # as"] by (simp add: ft_ok_def ft_core_def queues_ok_def)
  show ?case
  proof (cases "P ft a")
    case False
    then show ?thesis using t Cons.prems
      by (subst flow_close_while.simps) (intro exI [of _ ft] exI [of _ "[]"] exI [of _ "a # as"], simp add: same_env_def)
  next
    case True
    have d: "distinct (a # as)" using Cons.prems queues_okD(1) unfolding ft_ok_def ft_core_def by blast
    have core: "ft_core ops ft (a # as) cs (set (a # as))" and ord: "idle_order ft (remove1 a (a # as))"
      using Cons.prems by (simp_all add: ft_ok_def idle_order_def)
    from close_ok [OF core ord, of reason] obtain ft1 where c: "yfFlowClose ops ft a reason = Some ft1"
      and ok1: "ft_ok ops ft1 as (cs @ [a]) (set (a # as) - {a})" and e1: "same_env ft ft1"
      and f1: "flow_of ft1 = (flow_of ft)(a := set_reason reason (flow_of ft a))" by auto
    have ok1': "ft_ok ops ft1 as (cs @ [a]) (set as)" using ok1 d by (simp add: insert_Diff_if)
    from Cons.IH [OF ok1'] obtain ft' ds es where r: "flow_close_while ops P reason ft1 = Some ft'" "as = ds @ es"
      "ft_ok ops ft' es ((cs @ [a]) @ ds) (set es)" "es \<noteq> [] \<longrightarrow> \<not> P ft' (hd es)" "same_env ft1 ft'"
      "\<forall>a. f_etime (flow_of ft' a) = f_etime (flow_of ft1 a)" "\<forall>m \<in> {flow_pkts, flow_octs}. \<forall>A. held m ft' A = held m ft1 A" by blast
    have "flow_close_while ops P reason ft = Some ft'" using t True c r(1) by (subst flow_close_while.simps) simp
    then show ?thesis
      using r same_env_trans [OF e1 r(5)] held_reason [OF f1] f1
      by (intro exI [of _ ft'] exI [of _ "a # ds"] exI [of _ es]) simp
  qed
qed

end

subsection \<open>Emptying the close queue\<close>

text \<open>The records written for a flow.\<close>

definition records :: "bool \<Rightarrow> yfFlow \<Rightarrow> yfFlow list" where
  "records uni f =
     (if uni then yfUniflow f # (case yfUniflowReverse f (yfUniflow f) of None \<Rightarrow> [] | Some u \<Rightarrow> [u]) else [f])"

text \<open>A writer that, from the states with an invariant of its own, succeeds on every flow of a legal IP version
  and keeps a log: one entry for each record, with the packets of the flow.\<close>

definition logs :: "('w \<Rightarrow> bool) \<Rightarrow> 'w writer \<Rightarrow> ('w \<Rightarrow> yfFlow list) \<Rightarrow> bool" where
  "logs I wr lg \<longleftrightarrow> (\<forall>w f. I w \<and> key_ok (f_key f) \<longrightarrow>
     I (fst (wr w f)) \<and> snd (wr w f) \<and> (\<exists>r. lg (fst (wr w f)) = lg w @ [r] \<and> flow_pkts r = flow_pkts f))"

definition exported :: "(yfFlow \<Rightarrow> u64) \<Rightarrow> yfFlow list \<Rightarrow> u64" where
  "exported m fs = (\<Sum>f\<leftarrow>fs. m f)"

lemma exported_append [simp]: "exported m (xs @ ys) = exported m xs + exported m ys"
  by (simp add: exported_def)

lemma exported_Nil [simp]: "exported m [] = 0"
  by (simp add: exported_def)

lemma logsD:
  assumes "logs I wr lg" and "I w" and "key_ok (f_key f)"
  shows "I (fst (wr w f))" and "snd (wr w f)"
    and "exported flow_pkts (lg (fst (wr w f))) = exported flow_pkts (lg w) + flow_pkts f"
proof -
  obtain r where "I (fst (wr w f))" "snd (wr w f)" "lg (fst (wr w f)) = lg w @ [r]" "flow_pkts r = flow_pkts f"
    using assms unfolding logs_def by blast
  then show "I (fst (wr w f))" "snd (wr w f)"
    "exported flow_pkts (lg (fst (wr w f))) = exported flow_pkts (lg w) + flow_pkts f"
    by (simp_all add: exported_def)
qed

lemma uniflow_keys:
  "f_key (yfUniflow f) = f_key f"
  "key_ok (f_key f) \<Longrightarrow> yfUniflowReverse f uf = Some u \<Longrightarrow> key_ok (f_key u)"
  by (auto simp: yfUniflow_def yfUniflowReverse_def key_ok_def yfFlowKeyReverse_def Let_def split: if_splits)

lemma flow_write_logs:
  assumes "logs I wr lg" and "I w" and "key_ok (f_key f)"
  shows "exported flow_pkts (lg (fst (flow_write wr uni f w))) = exported flow_pkts (lg w) + exported flow_pkts (records uni f)"
    and "fst (snd (flow_write wr uni f w))" and "I (fst (flow_write wr uni f w))"
  using logsD [OF assms(1)] assms(2,3) uniflow_keys
  by (auto simp: flow_write_def records_def Let_def split_beta exported_def add.assoc split: option.splits)

lemma records_pkts: "sum_list (map flow_pkts (records uni f)) = flow_pkts f"
  by (auto simp: records_def yfUniflow_def yfUniflowReverse_def flow_pkts_def zero_val_def)

context flow_index
begin

lemma dequeue_ok:
  assumes ok: "ft_ok ops ft as (c # cs) (set as)"
  defines "h \<equiv> fst (piqDeQ (ft_links ft) (ft_cq ft))" and "q \<equiv> fst (snd (piqDeQ (ft_links ft) (ft_cq ft)))"
  shows "piqDeQ (ft_links ft) (ft_cq ft) = (h, q, Some c)"
    and "ft_ok ops (yfFlowFree (ft\<lparr>ft_links := h, ft_cq := q, ft_stats := s, ft_cq_count := ft_cq_count ft - 1\<rparr>) c) as cs (set as)"
proof -
  let ?l = "ft_links ft"
  let ?ft = "yfFlowFree (ft\<lparr>ft_links := h, ft_cq := q, ft_stats := s, ft_cq_count := ft_cq_count ft - 1\<rparr>) c"
  have qs: "queues_ok ft as (c # cs) (set as)" using ok by (simp add: ft_ok_def ft_core_def)
  then have r: "picq ?l (ft_aq ft) as" "picq ?l (ft_cq ft) (c # cs)" and dis: "set (c # cs) \<inter> set as = {}"
    and u: "\<And>a. a \<notin> set as \<Longrightarrow> a \<notin> set (c # cs) \<Longrightarrow> unlinked ?l a" by (auto simp: queues_ok_def)
  have t: "q_tail (ft_cq ft) = Some c" using piq.rep_tail [OF r(2)] by simp
  have p: "piqPick ?l (ft_cq ft) c = (h, q)"
    using t unfolding h_def q_def piqDeQ_def by (simp add: split_beta)
  show "piqDeQ ?l (ft_cq ft) = (h, q, Some c)" using t p by (simp add: piqDeQ_def)
  have m: "c \<in> set (c # cs)" by simp
  have d: "distinct (c # cs)" using r(2) by (rule picqD)
  have a: "picq h q cs" "unlinked h c" using piq.pick_in [OF r(2) m p] by simp_all
  have b: "picq h (ft_aq ft) as" using piq.pick_rep_other [OF r(2) m p r(1) dis] .
  have u': "unlinked h y" if "y \<notin> set as" "y \<notin> set cs" for y
    using a(2) piq.pick_free_other [OF r(2) m p, of y] u [of y] that by (cases "y = c") auto
  have f: "flow_of ?ft = flow_of ft" by (simp add: yfFlowFree_def flow_of_def fun_eq_iff)
  have "queues_ok ?ft as cs (set as)" using qs a(1) b u' by (auto simp: queues_ok_def yfFlowFree_def)
  moreover have "mem_ok ?ft (set as \<union> set cs)"
    using ok d dis by (auto simp: ft_ok_def ft_core_def mem_ok_def yfFlowFree_def)
  moreover have "counts_ok ?ft cs (set as)" using ok by (simp add: ft_ok_def ft_core_def counts_ok_def yfFlowFree_def)
  moreover have "index_ok ops ?ft (set as)"
    using ok index_cong [of ft "set as" ?ft] by (simp add: ft_ok_def ft_core_def f) (simp add: yfFlowFree_def)
  moreover have "flows_ok ?ft (set as \<union> set cs)" "idle_order ?ft as"
    using ok by (simp_all add: ft_ok_def ft_core_def flows_ok_def idle_order_def f) (simp_all add: yfFlowFree_def)
  ultimately show "ft_ok ops ?ft as cs (set as)" by (simp add: ft_ok_def ft_core_def)
qed

lemma flush_cq_ok:
  assumes "ft_ok ops ft as cs (set as)"
  shows "\<exists>ft' w' b ds cs'. flow_flush_cq wr ft w = Some (ft', w', b) \<and> cs = ds @ cs' \<and>
    ft_ok ops ft' as cs' (set as) \<and> (b \<longrightarrow> cs' = []) \<and> same_env ft ft' \<and> flow_of ft' = flow_of ft \<and>
    ft_count ft' = ft_count ft \<and>
    (logs I wr lg \<and> I w \<longrightarrow> I w' \<and> b \<and> exported flow_pkts (lg w') = exported flow_pkts (lg w) +
       exported flow_pkts (concat (map (records (uniflow (ft_conf ft)) \<circ> flow_of ft) cs)))"
  using assms
proof (induction cs arbitrary: ft w)
  case Nil
  have "piqDeQ (ft_links ft) (ft_cq ft) = (ft_links ft, ft_cq ft, None)"
    using Nil piq.rep_tail [of "ft_links ft" "ft_cq ft" "[]"]
    by (simp add: ft_ok_def ft_core_def queues_ok_def piqDeQ_def)
  then show ?case using Nil
    by (subst flow_flush_cq.simps) (intro exI [of _ ft] exI [of _ w] exI [of _ True] exI [of _ "[]"], simp add: same_env_def)
next
  case (Cons c cs)
  let ?h = "fst (piqDeQ (ft_links ft) (ft_cq ft))" and ?q = "fst (snd (piqDeQ (ft_links ft) (ft_cq ft)))"
  let ?f = "flow_of ft c" and ?st = "ft_stats ft"
  let ?st1 = "if fv_oct (f_rval ?f) = 0 \<and> fv_pkt (f_rval ?f) = 0 then ?st\<lparr>stat_uniflows := stat_uniflows ?st + 1\<rparr> else ?st"
  let ?res = "flow_write wr (uniflow (ft_conf ft)) ?f w"
  let ?st2 = "?st1\<lparr>stat_flows := stat_flows ?st1 + snd (snd ?res)\<rparr>"
  define ft1 where "ft1 = yfFlowFree (ft\<lparr>ft_links := ?h, ft_cq := ?q, ft_stats := ?st2, ft_cq_count := ft_cq_count ft - 1\<rparr>) c"
  note dq = dequeue_ok [OF Cons.prems]
  have ok1: "ft_ok ops ft1 as cs (set as)" unfolding ft1_def by (rule dq(2))
  have f0: "flow_of (ft\<lparr>ft_links := x, ft_cq := y\<rparr>) c = ?f" for x y by (simp add: flow_of_def)
  have step: "flow_flush_cq wr ft w =
      (if \<not> fst (snd ?res) then Some (ft1, fst ?res, False) else flow_flush_cq wr ft1 (fst ?res))"
    by (subst flow_flush_cq.simps, subst dq(1)) (simp add: Let_def f0 ft1_def)
  have e1: "same_env ft ft1" and f1: "flow_of ft1 = flow_of ft" and c1: "ft_count ft1 = ft_count ft"
    by (simp_all add: ft1_def yfFlowFree_def same_env_def flow_of_def fun_eq_iff)
  have key: "key_ok (f_key ?f)" using Cons.prems by (simp add: ft_ok_def ft_core_def flows_ok_def flow_ok_def)
  show ?case
  proof (cases "fst (snd ?res)")
    case False
    then show ?thesis
      using step ok1 e1 f1 c1 flow_write_logs(2) [OF _ _ key, of I wr lg w]
      by (intro exI [of _ ft1] exI [of _ "fst ?res"] exI [of _ False] exI [of _ "[c]"] exI [of _ cs]) auto
  next
    case True
    from Cons.IH [OF ok1, of "fst ?res"] obtain ft' w' b ds cs' where r: "flow_flush_cq wr ft1 (fst ?res) = Some (ft', w', b)"
      "cs = ds @ cs'" "ft_ok ops ft' as cs' (set as)" "b \<longrightarrow> cs' = []" "same_env ft1 ft'" "flow_of ft' = flow_of ft1"
      "ft_count ft' = ft_count ft1"
      "logs I wr lg \<and> I (fst ?res) \<longrightarrow> I w' \<and> b \<and> exported flow_pkts (lg w') = exported flow_pkts (lg (fst ?res)) +
         exported flow_pkts (concat (map (records (uniflow (ft_conf ft1)) \<circ> flow_of ft1) cs))" by blast
    have conf: "ft_conf ft1 = ft_conf ft" using e1 by (simp add: same_env_def)
    have "flow_flush_cq wr ft w = Some (ft', w', b) \<and> c # cs = (c # ds) @ cs' \<and>
        ft_ok ops ft' as cs' (set as) \<and> (b \<longrightarrow> cs' = []) \<and> same_env ft ft' \<and> flow_of ft' = flow_of ft \<and>
        ft_count ft' = ft_count ft \<and>
        (logs I wr lg \<and> I w \<longrightarrow> I w' \<and> b \<and> exported flow_pkts (lg w') = exported flow_pkts (lg w) +
           exported flow_pkts (concat (map (records (uniflow (ft_conf ft)) \<circ> flow_of ft) (c # cs))))"
      using step True r f1 c1 conf same_env_trans [OF e1 r(5)] flow_write_logs [OF _ _ key, of I wr lg w] by (simp add: add.assoc)
    then show ?thesis by blast
  qed
qed

end

subsection \<open>The flush\<close>

definition flush_due :: "'t yfFlowTab \<Rightarrow> bool \<Rightarrow> bool" where
  "flush_due ft close \<longleftrightarrow> close \<or> ft_flushtime ft = 0 \<or> ft_flushtime ft + YF_FLUSH_DELAY \<le> ft_ctime ft \<or>
     YF_MAX_CQ \<le> ft_cq_count ft"

definition flushed :: "'t yfFlowTab \<Rightarrow> addr list \<Rightarrow> bool \<Rightarrow> bool" where
  "flushed ft as close \<longleftrightarrow>
     (\<forall>a \<in> set as. ft_ctime ft - f_etime (flow_of ft a) \<le> idle_ms (ft_conf ft)) \<and>
     (max_flows (ft_conf ft) \<noteq> 0 \<longrightarrow> ft_count ft < max_flows (ft_conf ft)) \<and> (close \<longrightarrow> as = [])"

lemma exported_records: "distinct cs \<Longrightarrow>
    exported flow_pkts (concat (map (records uni \<circ> flow_of ft) cs)) = held flow_pkts ft (set cs)"
proof (induction cs)
  case (Cons c cs)
  then show ?case using records_pkts [of uni "flow_of ft c"] by (simp add: exported_def held_def)
qed (simp add: exported_def held_def)

lemma held_Un: "finite A \<Longrightarrow> finite B \<Longrightarrow> A \<inter> B = {} \<Longrightarrow> held m ft (A \<union> B) = held m ft A + held m ft B"
  by (simp add: held_def sum.union_disjoint)

lemma idle_all:
  assumes ord: "idle_order ft es" and t: "\<forall>a \<in> set es. f_etime (flow_of ft a) \<le> ft_ctime ft"
    and hd: "es \<noteq> [] \<Longrightarrow> ft_ctime ft - f_etime (flow_of ft (hd es)) \<le> d" and a: "a \<in> set es"
  shows "ft_ctime ft - f_etime (flow_of ft a) \<le> d"
proof -
  obtain e es' where es: "es = e # es'" using a by (cases es) auto
  have "f_etime (flow_of ft e) \<le> f_etime (flow_of ft a)"
    using ord a es by (auto simp: idle_order_def)
  moreover have "f_etime (flow_of ft a) \<le> ft_ctime ft" using t a by blast
  ultimately have "ft_ctime ft - f_etime (flow_of ft a) \<le> ft_ctime ft - f_etime (flow_of ft e)"
    by (simp add: word_le_nat_alt unat_sub)
  then show ?thesis using hd es by simp
qed

context flow_index
begin

lemma flush_due_ok:
  assumes ok: "ft_ok ops ft as cs (set as)" and due: "flush_due ft close"
  shows "\<exists>ft' w' b as' cs'. yfFlowTabFlush ops wr ft w close = Some (ft', w', b) \<and>
    ft_ok ops ft' as' cs' (set as') \<and> same_env ft ft' \<and> flushed ft' as' close \<and> (b \<longrightarrow> cs' = []) \<and>
    (logs I wr lg \<and> I w \<longrightarrow> I w' \<and> b \<and> exported flow_pkts (lg w') + held flow_pkts ft' (set as') =
       exported flow_pkts (lg w) + held flow_pkts ft (set as \<union> set cs))"
proof -
  define ft0 where "ft0 = ft\<lparr>ft_flushtime := ft_ctime ft,
     ft_stats := (ft_stats ft)\<lparr>stat_flush := stat_flush (ft_stats ft) + 1\<rparr>\<rparr>"
  have f0: "flow_of ft0 = flow_of ft" by (simp add: ft0_def flow_of_def fun_eq_iff)
  have ok0: "ft_ok ops ft0 as cs (set as)"
    using ok by (simp add: ft_ok_def ft_core_def queues_ok_def counts_ok_def index_ok_def flows_ok_def mem_ok_def
        idle_order_def f0) (simp add: ft0_def)
  have e0: "same_env ft ft0" by (simp add: ft0_def same_env_def)
  let ?P1 = "\<lambda>ft fn. idle_ms (ft_conf ft) < ft_ctime ft - f_etime (flow_of ft fn)"
  let ?P2 = "\<lambda>ft fn. max_flows (ft_conf ft) \<noteq> 0 \<and> max_flows (ft_conf ft) \<le> ft_count ft"
  let ?P3 = "\<lambda>(ft :: 't yfFlowTab) (fn :: addr). close"
  from close_while_ok [OF ok0, of ?P1 YAF_END_IDLE] obtain ft1 ds1 as1 where
    1: "flow_close_while ops ?P1 YAF_END_IDLE ft0 = Some ft1" "as = ds1 @ as1" "ft_ok ops ft1 as1 (cs @ ds1) (set as1)"
      "as1 \<noteq> [] \<longrightarrow> \<not> ?P1 ft1 (hd as1)" "same_env ft0 ft1"
      "\<forall>m \<in> {flow_pkts, flow_octs}. \<forall>A. held m ft1 A = held m ft0 A" by blast
  from close_while_ok [OF 1(3), of ?P2 YAF_END_RESOURCE] obtain ft2 ds2 as2 where
    2: "flow_close_while ops ?P2 YAF_END_RESOURCE ft1 = Some ft2" "as1 = ds2 @ as2"
      "ft_ok ops ft2 as2 ((cs @ ds1) @ ds2) (set as2)" "as2 \<noteq> [] \<longrightarrow> \<not> ?P2 ft2 (hd as2)" "same_env ft1 ft2"
      "\<forall>a. f_etime (flow_of ft2 a) = f_etime (flow_of ft1 a)"
      "\<forall>m \<in> {flow_pkts, flow_octs}. \<forall>A. held m ft2 A = held m ft1 A" by blast
  from close_while_ok [OF 2(3), of ?P3 YAF_END_FORCED] obtain ft3 ds3 as3 where
    3: "flow_close_while ops ?P3 YAF_END_FORCED ft2 = Some ft3" "as2 = ds3 @ as3"
      "ft_ok ops ft3 as3 (((cs @ ds1) @ ds2) @ ds3) (set as3)" "as3 \<noteq> [] \<longrightarrow> \<not> close" "same_env ft2 ft3"
      "\<forall>a. f_etime (flow_of ft3 a) = f_etime (flow_of ft2 a)"
      "\<forall>m \<in> {flow_pkts, flow_octs}. \<forall>A. held m ft3 A = held m ft2 A" by blast
  let ?cs = "((cs @ ds1) @ ds2) @ ds3"
  from flush_cq_ok [OF 3(3), of wr w I lg] obtain ft' w' b ds cs' where
    4: "flow_flush_cq wr ft3 w = Some (ft', w', b)" "?cs = ds @ cs'" "ft_ok ops ft' as3 cs' (set as3)" "b \<longrightarrow> cs' = []"
      "same_env ft3 ft'" "flow_of ft' = flow_of ft3" "ft_count ft' = ft_count ft3"
      "logs I wr lg \<and> I w \<longrightarrow> I w' \<and> b \<and> exported flow_pkts (lg w') = exported flow_pkts (lg w) +
         exported flow_pkts (concat (map (records (uniflow (ft_conf ft3)) \<circ> flow_of ft3) ?cs))" by blast
  have env: "same_env ft ft'" using e0 1(5) 2(5) 3(5) 4(5) same_env_trans by blast
  have run: "yfFlowTabFlush ops wr ft w close = Some (ft', w', b)"
    using due 1(1) 2(1) 3(1) 4(1) unfolding yfFlowTabFlush_def ft0_def [symmetric] flush_due_def Let_def
    by (auto simp: not_less)
  have idle: "ft_ctime ft' - f_etime (flow_of ft' a) \<le> idle_ms (ft_conf ft')" if "a \<in> set as3" for a
  proof -
    have t1: "\<forall>a \<in> set as1. f_etime (flow_of ft1 a) \<le> ft_ctime ft1" and o1: "idle_order ft1 as1"
      using 1(3) by (auto simp: ft_ok_def ft_core_def flows_ok_def flow_ok_def)
    have "as1 \<noteq> [] \<Longrightarrow> ft_ctime ft1 - f_etime (flow_of ft1 (hd as1)) \<le> idle_ms (ft_conf ft1)" using 1(4) by simp
    from idle_all [OF o1 t1 this, of a] that show ?thesis
      using 2(2,5,6) 3(2,5,6) 4(5,6) by (simp add: same_env_def)
  qed
  have limit: "max_flows (ft_conf ft') \<noteq> 0 \<longrightarrow> ft_count ft' < max_flows (ft_conf ft')"
  proof (cases "as3 = []")
    case True
    then show ?thesis using 4(3) by (simp add: ft_ok_def ft_core_def counts_ok_def word_neq_0_conv)
  next
    case False
    then have nc: "\<not> close" using 3(4) by simp
    have "flow_close_while ops ?P3 YAF_END_FORCED ft2 = Some ft2"
      using nc by (subst flow_close_while.simps) (simp split: option.split)
    then have "ft3 = ft2" using 3(1) by simp
    moreover have "as2 \<noteq> []" using False 3(2) by simp
    ultimately show ?thesis using 2(4) 4(5,7) by (auto simp: same_env_def)
  qed
  have fl: "flushed ft' as3 close" using idle limit 3(4) by (auto simp: flushed_def)
  have "queues_ok ft3 as3 ?cs (set as3)" using 3(3) by (simp only: ft_ok_def ft_core_def)
  note q = queues_okD [OF this]
  have "held flow_pkts ft (set as \<union> set cs) = held flow_pkts ft3 (set as3 \<union> set ?cs)"
  proof -
    have "set as \<union> set cs = set as3 \<union> set ?cs" using 1(2) 2(2) 3(2) by auto
    moreover have "held flow_pkts ft A = held flow_pkts ft0 A" for A by (simp add: held_def f0)
    ultimately show ?thesis using 1(6) 2(7) 3(7) by simp
  qed
  also have "\<dots> = held flow_pkts ft3 (set as3) + held flow_pkts ft3 (set ?cs)" using q(5) by (intro held_Un) auto
  finally have h: "held flow_pkts ft (set as \<union> set cs) = held flow_pkts ft3 (set as3) + held flow_pkts ft3 (set ?cs)" .
  have h': "held flow_pkts ft' (set as3) = held flow_pkts ft3 (set as3)" by (simp add: held_def 4(6))
  have "logs I wr lg \<and> I w \<longrightarrow> I w' \<and> b \<and> exported flow_pkts (lg w') + held flow_pkts ft' (set as3) =
       exported flow_pkts (lg w) + held flow_pkts ft (set as \<union> set cs)"
    using 4(8) exported_records [OF q(2), of "uniflow (ft_conf ft3)" ft3] unfolding h h' by auto
  then show ?thesis using run 4(3,4) env fl by blast
qed

lemma flush_ok:
  assumes ok: "ft_ok ops ft as cs (set as)"
  shows "\<exists>ft' w' b as' cs'. yfFlowTabFlush ops wr ft w close = Some (ft', w', b) \<and>
    ft_ok ops ft' as' cs' (set as') \<and> same_env ft ft' \<and>
    (logs I wr lg \<and> I w \<longrightarrow> I w' \<and> b \<and> exported flow_pkts (lg w') + held flow_pkts ft' (set as' \<union> set cs') =
       exported flow_pkts (lg w) + held flow_pkts ft (set as \<union> set cs))"
proof (cases "flush_due ft close")
  case True
  from flush_due_ok [OF ok True, of wr w I lg] obtain ft' w' b as' cs' where
    "yfFlowTabFlush ops wr ft w close = Some (ft', w', b)" "ft_ok ops ft' as' cs' (set as')" "same_env ft ft'"
    "b \<longrightarrow> cs' = []" "logs I wr lg \<and> I w \<longrightarrow> I w' \<and> b \<and> exported flow_pkts (lg w') + held flow_pkts ft' (set as') =
       exported flow_pkts (lg w) + held flow_pkts ft (set as \<union> set cs)" by blast
  then show ?thesis by (intro exI [of _ ft'] exI [of _ w'] exI [of _ b] exI [of _ as'] exI [of _ cs']) auto
next
  case False
  then have "yfFlowTabFlush ops wr ft w close = Some (ft, w, True)"
    by (auto simp: yfFlowTabFlush_def flush_due_def not_le)
  then show ?thesis using ok
    by (intro exI [of _ ft] exI [of _ w] exI [of _ True] exI [of _ as] exI [of _ cs]) (simp add: same_env_def)
qed

end

subsection \<open>Freeing the table\<close>

lemma free_walk:
  assumes "dseg (ft_links ft) None xs nx"
  shows "flow_free_walk (last_or None xs) ft = Some (ft\<lparr>ft_freed := xs @ ft_freed ft\<rparr>)"
  using assms
proof (induction xs arbitrary: ft nx rule: rev_induct)
  case Nil
  show ?case by (subst flow_free_walk.simps) simp
next
  case (snoc x xs)
  have p: "node_p (ft_links ft) x = last_or None xs" and d: "dseg (ft_links (yfFlowFree ft x)) None xs (Some x)"
    using snoc.prems by (simp_all add: yfFlowFree_def)
  show ?case using snoc.IH [OF d] p by (subst flow_free_walk.simps) (simp add: yfFlowFree_def)
qed

lemma tab_free_ok:
  assumes "ft_ok ops ft as cs (set as)"
  shows "yfFlowTabFree ft = Some (ft\<lparr>ft_freed := as @ cs @ ft_freed ft\<rparr>)"
    and "distinct (as @ cs @ ft_freed ft)" "set (as @ cs @ ft_freed ft) = {..<ft_brk ft}"
proof -
  have q: "queues_ok ft as cs (set as)" and m: "mem_ok ft (set as \<union> set cs)"
    using assms by (simp_all add: ft_ok_def ft_core_def)
  have a: "dseg (ft_links ft) None as None" "q_head (ft_aq ft) = last_or None as"
    and c: "dseg (ft_links ft) None cs None" "q_head (ft_cq ft) = last_or None cs"
    using q by (simp_all add: queues_ok_def picq_def)
  show "yfFlowTabFree ft = Some (ft\<lparr>ft_freed := as @ cs @ ft_freed ft\<rparr>)"
    using free_walk [OF c(1)] free_walk [of "ft\<lparr>ft_freed := cs @ ft_freed ft\<rparr>" as None] a c(2)
    by (simp add: yfFlowTabFree_def)
  show "distinct (as @ cs @ ft_freed ft)" "set (as @ cs @ ft_freed ft) = {..<ft_brk ft}"
    using m queues_okD [OF q] by (auto simp: mem_ok_def)
qed

subsection \<open>Histories\<close>

text \<open>What happens to a flow table: packets and flushes, in any order.\<close>

datatype ft_event = Packet yfPBuf | Flush bool

fun ft_step :: "'t flow_ops \<Rightarrow> 'w writer \<Rightarrow> 't yfFlowTab \<times> 'w \<Rightarrow> ft_event \<Rightarrow> ('t yfFlowTab \<times> 'w) option" where
  "ft_step ops wr (ft, w) (Packet pbuf) = map_option (\<lambda>ft. (ft, w)) (yfFlowPBuf ops ft pbuf)"
| "ft_step ops wr (ft, w) (Flush close) = map_option (\<lambda>(ft, w, b). (ft, w)) (yfFlowTabFlush ops wr ft w close)"

fun ft_run :: "'t flow_ops \<Rightarrow> 'w writer \<Rightarrow> 't yfFlowTab \<times> 'w \<Rightarrow> ft_event list \<Rightarrow> ('t yfFlowTab \<times> 'w) option" where
  "ft_run ops wr s [] = Some s"
| "ft_run ops wr s (e # es) = Option.bind (ft_step ops wr s e) (\<lambda>s. ft_run ops wr s es)"

fun packet_ok :: "ft_event \<Rightarrow> bool" where
  "packet_ok (Packet pbuf) = key_ok (pb_key pbuf)"
| "packet_ok (Flush c) = True"

fun is_packet :: "ft_event \<Rightarrow> bool" where
  "is_packet (Packet pbuf) = True"
| "is_packet (Flush c) = False"

definition seen :: "'t yfFlowTab \<Rightarrow> u64" where
  "seen ft = stat_packets (ft_stats ft) + stat_seqrej (ft_stats ft)"

lemma tab_alloc_ok: "ghash_table ops yfFlowKeyEqual \<Longrightarrow> ft_ok ops (yfFlowTabAlloc ops conf) [] [] {}"
  using flow_index.index_new [OF flow_index.intro]
  by (auto simp: ft_ok_def ft_core_def queues_ok_def counts_ok_def flows_ok_def mem_ok_def idle_order_def
      picq_def empty_queue_def yfFlowTabAlloc_def unlinked_def no_links_def)

context flow_index
begin

lemma step_ok:
  assumes ok: "ft_ok ops ft as cs (set as)" and e: "packet_ok e"
  shows "\<exists>ft' w' as' cs'. ft_step ops wr (ft, w) e = Some (ft', w') \<and> ft_ok ops ft' as' cs' (set as') \<and>
    ft_conf ft' = ft_conf ft \<and> seen ft' = seen ft + of_bool (is_packet e) \<and>
    (logs I wr lg \<and> I w \<longrightarrow> I w' \<and> exported flow_pkts (lg w') + held flow_pkts ft' (set as' \<union> set cs') - stat_packets (ft_stats ft') =
       exported flow_pkts (lg w) + held flow_pkts ft (set as \<union> set cs) - stat_packets (ft_stats ft))"
proof (cases e)
  case (Flush c)
  from flush_ok [OF ok, of wr w c I lg] obtain ft' w' b as' cs' where
    "yfFlowTabFlush ops wr ft w c = Some (ft', w', b)" "ft_ok ops ft' as' cs' (set as')" "same_env ft ft'"
    "logs I wr lg \<and> I w \<longrightarrow> I w' \<and> b \<and> exported flow_pkts (lg w') + held flow_pkts ft' (set as' \<union> set cs') =
       exported flow_pkts (lg w) + held flow_pkts ft (set as \<union> set cs)" by blast
  then have "ft_step ops wr (ft, w) e = Some (ft', w') \<and> ft_ok ops ft' as' cs' (set as') \<and>
      ft_conf ft' = ft_conf ft \<and> seen ft' = seen ft + of_bool (is_packet e) \<and>
      (logs I wr lg \<and> I w \<longrightarrow> I w' \<and> exported flow_pkts (lg w') + held flow_pkts ft' (set as' \<union> set cs') - stat_packets (ft_stats ft') =
         exported flow_pkts (lg w) + held flow_pkts ft (set as \<union> set cs) - stat_packets (ft_stats ft))"
    using Flush by (simp add: same_env_def seen_def)
  then show ?thesis by blast
next
  case (Packet p)
  show ?thesis
  proof (cases "pb_ptime p < ft_ctime ft")
    case True
    let ?ft = "ft\<lparr>ft_stats := (ft_stats ft)\<lparr>stat_seqrej := stat_seqrej (ft_stats ft) + 1\<rparr>\<rparr>"
    have "ft_ok ops ?ft as cs (set as)" using ft_ok_time [OF ok order_refl] by simp
    moreover have "ft_step ops wr (ft, w) e = Some (?ft, w)" using True Packet by (simp add: yfFlowPBuf_def Let_def)
    moreover have "held m ?ft A = held m ft A" for m A by (simp add: held_def flow_of_def)
    ultimately show ?thesis using Packet
      by (intro exI [of _ ?ft] exI [of _ w] exI [of _ as] exI [of _ cs]) (simp_all add: seen_def)
  next
    case False
    then have t: "ft_ctime ft \<le> pb_ptime p" by simp
    from pbuf_ok [OF ok _ t] e Packet obtain ft' as' cs' where
      p: "yfFlowPBuf ops ft p = Some ft'" "ft_ok ops ft' as' cs' (set as')" "ft_conf ft' = ft_conf ft"
        "stat_packets (ft_stats ft') = stat_packets (ft_stats ft) + 1"
        "held flow_pkts ft' (set as' \<union> set cs') = held flow_pkts ft (set as \<union> set cs) + 1"
        and s: "stat_seqrej (ft_stats ft') = stat_seqrej (ft_stats ft)" by auto
    have "ft_step ops wr (ft, w) e = Some (ft', w) \<and> ft_ok ops ft' as' cs' (set as') \<and>
      ft_conf ft' = ft_conf ft \<and> seen ft' = seen ft + of_bool (is_packet e) \<and>
      (logs I wr lg \<and> I w \<longrightarrow> I w \<and> exported flow_pkts (lg w) + held flow_pkts ft' (set as' \<union> set cs') - stat_packets (ft_stats ft') =
         exported flow_pkts (lg w) + held flow_pkts ft (set as \<union> set cs) - stat_packets (ft_stats ft))"
      using Packet p s by (simp add: seen_def)
    then show ?thesis by blast
  qed
qed

lemma run_ok:
  assumes "ft_ok ops ft as cs (set as)" and "list_all packet_ok es"
  shows "\<exists>ft' w' as' cs'. ft_run ops wr (ft, w) es = Some (ft', w') \<and> ft_ok ops ft' as' cs' (set as') \<and>
    ft_conf ft' = ft_conf ft \<and> seen ft' = seen ft + of_nat (length (filter is_packet es)) \<and>
    (logs I wr lg \<and> I w \<longrightarrow> I w' \<and> exported flow_pkts (lg w') + held flow_pkts ft' (set as' \<union> set cs') - stat_packets (ft_stats ft') =
       exported flow_pkts (lg w) + held flow_pkts ft (set as \<union> set cs) - stat_packets (ft_stats ft))"
  using assms
proof (induction es arbitrary: ft w as cs)
  case Nil
  then show ?case by (intro exI [of _ ft] exI [of _ w] exI [of _ as] exI [of _ cs]) simp
next
  case (Cons e es)
  have e: "packet_ok e" using Cons.prems by simp
  from step_ok [OF Cons.prems(1) e, of wr w I lg] obtain ft1 w1 as1 cs1 where
    1: "ft_step ops wr (ft, w) e = Some (ft1, w1)" "ft_ok ops ft1 as1 cs1 (set as1)" "ft_conf ft1 = ft_conf ft"
      "seen ft1 = seen ft + of_bool (is_packet e)"
      "logs I wr lg \<and> I w \<longrightarrow> I w1 \<and> exported flow_pkts (lg w1) + held flow_pkts ft1 (set as1 \<union> set cs1) - stat_packets (ft_stats ft1) =
       exported flow_pkts (lg w) + held flow_pkts ft (set as \<union> set cs) - stat_packets (ft_stats ft)" by blast
  from Cons.IH [OF 1(2), of w1] Cons.prems(2) obtain ft' w' as' cs' where
    2: "ft_run ops wr (ft1, w1) es = Some (ft', w')" "ft_ok ops ft' as' cs' (set as')" "ft_conf ft' = ft_conf ft1"
      "seen ft' = seen ft1 + of_nat (length (filter is_packet es))"
      "logs I wr lg \<and> I w1 \<longrightarrow> I w' \<and> exported flow_pkts (lg w') + held flow_pkts ft' (set as' \<union> set cs') - stat_packets (ft_stats ft') =
       exported flow_pkts (lg w1) + held flow_pkts ft1 (set as1 \<union> set cs1) - stat_packets (ft_stats ft1)" by auto
  have "ft_run ops wr (ft, w) (e # es) = Some (ft', w') \<and> ft_ok ops ft' as' cs' (set as') \<and>
    ft_conf ft' = ft_conf ft \<and> seen ft' = seen ft + of_nat (length (filter is_packet (e # es))) \<and>
    (logs I wr lg \<and> I w \<longrightarrow> I w' \<and> exported flow_pkts (lg w') + held flow_pkts ft' (set as' \<union> set cs') - stat_packets (ft_stats ft') =
       exported flow_pkts (lg w) + held flow_pkts ft (set as \<union> set cs) - stat_packets (ft_stats ft))"
    using 1 2 by (simp add: add.assoc)
  then show ?case by blast
qed

end

lemma index_biflow:
  assumes i: "index_ok ops ft ns" and k: "gh_lookup ops (ft_table ft) k = Some a"
    and r: "yfFlowKeyEqual (yfFlowKeyReverse k zero_key) k'"
  shows "yfFlowGetNode ops ft k' c = (ft, a, \<not> yfFlowKeyEqual k k')"
proof -
  let ?R = "\<lambda>k. yfFlowKeyReverse k zero_key" and ?k = "\<lambda>a. f_key (flow_of ft a)"
  have look: "gh_lookup ops (ft_table ft) x = Some b \<longleftrightarrow> b \<in> ns \<and> yfFlowKeyEqual (?k b) x" for x b
    using i by (simp add: index_ok_def)
  have a: "a \<in> ns" "yfFlowKeyEqual (?k a) k" using k look by auto
  show ?thesis
  proof (cases "yfFlowKeyEqual k k'")
    case True
    then have "gh_lookup ops (ft_table ft) k' = Some a" using look a flowkey.eq_trans by blast
    then show ?thesis using True by (simp add: yfFlowGetNode_def)
  next
    case False
    have "gh_lookup ops (ft_table ft) k' \<noteq> Some b" for b
    proof
      assume "gh_lookup ops (ft_table ft) k' = Some b"
      then have b: "b \<in> ns" "yfFlowKeyEqual (?k b) k'" using look by auto
      have "yfFlowKeyEqual (?R (?k a)) (?k b)"
        using yfFlowKeyReverse_cong [OF a(2), of zero_key zero_key] r b(2) flowkey.eq_sym flowkey.eq_trans by blast
      then have "a = b" using i a(1) b(1) by (simp add: index_ok_def)
      then show False using False a(2) b(2) flowkey.eq_sym flowkey.eq_trans by blast
    qed
    then have n: "gh_lookup ops (ft_table ft) k' = None" by (metis not_Some_eq)
    have "key_ok k" using a(2) by (simp add: yfFlowKeyEqual_iff)
    then have "yfFlowKeyEqual k (?R k')"
      using yfFlowKeyReverse_cong [OF r, of zero_key zero_key] yfFlowKeyReverse_twice [of k zero_key zero_key]
        flowkey.eq_sym flowkey.eq_trans by blast
    then have "gh_lookup ops (ft_table ft) (?R k') = Some a" using look a flowkey.eq_trans by blast
    then show ?thesis using False n by (simp add: yfFlowGetNode_def)
  qed
qed

interpretation flowidx: flow_index "bucket_ops yfFlowKeyHash yfFlowKeyEqual"
  by (rule flow_index.intro) (rule flowkey.bucket_table)

subsection \<open>Properties\<close>

text \<open>C4: Safety of the flow table. For any hash table that behaves as documented, any record
  writer and any history of IPv4 and IPv6 packets and flushes, no operation aborts (no queue
  assertion fails, no null pointer is followed, every loop ends), and the table is left well-formed:
  both queues are linked and disjoint, the counters are their lengths, the index holds exactly the
  active flows with at most one flow per biflow, the active queue is in order of end time, and
  every node allocated is in a queue or was freed once.\<close>

theorem flow_table_safe:
  assumes "ghash_table ops yfFlowKeyEqual" and "list_all packet_ok es"
  shows "\<exists>ft w' as cs. ft_run ops wr (yfFlowTabAlloc ops conf, w) es = Some (ft, w') \<and>
    ft_ok ops ft as cs (set as)"
proof -
  have ok: "ft_ok ops (yfFlowTabAlloc ops conf) [] [] (set [])" using tab_alloc_ok [OF assms(1)] by simp
  from flow_index.run_ok [OF flow_index.intro [OF assms(1)] ok assms(2), of wr w] show ?thesis by blast
qed

definition ex_conf :: flow_conf where
  "ex_conf = \<lparr>idle_ms = 300000, active_ms = 1800000, max_flows = 100, uniflow = False, silkmode = False,
     macmode = True, tcp_seq_enable = True, tcp_ack_enable = True, tcp_rtt_enable = True,
     tcp_rwin_enable = True, tcp_opt_enable = True, tcp_ts_enable = True, tcp_iat_enable = True\<rparr>"

definition ex_pbuf :: "u64 \<Rightarrow> u16 \<Rightarrow> u16 \<Rightarrow> yfPBuf" where
  "ex_pbuf t sp dp = zero_pbuf\<lparr>pb_ptime := t, pb_iplen := 60,
     pb_key := zero_key\<lparr>k_version := 4, k_proto := YF_PROTO_TCP, k_sp := sp, k_dp := dp\<rparr>\<rparr>"

definition ex_events :: "ft_event list" where
  "ex_events = [Packet (ex_pbuf 1000 80 5000), Packet (ex_pbuf 1010 5000 80), Flush False,
     Packet (ex_pbuf 900 1 2), Flush True]"

definition log_writer :: "yfFlow list writer" where
  "log_writer w f = (w @ [f], True)"

lemma ex_events_ok: "list_all packet_ok ex_events"
  by (simp add: ex_events_def ex_pbuf_def key_ok_def zero_pbuf_def zero_key_def)

theorem flow_table_safe_witness:
  "\<exists>ft w' as cs. ft_run (bucket_ops yfFlowKeyHash yfFlowKeyEqual) log_writer
      (yfFlowTabAlloc (bucket_ops yfFlowKeyHash yfFlowKeyEqual) ex_conf, []) ex_events = Some (ft, w') \<and>
    ft_ok (bucket_ops yfFlowKeyHash yfFlowKeyEqual) ft as cs (set as)"
  by (rule flow_table_safe [OF flowkey.bucket_table ex_events_ok])

text \<open>C5: No packet is lost or counted twice. With a writer that succeeds, over any history the
  packets the table has accepted are exactly those counted in the records written so far, in biflow
  or in uniflow mode, plus those counted in the flows it still holds; and accepted and rejected
  packets together are the packets offered.\<close>

theorem packets_conserved:
  assumes "ghash_table ops yfFlowKeyEqual" and "list_all packet_ok es" and "logs I wr lg" and "I w" and "lg w = []"
  shows "\<exists>ft w' as cs. ft_run ops wr (yfFlowTabAlloc ops conf, w) es = Some (ft, w') \<and>
    picq (ft_links ft) (ft_aq ft) as \<and> picq (ft_links ft) (ft_cq ft) cs \<and>
    stat_packets (ft_stats ft) = exported flow_pkts (lg w') + held flow_pkts ft (set as \<union> set cs) \<and>
    stat_packets (ft_stats ft) + stat_seqrej (ft_stats ft) = of_nat (length (filter is_packet es))"
proof -
  let ?ft = "yfFlowTabAlloc ops conf"
  have ok: "ft_ok ops ?ft [] [] (set [])" using tab_alloc_ok [OF assms(1)] by simp
  from flow_index.run_ok [OF flow_index.intro [OF assms(1)] ok assms(2), of wr w I lg] obtain ft w' as cs where
    r: "ft_run ops wr (?ft, w) es = Some (ft, w')" "ft_ok ops ft as cs (set as)"
      "seen ft = seen ?ft + of_nat (length (filter is_packet es))"
      "exported flow_pkts (lg w') + held flow_pkts ft (set as \<union> set cs) - stat_packets (ft_stats ft) =
       exported flow_pkts (lg w) + held flow_pkts ?ft (set [] \<union> set []) - stat_packets (ft_stats ?ft)"
    using assms(3,4) by blast
  have z: "stat_packets (ft_stats ?ft) = 0" "seen ?ft = 0" by (simp_all add: yfFlowTabAlloc_def zero_stats_def seen_def)
  have "stat_packets (ft_stats ft) = exported flow_pkts (lg w') + held flow_pkts ft (set as \<union> set cs)"
    using r(4) assms(5) z(1) by (simp add: exported_def held_def)
  moreover have "stat_packets (ft_stats ft) + stat_seqrej (ft_stats ft) = of_nat (length (filter is_packet es))"
    using r(3) z(2) by (simp add: seen_def)
  moreover have "picq (ft_links ft) (ft_aq ft) as" "picq (ft_links ft) (ft_cq ft) cs"
    using r(2) by (simp_all add: ft_ok_def ft_core_def queues_ok_def)
  ultimately show ?thesis using r(1) by blast
qed

lemma log_writer_logs: "logs (\<lambda>w. True) log_writer (\<lambda>w. w)"
  by (auto simp: logs_def log_writer_def)

theorem packets_conserved_witness:
  "\<exists>ft w' as cs. ft_run (bucket_ops yfFlowKeyHash yfFlowKeyEqual) log_writer
      (yfFlowTabAlloc (bucket_ops yfFlowKeyHash yfFlowKeyEqual) ex_conf, []) ex_events = Some (ft, w') \<and>
    picq (ft_links ft) (ft_aq ft) as \<and> picq (ft_links ft) (ft_cq ft) cs \<and>
    stat_packets (ft_stats ft) = exported flow_pkts w' + held flow_pkts ft (set as \<union> set cs) \<and>
    stat_packets (ft_stats ft) + stat_seqrej (ft_stats ft) = 3"
  using packets_conserved [OF flowkey.bucket_table ex_events_ok log_writer_logs TrueI refl]
  by (simp add: ex_events_def)

text \<open>C15: What a flush guarantees. After any history, a flush that is due (forced, first, five
  seconds after the last one, or with a long close queue) leaves no flow that has been idle longer
  than the idle timeout, fewer active flows than the configured maximum, and no active flow at all
  when closing; if the writer succeeded, nothing is left waiting to be written.\<close>

theorem flush_guarantees:
  assumes "ghash_table ops yfFlowKeyEqual" and "list_all packet_ok es"
  shows "\<exists>ft w1. ft_run ops wr (yfFlowTabAlloc ops conf, w) es = Some (ft, w1) \<and>
    (flush_due ft close \<longrightarrow>
      (\<exists>ft' w2 b as cs. yfFlowTabFlush ops wr ft w1 close = Some (ft', w2, b) \<and>
        picq (ft_links ft') (ft_aq ft') as \<and> picq (ft_links ft') (ft_cq ft') cs \<and>
        (\<forall>a. a \<in> set as \<longrightarrow> ft_ctime ft' - f_etime (flow_of ft' a) \<le> idle_ms conf) \<and>
        (max_flows conf \<noteq> 0 \<longrightarrow> ft_count ft' < max_flows conf) \<and> (close \<longrightarrow> as = []) \<and> (b \<longrightarrow> cs = [])))"
proof -
  let ?ft = "yfFlowTabAlloc ops conf"
  note fi = flow_index.intro [OF assms(1)]
  have ok: "ft_ok ops ?ft [] [] (set [])" using tab_alloc_ok [OF assms(1)] by simp
  from flow_index.run_ok [OF fi ok assms(2), of wr w] obtain ft w1 as cs where
    r: "ft_run ops wr (?ft, w) es = Some (ft, w1)" "ft_ok ops ft as cs (set as)" "ft_conf ft = ft_conf ?ft" by blast
  have c: "ft_conf ft = conf" using r(3) by (simp add: yfFlowTabAlloc_def)
  have "\<exists>ft' w2 b as cs. yfFlowTabFlush ops wr ft w1 close = Some (ft', w2, b) \<and>
        picq (ft_links ft') (ft_aq ft') as \<and> picq (ft_links ft') (ft_cq ft') cs \<and>
        (\<forall>a. a \<in> set as \<longrightarrow> ft_ctime ft' - f_etime (flow_of ft' a) \<le> idle_ms conf) \<and>
        (max_flows conf \<noteq> 0 \<longrightarrow> ft_count ft' < max_flows conf) \<and> (close \<longrightarrow> as = []) \<and> (b \<longrightarrow> cs = [])"
    if due: "flush_due ft close"
  proof -
    from flow_index.flush_due_ok [OF fi r(2) due, of wr w1] obtain ft' w2 b as' cs' where
      f: "yfFlowTabFlush ops wr ft w1 close = Some (ft', w2, b)" "ft_ok ops ft' as' cs' (set as')" "same_env ft ft'"
        "flushed ft' as' close" "b \<longrightarrow> cs' = []" by blast
    have "ft_conf ft' = conf" using f(3) c by (simp add: same_env_def)
    then have "yfFlowTabFlush ops wr ft w1 close = Some (ft', w2, b) \<and>
        picq (ft_links ft') (ft_aq ft') as' \<and> picq (ft_links ft') (ft_cq ft') cs' \<and>
        (\<forall>a. a \<in> set as' \<longrightarrow> ft_ctime ft' - f_etime (flow_of ft' a) \<le> idle_ms conf) \<and>
        (max_flows conf \<noteq> 0 \<longrightarrow> ft_count ft' < max_flows conf) \<and> (close \<longrightarrow> as' = []) \<and> (b \<longrightarrow> cs' = [])"
      using f by (auto simp: flushed_def ft_ok_def ft_core_def queues_ok_def)
    then show ?thesis by blast
  qed
  then show ?thesis using r(1) by blast
qed

theorem flush_guarantees_witness:
  "\<exists>ft w1. ft_run (bucket_ops yfFlowKeyHash yfFlowKeyEqual) log_writer
      (yfFlowTabAlloc (bucket_ops yfFlowKeyHash yfFlowKeyEqual) ex_conf, []) ex_events = Some (ft, w1) \<and>
    (\<exists>ft' w2 b cs. yfFlowTabFlush (bucket_ops yfFlowKeyHash yfFlowKeyEqual) log_writer ft w1 True = Some (ft', w2, b) \<and>
        picq (ft_links ft') (ft_aq ft') [])"
proof -
  from flush_guarantees [OF flowkey.bucket_table ex_events_ok, where close = True and wr = log_writer
      and conf = ex_conf and w = "[]"]
  obtain ft w1 where r: "ft_run (bucket_ops yfFlowKeyHash yfFlowKeyEqual) log_writer
      (yfFlowTabAlloc (bucket_ops yfFlowKeyHash yfFlowKeyEqual) ex_conf, []) ex_events = Some (ft, w1)"
    and f: "flush_due ft True \<longrightarrow>
      (\<exists>ft' w2 b as cs. yfFlowTabFlush (bucket_ops yfFlowKeyHash yfFlowKeyEqual) log_writer ft w1 True = Some (ft', w2, b) \<and>
        picq (ft_links ft') (ft_aq ft') as \<and> picq (ft_links ft') (ft_cq ft') cs \<and>
        (\<forall>a. a \<in> set as \<longrightarrow> ft_ctime ft' - f_etime (flow_of ft' a) \<le> idle_ms ex_conf) \<and>
        (max_flows ex_conf \<noteq> 0 \<longrightarrow> ft_count ft' < max_flows ex_conf) \<and> (True \<longrightarrow> as = []) \<and> (b \<longrightarrow> cs = []))"
    by blast
  have "flush_due ft True" by (simp add: flush_due_def)
  with f r show ?thesis by blast
qed

text \<open>No leak and no double free. After any history, freeing the table returns and every node
  the table ever allocated has been freed exactly once.\<close>

lemma flow_table_frees_all:
  assumes "ghash_table ops yfFlowKeyEqual" and "list_all packet_ok es"
  shows "\<exists>ft w' ft'. ft_run ops wr (yfFlowTabAlloc ops conf, w) es = Some (ft, w') \<and>
    yfFlowTabFree ft = Some ft' \<and> distinct (ft_freed ft') \<and> set (ft_freed ft') = {..<ft_brk ft'}"
proof -
  have ok: "ft_ok ops (yfFlowTabAlloc ops conf) [] [] (set [])" using tab_alloc_ok [OF assms(1)] by simp
  from flow_index.run_ok [OF flow_index.intro [OF assms(1)] ok assms(2), of wr w] obtain ft w' as cs where
    r: "ft_run ops wr (yfFlowTabAlloc ops conf, w) es = Some (ft, w')" "ft_ok ops ft as cs (set as)" by blast
  show ?thesis using r(1) tab_free_ok [OF r(2)] by auto
qed

text \<open>C27: Both directions of a conversation share one flow. After any history, when a flow is in the
  table under a key, a packet with the reversed key is given the node of that flow, as its reverse
  direction unless the two keys are equal.\<close>

theorem biflow_shared:
  assumes "ghash_table ops yfFlowKeyEqual" and "list_all packet_ok es"
  shows "\<exists>ft w'. ft_run ops wr (yfFlowTabAlloc ops conf, w) es = Some (ft, w') \<and>
    (\<forall>k k' a c. gh_lookup ops (ft_table ft) k = Some a \<and> yfFlowKeyEqual (yfFlowKeyReverse k zero_key) k' \<longrightarrow>
       yfFlowGetNode ops ft k' c = (ft, a, \<not> yfFlowKeyEqual k k'))"
proof -
  have ok: "ft_ok ops (yfFlowTabAlloc ops conf) [] [] (set [])" using tab_alloc_ok [OF assms(1)] by simp
  from flow_index.run_ok [OF flow_index.intro [OF assms(1)] ok assms(2), of wr w] obtain ft w' as cs where
    r: "ft_run ops wr (yfFlowTabAlloc ops conf, w) es = Some (ft, w')" "ft_ok ops ft as cs (set as)" by blast
  have i: "index_ok ops ft (set as)" using r(2) by (simp add: ft_ok_def ft_core_def)
  have "yfFlowGetNode ops ft k' c = (ft, a, \<not> yfFlowKeyEqual k k')"
    if "gh_lookup ops (ft_table ft) k = Some a" "yfFlowKeyEqual (yfFlowKeyReverse k zero_key) k'" for k k' a c
    using index_biflow [OF i that] by simp
  then show ?thesis using r(1) by blast
qed

theorem biflow_shared_witness:
  "\<exists>ft w'. ft_run (bucket_ops yfFlowKeyHash yfFlowKeyEqual) log_writer
      (yfFlowTabAlloc (bucket_ops yfFlowKeyHash yfFlowKeyEqual) ex_conf, []) ex_events = Some (ft, w') \<and>
    (\<forall>k k' a c. gh_lookup (bucket_ops yfFlowKeyHash yfFlowKeyEqual) (ft_table ft) k = Some a \<and>
       yfFlowKeyEqual (yfFlowKeyReverse k zero_key) k' \<longrightarrow>
       yfFlowGetNode (bucket_ops yfFlowKeyHash yfFlowKeyEqual) ft k' c = (ft, a, \<not> yfFlowKeyEqual k k'))"
  by (rule biflow_shared [OF flowkey.bucket_table ex_events_ok])

end
