(* ===== verification/Decode.thy ===== *)
theory Decode
  imports PacketTypes "HOL-Library.Monad_Syntax"
begin

text \<open>
  The packet decoder of \<open>src/decode.c\<close>. The captured packet is a list of bytes and a packet
  pointer an offset into it; \<open>caplen\<close> is a 64-bit word, as \<open>size_t\<close> is, and wraps. Every
  load through the packet pointer is explicit: a load outside the captured bytes is the result
  \<open>None\<close> of a decoding function. Otherwise the result is the state after the call with the
  returned pointer, \<open>None\<close> inside for \<open>NULL\<close>.

  The state \<open>dst\<close> gathers what the functions write through their pointer arguments: the
  context with its counters, the remaining length, the flow key, the IP length, the IP, TCP and
  fragment information and the layer 2 information. \<open>fraginfo\<close> may be absent.
\<close>

record dec_stats =
  fail_l2hdr :: u32
  fail_l2shim :: u32
  fail_l2loop :: u32
  fail_l3type :: u32
  fail_arptype :: u32
  fail_ip4hdr :: u32
  fail_ip4frag :: u32
  fail_ip6hdr :: u32
  fail_ip6ext :: u32
  fail_ip6frag :: u32
  fail_l4hdr :: u32
  fail_l4frag :: u32
  fail_grevers :: u32

record yfDecodeCtx =
  dc_reqtype :: u16
  dc_gremode :: bool
  dc_tomode :: bool
  dc_stats :: dec_stats

record dst =
  d_ctx :: yfDecodeCtx
  d_caplen :: u64
  d_key :: yfFlowKey
  d_iplen :: u16
  d_ipinfo :: yfIPInfo
  d_tcpinfo :: yfTCPInfo
  d_frag :: "yfIPFragInfo option"
  d_l2info :: yfL2Info

type_synonym bytes = "u8 list"
type_synonym dec_res = "(dst \<times> nat option) option"

definition zero_dstats :: dec_stats where
  "zero_dstats = \<lparr>fail_l2hdr = 0, fail_l2shim = 0, fail_l2loop = 0, fail_l3type = 0, fail_arptype = 0,
     fail_ip4hdr = 0, fail_ip4frag = 0, fail_ip6hdr = 0, fail_ip6ext = 0, fail_ip6frag = 0,
     fail_l4hdr = 0, fail_l4frag = 0, fail_grevers = 0\<rparr>"

definition yfDecodeCtxAlloc :: "u16 \<Rightarrow> bool \<Rightarrow> bool \<Rightarrow> yfDecodeCtx" where
  "yfDecodeCtxAlloc reqtype tomode gremode =
     \<lparr>dc_reqtype = reqtype, dc_gremode = gremode, dc_tomode = tomode, dc_stats = zero_dstats\<rparr>"

abbreviation YF_TYPE_8021Q :: u16 where "YF_TYPE_8021Q \<equiv> 0x8100"
abbreviation YF_TYPE_MPLS :: u16 where "YF_TYPE_MPLS \<equiv> 0x8847"
abbreviation YF_TYPE_MPLSM :: u16 where "YF_TYPE_MPLSM \<equiv> 0x8848"
abbreviation YF_TYPE_PPPOE :: u16 where "YF_TYPE_PPPOE \<equiv> 0x8864"
abbreviation YF_TYPE_ARP :: u16 where "YF_TYPE_ARP \<equiv> 0x0806"

text \<open>The link types of the capture library that the decoder distinguishes.\<close>

datatype linktype = TRACE_TYPE_ETH | TRACE_TYPE_NONE | TRACE_TYPE_LINUX_SLL | TRACE_TYPE_PPP
  | TRACE_TYPE_HDLC_POS | TRACE_TYPE_METADATA | TRACE_TYPE_OTHER

subsection \<open>Loads\<close>

definition rd8 :: "bytes \<Rightarrow> nat \<Rightarrow> u8 option" where
  "rd8 buf p = (if p < length buf then Some (buf ! p) else None)"

definition be16 :: "u8 \<Rightarrow> u8 \<Rightarrow> u16" where
  "be16 a b = push_bit 8 (ucast a) OR ucast b"

definition be32 :: "u8 \<Rightarrow> u8 \<Rightarrow> u8 \<Rightarrow> u8 \<Rightarrow> u32" where
  "be32 a b c d = push_bit 24 (ucast a) OR push_bit 16 (ucast b) OR push_bit 8 (ucast c) OR ucast d"

text \<open>Network order loads (\<open>g_ntohs\<close> and \<open>g_ntohl\<close> of a loaded word), and block copies.\<close>

definition rd16 :: "bytes \<Rightarrow> nat \<Rightarrow> u16 option" where
  "rd16 buf p = do { a \<leftarrow> rd8 buf p; b \<leftarrow> rd8 buf (p + 1); Some (be16 a b) }"

definition rd32 :: "bytes \<Rightarrow> nat \<Rightarrow> u32 option" where
  "rd32 buf p = do { a \<leftarrow> rd8 buf p; b \<leftarrow> rd8 buf (p + 1); c \<leftarrow> rd8 buf (p + 2); d \<leftarrow> rd8 buf (p + 3);
     Some (be32 a b c d) }"

definition rdn :: "bytes \<Rightarrow> nat \<Rightarrow> nat \<Rightarrow> bytes option" where
  "rdn buf p n = (if p + n \<le> length buf then Some (take n (drop p buf)) else None)"

text \<open>Counting a failure and returning \<open>NULL\<close>.\<close>

definition count_fail :: "(dec_stats \<Rightarrow> dec_stats) \<Rightarrow> dst \<Rightarrow> dst" where
  "count_fail f st = st\<lparr>d_ctx := (d_ctx st)\<lparr>dc_stats := f (dc_stats (d_ctx st))\<rparr>\<rparr>"

definition reject :: "(dec_stats \<Rightarrow> dec_stats) \<Rightarrow> dst \<Rightarrow> dec_res" where
  "reject f st = Some (count_fail f st, None)"

definition l2hdr_inc :: "dec_stats \<Rightarrow> dec_stats" where "l2hdr_inc s = s\<lparr>fail_l2hdr := fail_l2hdr s + 1\<rparr>"
definition l2shim_inc :: "dec_stats \<Rightarrow> dec_stats" where "l2shim_inc s = s\<lparr>fail_l2shim := fail_l2shim s + 1\<rparr>"
definition l2loop_inc :: "dec_stats \<Rightarrow> dec_stats" where "l2loop_inc s = s\<lparr>fail_l2loop := fail_l2loop s + 1\<rparr>"
definition l3type_inc :: "dec_stats \<Rightarrow> dec_stats" where "l3type_inc s = s\<lparr>fail_l3type := fail_l3type s + 1\<rparr>"
definition arptype_inc :: "dec_stats \<Rightarrow> dec_stats" where "arptype_inc s = s\<lparr>fail_arptype := fail_arptype s + 1\<rparr>"
definition ip4hdr_inc :: "dec_stats \<Rightarrow> dec_stats" where "ip4hdr_inc s = s\<lparr>fail_ip4hdr := fail_ip4hdr s + 1\<rparr>"
definition ip4frag_inc :: "dec_stats \<Rightarrow> dec_stats" where "ip4frag_inc s = s\<lparr>fail_ip4frag := fail_ip4frag s + 1\<rparr>"
definition ip6hdr_inc :: "dec_stats \<Rightarrow> dec_stats" where "ip6hdr_inc s = s\<lparr>fail_ip6hdr := fail_ip6hdr s + 1\<rparr>"
definition ip6ext_inc :: "dec_stats \<Rightarrow> dec_stats" where "ip6ext_inc s = s\<lparr>fail_ip6ext := fail_ip6ext s + 1\<rparr>"
definition ip6frag_inc :: "dec_stats \<Rightarrow> dec_stats" where "ip6frag_inc s = s\<lparr>fail_ip6frag := fail_ip6frag s + 1\<rparr>"
definition l4hdr_inc :: "dec_stats \<Rightarrow> dec_stats" where "l4hdr_inc s = s\<lparr>fail_l4hdr := fail_l4hdr s + 1\<rparr>"
definition l4frag_inc :: "dec_stats \<Rightarrow> dec_stats" where "l4frag_inc s = s\<lparr>fail_l4frag := fail_l4frag s + 1\<rparr>"
definition grevers_inc :: "dec_stats \<Rightarrow> dec_stats" where "grevers_inc s = s\<lparr>fail_grevers := fail_grevers s + 1\<rparr>"

text \<open>Is the packet a fragment (\<open>fraginfo && fraginfo->frag\<close>)? An incomplete transport header
  is counted, once more for a fragment.\<close>

definition is_frag :: "dst \<Rightarrow> bool" where
  "is_frag st = (case d_frag st of None \<Rightarrow> False | Some fi \<Rightarrow> fi_frag fi \<noteq> 0)"

definition reject_l4 :: "dst \<Rightarrow> dec_res" where
  "reject_l4 st =
     reject (\<lambda>s. let s = l4hdr_inc s in if is_frag st then l4frag_inc s else s) st"

definition set_l4hlen :: "u16 \<Rightarrow> dst \<Rightarrow> dst" where
  "set_l4hlen n st =
     (if is_frag st then st\<lparr>d_frag := map_option (\<lambda>fi. fi\<lparr>fi_l4hlen := n\<rparr>) (d_frag st)\<rparr> else st)"

definition set_ports :: "u16 \<Rightarrow> u16 \<Rightarrow> dst \<Rightarrow> dst" where
  "set_ports sp dp st = st\<lparr>d_key := (d_key st)\<lparr>k_sp := sp, k_dp := dp\<rparr>\<rparr>"

definition eat :: "nat \<Rightarrow> dst \<Rightarrow> dst" where
  "eat n st = st\<lparr>d_caplen := d_caplen st - of_nat n\<rparr>"

subsection \<open>Layer 2\<close>

text \<open>A layer 2 result also carries the ethertype.\<close>

type_synonym l2_res = "(dst \<times> u16 \<times> nat option) option"

definition yfDecodeL2Loop :: "dst \<Rightarrow> u32 \<Rightarrow> nat \<Rightarrow> u16 \<Rightarrow> dst \<times> u16 \<times> nat option" where
  "yfDecodeL2Loop st pf pkt type =
     (if pf = 2 then (st, YF_TYPE_IPv4, Some pkt)
      else if pf = 10 \<or> pf = 24 \<or> pf = 28 \<or> pf = 30 \<or> pf = 10 \<or> pf = 23 then (st, YF_TYPE_IPv6, Some pkt)
      else (count_fail l2loop_inc st, type, None))"

definition ppp_ethertype :: "u16 \<Rightarrow> u16 option" where
  "ppp_ethertype ppptype =
     (if ppptype = 0x0021 then Some YF_TYPE_IPv4
      else if ppptype = 0x0057 then Some YF_TYPE_IPv6
      else if ppptype = 0x0281 then Some YF_TYPE_MPLS
      else if ppptype = 0x0283 then Some YF_TYPE_MPLSM
      else None)"

definition yfDecodeL2PPP :: "bytes \<Rightarrow> dst \<Rightarrow> nat \<Rightarrow> u16 \<Rightarrow> l2_res" where
  "yfDecodeL2PPP buf st pkt type =
     (if d_caplen st < 2 then Some (count_fail l2hdr_inc st, type, None)
      else do {
        ppptype \<leftarrow> rd16 buf pkt;
        case ppp_ethertype ppptype of
          None \<Rightarrow> Some (st, type, None)
        | Some ty \<Rightarrow> Some (eat 2 st, ty, Some (pkt + 2))
      })"

text \<open>The macro \<open>YF_IP_VERSION_TO_TYPE\<close>: inside, \<open>None\<close> when it returns \<open>NULL\<close>.\<close>

definition ip_version_to_type :: "bytes \<Rightarrow> dst \<Rightarrow> nat \<Rightarrow> u16 option option" where
  "ip_version_to_type buf st pkt =
     (if d_caplen st < 1 then Some None
      else do {
        b \<leftarrow> rd8 buf pkt;
        let ipv = drop_bit 4 (b AND 0xF0);
        Some (if ipv = 4 then Some YF_TYPE_IPv4 else if ipv = 6 then Some YF_TYPE_IPv6 else None)
      })"

definition add_mpls_label :: "u32 \<Rightarrow> yfL2Info \<Rightarrow> yfL2Info" where
  "add_mpls_label entry l2 =
     (if l2_mpls_count l2 < of_nat YF_MPLS_LABEL_COUNT_MAX
      then l2\<lparr>l2_mpls_label := (l2_mpls_label l2)[unat (l2_mpls_count l2) := drop_bit 12 (entry AND 0xFFFFF000)],
              l2_mpls_count := l2_mpls_count l2 + 1\<rparr>
      else l2)"

lemma rd8_Some: "rd8 buf p = Some b \<Longrightarrow> p < length buf"
  by (auto simp: rd8_def split: if_splits)

lemma rd16_Some: "rd16 buf p = Some b \<Longrightarrow> p < length buf"
  by (auto simp: rd16_def dest: rd8_Some split: bind_splits)

lemma rd32_Some: "rd32 buf p = Some b \<Longrightarrow> p < length buf"
  by (auto simp: rd32_def dest: rd8_Some split: bind_splits)

text \<open>Each turn of the loop over the shim headers has read at its offset and advances by at
  least four octets.\<close>

function yfDecodeL2Shim :: "bytes \<Rightarrow> dst \<Rightarrow> nat \<Rightarrow> u16 \<Rightarrow> l2_res" where
  "yfDecodeL2Shim buf st pkt type =
     (if type = YF_TYPE_8021Q then
        if d_caplen st < 4 then Some (count_fail l2shim_inc st, type, None)
        else do {
          ty \<leftarrow> rd16 buf (pkt + 2);
          ptt \<leftarrow> rd16 buf pkt;
          yfDecodeL2Shim buf (eat 4 (st\<lparr>d_l2info := (d_l2info st)\<lparr>l2_vlan_tag := 0x0FFF AND ptt\<rparr>\<rparr>)) (pkt + 4) ty
        }
      else if type = YF_TYPE_MPLS \<or> type = YF_TYPE_MPLSM then
        if d_caplen st < 4 then Some (count_fail l2shim_inc st, type, None)
        else do {
          entry \<leftarrow> rd32 buf pkt;
          let st = eat 4 (st\<lparr>d_l2info := add_mpls_label entry (d_l2info st)\<rparr>);
          if entry AND 0x00000100 \<noteq> 0 then do {
            ty \<leftarrow> ip_version_to_type buf st (pkt + 4);
            case ty of None \<Rightarrow> Some (st, type, None) | Some ty \<Rightarrow> yfDecodeL2Shim buf st (pkt + 4) ty
          }
          else yfDecodeL2Shim buf st (pkt + 4) type
        }
      else if type = YF_TYPE_PPPOE then
        if d_caplen st < 6 then Some (count_fail l2shim_inc st, type, None)
        else do {
          r \<leftarrow> yfDecodeL2PPP buf (eat 6 st) (pkt + 6) type;
          case r of
            (st, ty, None) \<Rightarrow> Some (st, ty, None)
          | (st, ty, Some p) \<Rightarrow> yfDecodeL2Shim buf st p ty
        }
      else Some (st, type, Some pkt))"
  by pat_completeness auto

lemma yfDecodeL2PPP_Some:
  assumes "yfDecodeL2PPP buf st pkt type = Some (st', ty, Some p)"
  shows "p = pkt + 2 \<and> pkt < length buf"
  using assms
  by (auto simp: yfDecodeL2PPP_def dest: rd16_Some split: if_splits bind_splits option.splits)

termination yfDecodeL2Shim
  by (relation "measure (\<lambda>(buf, st, pkt, type). length buf - pkt)")
    (auto dest!: rd16_Some rd32_Some yfDecodeL2PPP_Some)

declare yfDecodeL2Shim.simps [simp del]

text \<open>The decoder of the outermost frame.\<close>

definition yfDecodeL2 :: "bytes \<Rightarrow> dst \<Rightarrow> linktype \<Rightarrow> nat \<Rightarrow> u16 \<Rightarrow> l2_res" where
  "yfDecodeL2 buf st link pkt type =
     (let st = st\<lparr>d_l2info := zero_l2info\<rparr>
      in case link of
           TRACE_TYPE_ETH \<Rightarrow>
             if d_caplen st < 14 then Some (count_fail l2hdr_inc st, type, None)
             else do {
               ty \<leftarrow> rd16 buf (pkt + 12);
               smac \<leftarrow> rdn buf (pkt + 6) 6;
               dmac \<leftarrow> rdn buf pkt 6;
               let st = st\<lparr>d_l2info := (d_l2info st)\<lparr>l2_smac := smac, l2_dmac := dmac\<rparr>\<rparr>;
               yfDecodeL2Shim buf (eat 14 st) (pkt + 14) ty
             }
         | TRACE_TYPE_NONE \<Rightarrow>
             do {
               ty \<leftarrow> ip_version_to_type buf st pkt;
               case ty of None \<Rightarrow> Some (st, type, None) | Some ty \<Rightarrow> Some (st, ty, Some pkt)
             }
         | TRACE_TYPE_LINUX_SLL \<Rightarrow>
             if d_caplen st < 16 then Some (count_fail l2hdr_inc st, type, None)
             else do {
               ty \<leftarrow> rd16 buf (pkt + 14);
               yfDecodeL2Shim buf (eat 16 st) (pkt + 16) ty
             }
         | TRACE_TYPE_PPP \<Rightarrow>
             if d_caplen st < 2 then Some (count_fail l2hdr_inc st, type, None)
             else do {
               a \<leftarrow> rd8 buf pkt;
               b \<leftarrow> rd8 buf (pkt + 1);
               let hdlc = (a = 0xff \<and> b = 0x03);
               r \<leftarrow> yfDecodeL2PPP buf (if hdlc then eat 2 st else st) (if hdlc then pkt + 2 else pkt) type;
               case r of
                 (st, ty, None) \<Rightarrow> Some (st, ty, None)
               | (st, ty, Some p) \<Rightarrow> yfDecodeL2Shim buf st p ty
             }
         | TRACE_TYPE_HDLC_POS \<Rightarrow>
             if d_caplen st < 4 then Some (count_fail l2hdr_inc st, type, None)
             else do {
               ty \<leftarrow> rd16 buf (pkt + 2);
               yfDecodeL2Shim buf (eat 4 st) (pkt + 4) ty
             }
         | TRACE_TYPE_METADATA \<Rightarrow> Some (st, type, None)
         | TRACE_TYPE_OTHER \<Rightarrow> Some (st, type, None))"

subsection \<open>Layer 3\<close>

abbreviation YF_IP4_MF :: u16 where "YF_IP4_MF \<equiv> 0x2000"
abbreviation YF_IP4_OFFMASK :: u16 where "YF_IP4_OFFMASK \<equiv> 0x1fff"
abbreviation YF_IP6_MF :: u16 where "YF_IP6_MF \<equiv> 0x0001"
abbreviation YF_IP6_OFFMASK :: u16 where "YF_IP6_OFFMASK \<equiv> 0xfff8"

text \<open>The fragment fields of an IPv4 header, when the caller wants them.\<close>

definition ip4_frag :: "u16 \<Rightarrow> u16 \<Rightarrow> u16 \<Rightarrow> yfIPFragInfo \<Rightarrow> yfIPFragInfo" where
  "ip4_frag off ident iphlen fi =
     (let fi = fi\<lparr>fi_offset := off\<rparr>
      in if off AND (YF_IP4_OFFMASK OR YF_IP4_MF) \<noteq> 0
         then fi\<lparr>fi_frag := 1, fi_ipid := ucast ident,
                 fi_more := (if off AND YF_IP4_MF \<noteq> 0 then 1 else 0),
                 fi_offset := (off AND YF_IP4_OFFMASK) * 8, fi_iphlen := iphlen, fi_l4hlen := 0\<rparr>
         else fi\<lparr>fi_frag := 0\<rparr>)"

text \<open>\<open>yfDecodeIPv4\<close> after its two length checks, and the whole function.\<close>

definition ip4_body :: "bytes \<Rightarrow> dst \<Rightarrow> nat \<Rightarrow> nat \<Rightarrow> dec_res" where
  "ip4_body buf st pkt iph_len = do {
     src \<leftarrow> rd32 buf (pkt + 12);
     dst \<leftarrow> rd32 buf (pkt + 16);
     proto \<leftarrow> rd8 buf (pkt + 9);
     iplen \<leftarrow> rd16 buf (pkt + 2);
     off \<leftarrow> rd16 buf (pkt + 6);
     let st = st\<lparr>d_key := (d_key st)\<lparr>k_version := 4, k_sip4 := src, k_dip4 := dst, k_proto := proto\<rparr>,
                 d_iplen := iplen,
                 d_caplen := (if ucast iplen < d_caplen st then ucast iplen else d_caplen st)\<rparr>;
     ident \<leftarrow> (if off AND (YF_IP4_OFFMASK OR YF_IP4_MF) \<noteq> 0 \<and> d_frag st \<noteq> None
              then rd16 buf (pkt + 4) else Some 0);
     let st = st\<lparr>d_frag := map_option (ip4_frag off ident (of_nat iph_len)) (d_frag st)\<rparr>;
     if d_frag st = None \<and> off AND (YF_IP4_OFFMASK OR YF_IP4_MF) \<noteq> 0 then reject ip4frag_inc st
     else do {
       ttl \<leftarrow> rd8 buf (pkt + 8);
       tos \<leftarrow> rd8 buf (pkt + 1);
       Some (eat iph_len (st\<lparr>d_ipinfo := (d_ipinfo st)\<lparr>ip_ttl := ttl, ip_ecn := tos AND 0x03\<rparr>\<rparr>),
             Some (pkt + iph_len))
     }
   }"

definition yfDecodeIPv4 :: "bytes \<Rightarrow> dst \<Rightarrow> nat \<Rightarrow> dec_res" where
  "yfDecodeIPv4 buf st pkt =
     (if d_caplen st < 1 then reject ip4hdr_inc st
      else do {
        b0 \<leftarrow> rd8 buf pkt;
        let iph_len = unat (b0 AND 0x0F) * 4;
        if d_caplen st < of_nat iph_len then reject ip4hdr_inc st
        else ip4_body buf st pkt iph_len
      })"

text \<open>The loop over the IPv6 extension headers, entered after the packet pointer has been
  advanced past the header before.\<close>

definition ip6_frag :: "u16 \<Rightarrow> u32 \<Rightarrow> yfIPFragInfo \<Rightarrow> yfIPFragInfo" where
  "ip6_frag offlg ident fi =
     fi\<lparr>fi_frag := 1, fi_ipid := ident, fi_more := (if offlg OR YF_IP6_MF \<noteq> 0 then 1 else 0),
        fi_offset := offlg AND YF_IP6_OFFMASK\<rparr>"

function ip6_ext :: "bytes \<Rightarrow> dst \<Rightarrow> nat \<Rightarrow> u16 \<Rightarrow> u8 \<Rightarrow> dec_res" where
  "ip6_ext buf st pkt iph_len hdr_next =
     (if hdr_next = YF_PROTO_IP6_NONEXT then Some (st, None)
      else if hdr_next = YF_PROTO_IP6_FRAG then
        if d_caplen st < 8 then reject ip6ext_inc st
        else do {
          nxt \<leftarrow> rd8 buf pkt;
          offlg \<leftarrow> rd16 buf (pkt + 2);
          ident \<leftarrow> (if d_frag st \<noteq> None then rd32 buf (pkt + 4) else Some 0);
          if d_frag st = None \<and> offlg AND (YF_IP4_OFFMASK OR YF_IP4_MF) \<noteq> 0 then reject ip6frag_inc st
          else ip6_ext buf (eat 8 (st\<lparr>d_frag := map_option (ip6_frag offlg ident) (d_frag st)\<rparr>))
                 (pkt + 8) (iph_len + 8) nxt
        }
      else if hdr_next = YF_PROTO_IP6_HOP \<or> hdr_next = YF_PROTO_IP6_ROUTE \<or> hdr_next = YF_PROTO_IP6_DOPT then
        if d_caplen st < 2 then reject ip6ext_inc st
        else do {
          nxt \<leftarrow> rd8 buf pkt;
          len \<leftarrow> rd8 buf (pkt + 1);
          let hdr_len = unat len * 8 + 8;
          if d_caplen st < of_nat hdr_len then reject ip6ext_inc st
          else ip6_ext buf (eat hdr_len st) (pkt + hdr_len) (iph_len + of_nat hdr_len) nxt
        }
      else
        Some (st\<lparr>d_key := (d_key st)\<lparr>k_proto := hdr_next\<rparr>,
                 d_frag := (if is_frag st
                            then map_option (\<lambda>fi. fi\<lparr>fi_iphlen := iph_len, fi_l4hlen := 0\<rparr>) (d_frag st)
                            else d_frag st)\<rparr>, Some pkt))"
  by pat_completeness auto

termination ip6_ext
  by (relation "measure (\<lambda>(buf, st, pkt, l, n). length buf - pkt)") (auto dest!: rd8_Some)

declare ip6_ext.simps [simp del]

definition yfDecodeIPv6 :: "bytes \<Rightarrow> dst \<Rightarrow> nat \<Rightarrow> dec_res" where
  "yfDecodeIPv6 buf st pkt =
     (if d_caplen st < 40 then reject ip6hdr_inc st
      else do {
        src \<leftarrow> rdn buf (pkt + 8) 16;
        dst \<leftarrow> rdn buf (pkt + 24) 16;
        plen \<leftarrow> rd16 buf (pkt + 4);
        hlim \<leftarrow> rd8 buf (pkt + 7);
        vcf \<leftarrow> rd32 buf pkt;
        nxt \<leftarrow> rd8 buf (pkt + 6);
        let iplen = plen + 40;
        let st = st\<lparr>d_key := (d_key st)\<lparr>k_sip6 := src, k_dip6 := dst, k_version := 6\<rparr>,
                    d_iplen := iplen,
                    d_caplen := (if ucast iplen < d_caplen st then ucast iplen else d_caplen st),
                    d_ipinfo := (d_ipinfo st)\<lparr>ip_ttl := hlim, ip_ecn := ucast (drop_bit 20 (vcf AND 0x00300000))\<rparr>,
                    d_frag := map_option (\<lambda>fi. fi\<lparr>fi_frag := 0\<rparr>) (d_frag st)\<rparr>;
        ip6_ext buf (eat 40 st) (pkt + 40) 40 nxt
      })"

subsection \<open>Layer 4\<close>

abbreviation YF_TOK_EOL :: u8 where "YF_TOK_EOL \<equiv> 0"
abbreviation YF_TOK_NOP :: u8 where "YF_TOK_NOP \<equiv> 1"
abbreviation YF_TOK_MSS :: u8 where "YF_TOK_MSS \<equiv> 2"
abbreviation YF_TOK_WS :: u8 where "YF_TOK_WS \<equiv> 3"
abbreviation YF_TOK_SACK :: u8 where "YF_TOK_SACK \<equiv> 5"
abbreviation YF_TOK_TS :: u8 where "YF_TOK_TS \<equiv> 8"

text \<open>One multi-byte option of the given kind and length: inside, \<open>None\<close> for the jump to the
  error label.\<close>

definition tcp_option :: "bytes \<Rightarrow> yfTCPInfo \<Rightarrow> nat \<Rightarrow> int \<Rightarrow> u8 \<Rightarrow> nat \<Rightarrow> yfTCPInfo option option" where
  "tcp_option buf ti pkt tcph_len kind len =
     (if kind = YF_TOK_MSS then
        if len < 4 \<or> tcph_len < int len then Some None
        else do { mss \<leftarrow> rd16 buf (pkt + 2); Some (Some (ti\<lparr>ti_mss := mss\<rparr>)) }
      else if kind = YF_TOK_WS then
        if len < 3 \<and> tcph_len < int len then Some None
        else do { ws \<leftarrow> rd8 buf (pkt + 2); Some (Some (ti\<lparr>ti_ws := ws\<rparr>)) }
      else if kind = YF_TOK_TS then
        if len < 10 \<or> tcph_len < int len then Some None
        else do { val \<leftarrow> rd32 buf (pkt + 2); ecr \<leftarrow> rd32 buf (pkt + 6);
                  Some (Some (ti\<lparr>ti_tsval := val, ti_tsecr := ecr\<rparr>)) }
      else if kind = YF_TOK_SACK then
        if len < 10 \<or> tcph_len < int len then Some None
        else do { sack \<leftarrow> rd32 buf (pkt + len - 4); Some (Some (ti\<lparr>ti_sack := sack\<rparr>)) }
      else Some (Some ti))"

text \<open>The option loop: the TCP information and, inside, the pointer past the options, or
  \<open>None\<close> for the error label.\<close>

function tcp_options :: "bytes \<Rightarrow> yfTCPInfo \<Rightarrow> nat \<Rightarrow> int \<Rightarrow> (yfTCPInfo \<times> nat option) option" where
  "tcp_options buf ti pkt tcph_len =
     (if tcph_len > 0 then
        do {
          kind \<leftarrow> rd8 buf pkt;
          if kind = YF_TOK_EOL then Some (ti, Some (nat (int pkt + tcph_len)))
          else if kind = YF_TOK_NOP then tcp_options buf ti (pkt + 1) (tcph_len - 1)
          else if tcph_len < 2 then Some (ti, None)
          else do {
            len \<leftarrow> rd8 buf (pkt + 1);
            if len < 2 \<or> tcph_len < int (unat len) then Some (ti, None)
            else do {
              r \<leftarrow> tcp_option buf ti pkt tcph_len kind (unat len);
              case r of
                None \<Rightarrow> Some (ti, None)
              | Some ti \<Rightarrow> tcp_options buf ti (pkt + unat len) (tcph_len - int (unat len))
            }
          }
        }
      else Some (ti, Some (nat (int pkt + tcph_len))))"
  by pat_completeness auto

termination tcp_options
  by (relation "measure (\<lambda>(buf, ti, pkt, l). nat l)") (auto simp: word_le_def not_less)

declare tcp_options.simps [simp del]

text \<open>\<open>yfDecodeTCP\<close> from the check of the whole header on, and the whole function.\<close>

definition tcp_body :: "bytes \<Rightarrow> dst \<Rightarrow> nat \<Rightarrow> nat \<Rightarrow> dec_res" where
  "tcp_body buf st pkt tcph_len =
     (if d_caplen st < of_nat tcph_len
      then (if is_frag st then Some (st, Some pkt) else reject l4hdr_inc st)
      else do {
        let st = eat tcph_len st;
        if \<not> dc_tomode (d_ctx st) then Some (st, Some (pkt + tcph_len))
        else do {
          r \<leftarrow> tcp_options buf (d_tcpinfo st) (pkt + 20) (int tcph_len - 20);
          case r of
            (ti, None) \<Rightarrow> reject l4hdr_inc (st\<lparr>d_tcpinfo := ti\<rparr>)
          | (ti, Some p) \<Rightarrow> Some (st\<lparr>d_tcpinfo := ti\<rparr>, Some p)
        }
      })"

definition yfDecodeTCP :: "bytes \<Rightarrow> dst \<Rightarrow> nat \<Rightarrow> dec_res" where
  "yfDecodeTCP buf st pkt =
     (let st = st\<lparr>d_tcpinfo := zero_tcpinfo\<rparr>
      in if d_caplen st < 20 then (if is_frag st then Some (st, Some pkt) else reject l4hdr_inc st)
         else do {
           b12 \<leftarrow> rd8 buf (pkt + 12);
           let tcph_len = unat (drop_bit 4 b12) * 4;
           sport \<leftarrow> rd16 buf pkt;
           dport \<leftarrow> rd16 buf (pkt + 2);
           seq \<leftarrow> rd32 buf (pkt + 4);
           ack \<leftarrow> rd32 buf (pkt + 8);
           win \<leftarrow> rd16 buf (pkt + 14);
           flags \<leftarrow> rd8 buf (pkt + 13);
           let st = set_ports sport dport
                      (st\<lparr>d_tcpinfo := (d_tcpinfo st)\<lparr>ti_seq := seq, ti_ack := ack, ti_rwin := win, ti_flags := flags\<rparr>\<rparr>);
           let st = set_l4hlen (of_nat tcph_len) st;
           tcp_body buf st pkt tcph_len
         })"

text \<open>The later decoding of a TCP header from a reassembled payload: the result is the success flag,
  with the key, the fragment information, the TCP information and the payload offset.\<close>

definition yfDefragTCP ::
  "bytes \<Rightarrow> nat \<Rightarrow> u64 \<Rightarrow> yfFlowKey \<Rightarrow> yfIPFragInfo \<Rightarrow> yfTCPInfo \<Rightarrow> u64 \<Rightarrow>
   (bool \<times> yfFlowKey \<times> yfIPFragInfo \<times> yfTCPInfo \<times> u64) option" where
  "yfDefragTCP buf pkt caplen key fi ti payoff =
     (if caplen < 20 then Some (False, key, fi, ti, payoff)
      else do {
        b12 \<leftarrow> rd8 buf (pkt + 12);
        let tcph_len = unat (drop_bit 4 b12) * 4;
        if caplen < of_nat tcph_len then Some (False, key, fi, ti, payoff)
        else do {
          sport \<leftarrow> rd16 buf pkt;
          dport \<leftarrow> rd16 buf (pkt + 2);
          seq \<leftarrow> rd32 buf (pkt + 4);
          ack \<leftarrow> rd32 buf (pkt + 8);
          flags \<leftarrow> rd8 buf (pkt + 13);
          Some (True, key\<lparr>k_sp := sport, k_dp := dport\<rparr>, fi\<lparr>fi_l4hlen := of_nat tcph_len\<rparr>,
                ti\<lparr>ti_seq := seq, ti_ack := ack, ti_flags := flags\<rparr>, payoff + of_nat tcph_len)
        }
      })"

definition yfDecodeUDP :: "bytes \<Rightarrow> dst \<Rightarrow> nat \<Rightarrow> dec_res" where
  "yfDecodeUDP buf st pkt =
     (if d_caplen st < 8 then reject_l4 st
      else do {
        sport \<leftarrow> rd16 buf pkt;
        dport \<leftarrow> rd16 buf (pkt + 2);
        Some (eat 8 (set_l4hlen 8 (set_ports sport dport st)), Some (pkt + 8))
      })"

definition yfDecodeICMP :: "bytes \<Rightarrow> dst \<Rightarrow> nat \<Rightarrow> dec_res" where
  "yfDecodeICMP buf st pkt =
     (if d_caplen st < 8 then reject_l4 st
      else do {
        type \<leftarrow> rd8 buf pkt;
        code \<leftarrow> rd8 buf (pkt + 1);
        Some (eat 8 (set_l4hlen 8 (set_ports 0 (push_bit 8 (ucast type) + ucast code) st)), Some (pkt + 8))
      })"

text \<open>The source route entries of a GRE header.\<close>

function gre_sre :: "bytes \<Rightarrow> dst \<Rightarrow> nat \<Rightarrow> dec_res" where
  "gre_sre buf st pkt =
     (if d_caplen st < 4 then reject_l4 st
      else do {
        len \<leftarrow> rd8 buf (pkt + 3);
        af \<leftarrow> rd16 buf pkt;
        if len = 0 \<and> af = 0 then Some (eat 4 st, Some (pkt + 4))
        else if d_caplen st < of_nat (4 + unat len) then reject_l4 st
        else gre_sre buf (eat (4 + unat len) st) (pkt + (4 + unat len))
      })"
  by pat_completeness auto

termination gre_sre
  by (relation "measure (\<lambda>(buf, st, pkt). length buf - pkt)") (auto dest!: rd16_Some)

declare gre_sre.simps [simp del]

text \<open>The length of a GRE header by its flags: checksum (0x80) and routing (0x40) share a word, the
  key (0x20) and the sequence number (0x10) have one each.\<close>

definition gre_hlen :: "u8 \<Rightarrow> nat" where
  "gre_hlen b0 =
     4 + (if b0 AND 0x80 \<noteq> 0 \<or> b0 AND 0x40 \<noteq> 0 then 4 else 0) + (if b0 AND 0x20 \<noteq> 0 then 4 else 0) +
     (if b0 AND 0x10 \<noteq> 0 then 4 else 0)"

text \<open>\<open>yfDecodeGRE\<close> up to its call of \<open>yfDecodeIP\<close>; on success it also returns the
  type of the next header.\<close>

definition gre_header :: "bytes \<Rightarrow> dst \<Rightarrow> nat \<Rightarrow> (dst \<times> u16 \<times> nat option) option" where
  "gre_header buf st pkt =
     (if d_caplen st < 4 then map_option (\<lambda>(st, p). (st, 0, p)) (reject_l4 st)
      else do {
        b0 \<leftarrow> rd8 buf pkt;
        fv \<leftarrow> rd8 buf (pkt + 1);
        if fv AND 0x07 \<noteq> 0 then Some (count_fail grevers_inc st, 0, None)
        else do {
          let greh_len = gre_hlen b0;
          if d_caplen st < of_nat greh_len then map_option (\<lambda>(st, p). (st, 0, p)) (reject_l4 st)
          else do {
            type \<leftarrow> rd16 buf (pkt + 2);
            let st = eat greh_len st;
            r \<leftarrow> (if b0 AND 0x40 \<noteq> 0 then gre_sre buf st (pkt + greh_len) else Some (st, Some (pkt + greh_len)));
            case r of (st, p) \<Rightarrow> Some (st, type, p)
          }
        }
      })"

subsection \<open>Whole packets\<close>

text \<open>Decoding never moves the packet pointer back, and past a GRE header it moves forward.\<close>

lemma ip6_ext_forward: "ip6_ext buf st pkt l n = Some (st', Some p) \<Longrightarrow> pkt \<le> p"
proof (induction buf st pkt l n rule: ip6_ext.induct)
  case (1 buf st pkt l n)
  then show ?case
    by (subst (asm) (3) ip6_ext.simps)
      (auto simp: reject_def Let_def split: if_splits bind_splits intro: order_trans [OF le_add1])
qed

lemma yfDecodeIPv4_forward: "yfDecodeIPv4 buf st pkt = Some (st', Some p) \<Longrightarrow> pkt \<le> p"
  by (auto simp: yfDecodeIPv4_def ip4_body_def reject_def Let_def split: if_splits bind_splits)

lemma yfDecodeIPv6_forward: "yfDecodeIPv6 buf st pkt = Some (st', Some p) \<Longrightarrow> pkt \<le> p"
  by (auto simp: yfDecodeIPv6_def reject_def Let_def split: if_splits bind_splits dest!: ip6_ext_forward)

lemma gre_sre_forward: "gre_sre buf st pkt = Some (st', Some p) \<Longrightarrow> pkt \<le> p"
proof (induction buf st pkt rule: gre_sre.induct)
  case (1 buf st pkt)
  then show ?case
    by (subst (asm) (2) gre_sre.simps) (force simp: reject_def reject_l4_def split: if_splits bind_splits)
qed

lemma gre_header_forward: "gre_header buf st pkt = Some (st', ty, Some p) \<Longrightarrow> pkt < p \<and> pkt < length buf"
  by (auto simp: gre_header_def gre_hlen_def reject_def reject_l4_def Let_def split: if_splits bind_splits
      dest!: rd8_Some gre_sre_forward)

function yfDecodeIP :: "bytes \<Rightarrow> dst \<Rightarrow> u16 \<Rightarrow> nat \<Rightarrow> dec_res" where
  "yfDecodeIP buf st type pkt =
     (if dc_reqtype (d_ctx st) \<noteq> 0 \<and> dc_reqtype (d_ctx st) \<noteq> type then reject l3type_inc st
      else do {
        r \<leftarrow> (if type = YF_TYPE_IPv4 then yfDecodeIPv4 buf st pkt
             else if type = YF_TYPE_IPv6 then yfDecodeIPv6 buf st pkt
             else if type = YF_TYPE_ARP then reject arptype_inc st
             else reject l3type_inc st);
        case r of
          (st, None) \<Rightarrow> Some (st, None)
        | (st, Some pkt) \<Rightarrow>
            if is_frag st \<and> (case d_frag st of Some fi \<Rightarrow> fi_offset fi \<noteq> 0 | None \<Rightarrow> False) then Some (st, Some pkt)
            else if k_proto (d_key st) = YF_PROTO_TCP then yfDecodeTCP buf st pkt
            else if k_proto (d_key st) = YF_PROTO_UDP then yfDecodeUDP buf st pkt
            else if k_proto (d_key st) = YF_PROTO_ICMP \<or> k_proto (d_key st) = YF_PROTO_ICMP6
            then yfDecodeICMP buf st pkt
            else if k_proto (d_key st) = YF_PROTO_GRE \<and> dc_gremode (d_ctx st) then do {
              g \<leftarrow> gre_header buf st pkt;
              case g of
                (st, ty, None) \<Rightarrow> Some (st, None)
              | (st, ty, Some p) \<Rightarrow> yfDecodeIP buf st ty p
            }
            else Some (set_ports 0 0 st, Some pkt)
      })"
  by pat_completeness auto

termination yfDecodeIP
proof (relation "measure (\<lambda>(buf, st, type, pkt). length buf - pkt)", goal_cases)
  case (2 buf st type pkt r st1 o1 pkt1 g st2 y ty o2 p)
  have "pkt \<le> pkt1"
    using 2(2-5) yfDecodeIPv4_forward yfDecodeIPv6_forward by (auto simp: reject_def split: if_splits)
  moreover have "pkt1 < p \<and> pkt1 < length buf" using 2 gre_header_forward [of buf st1 pkt1 st2 ty p] by auto
  ultimately show ?case by auto
qed simp

declare yfDecodeIP.simps [simp del]

text \<open>\<open>yfDecodeGRE\<close> as the source has it.\<close>

definition yfDecodeGRE :: "bytes \<Rightarrow> dst \<Rightarrow> nat \<Rightarrow> dec_res" where
  "yfDecodeGRE buf st pkt = do {
     g \<leftarrow> gre_header buf st pkt;
     case g of (st, ty, None) \<Rightarrow> Some (st, None) | (st, ty, Some p) \<Rightarrow> yfDecodeIP buf st ty p
   }"

text \<open>Decoding into a packet buffer: the context, the fragment information, the buffer and whether
  it is valid. Before the call the buffer holds what an earlier packet left in it.\<close>

definition dst_of :: "yfDecodeCtx \<Rightarrow> u64 \<Rightarrow> yfIPFragInfo option \<Rightarrow> yfPBuf \<Rightarrow> dst" where
  "dst_of ctx caplen fi pbuf =
     \<lparr>d_ctx = ctx, d_caplen = caplen, d_key = pb_key pbuf, d_iplen = pb_iplen pbuf, d_ipinfo = pb_ipinfo pbuf,
      d_tcpinfo = pb_tcpinfo pbuf, d_frag = fi, d_l2info = pb_l2info pbuf\<rparr>"

definition pbuf_of :: "dst \<Rightarrow> yfPBuf \<Rightarrow> yfPBuf" where
  "pbuf_of st pbuf = pbuf\<lparr>pb_key := d_key st, pb_iplen := d_iplen st, pb_ipinfo := d_ipinfo st,
     pb_tcpinfo := d_tcpinfo st, pb_l2info := d_l2info st\<rparr>"

definition yfDecodeToPBuf ::
  "yfDecodeCtx \<Rightarrow> linktype \<Rightarrow> u64 \<Rightarrow> u64 \<Rightarrow> bytes \<Rightarrow> yfIPFragInfo option \<Rightarrow> yfPBuf \<Rightarrow>
   (yfDecodeCtx \<times> yfIPFragInfo option \<times> yfPBuf \<times> bool) option" where
  "yfDecodeToPBuf ctx link ptime caplen buf fi pbuf =
     (let pbuf = pbuf\<lparr>pb_ptime := 0\<rparr>; st = dst_of ctx caplen fi pbuf
      in do {
        r \<leftarrow> yfDecodeL2 buf st link 0 0;
        case r of
          (st, type, None) \<Rightarrow> Some (d_ctx st, d_frag st, pbuf_of st pbuf, False)
        | (st, type, Some pkt) \<Rightarrow> do {
            let l2 = (d_l2info st)\<lparr>l2_l2hlen := ucast (caplen - d_caplen st)\<rparr>;
            let st = st\<lparr>d_l2info := l2, d_key := (d_key st)\<lparr>k_vlanId := l2_vlan_tag l2\<rparr>\<rparr>;
            r \<leftarrow> yfDecodeIP buf st type pkt;
            case r of
              (st, None) \<Rightarrow> Some (d_ctx st, d_frag st, pbuf_of st pbuf, False)
            | (st, Some pkt) \<Rightarrow>
                Some (d_ctx st, d_frag st,
                      (pbuf_of st pbuf)\<lparr>pb_ptime := ptime, pb_allHeaderLen := of_nat pkt\<rparr>, True)
          }
      })"

subsection \<open>Times and counts\<close>

definition yfDecodeTimeval :: "u64 \<Rightarrow> u64 \<Rightarrow> u64" where
  "yfDecodeTimeval tv_sec tv_usec = tv_sec * 1000 + tv_usec div 1000"

text \<open>The conversion from NTP goes through a \<open>double\<close>, a real number here.\<close>

definition yfDecodeTimeNTP :: "u64 \<Rightarrow> u64" where
  "yfDecodeTimeNTP ntp =
     (let dntp = real (unat (drop_bit 32 (ntp AND 0xFFFFFFFF00000000)));
          dntp = dntp + real (unat (ntp AND 0x00000000FFFFFFFF)) * 1.0 / (2 * 2 ^ 32)
      in word_of_int \<lfloor>dntp * 1000\<rfloor>)"

definition yfDecodeUndecodedCount :: "yfDecodeCtx \<Rightarrow> u32" where
  "yfDecodeUndecodedCount ctx =
     (let s = dc_stats ctx;
          fail_snaptotal = fail_l2hdr s + fail_l2shim s + fail_ip4hdr s + fail_ip6hdr s + fail_ip6ext s + fail_l4hdr s;
          fail_suptotal = fail_l2loop s + fail_l3type s + fail_ip4frag s + fail_ip6frag s + fail_grevers s + fail_arptype s
      in fail_snaptotal + fail_suptotal)"

end
