(* ===== verification/Frag.thy ===== *)
theory Frag
  imports PicQ GHash Decode FlowKey "HOL-Library.Multiset"
begin

text \<open>
  The fragment table of \<open>src/yafrag.c\<close>: nodes for datagrams under reassembly, indexed by
  addresses, protocol and identification in a hash table and kept in a queue in the order of their
  last fragment. The heap is explicit as in the flow table: a map from node addresses to
  nodes, the link fields, the next fresh address and the list of freed nodes. A failed assertion
  or a dereferenced null pointer is the result \<open>None\<close>.

  The sorting of the fragment records (\<open>g_array_sort\<close>) is GLib's: a parameter \<open>srt\<close> that takes the
  comparison function, with its documented behaviour as the locale \<open>garray_sort\<close>.
\<close>

record yfFragRec =
  fr_off :: u16
  fr_len :: u16

record yfFragKey =
  fk_ipid :: u32
  fk_f :: yfFlowKey

record yfFragNode =
  fg_last_ctime :: u64
  fg_have_first :: bool
  fg_have_last :: bool
  fg_have_l4hdr :: bool
  fg_key :: yfFragKey
  fg_tcpinfo :: yfTCPInfo
  fg_l2info :: yfL2Info
  fg_iplen :: u16
  fg_records :: "yfFragRec list"
  fg_paylen :: u64
  fg_payoff :: u64
  fg_payload :: bytes

record yfFragTabStats =
  gs_frags :: u32
  gs_seqrej :: u32
  gs_packets :: u32
  gs_dropped :: u32
  gs_peak :: u32

record 't yfFragTab =
  gt_ctime :: u64
  gt_prunetime :: u64
  gt_table :: 't
  gt_fraq :: PicQ
  gt_count :: u32
  gt_assembled :: ptr
  gt_idle_ms :: u32
  gt_max_frags :: u32
  gt_stats :: yfFragTabStats
  gt_nodes :: "addr \<Rightarrow> yfFragNode"
  gt_links :: links
  gt_brk :: addr
  gt_freed :: "addr list"

type_synonym 't frag_ops = "('t, yfFragKey, addr) ghash"
type_synonym frag_sort = "(yfFragRec \<Rightarrow> yfFragRec \<Rightarrow> int) \<Rightarrow> yfFragRec list \<Rightarrow> yfFragRec list"

definition YF_FRAG_L4H_MAX :: nat where "YF_FRAG_L4H_MAX = 134"
definition YF_FRAG_TIMEOUT :: u64 where "YF_FRAG_TIMEOUT = 30000"
definition YF_FRAGPRUNE_DELAY :: u64 where "YF_FRAGPRUNE_DELAY = 5000"

subsection \<open>Keys\<close>

definition yfFragKeyHash :: "yfFragKey \<Rightarrow> u32" where
  "yfFragKeyHash key =
     (let f = fk_f key;
          h = fk_ipid key XOR push_bit 12 (ucast (k_proto f)) XOR push_bit 4 (ucast (k_version f))
      in if k_version f = 4 then h XOR k_sip4 f XOR k_dip4 f
         else h XOR load32 (k_sip6 f) 0 XOR load32 (k_sip6 f) 4 XOR load32 (k_sip6 f) 8 XOR load32 (k_sip6 f) 12
                XOR load32 (k_dip6 f) 0 XOR load32 (k_dip6 f) 4 XOR load32 (k_dip6 f) 8 XOR load32 (k_dip6 f) 12)"

definition yfFragKeyEqual :: "yfFragKey \<Rightarrow> yfFragKey \<Rightarrow> bool" where
  "yfFragKeyEqual a b =
     (let f = fk_f a; g = fk_f b
      in if k_version f = k_version g \<and> fk_ipid a = fk_ipid b \<and> k_proto f = k_proto g then
           if k_version f = 4 \<and> k_sip4 f = k_sip4 g \<and> k_dip4 f = k_dip4 g then True
           else if k_version f = 6 \<and> k_sip6 f = k_sip6 g \<and> k_dip6 f = k_dip6 g then True
           else False
         else False)"

subsection \<open>The table and its nodes\<close>

definition zero_gstats :: yfFragTabStats where
  "zero_gstats = \<lparr>gs_frags = 0, gs_seqrej = 0, gs_packets = 0, gs_dropped = 0, gs_peak = 0\<rparr>"

definition zero_fnode :: yfFragNode where
  "zero_fnode = \<lparr>fg_last_ctime = 0, fg_have_first = False, fg_have_last = False, fg_have_l4hdr = False,
     fg_key = \<lparr>fk_ipid = 0, fk_f = zero_key\<rparr>, fg_tcpinfo = zero_tcpinfo, fg_l2info = zero_l2info, fg_iplen = 0,
     fg_records = [], fg_paylen = 0, fg_payoff = 0, fg_payload = []\<rparr>"

definition yfFragTabAlloc :: "'t frag_ops \<Rightarrow> u32 \<Rightarrow> u32 \<Rightarrow> 't yfFragTab" where
  "yfFragTabAlloc ops idle max_frags =
     \<lparr>gt_ctime = 0, gt_prunetime = 0, gt_table = gh_new ops, gt_fraq = \<lparr>q_tail = None, q_head = None\<rparr>,
      gt_count = 0, gt_assembled = None, gt_idle_ms = idle, gt_max_frags = max_frags, gt_stats = zero_gstats,
      gt_nodes = (\<lambda>_. zero_fnode), gt_links = \<lparr>node_p = (\<lambda>_. None), node_n = (\<lambda>_. None)\<rparr>, gt_brk = 0, gt_freed = []\<rparr>"

definition yfGetFragTabStats :: "'t yfFragTab \<Rightarrow> u32 \<times> u32" where
  "yfGetFragTabStats ft = (gs_dropped (gt_stats ft), gs_packets (gt_stats ft))"

definition upd_fnode :: "addr \<Rightarrow> (yfFragNode \<Rightarrow> yfFragNode) \<Rightarrow> 't yfFragTab \<Rightarrow> 't yfFragTab" where
  "upd_fnode fn g ft = ft\<lparr>gt_nodes := (gt_nodes ft)(fn := g (gt_nodes ft fn))\<rparr>"

definition upd_gstats :: "(yfFragTabStats \<Rightarrow> yfFragTabStats) \<Rightarrow> 't yfFragTab \<Rightarrow> 't yfFragTab" where
  "upd_gstats g ft = ft\<lparr>gt_stats := g (gt_stats ft)\<rparr>"

definition yfFragSortByOffset :: "yfFragRec \<Rightarrow> yfFragRec \<Rightarrow> int" where
  "yfFragSortByOffset a b = uint (fr_off a) - uint (fr_off b)"

text \<open>\<open>yfFragAdd\<close> on the node: the record and the flags.\<close>

definition add_node :: "yfIPFragInfo \<Rightarrow> u16 \<Rightarrow> yfFragNode \<Rightarrow> yfFragNode" where
  "add_node fi iplen n =
     (let n = n\<lparr>fg_records := fg_records n @ [\<lparr>fr_off = fi_offset fi, fr_len = iplen - fi_iphlen fi\<rparr>]\<rparr>;
          n = (if fi_offset fi = 0 then n\<lparr>fg_have_first := True\<rparr> else n)
      in if fi_more fi = 0 then n\<lparr>fg_have_last := True\<rparr> else n)"

definition yfFragAdd :: "addr \<Rightarrow> yfIPFragInfo \<Rightarrow> u16 \<Rightarrow> 't yfFragTab \<Rightarrow> 't yfFragTab" where
  "yfFragAdd fn fi iplen ft = upd_fnode fn (add_node fi iplen) ft"

definition yfFragGetNode :: "'t frag_ops \<Rightarrow> 't yfFragTab \<Rightarrow> yfFlowKey \<Rightarrow> yfIPFragInfo \<Rightarrow> ('t yfFragTab \<times> addr) option" where
  "yfFragGetNode ops ft flowkey fi =
     (let fragkey = \<lparr>fk_ipid = fi_ipid fi, fk_f = flowkey\<rparr>
      in case gh_lookup ops (gt_table ft) fragkey of
           Some fn \<Rightarrow>
             (let (h, q) = piqPick (gt_links ft) (gt_fraq ft) fn
              in case piqEnQ h q fn of
                   None \<Rightarrow> None
                 | Some (h, q) \<Rightarrow>
                     Some (upd_fnode fn (\<lambda>n. n\<lparr>fg_last_ctime := gt_ctime ft\<rparr>) (ft\<lparr>gt_links := h, gt_fraq := q\<rparr>), fn))
         | None \<Rightarrow>
             (let fn = gt_brk ft;
                  n = zero_fnode\<lparr>fg_key := fragkey, fg_payload := replicate YF_FRAG_L4H_MAX 0\<rparr>;
                  ft = upd_fnode fn (\<lambda>_. n) (ft\<lparr>gt_brk := Suc fn\<rparr>)
              in case piqEnQ (gt_links ft) (gt_fraq ft) fn of
                   None \<Rightarrow> None
                 | Some (h, q) \<Rightarrow>
                     let ft = upd_fnode fn (\<lambda>n. n\<lparr>fg_last_ctime := gt_ctime ft\<rparr>) (ft\<lparr>gt_links := h, gt_fraq := q\<rparr>);
                         ft = ft\<lparr>gt_table := gh_insert ops (gt_table ft) fragkey fn, gt_count := gt_count ft + 1\<rparr>;
                         ft = (if gs_peak (gt_stats ft) < gt_count ft
                               then upd_gstats (\<lambda>s. s\<lparr>gs_peak := gt_count ft\<rparr>) ft else ft)
                     in Some (ft, fn)))"

definition yfFragNodeFree :: "'t yfFragTab \<Rightarrow> addr \<Rightarrow> 't yfFragTab" where
  "yfFragNodeFree ft fn = ft\<lparr>gt_freed := fn # gt_freed ft\<rparr>"

definition yfFragRemoveNode :: "'t frag_ops \<Rightarrow> 't yfFragTab \<Rightarrow> addr \<Rightarrow> bool \<Rightarrow> 't yfFragTab option" where
  "yfFragRemoveNode ops ft fn dropped =
     (let (h, q) = piqPick (gt_links ft) (gt_fraq ft) fn;
          ft = ft\<lparr>gt_table := gh_remove ops (gt_table ft) (fg_key (gt_nodes ft fn)), gt_links := h, gt_fraq := q,
                  gt_count := gt_count ft - 1\<rparr>
      in if dropped then Some (yfFragNodeFree (upd_gstats (\<lambda>s. s\<lparr>gs_dropped := gs_dropped s + 1\<rparr>) ft) fn)
         else let ft = upd_gstats (\<lambda>s. s\<lparr>gs_packets := gs_packets s + 1\<rparr>) ft
              in if gt_assembled ft = None then Some (ft\<lparr>gt_assembled := Some fn\<rparr>) else None)"

subsection \<open>Completion\<close>

text \<open>The traversal of the sorted records: the offset after the last one, or \<open>None\<close> at a gap.\<close>

fun frag_fit :: "yfFragRec list \<Rightarrow> u32 \<Rightarrow> u32 option" where
  "frag_fit [] next_off = Some next_off"
| "frag_fit (r # rs) next_off =
     (if ucast (fr_off r) \<le> next_off then frag_fit rs (ucast (fr_off r) + ucast (fr_len r)) else None)"

text \<open>The result of the layer 4 decode of a datagram whose header was not in its first fragment: the
  outer option is a load outside the payload buffer.\<close>

definition frag_l4 :: "yfFragNode \<Rightarrow> yfIPFragInfo \<Rightarrow> (bool \<times> yfFragNode \<times> yfIPFragInfo) option" where
  "frag_l4 n fi =
     (if \<not> fg_have_l4hdr n \<and> k_proto (fk_f (fg_key n)) = YF_PROTO_TCP then
        case yfDefragTCP (fg_payload n) (unat (fi_iphlen fi) + unat (l2_l2hlen (fg_l2info n))) (fg_paylen n)
               (fk_f (fg_key n)) fi (fg_tcpinfo n) (fg_payoff n) of
          None \<Rightarrow> None
        | Some (ok, key, fi, ti, payoff) \<Rightarrow>
            Some (ok, n\<lparr>fg_key := (fg_key n)\<lparr>fk_f := key\<rparr>, fg_tcpinfo := ti, fg_payoff := payoff\<rparr>, fi)
      else Some (True, n, fi))"

definition yfFragComplete ::
  "'t frag_ops \<Rightarrow> frag_sort \<Rightarrow> 't yfFragTab \<Rightarrow> addr \<Rightarrow> yfIPFragInfo \<Rightarrow> ('t yfFragTab \<times> yfIPFragInfo \<times> bool) option" where
  "yfFragComplete ops srt ft fn fi =
     (if \<not> fg_have_first (gt_nodes ft fn) \<or> \<not> fg_have_last (gt_nodes ft fn) then Some (ft, fi, False)
      else let ft = upd_fnode fn (\<lambda>n. n\<lparr>fg_records := srt yfFragSortByOffset (fg_records n)\<rparr>) ft
           in case frag_fit (fg_records (gt_nodes ft fn)) 0 of
                None \<Rightarrow> Some (ft, fi, False)
              | Some next_off \<Rightarrow>
                  do {
                    (ok, n, fi) \<leftarrow> frag_l4 (gt_nodes ft fn) fi;
                    let ft = upd_fnode fn (\<lambda>_. n) ft;
                    if \<not> ok then do { ft \<leftarrow> yfFragRemoveNode ops ft fn True; Some (ft, fi, False) }
                    else do {
                      ft \<leftarrow> yfFragRemoveNode ops
                             (upd_fnode fn (\<lambda>n. n\<lparr>fg_iplen := ucast next_off + fi_iphlen fi\<rparr>) ft) fn False;
                      Some (ft, fi, True)
                    }
                  })"

subsection \<open>Pruning\<close>

partial_function (option) frag_drop_while ::
  "'t frag_ops \<Rightarrow> ('t yfFragTab \<Rightarrow> addr \<Rightarrow> bool) \<Rightarrow> 't yfFragTab \<Rightarrow> 't yfFragTab option" where
  "frag_drop_while ops P ft =
     (case q_tail (gt_fraq ft) of
        None \<Rightarrow> Some ft
      | Some fn \<Rightarrow>
          if P ft fn then Option.bind (yfFragRemoveNode ops ft fn True) (frag_drop_while ops P)
          else Some ft)"

definition yfFragQueuePrune :: "'t frag_ops \<Rightarrow> 't yfFragTab \<Rightarrow> bool \<Rightarrow> 't yfFragTab option" where
  "yfFragQueuePrune ops ft prune_all =
     (if gt_prunetime ft \<noteq> 0 \<and> gt_ctime ft < gt_prunetime ft + YF_FRAGPRUNE_DELAY then Some ft
      else do {
        let ft = ft\<lparr>gt_prunetime := gt_ctime ft\<rparr>;
        ft \<leftarrow> frag_drop_while ops (\<lambda>ft fn. gt_max_frags ft \<noteq> 0 \<and> gt_max_frags ft \<le> gt_count ft) ft;
        ft \<leftarrow> frag_drop_while ops (\<lambda>ft fn. YF_FRAG_TIMEOUT < gt_ctime ft - fg_last_ctime (gt_nodes ft fn)) ft;
        frag_drop_while ops (\<lambda>ft fn. prune_all) ft
      })"

definition yfFragTabFree :: "'t frag_ops \<Rightarrow> 't yfFragTab \<Rightarrow> 't yfFragTab option" where
  "yfFragTabFree ops ft = frag_drop_while ops (\<lambda>ft fn. True) ft"

subsection \<open>A packet\<close>

text \<open>What the first fragment leaves in its node.\<close>

definition stash_node :: "yfIPFragInfo \<Rightarrow> yfPBuf \<Rightarrow> yfFragNode \<Rightarrow> yfFragNode" where
  "stash_node fi pbuf n =
     (let n = (if fi_offset fi = 0 then
                 let n = (if fi_l4hlen fi \<noteq> 0 then
                            let n = n\<lparr>fg_key := (fg_key n)\<lparr>fk_f := (fk_f (fg_key n))
                                        \<lparr>k_sp := k_sp (pb_key pbuf), k_dp := k_dp (pb_key pbuf)\<rparr>\<rparr>,
                                      fg_payoff := ucast (fi_l4hlen fi)\<rparr>;
                                n = (if k_proto (fk_f (fg_key n)) = YF_PROTO_TCP
                                     then n\<lparr>fg_tcpinfo := pb_tcpinfo pbuf\<rparr> else n)
                            in n\<lparr>fg_have_l4hdr := True\<rparr>
                          else n)
                 in n\<lparr>fg_l2info := pb_l2info pbuf\<rparr>
               else n)
      in n\<lparr>fg_l2info := (fg_l2info n)\<lparr>l2_l2hlen := l2_l2hlen (pb_l2info pbuf)\<rparr>\<rparr>)"

text \<open>The result is the table, the fragment information, the packet buffer and whether it is valid.\<close>

definition yfDefragPBuf ::
  "'t frag_ops \<Rightarrow> frag_sort \<Rightarrow> 't yfFragTab \<Rightarrow> yfIPFragInfo option \<Rightarrow> yfPBuf \<Rightarrow>
   ('t yfFragTab \<times> yfIPFragInfo option \<times> yfPBuf \<times> bool) option" where
  "yfDefragPBuf ops srt ft fraginfo pbuf =
     (case fraginfo of
        None \<Rightarrow> Some (ft, fraginfo, pbuf, True)
      | Some fi \<Rightarrow>
          if fi_frag fi = 0 then Some (ft, fraginfo, pbuf, True)
          else if pb_ptime pbuf < gt_ctime ft
          then Some (upd_gstats (\<lambda>s. s\<lparr>gs_seqrej := gs_seqrej s + 1\<rparr>) ft, fraginfo, pbuf\<lparr>pb_ptime := 0\<rparr>, False)
          else do {
            (ft, fn) \<leftarrow> yfFragGetNode ops (ft\<lparr>gt_ctime := pb_ptime pbuf\<rparr>) (pb_key pbuf) fi;
            let ft = upd_fnode fn (stash_node fi pbuf) ft;
            let ft = upd_gstats (\<lambda>s. s\<lparr>gs_frags := gs_frags s + 1\<rparr>) (yfFragAdd fn fi (pb_iplen pbuf) ft);
            let calc_l4 = fg_payoff (gt_nodes ft fn);
            (ft, fi, complete) \<leftarrow> yfFragComplete ops srt ft fn fi;
            let (ft, pbuf) =
              (if complete \<and> calc_l4 \<noteq> fg_payoff (gt_nodes ft fn)
               then (upd_fnode fn (\<lambda>n. n\<lparr>fg_payoff := fg_payoff n - ucast (fi_l4hlen fi)\<rparr>) ft,
                     pbuf\<lparr>pb_allHeaderLen := pb_allHeaderLen pbuf + ucast (fi_l4hlen fi)\<rparr>)
               else (ft, pbuf));
            ft \<leftarrow> yfFragQueuePrune ops ft False;
            case gt_assembled ft of
              None \<Rightarrow> Some (ft, Some fi, pbuf\<lparr>pb_ptime := 0\<rparr>, False)
            | Some fn \<Rightarrow>
                let ft = ft\<lparr>gt_assembled := None\<rparr>; n = gt_nodes ft fn;
                    pbuf = pbuf\<lparr>pb_key := fk_f (fg_key n), pb_iplen := fg_iplen n, pb_tcpinfo := fg_tcpinfo n,
                                pb_l2info := fg_l2info n\<rparr>
                in Some (yfFragNodeFree ft fn, Some fi, pbuf, True)
          })"

end
