(* ===== verification/FragInv.thy ===== *)
theory FragInv
  imports Frag
begin

text \<open>
  The invariant of the fragment table and its preservation by every operation. \<open>as\<close> are the nodes
  under reassembly from the tail of the queue (the least recently extended) to its head, \<open>xs\<close> the
  node that has just been completed, if any. Sorting is used only through \<open>garray_sort\<close>, the hash
  table only through \<open>ghash_table\<close>.
\<close>

subsection \<open>Sorting by a comparison function\<close>

locale garray_sort =
  fixes srt :: "('a \<Rightarrow> 'a \<Rightarrow> int) \<Rightarrow> 'a list \<Rightarrow> 'a list"
  assumes sort_perm: "mset (srt c xs) = mset xs"
    and sort_ordered: "(\<And>x y. c x y \<le> 0 \<or> c y x \<le> 0) \<Longrightarrow> (\<And>x y z. c x y \<le> 0 \<Longrightarrow> c y z \<le> 0 \<Longrightarrow> c x z \<le> 0) \<Longrightarrow>
      sorted_wrt (\<lambda>x y. c x y \<le> 0) (srt c xs)"
begin

lemma sort_set: "set (srt c xs) = set xs"
  by (rule mset_eq_setD) (rule sort_perm)

lemma sort_by_key: "sorted_wrt (\<lambda>x y. k x \<le> k y) (srt (\<lambda>x y. k x - k y) xs)" for k :: "'a \<Rightarrow> int"
proof -
  have "sorted_wrt (\<lambda>x y. k x - k y \<le> 0) (srt (\<lambda>x y. k x - k y) xs)" by (rule sort_ordered) auto
  then show ?thesis by simp
qed

end

text \<open>Insertion sort meets the contract.\<close>

fun c_insert :: "('a \<Rightarrow> 'a \<Rightarrow> int) \<Rightarrow> 'a \<Rightarrow> 'a list \<Rightarrow> 'a list" where
  "c_insert c x [] = [x]"
| "c_insert c x (y # ys) = (if c x y \<le> 0 then x # y # ys else y # c_insert c x ys)"

definition c_sort :: "('a \<Rightarrow> 'a \<Rightarrow> int) \<Rightarrow> 'a list \<Rightarrow> 'a list" where
  "c_sort c xs = foldr (c_insert c) xs []"

lemma mset_c_insert [simp]: "mset (c_insert c x ys) = add_mset x (mset ys)"
  by (induction ys) auto

lemma set_c_insert [simp]: "set (c_insert c x ys) = insert x (set ys)"
  by (induction ys) auto

interpretation csort: garray_sort c_sort
proof unfold_locales
  fix c :: "'a \<Rightarrow> 'a \<Rightarrow> int" and xs :: "'a list"
  show "mset (c_sort c xs) = mset xs" by (induction xs) (simp_all add: c_sort_def)
  assume tot: "\<And>x y. c x y \<le> 0 \<or> c y x \<le> 0" and tr: "\<And>x y z. c x y \<le> 0 \<Longrightarrow> c y z \<le> 0 \<Longrightarrow> c x z \<le> 0"
  have "sorted_wrt (\<lambda>x y. c x y \<le> 0) (c_insert c x ys)" if "sorted_wrt (\<lambda>x y. c x y \<le> 0) ys" for x ys
    using that tot [of x] by (induction ys) (auto intro: tr)
  then show "sorted_wrt (\<lambda>x y. c x y \<le> 0) (c_sort c xs)" by (induction xs) (simp_all add: c_sort_def)
qed

subsection \<open>Keys\<close>

definition fkey_tuple :: "yfFragKey \<Rightarrow> u32 \<times> u8 \<times> u8 \<times> (u32 \<times> u32 + u8 list \<times> u8 list)" where
  "fkey_tuple k = (let f = fk_f k in (fk_ipid k, k_proto f, k_version f,
     if k_version f = 4 then Inl (k_sip4 f, k_dip4 f) else Inr (k_sip6 f, k_dip6 f)))"

definition fkey_ok :: "yfFragKey \<Rightarrow> bool" where
  "fkey_ok k = key_ok (fk_f k)"

lemma yfFragKeyEqual_iff: "yfFragKeyEqual a b \<longleftrightarrow> fkey_ok a \<and> fkey_ok b \<and> fkey_tuple a = fkey_tuple b"
  by (auto simp: yfFragKeyEqual_def fkey_tuple_def fkey_ok_def key_ok_def Let_def)

lemma yfFragKeyHash_tuple: "fkey_tuple a = fkey_tuple b \<Longrightarrow> yfFragKeyHash a = yfFragKeyHash b"
  by (auto simp: fkey_tuple_def yfFragKeyHash_def Let_def split: if_splits)

interpretation fragkey: hash_contract yfFragKeyHash yfFragKeyEqual
  by unfold_locales (auto simp: yfFragKeyEqual_iff dest: yfFragKeyHash_tuple)

text \<open>The ports are not part of the key.\<close>

lemma fkey_ports [simp]:
  "fkey_tuple (k\<lparr>fk_f := (fk_f k)\<lparr>k_sp := sp, k_dp := dp\<rparr>\<rparr>) = fkey_tuple k"
  "fkey_ok (k\<lparr>fk_f := (fk_f k)\<lparr>k_sp := sp, k_dp := dp\<rparr>\<rparr>) = fkey_ok k"
  by (simp_all add: fkey_tuple_def fkey_ok_def key_ok_def Let_def)

subsection \<open>The invariant\<close>

definition node_ok :: "u64 \<Rightarrow> yfFragNode \<Rightarrow> bool" where
  "node_ok t n \<longleftrightarrow> fkey_ok (fg_key n) \<and> fg_last_ctime n \<le> t \<and> fg_paylen n = 0"

definition frag_queue :: "'t yfFragTab \<Rightarrow> addr list \<Rightarrow> bool" where
  "frag_queue ft as \<longleftrightarrow> picq (gt_links ft) (gt_fraq ft) as \<and> (\<forall>a. a \<notin> set as \<longrightarrow> unlinked (gt_links ft) a) \<and>
     gt_count ft = of_nat (length as)"

definition frag_index :: "'t frag_ops \<Rightarrow> 't yfFragTab \<Rightarrow> addr list \<Rightarrow> bool" where
  "frag_index ops ft as \<longleftrightarrow> (\<forall>k a. gh_lookup ops (gt_table ft) k = Some a \<longleftrightarrow>
     a \<in> set as \<and> yfFragKeyEqual (fg_key (gt_nodes ft a)) k)"

text \<open>Every node allocated is under reassembly, completed or freed, and each way out is counted.\<close>

definition frag_mem :: "'t yfFragTab \<Rightarrow> addr list \<Rightarrow> addr list \<Rightarrow> bool" where
  "frag_mem ft as xs \<longleftrightarrow> distinct (gt_freed ft @ as @ xs) \<and> set (gt_freed ft @ as @ xs) = {..<gt_brk ft} \<and>
     gt_assembled ft = (case xs of [] \<Rightarrow> None | x # _ \<Rightarrow> Some x) \<and> length xs \<le> 1 \<and>
     of_nat (gt_brk ft) = gt_count ft + gs_packets (gt_stats ft) + gs_dropped (gt_stats ft)"

definition frag_times :: "'t yfFragTab \<Rightarrow> addr list \<Rightarrow> bool" where
  "frag_times ft as \<longleftrightarrow> (\<forall>a \<in> set as. node_ok (gt_ctime ft) (gt_nodes ft a)) \<and>
     sorted_wrt (\<lambda>a b. fg_last_ctime (gt_nodes ft a) \<le> fg_last_ctime (gt_nodes ft b)) as"

definition frag_ok :: "'t frag_ops \<Rightarrow> 't yfFragTab \<Rightarrow> addr list \<Rightarrow> addr list \<Rightarrow> bool" where
  "frag_ok ops ft as xs \<longleftrightarrow> frag_queue ft as \<and> frag_index ops ft as \<and> frag_mem ft as xs \<and> frag_times ft as"

lemmas frag_defs = frag_queue_def frag_index_def frag_mem_def frag_times_def

lemma upd_simps [simp]:
  "gt_links (upd_fnode fn g ft) = gt_links ft" "gt_fraq (upd_fnode fn g ft) = gt_fraq ft"
  "gt_count (upd_fnode fn g ft) = gt_count ft" "gt_table (upd_fnode fn g ft) = gt_table ft"
  "gt_stats (upd_fnode fn g ft) = gt_stats ft" "gt_brk (upd_fnode fn g ft) = gt_brk ft"
  "gt_freed (upd_fnode fn g ft) = gt_freed ft" "gt_ctime (upd_fnode fn g ft) = gt_ctime ft"
  "gt_assembled (upd_fnode fn g ft) = gt_assembled ft" "gt_max_frags (upd_fnode fn g ft) = gt_max_frags ft"
  "gt_prunetime (upd_fnode fn g ft) = gt_prunetime ft"
  "gt_nodes (upd_fnode fn g ft) = (gt_nodes ft)(fn := g (gt_nodes ft fn))"
  "gt_links (upd_gstats s ft) = gt_links ft" "gt_fraq (upd_gstats s ft) = gt_fraq ft"
  "gt_count (upd_gstats s ft) = gt_count ft" "gt_table (upd_gstats s ft) = gt_table ft"
  "gt_stats (upd_gstats s ft) = s (gt_stats ft)" "gt_brk (upd_gstats s ft) = gt_brk ft"
  "gt_freed (upd_gstats s ft) = gt_freed ft" "gt_ctime (upd_gstats s ft) = gt_ctime ft"
  "gt_assembled (upd_gstats s ft) = gt_assembled ft" "gt_max_frags (upd_gstats s ft) = gt_max_frags ft"
  "gt_prunetime (upd_gstats s ft) = gt_prunetime ft" "gt_nodes (upd_gstats s ft) = gt_nodes ft"
  by (simp_all add: upd_fnode_def upd_gstats_def)

text \<open>What removing nodes leaves alone.\<close>

definition frame :: "'t yfFragTab \<Rightarrow> 't yfFragTab \<Rightarrow> bool" where
  "frame ft ft' \<longleftrightarrow> gt_nodes ft' = gt_nodes ft \<and> gt_ctime ft' = gt_ctime ft \<and> gt_max_frags ft' = gt_max_frags ft \<and>
     gt_brk ft' = gt_brk ft"

lemma frame_trans: "frame a b \<Longrightarrow> frame b c \<Longrightarrow> frame a c"
  by (simp add: frame_def)

text \<open>Where the fragments of a node end if they leave no gap, and whether its layer 4 header is known.\<close>

definition fits :: "frag_sort \<Rightarrow> yfFragNode \<Rightarrow> u32 option" where
  "fits srt n = (if fg_have_first n \<and> fg_have_last n then frag_fit (srt yfFragSortByOffset (fg_records n)) 0 else None)"

definition l4_known :: "yfFragNode \<Rightarrow> bool" where
  "l4_known n \<longleftrightarrow> fg_have_l4hdr n \<or> k_proto (fk_f (fg_key n)) \<noteq> YF_PROTO_TCP"

text \<open>The node found or made for a key.\<close>

definition got :: "'t yfFragTab \<Rightarrow> addr list \<Rightarrow> yfFragKey \<Rightarrow> addr \<Rightarrow> yfFragNode" where
  "got ft as k fn =
     (if fn \<in> set as then gt_nodes ft fn
      else zero_fnode\<lparr>fg_key := k, fg_payload := replicate YF_FRAG_L4H_MAX 0\<rparr>)\<lparr>fg_last_ctime := gt_ctime ft\<rparr>"

locale frag_index_ops = ghash_table ops yfFragKeyEqual for ops :: "('t, yfFragKey, addr) ghash"
begin

lemma alloc_ok: "frag_ok ops (yfFragTabAlloc ops idle mx) [] []"
  by (auto simp: frag_ok_def frag_defs yfFragTabAlloc_def lookup_new picq_def unlinked_def zero_gstats_def)

text \<open>A change of a node that keeps its key and its time.\<close>

lemma upd_ok:
  assumes ok: "frag_ok ops ft as xs"
    and k: "fkey_tuple (fg_key (g (gt_nodes ft fn))) = fkey_tuple (fg_key (gt_nodes ft fn))"
      "fkey_ok (fg_key (g (gt_nodes ft fn))) = fkey_ok (fg_key (gt_nodes ft fn))"
    and t: "fg_last_ctime (g (gt_nodes ft fn)) = fg_last_ctime (gt_nodes ft fn)"
      "fg_paylen (g (gt_nodes ft fn)) = fg_paylen (gt_nodes ft fn)"
  shows "frag_ok ops (upd_fnode fn g ft) as xs"
proof -
  have e: "yfFragKeyEqual (fg_key (((gt_nodes ft)(fn := g (gt_nodes ft fn))) a)) k' =
      yfFragKeyEqual (fg_key (gt_nodes ft a)) k'" for a k'
    using k by (simp add: yfFragKeyEqual_iff)
  have l: "fg_last_ctime (((gt_nodes ft)(fn := g (gt_nodes ft fn))) a) = fg_last_ctime (gt_nodes ft a)" for a
    using t by simp
  have "frag_index ops (upd_fnode fn g ft) as" using ok by (simp add: frag_ok_def frag_index_def e del: fun_upd_apply)
  moreover have "frag_times (upd_fnode fn g ft) as"
    unfolding frag_times_def upd_simps l using ok k t by (auto simp: frag_ok_def frag_times_def node_ok_def)
  ultimately show ?thesis using ok by (simp add: frag_ok_def frag_queue_def frag_mem_def)
qed

lemma stats_ok:
  assumes "frag_ok ops ft as xs" "gs_packets (s (gt_stats ft)) = gs_packets (gt_stats ft)"
    "gs_dropped (s (gt_stats ft)) = gs_dropped (gt_stats ft)"
  shows "frag_ok ops (upd_gstats s ft) as xs"
  using assms by (simp add: frag_ok_def frag_defs)

lemma frag_okD:
  assumes "frag_ok ops ft as xs"
  shows "picq (gt_links ft) (gt_fraq ft) as" "\<And>a. a \<notin> set as \<Longrightarrow> unlinked (gt_links ft) a" "distinct as"
    "\<And>k a. gh_lookup ops (gt_table ft) k = Some a \<longleftrightarrow> a \<in> set as \<and> yfFragKeyEqual (fg_key (gt_nodes ft a)) k"
    "\<And>a. a \<in> set as \<Longrightarrow> a < gt_brk ft" "\<And>a. a \<in> set as \<Longrightarrow> node_ok (gt_ctime ft) (gt_nodes ft a)"
  using assms by (auto simp: frag_ok_def frag_defs dest: picqD(1))

lemma remove_ok:
  assumes ok: "frag_ok ops ft as xs" and fn: "fn \<in> set as" and d: "dropped \<or> xs = []"
  shows "\<exists>ft'. yfFragRemoveNode ops ft fn dropped = Some ft' \<and>
    frag_ok ops ft' (remove1 fn as) (if dropped then xs else [fn]) \<and> frame ft ft'"
proof -
  note D = frag_okD [OF ok]
  obtain h q where p: "piqPick (gt_links ft) (gt_fraq ft) fn = (h, q)" by fastforce
  have q: "picq h q (remove1 fn as)" "unlinked h fn" using piq.pick_in [OF D(1) fn p] by auto
  have u: "unlinked h a" if "a \<notin> set (remove1 fn as)" for a
    using that q(2) piq.pick_free_other [OF D(1) fn p] D(2,3) by (cases "a = fn") (auto simp: set_remove1_eq)
  have asm: "gt_assembled ft = None" if "\<not> dropped" using that d ok by (simp add: frag_ok_def frag_mem_def)
  define ft1 where "ft1 = ft\<lparr>gt_table := gh_remove ops (gt_table ft) (fg_key (gt_nodes ft fn)), gt_links := h, gt_fraq := q,
     gt_count := gt_count ft - 1\<rparr>"
  define ft' where "ft' = (if dropped then yfFragNodeFree (upd_gstats (\<lambda>s. s\<lparr>gs_dropped := gs_dropped s + 1\<rparr>) ft1) fn
     else (upd_gstats (\<lambda>s. s\<lparr>gs_packets := gs_packets s + 1\<rparr>) ft1)\<lparr>gt_assembled := Some fn\<rparr>)"
  have r: "yfFragRemoveNode ops ft fn dropped = Some ft'"
    using p asm by (simp add: yfFragRemoveNode_def Let_def ft'_def ft1_def)
  have f: "gt_links ft' = h" "gt_fraq ft' = q" "gt_nodes ft' = gt_nodes ft" "gt_ctime ft' = gt_ctime ft"
    "gt_table ft' = gh_remove ops (gt_table ft) (fg_key (gt_nodes ft fn))" "gt_count ft' = gt_count ft - 1"
    "gt_brk ft' = gt_brk ft" "gt_max_frags ft' = gt_max_frags ft"
    by (simp_all add: ft'_def ft1_def yfFragNodeFree_def)
  have len: "length as = Suc (length (remove1 fn as))" using fn length_pos_if_in_set [of fn as] by (simp add: length_remove1)
  have "frag_queue ft' (remove1 fn as)" using ok q u len by (simp add: frag_ok_def frag_queue_def f)
  moreover have "frag_index ops ft' (remove1 fn as)"
    unfolding frag_index_def f
  proof (intro allI)
    fix k a
    show "gh_lookup ops (gh_remove ops (gt_table ft) (fg_key (gt_nodes ft fn))) k = Some a \<longleftrightarrow>
        a \<in> set (remove1 fn as) \<and> yfFragKeyEqual (fg_key (gt_nodes ft a)) k"
      using D(3) D(4) [of k a] D(4) [of k fn] fn by (auto simp: lookup_remove set_remove1_eq)
  qed
  moreover have "frag_times ft' (remove1 fn as)"
    using ok D(3) by (auto simp: frag_ok_def frag_times_def f distinct_remove1_removeAll removeAll_filter_not_eq sorted_wrt_filter)
  moreover have "frag_mem ft' (remove1 fn as) (if dropped then xs else [fn])"
    using ok fn d asm len
    by (auto simp: frag_ok_def frag_mem_def ft'_def ft1_def yfFragNodeFree_def set_remove1_eq split: list.splits)
  ultimately show ?thesis using r f by (simp add: frag_ok_def frame_def)
qed

text \<open>Dropping from the tail as long as a condition holds returns, with a suffix of the queue.\<close>

lemma drop_while_ok:
  assumes "frag_ok ops ft as xs"
  shows "\<exists>ft' ds bs. frag_drop_while ops P ft = Some ft' \<and> as = ds @ bs \<and> frag_ok ops ft' bs xs \<and> frame ft ft' \<and>
    (bs = [] \<or> \<not> P ft' (hd bs)) \<and>
    (as \<noteq> [] \<and> (\<forall>ft1. frag_ok ops ft1 [last as] xs \<and> frame ft ft1 \<longrightarrow> \<not> P ft1 (last as)) \<longrightarrow> bs \<noteq> [])"
  using assms
proof (induction as arbitrary: ft)
  case Nil
  then have "q_tail (gt_fraq ft) = None" using piq.rep_tail [OF frag_okD(1)] by fastforce
  then show ?case using Nil by (subst frag_drop_while.simps) (auto simp: frame_def)
next
  case (Cons a as)
  have t: "q_tail (gt_fraq ft) = Some a" using piq.rep_tail [OF frag_okD(1) [OF Cons.prems]] by simp
  show ?case
  proof (cases "P ft a")
    case False
    then have "frag_drop_while ops P ft = Some ft" using t by (subst frag_drop_while.simps) simp
    moreover have "a # as = [] @ (a # as)" "frame ft ft" by (simp_all add: frame_def)
    ultimately show ?thesis using Cons.prems False by (metis list.sel(1) list.distinct(1))
  next
    case True
    from remove_ok [OF Cons.prems, of a True] obtain ft1 where
      r: "yfFragRemoveNode ops ft a True = Some ft1" "frag_ok ops ft1 as xs" "frame ft ft1" by auto
    from Cons.IH [OF r(2)] obtain ft' ds bs where ih: "frag_drop_while ops P ft1 = Some ft'" "as = ds @ bs"
      "frag_ok ops ft' bs xs" "frame ft1 ft'" "bs = [] \<or> \<not> P ft' (hd bs)"
      "as \<noteq> [] \<and> (\<forall>ft2. frag_ok ops ft2 [last as] xs \<and> frame ft1 ft2 \<longrightarrow> \<not> P ft2 (last as)) \<longrightarrow> bs \<noteq> []"
      by blast
    have "frag_drop_while ops P ft = Some ft'" using True t r ih(1) by (subst frag_drop_while.simps) simp
    moreover have "a # as = (a # ds) @ bs" using ih(2) by simp
    moreover have "frame ft ft'" using r(3) ih(4) frame_trans by blast
    moreover have "bs \<noteq> []"
      if k: "\<forall>ft2. frag_ok ops ft2 [last (a # as)] xs \<and> frame ft ft2 \<longrightarrow> \<not> P ft2 (last (a # as))"
    proof (cases "as = []")
      case True
      then show ?thesis using k \<open>P ft a\<close> Cons.prems by (auto simp: frame_def)
    next
      case False
      then show ?thesis using k ih(6) r(3) frame_trans by fastforce
    qed
    ultimately show ?thesis using ih(3,5) by blast
  qed
qed

lemma ctime_ok: "frag_ok ops ft as xs \<Longrightarrow> gt_ctime ft \<le> t \<Longrightarrow> frag_ok ops (ft\<lparr>gt_ctime := t\<rparr>) as xs"
  by (auto simp: frag_ok_def frag_defs node_ok_def)

text \<open>Finding or making the node of a fragment brings it to the head of the queue.\<close>

lemma to_head_times:
  assumes "frag_times ft as" "node_ok (gt_ctime ft) n" "fg_last_ctime n = gt_ctime ft" "distinct as"
    and "gt_nodes ft' = (gt_nodes ft)(fn := n)" "gt_ctime ft' = gt_ctime ft"
  shows "frag_times ft' (remove1 fn as @ [fn])"
proof -
  have r: "set (remove1 fn as) = set as - {fn}" using assms(4) by (rule set_remove1_eq)
  have "sorted_wrt (\<lambda>a b. fg_last_ctime (gt_nodes ft a) \<le> fg_last_ctime (gt_nodes ft b)) (remove1 fn as)"
    using assms(1,4) by (simp add: frag_times_def distinct_remove1_removeAll removeAll_filter_not_eq sorted_wrt_filter)
  then have "sorted_wrt (\<lambda>a b. fg_last_ctime (gt_nodes ft' a) \<le> fg_last_ctime (gt_nodes ft' b)) (remove1 fn as)"
    by (rule sorted_wrt_mono_rel [rotated]) (use r assms(5) in auto)
  then show ?thesis
    using assms r by (auto simp: frag_times_def sorted_wrt_append node_ok_def)
qed

lemma get_ok:
  assumes ok: "frag_ok ops ft as xs" and key: "key_ok key" and k_def: "k = \<lparr>fk_ipid = fi_ipid fi, fk_f = key\<rparr>"
  shows "\<exists>ft' fn. yfFragGetNode ops ft key fi = Some (ft', fn) \<and> frag_ok ops ft' (remove1 fn as @ [fn]) xs \<and>
    gt_nodes ft' = (gt_nodes ft)(fn := got ft as k fn) \<and> yfFragKeyEqual (fg_key (got ft as k fn)) k \<and>
    (fn \<notin> set as \<longrightarrow> gh_lookup ops (gt_table ft) k = None) \<and>
    gt_ctime ft' = gt_ctime ft \<and> gt_max_frags ft' = gt_max_frags ft \<and> gt_prunetime ft' = gt_prunetime ft"
proof (cases "gh_lookup ops (gt_table ft) k")
  case (Some fn)
  note D = frag_okD [OF ok]
  have fn: "fn \<in> set as" "yfFragKeyEqual (fg_key (gt_nodes ft fn)) k" using Some D(4) by auto
  obtain h1 q1 where p: "piqPick (gt_links ft) (gt_fraq ft) fn = (h1, q1)" by fastforce
  have e0: "picq (gt_links ft) \<lparr>q_tail = None, q_head = None\<rparr> []" by (simp add: picq_def)
  from piq.move_to_head [OF D(1) _ p e0, of] fn obtain h2 q2 where e: "piqEnQ h1 q1 fn = Some (h2, q2)"
    and a: "picq h2 q2 (remove1 fn as @ [fn])"
    and u: "\<forall>y. y \<notin> set as \<longrightarrow> y \<noteq> fn \<longrightarrow> unlinked (gt_links ft) y \<longrightarrow> unlinked h2 y" by auto
  define ft' where "ft' = upd_fnode fn (\<lambda>n. n\<lparr>fg_last_ctime := gt_ctime ft\<rparr>) (ft\<lparr>gt_links := h2, gt_fraq := q2\<rparr>)"
  have r: "yfFragGetNode ops ft key fi = Some (ft', fn)"
    using Some p e by (simp add: yfFragGetNode_def k_def [symmetric] Let_def ft'_def)
  have n: "gt_nodes ft' = (gt_nodes ft)(fn := got ft as k fn)" using fn by (simp add: ft'_def got_def)
  have s: "set (remove1 fn as @ [fn]) = set as" "length (remove1 fn as @ [fn]) = length as" "distinct (remove1 fn as @ [fn])"
    using fn D(3) length_pos_if_in_set [of fn as] by (auto simp: set_remove1_eq length_remove1)
  have "frag_queue ft' (remove1 fn as @ [fn])"
    unfolding frag_queue_def s using ok a u D(2) fn by (auto simp: ft'_def frag_ok_def frag_queue_def)
  moreover have "frag_index ops ft' (remove1 fn as @ [fn])"
    unfolding frag_index_def s n using D(4) by (auto simp: ft'_def got_def)
  moreover have "frag_times ft' (remove1 fn as @ [fn])"
    by (rule to_head_times [OF _ _ _ D(3) n]) (use ok D(6) fn in \<open>auto simp: frag_ok_def got_def node_ok_def ft'_def\<close>)
  moreover have "frag_mem ft' (remove1 fn as @ [fn]) xs"
    using ok s by (auto simp: frag_ok_def frag_mem_def ft'_def)
  ultimately show ?thesis using r n fn by (auto simp: frag_ok_def got_def ft'_def)
next
  case None
  note D = frag_okD [OF ok]
  define fn where "fn = gt_brk ft"
  have new: "fn \<notin> set as" using D(5) by (auto simp: fn_def)
  from piq.enq_ok [OF D(1) new D(2) [OF new]] obtain h q where
    e: "piqEnQ (gt_links ft) (gt_fraq ft) fn = Some (h, q)" and a: "picq h q (as @ [fn])" by blast
  have u: "unlinked h y" if "y \<notin> set as" "y \<noteq> fn" for y
    using that piq.enq_free_other [OF D(1) new D(2) [OF new] e] D(2) by blast
  define ft1 where "ft1 = (ft\<lparr>gt_brk := Suc fn, gt_nodes := (gt_nodes ft)(fn := got ft as k fn), gt_links := h, gt_fraq := q,
     gt_table := gh_insert ops (gt_table ft) k fn, gt_count := gt_count ft + 1\<rparr>)"
  define ft' where "ft' = (if gs_peak (gt_stats ft1) < gt_count ft1 then upd_gstats (\<lambda>s. s\<lparr>gs_peak := gt_count ft1\<rparr>) ft1 else ft1)"
  have r: "yfFragGetNode ops ft key fi = Some (ft', fn)"
    using None e new by (simp add: yfFragGetNode_def k_def [symmetric] Let_def ft'_def ft1_def fn_def [symmetric]
        upd_fnode_def upd_gstats_def got_def)
  have n: "gt_nodes ft' = (gt_nodes ft)(fn := got ft as k fn)" by (simp add: ft'_def ft1_def)
  have rm: "remove1 fn as = as" using new by (rule remove1_idem)
  have kk: "yfFragKeyEqual k k" "fg_key (got ft as k fn) = k" using key new by (simp_all add: yfFragKeyEqual_iff fkey_ok_def k_def got_def)
  have "frag_queue ft' (as @ [fn])" using ok a u by (auto simp: ft'_def ft1_def frag_ok_def frag_queue_def)
  moreover have "frag_index ops ft' (as @ [fn])"
    unfolding frag_index_def
  proof (intro allI)
    fix k' b
    show "gh_lookup ops (gt_table ft') k' = Some b \<longleftrightarrow>
        b \<in> set (as @ [fn]) \<and> yfFragKeyEqual (fg_key (gt_nodes ft' b)) k'"
      using D(4) [of k' b] D(4) [of k b] None new kk
      by (auto simp: ft'_def ft1_def lookup_insert dest: fragkey.eq_sym fragkey.eq_trans)
  qed
  moreover have "frag_times ft' (remove1 fn as @ [fn])"
    by (rule to_head_times [OF _ _ _ D(3) n])
      (use ok kk new in \<open>auto simp: frag_ok_def got_def node_ok_def ft'_def ft1_def yfFragKeyEqual_iff zero_fnode_def\<close>)
  moreover have "frag_mem ft' (as @ [fn]) xs"
    using ok new by (auto simp: frag_ok_def frag_mem_def ft'_def ft1_def fn_def lessThan_Suc algebra_simps)
  ultimately show ?thesis using r n kk None rm by (auto simp: frag_ok_def ft'_def ft1_def)
qed

text \<open>Completion: the fragments do not fit yet, or the datagram leaves the table, dropped when it is TCP
  whose header was not in its first fragment.\<close>

lemma upd_fnode_same: "gt_nodes ft fn = n \<Longrightarrow> upd_fnode fn (\<lambda>_. n) ft = ft"
  by (auto simp: upd_fnode_def)

lemma frag_l4_eq:
  assumes "fg_paylen n = 0"
  shows "frag_l4 n fi = Some (fg_have_l4hdr n \<or> k_proto (fk_f (fg_key n)) \<noteq> YF_PROTO_TCP, n, fi)"
  using assms by (auto simp: frag_l4_def yfDefragTCP_def)

lemma complete_cases:
  assumes "fg_have_first (gt_nodes ft fn)" "fg_have_last (gt_nodes ft fn)"
    and "ft1 = upd_fnode fn (\<lambda>n. n\<lparr>fg_records := srt yfFragSortByOffset (fg_records n)\<rparr>) ft"
  shows "frag_fit (fg_records (gt_nodes ft1 fn)) 0 = None \<Longrightarrow> yfFragComplete ops srt ft fn fi = Some (ft1, fi, False)"
    and "\<lbrakk>frag_fit (fg_records (gt_nodes ft1 fn)) 0 = Some e; frag_l4 (gt_nodes ft1 fn) fi = Some (False, gt_nodes ft1 fn, fi);
      yfFragRemoveNode ops ft1 fn True = Some ft2\<rbrakk> \<Longrightarrow> yfFragComplete ops srt ft fn fi = Some (ft2, fi, False)"
    and "\<lbrakk>frag_fit (fg_records (gt_nodes ft1 fn)) 0 = Some e; frag_l4 (gt_nodes ft1 fn) fi = Some (True, gt_nodes ft1 fn, fi);
      yfFragRemoveNode ops (upd_fnode fn (\<lambda>n. n\<lparr>fg_iplen := ucast e + fi_iphlen fi\<rparr>) ft1) fn False = Some ft2\<rbrakk>
      \<Longrightarrow> yfFragComplete ops srt ft fn fi = Some (ft2, fi, True)"
  unfolding yfFragComplete_def Let_def assms(3) [symmetric] using assms(1,2)
  by (simp_all add: upd_fnode_same)

lemma complete_ok:
  assumes ok: "frag_ok ops ft as []" and fn: "fn \<in> set as"
    and n: "n = gt_nodes ft fn" and s: "s = srt yfFragSortByOffset (fg_records n)"
  shows "\<exists>ft' as' xs b. yfFragComplete ops srt ft fn fi = Some (ft', fi, b) \<and> frag_ok ops ft' as' xs \<and>
    gt_ctime ft' = gt_ctime ft \<and> gt_max_frags ft' = gt_max_frags ft \<and> gt_brk ft' = gt_brk ft \<and>
    (b \<longleftrightarrow> fits srt n \<noteq> None \<and> l4_known n) \<and> xs = (if b then [fn] else []) \<and>
    as' = (if fits srt n = None then as else remove1 fn as) \<and>
    gt_nodes ft' = (gt_nodes ft)(fn :=
      (if fg_have_first n \<and> fg_have_last n then n\<lparr>fg_records := s\<rparr> else n)
        \<lparr>fg_iplen := (if b then ucast (the (fits srt n)) + fi_iphlen fi else fg_iplen n)\<rparr>)"
proof (cases "fg_have_first n \<and> fg_have_last n")
  case False
  then show ?thesis using ok n by (auto simp: yfFragComplete_def fits_def)
next
  case True
  define ft1 where "ft1 = upd_fnode fn (\<lambda>n. n\<lparr>fg_records := srt yfFragSortByOffset (fg_records n)\<rparr>) ft"
  have ok1: "frag_ok ops ft1 as []" unfolding ft1_def by (rule upd_ok [OF ok]) simp_all
  have n1: "gt_nodes ft1 fn = n\<lparr>fg_records := s\<rparr>" by (simp add: ft1_def n s)
  have p0: "fg_paylen (gt_nodes ft1 fn) = 0" using frag_okD(6) [OF ok fn] n by (simp add: n1 node_ok_def)
  have f: "fits srt n = frag_fit s 0" using True by (simp add: fits_def s)
  have hf: "fg_have_first (gt_nodes ft fn)" "fg_have_last (gt_nodes ft fn)" using True n by auto
  note cc = complete_cases [where srt = srt, OF hf ft1_def, where fi = fi, unfolded n1]
  have nd: "gt_nodes ft1 = (gt_nodes ft)(fn := n\<lparr>fg_records := s\<rparr>)" using n1 by (simp add: ft1_def)
  have l4: "frag_l4 (n\<lparr>fg_records := s\<rparr>) fi = Some (l4_known n, n\<lparr>fg_records := s\<rparr>, fi)"
    using frag_l4_eq [OF p0, of fi] by (simp add: n1 l4_known_def)
  show ?thesis
  proof (cases "frag_fit s 0")
    case None
    then have "yfFragComplete ops srt ft fn fi = Some (ft1, fi, False)" by (intro cc(1)) simp
    moreover have "gt_nodes ft1 = (gt_nodes ft)(fn := (n\<lparr>fg_records := s\<rparr>)\<lparr>fg_iplen := fg_iplen n\<rparr>)" using nd by simp
    ultimately show ?thesis using None True ok1 f by (auto simp: ft1_def)
  next
    case (Some e)
    show ?thesis
    proof (cases "l4_known n")
      case False
      from remove_ok [OF ok1 fn, of True] obtain ft2 where r: "yfFragRemoveNode ops ft1 fn True = Some ft2"
        "frag_ok ops ft2 (remove1 fn as) []" "frame ft1 ft2" by auto
      have "yfFragComplete ops srt ft fn fi = Some (ft2, fi, False)"
        using cc(2) [OF _ _ r(1)] Some l4 False by simp
      moreover have "gt_nodes ft2 = (gt_nodes ft)(fn := (n\<lparr>fg_records := s\<rparr>)\<lparr>fg_iplen := fg_iplen n\<rparr>)"
        using nd r(3) by (simp add: frame_def)
      ultimately show ?thesis using r False True f Some by (auto simp: frame_def ft1_def)
    next
      case known: True
      define ft3 where "ft3 = upd_fnode fn (\<lambda>n. n\<lparr>fg_iplen := ucast e + fi_iphlen fi\<rparr>) ft1"
      have ok3: "frag_ok ops ft3 as []" unfolding ft3_def by (rule upd_ok [OF ok1]) simp_all
      from remove_ok [OF ok3 fn, of False] obtain ft2 where r: "yfFragRemoveNode ops ft3 fn False = Some ft2"
        "frag_ok ops ft2 (remove1 fn as) [fn]" "frame ft3 ft2" by auto
      have "yfFragComplete ops srt ft fn fi = Some (ft2, fi, True)"
        using cc(3) [OF _ _ r(1) [unfolded ft3_def]] Some l4 known by simp
      moreover have "gt_nodes ft2 = (gt_nodes ft)(fn := (n\<lparr>fg_records := s\<rparr>)\<lparr>fg_iplen := ucast e + fi_iphlen fi\<rparr>)"
        using nd r(3) by (simp add: frame_def ft3_def)
      ultimately show ?thesis using r known True f Some by (auto simp: frame_def ft1_def ft3_def)
    qed
  qed
qed

lemma prunetime_ok: "frag_ok ops ft as xs \<Longrightarrow> frag_ok ops (ft\<lparr>gt_prunetime := t\<rparr>) as xs"
  by (simp add: frag_ok_def frag_defs)

text \<open>Pruning returns and never drops the datagram that was extended last, unless the table is limited
  to one.\<close>

lemma prune_ok:
  assumes ok: "frag_ok ops ft as xs"
  shows "\<exists>ft' ds bs. yfFragQueuePrune ops ft False = Some ft' \<and> as = ds @ bs \<and> frag_ok ops ft' bs xs \<and> frame ft ft' \<and>
    (as \<noteq> [] \<and> fg_last_ctime (gt_nodes ft (last as)) = gt_ctime ft \<and> gt_max_frags ft \<noteq> 1 \<longrightarrow> bs \<noteq> [])"
proof (cases "gt_prunetime ft \<noteq> 0 \<and> gt_ctime ft < gt_prunetime ft + YF_FRAGPRUNE_DELAY")
  case True
  moreover have "as = [] @ as" "frame ft ft" by (simp_all add: frame_def)
  ultimately show ?thesis using ok by (auto simp: yfFragQueuePrune_def)
next
  case False
  let ?P1 = "\<lambda>ft fn. gt_max_frags ft \<noteq> 0 \<and> gt_max_frags ft \<le> gt_count ft"
  let ?P2 = "\<lambda>ft fn. YF_FRAG_TIMEOUT < gt_ctime ft - fg_last_ctime (gt_nodes ft fn)"
  define ft0 where "ft0 = ft\<lparr>gt_prunetime := gt_ctime ft\<rparr>"
  have f0: "frame ft ft0" by (simp add: frame_def ft0_def)
  from drop_while_ok [OF prunetime_ok [OF ok], of ?P1 "gt_ctime ft"] obtain ft1 d1 b1 where
    s1: "frag_drop_while ops ?P1 ft0 = Some ft1" "as = d1 @ b1" "frag_ok ops ft1 b1 xs" "frame ft0 ft1"
    and k1: "as \<noteq> [] \<and> (\<forall>ft2. frag_ok ops ft2 [last as] xs \<and> frame ft0 ft2 \<longrightarrow> \<not> ?P1 ft2 (last as)) \<longrightarrow> b1 \<noteq> []"
    unfolding ft0_def [symmetric] by blast
  from drop_while_ok [OF s1(3), of ?P2] obtain ft2 d2 b2 where
    s2: "frag_drop_while ops ?P2 ft1 = Some ft2" "b1 = d2 @ b2" "frag_ok ops ft2 b2 xs" "frame ft1 ft2"
    and k2: "b1 \<noteq> [] \<and> (\<forall>ft2. frag_ok ops ft2 [last b1] xs \<and> frame ft1 ft2 \<longrightarrow> \<not> ?P2 ft2 (last b1)) \<longrightarrow> b2 \<noteq> []"
    by blast
  have s3: "frag_drop_while ops (\<lambda>ft fn. False) ft2 = Some ft2"
    by (subst frag_drop_while.simps) (simp split: option.splits)
  have "yfFragQueuePrune ops ft False = Some ft2"
    unfolding yfFragQueuePrune_def if_not_P [OF False] using s1(1) s2(1) s3 by (simp add: ft0_def [symmetric])
  moreover have "frame ft ft2" using f0 s1(4) s2(4) frame_trans by blast
  moreover have "b2 \<noteq> []"
    if "as \<noteq> []" and t: "fg_last_ctime (gt_nodes ft (last as)) = gt_ctime ft" and mx: "gt_max_frags ft \<noteq> 1"
  proof -
    have "\<not> ?P1 ft3 (last as)" if "frag_ok ops ft3 [last as] xs" "frame ft0 ft3" for ft3
    proof
      assume "?P1 ft3 (last as)"
      then have "gt_max_frags ft3 \<noteq> 0" "gt_max_frags ft3 \<le> 1" using that(1) by (auto simp: frag_ok_def frag_queue_def)
      then have "gt_max_frags ft3 = 1" by (simp add: word_unat_eq_iff word_le_nat_alt)
      then show False using that(2) mx by (simp add: frame_def ft0_def)
    qed
    then have b1: "b1 \<noteq> []" using k1 \<open>as \<noteq> []\<close> by blast
    then have "last b1 = last as" using s1(2) by simp
    then have "\<not> ?P2 ft3 (last b1)" if "frame ft1 ft3" for ft3
      using that s1(4) f0 t by (auto simp: frame_def YF_FRAG_TIMEOUT_def)
    then show ?thesis using k2 b1 by blast
  qed
  ultimately show ?thesis using s1(2) s2(2,3) by (metis append.assoc)
qed

end

end
