(* ===== verification/FragSpec.thy ===== *)
theory FragSpec
  imports FragInv
begin

text \<open>
  What the fragment table does with a packet, with a history of packets and with the fragments of
  one datagram in any order.
\<close>

subsection \<open>One packet\<close>

definition frag_key_of :: "yfIPFragInfo \<Rightarrow> yfPBuf \<Rightarrow> yfFragKey" where
  "frag_key_of fi pbuf = \<lparr>fk_ipid = fi_ipid fi, fk_f = pb_key pbuf\<rparr>"

text \<open>The node of a fragment after the fragment has been added to it.\<close>

definition with_frag :: "yfIPFragInfo \<Rightarrow> yfPBuf \<Rightarrow> yfFragNode \<Rightarrow> yfFragNode" where
  "with_frag fi pbuf n = add_node fi (pb_iplen pbuf) (stash_node fi pbuf n)"

text \<open>The packet buffer of a completed datagram.\<close>

definition delivered :: "frag_sort \<Rightarrow> yfIPFragInfo \<Rightarrow> yfFragNode \<Rightarrow> yfPBuf \<Rightarrow> yfPBuf" where
  "delivered srt fi n pbuf = pbuf\<lparr>pb_key := fk_f (fg_key n), pb_iplen := ucast (the (fits srt n)) + fi_iphlen fi,
     pb_tcpinfo := fg_tcpinfo n, pb_l2info := fg_l2info n\<rparr>"

lemma stash_node_fields [simp]:
  "fkey_tuple (fg_key (stash_node fi pbuf n)) = fkey_tuple (fg_key n)"
  "fkey_ok (fg_key (stash_node fi pbuf n)) = fkey_ok (fg_key n)"
  "fg_last_ctime (stash_node fi pbuf n) = fg_last_ctime n" "fg_paylen (stash_node fi pbuf n) = fg_paylen n"
  "fg_records (stash_node fi pbuf n) = fg_records n" "fg_have_first (stash_node fi pbuf n) = fg_have_first n"
  "fg_have_last (stash_node fi pbuf n) = fg_have_last n"
  by (simp_all add: stash_node_def Let_def)

lemma add_node_fields [simp]:
  "fg_key (add_node fi l n) = fg_key n" "fg_last_ctime (add_node fi l n) = fg_last_ctime n"
  "fg_paylen (add_node fi l n) = fg_paylen n" "fg_payoff (add_node fi l n) = fg_payoff n"
  "fg_have_l4hdr (add_node fi l n) = fg_have_l4hdr n" "fg_tcpinfo (add_node fi l n) = fg_tcpinfo n"
  "fg_l2info (add_node fi l n) = fg_l2info n"
  "fg_records (add_node fi l n) = fg_records n @ [\<lparr>fr_off = fi_offset fi, fr_len = l - fi_iphlen fi\<rparr>]"
  "fg_have_first (add_node fi l n) = (fg_have_first n \<or> fi_offset fi = 0)"
  "fg_have_last (add_node fi l n) = (fg_have_last n \<or> fi_more fi = 0)"
  by (simp_all add: add_node_def Let_def)

lemma with_frag_fields [simp]:
  "fkey_tuple (fg_key (with_frag fi pbuf n)) = fkey_tuple (fg_key n)"
  "fkey_ok (fg_key (with_frag fi pbuf n)) = fkey_ok (fg_key n)"
  "fg_last_ctime (with_frag fi pbuf n) = fg_last_ctime n" "fg_paylen (with_frag fi pbuf n) = fg_paylen n"
  "fg_records (with_frag fi pbuf n) = fg_records n @ [\<lparr>fr_off = fi_offset fi, fr_len = pb_iplen pbuf - fi_iphlen fi\<rparr>]"
  "fg_have_first (with_frag fi pbuf n) = (fg_have_first n \<or> fi_offset fi = 0)"
  "fg_have_last (with_frag fi pbuf n) = (fg_have_last n \<or> fi_more fi = 0)"
  by (simp_all add: with_frag_def)

lemma defrag_eq:
  assumes fr: "fi_frag fi \<noteq> 0" and t: "gt_ctime ft \<le> pb_ptime pbuf"
    and g: "yfFragGetNode ops (ft\<lparr>gt_ctime := pb_ptime pbuf\<rparr>) (pb_key pbuf) fi = Some (ft1, fn)"
    and ft2: "ft2 = upd_gstats (\<lambda>s. s\<lparr>gs_frags := gs_frags s + 1\<rparr>)
      (yfFragAdd fn fi (pb_iplen pbuf) (upd_fnode fn (stash_node fi pbuf) ft1))"
    and c: "yfFragComplete ops srt ft2 fn fi = Some (ft3, fi, b)"
    and po: "fg_payoff (gt_nodes ft2 fn) = fg_payoff (gt_nodes ft3 fn)"
    and p: "yfFragQueuePrune ops ft3 False = Some ft4"
  shows "yfDefragPBuf ops srt ft (Some fi) pbuf =
    (case gt_assembled ft4 of
       None \<Rightarrow> Some (ft4, Some fi, pbuf\<lparr>pb_ptime := 0\<rparr>, False)
     | Some fn \<Rightarrow>
         let ft = ft4\<lparr>gt_assembled := None\<rparr>; n = gt_nodes ft fn;
             pbuf = pbuf\<lparr>pb_key := fk_f (fg_key n), pb_iplen := fg_iplen n, pb_tcpinfo := fg_tcpinfo n,
                         pb_l2info := fg_l2info n\<rparr>
         in Some (yfFragNodeFree ft fn, Some fi, pbuf, True))"
proof -
  have "\<not> pb_ptime pbuf < gt_ctime ft" using t by simp
  then show ?thesis using fr c p po
    unfolding yfDefragPBuf_def g
    by (simp add: Let_def g ft2 [symmetric] del: upd_simps)
qed

context frag_index_ops
begin

lemma defrag_ok:
  assumes ok: "frag_ok ops ft as []" and key: "key_ok (pb_key pbuf)" and fr: "fi_frag fi \<noteq> 0"
    and t: "gt_ctime ft \<le> pb_ptime pbuf"
  shows "\<exists>ft' as' fn n pbuf' b.
    yfDefragPBuf ops srt ft (Some fi) pbuf = Some (ft', Some fi, pbuf', b) \<and> frag_ok ops ft' as' [] \<and>
    gt_ctime ft' = pb_ptime pbuf \<and> gt_max_frags ft' = gt_max_frags ft \<and>
    n = with_frag fi pbuf (got (ft\<lparr>gt_ctime := pb_ptime pbuf\<rparr>) as (frag_key_of fi pbuf) fn) \<and>
    yfFragKeyEqual (fg_key n) (frag_key_of fi pbuf) \<and>
    (fn \<notin> set as \<longrightarrow> gh_lookup ops (gt_table ft) (frag_key_of fi pbuf) = None) \<and>
    (b \<longleftrightarrow> fits srt n \<noteq> None \<and> l4_known n) \<and>
    pbuf' = (if b then delivered srt fi n pbuf else pbuf\<lparr>pb_ptime := 0\<rparr>) \<and>
    (gt_max_frags ft \<noteq> 1 \<longrightarrow> (fn \<in> set as' \<longleftrightarrow> fits srt n = None) \<and>
       (fits srt n = None \<longrightarrow>
          gt_nodes ft' fn = n\<lparr>fg_records := (if fg_have_first n \<and> fg_have_last n
            then srt yfFragSortByOffset (fg_records n) else fg_records n)\<rparr>))"
proof -
  define k where "k = frag_key_of fi pbuf"
  define ft0 where "ft0 = ft\<lparr>gt_ctime := pb_ptime pbuf\<rparr>"
  have ok0: "frag_ok ops ft0 as []" unfolding ft0_def using ok t by (rule ctime_ok)
  from get_ok [OF ok0 key, of k fi] obtain ft1 fn where
    g: "yfFragGetNode ops ft0 (pb_key pbuf) fi = Some (ft1, fn)" and ok1: "frag_ok ops ft1 (remove1 fn as @ [fn]) []"
    and n1: "gt_nodes ft1 = (gt_nodes ft0)(fn := got ft0 as k fn)"
    and ke: "yfFragKeyEqual (fg_key (got ft0 as k fn)) k"
    and new: "fn \<notin> set as \<longrightarrow> gh_lookup ops (gt_table ft0) k = None"
    and c1: "gt_ctime ft1 = gt_ctime ft0" "gt_max_frags ft1 = gt_max_frags ft0"
    by (auto simp: k_def frag_key_of_def)
  define n where "n = with_frag fi pbuf (got ft0 as k fn)"
  define ft2 where "ft2 = upd_gstats (\<lambda>s. s\<lparr>gs_frags := gs_frags s + 1\<rparr>)
    (yfFragAdd fn fi (pb_iplen pbuf) (upd_fnode fn (stash_node fi pbuf) ft1))"
  have ok2: "frag_ok ops ft2 (remove1 fn as @ [fn]) []"
    unfolding ft2_def yfFragAdd_def by (intro stats_ok upd_ok ok1) simp_all
  have n2: "gt_nodes ft2 fn = n" by (simp add: ft2_def yfFragAdd_def n1 n_def with_frag_def)
  have c2: "gt_ctime ft2 = gt_ctime ft0" "gt_max_frags ft2 = gt_max_frags ft0"
    using c1 by (simp_all add: ft2_def yfFragAdd_def)
  define s where "s = srt yfFragSortByOffset (fg_records n)"
  define as1 where "as1 = remove1 fn as @ [fn]"
  have fn1: "fn \<in> set as1" by (simp add: as1_def)
  from complete_ok [where srt = srt, OF ok2 [folded as1_def] fn1 n2 [symmetric] s_def, where fi = fi] obtain ft3 as3 xs b where
    c: "yfFragComplete ops srt ft2 fn fi = Some (ft3, fi, b)" and ok3: "frag_ok ops ft3 as3 xs"
    and c3: "gt_ctime ft3 = gt_ctime ft2" "gt_max_frags ft3 = gt_max_frags ft2"
    and b: "b \<longleftrightarrow> fits srt n \<noteq> None \<and> l4_known n" and xs: "xs = (if b then [fn] else [])"
    and as3: "as3 = (if fits srt n = None then as1 else remove1 fn as1)"
    and n3: "gt_nodes ft3 = (gt_nodes ft2)(fn :=
      (if fg_have_first n \<and> fg_have_last n then n\<lparr>fg_records := s\<rparr> else n)
        \<lparr>fg_iplen := (if b then ucast (the (fits srt n)) + fi_iphlen fi else fg_iplen n)\<rparr>)"
    by blast
  have po: "fg_payoff (gt_nodes ft2 fn) = fg_payoff (gt_nodes ft3 fn)" using n3 n2 by simp
  from prune_ok [OF ok3] obtain ft4 ds bs where
    p: "yfFragQueuePrune ops ft3 False = Some ft4" "as3 = ds @ bs" "frag_ok ops ft4 bs xs" "frame ft3 ft4"
    and keep: "as3 \<noteq> [] \<and> fg_last_ctime (gt_nodes ft3 (last as3)) = gt_ctime ft3 \<and> gt_max_frags ft3 \<noteq> 1 \<longrightarrow> bs \<noteq> []"
    by blast
  define ft5 where "ft5 = (if b then yfFragNodeFree (ft4\<lparr>gt_assembled := None\<rparr>) fn else ft4)"
  have asm: "gt_assembled ft4 = (if b then Some fn else None)" using p(3) xs by (simp add: frag_ok_def frag_mem_def)
  have n4: "gt_nodes ft4 fn = gt_nodes ft3 fn" "gt_ctime ft4 = gt_ctime ft3" "gt_max_frags ft4 = gt_max_frags ft3"
    using p(4) by (simp_all add: frame_def)
  have ok5: "frag_ok ops ft5 bs []"
  proof (cases b)
    case True
    then show ?thesis using p(3) xs
      by (auto simp: ft5_def frag_ok_def frag_queue_def frag_index_def frag_times_def frag_mem_def yfFragNodeFree_def)
  qed (use p(3) xs in \<open>simp add: ft5_def\<close>)
  have res: "yfDefragPBuf ops srt ft (Some fi) pbuf =
      Some (ft5, Some fi, if b then delivered srt fi n pbuf else pbuf\<lparr>pb_ptime := 0\<rparr>, b)"
    unfolding defrag_eq [OF fr t g [unfolded ft0_def] ft2_def c po p(1)] asm
    using n4(1) n3 by (simp add: ft5_def delivered_def Let_def)
  have keep': "fn \<in> set bs" if "gt_max_frags ft \<noteq> 1" "fits srt n = None"
  proof -
    have l: "as3 = as1" "last as3 = fn" "as3 \<noteq> []" using that as3 by (simp_all add: as1_def)
    have "fg_last_ctime n = gt_ctime ft0" by (simp add: n_def got_def)
    then have "bs \<noteq> []" using keep that l n3 c3 c2 by (auto simp: ft0_def)
    then show ?thesis using p(2) l by (metis last_appendR last_in_set)
  qed
  moreover have "fn \<notin> set bs" if "fits srt n \<noteq> None"
  proof -
    have "distinct as1" using frag_okD(3) [OF ok2] by (simp add: as1_def)
    then have "fn \<notin> set (remove1 fn as1)" by simp
    then have "fn \<notin> set (ds @ bs)" using that as3 p(2) by auto
    then show ?thesis by simp
  qed
  ultimately have bs: "gt_max_frags ft \<noteq> 1 \<longrightarrow> (fn \<in> set bs \<longleftrightarrow> fits srt n = None)" by blast
  have nd: "fits srt n = None \<longrightarrow> gt_nodes ft5 fn =
      n\<lparr>fg_records := (if fg_have_first n \<and> fg_have_last n then s else fg_records n)\<rparr>"
    using n4(1) n3 b by (simp add: ft5_def yfFragNodeFree_def)
  have cm: "gt_ctime ft5 = pb_ptime pbuf" "gt_max_frags ft5 = gt_max_frags ft"
    using n4 c3 c2 by (simp_all add: ft5_def yfFragNodeFree_def ft0_def)
  have kn: "yfFragKeyEqual (fg_key n) k" using ke by (simp add: yfFragKeyEqual_iff n_def)
  have nl: "fn \<notin> set as \<longrightarrow> gh_lookup ops (gt_table ft) k = None" using new by (simp add: ft0_def)
  have nn: "n = with_frag fi pbuf (got (ft\<lparr>gt_ctime := pb_ptime pbuf\<rparr>) as k fn)" by (simp add: n_def ft0_def)
  show ?thesis
    apply (rule exI [of _ ft5], rule exI [of _ bs], rule exI [of _ fn], rule exI [of _ n])
    apply (rule exI [of _ "if b then delivered srt fi n pbuf else pbuf\<lparr>pb_ptime := 0\<rparr>"], rule exI [of _ b])
    unfolding k_def [symmetric] s_def [symmetric]
    by (intro conjI, rule res, rule ok5, rule cm, rule cm, rule nn, rule kn, rule nl, rule b, rule refl)
      (use bs nd in simp)
qed

end

subsection \<open>Histories\<close>

text \<open>A history is the packets in the order of their arrival, with their fragment information; the result
  lists, for each, the packet buffer and whether it is valid.\<close>

type_synonym frag_event = "yfIPFragInfo option \<times> yfPBuf"

fun frag_run :: "'t frag_ops \<Rightarrow> frag_sort \<Rightarrow> 't yfFragTab \<Rightarrow> frag_event list \<Rightarrow> ('t yfFragTab \<times> (yfPBuf \<times> bool) list) option" where
  "frag_run ops srt ft [] = Some (ft, [])"
| "frag_run ops srt ft ((fi, pbuf) # evs) = do {
     (ft, fi, pbuf, ok) \<leftarrow> yfDefragPBuf ops srt ft fi pbuf;
     (ft, outs) \<leftarrow> frag_run ops srt ft evs;
     Some (ft, (pbuf, ok) # outs)
   }"

definition event_ok :: "frag_event \<Rightarrow> bool" where
  "event_ok ev = (case ev of (Some fi, pbuf) \<Rightarrow> fi_frag fi \<noteq> 0 \<longrightarrow> key_ok (pb_key pbuf) | _ \<Rightarrow> True)"

context frag_index_ops
begin

lemma step_ok:
  assumes ok: "frag_ok ops ft as []" and ev: "event_ok (fi, pbuf)"
  shows "\<exists>ft' as' fi' pbuf' b. yfDefragPBuf ops srt ft fi pbuf = Some (ft', fi', pbuf', b) \<and> frag_ok ops ft' as' []"
proof (cases fi)
  case None
  then show ?thesis using ok by (auto simp: yfDefragPBuf_def)
next
  case (Some f)
  show ?thesis
  proof (cases "fi_frag f = 0 \<or> pb_ptime pbuf < gt_ctime ft")
    case True
    then show ?thesis using Some ok stats_ok [OF ok, of "\<lambda>s. s\<lparr>gs_seqrej := gs_seqrej s + 1\<rparr>"]
      by (auto simp: yfDefragPBuf_def)
  next
    case False
    then have "key_ok (pb_key pbuf)" "fi_frag f \<noteq> 0" "gt_ctime ft \<le> pb_ptime pbuf" using ev Some by (auto simp: event_ok_def)
    from defrag_ok [OF ok this, of srt] show ?thesis unfolding Some by fast
  qed
qed

lemma run_ok:
  "\<lbrakk>frag_ok ops ft as []; \<forall>ev \<in> set evs. event_ok ev\<rbrakk> \<Longrightarrow>
   \<exists>ft' as' outs. frag_run ops srt ft evs = Some (ft', outs) \<and> frag_ok ops ft' as' [] \<and> length outs = length evs"
proof (induction evs arbitrary: ft as)
  case (Cons ev evs)
  obtain fi pbuf where ev: "ev = (fi, pbuf)" by fastforce
  from step_ok [OF Cons.prems(1), of fi pbuf srt] Cons.prems(2) ev obtain ft1 as1 fi1 pbuf1 b where
    d: "yfDefragPBuf ops srt ft fi pbuf = Some (ft1, fi1, pbuf1, b)" "frag_ok ops ft1 as1 []" by auto
  from Cons.IH [OF d(2)] Cons.prems(2) show ?case using d(1) ev by fastforce
qed auto

lemma free_ok:
  assumes "frag_ok ops ft as []"
  shows "\<exists>ft'. yfFragTabFree ops ft = Some ft' \<and> frag_ok ops ft' [] [] \<and> gt_brk ft' = gt_brk ft"
  using drop_while_ok [OF assms, of "\<lambda>ft fn. True"] by (auto simp: yfFragTabFree_def frame_def)

end

text \<open>C8: Safety of the fragment table. For any hash table that behaves as documented and any sorting
  function, over any history of packets whose fragments have IPv4 or IPv6 keys: every call of
  \<open>yfDefragPBuf\<close> returns (no failed assertion, no null pointer, every loop ends), the table keeps its
  invariant (queue, index, counters and ownership of nodes agree), and freeing the table afterwards
  leaves no node behind: every node ever made has been freed exactly once.\<close>

theorem frag_table_safe:
  assumes ops: "ghash_table ops yfFragKeyEqual" and evs: "\<forall>ev \<in> set evs. event_ok ev"
  shows "\<exists>ft as outs ft'. frag_run ops srt (yfFragTabAlloc ops idle mx) evs = Some (ft, outs) \<and>
    length outs = length evs \<and> frag_ok ops ft as [] \<and> yfFragTabFree ops ft = Some ft' \<and> gt_count ft' = 0 \<and>
    distinct (gt_freed ft') \<and> set (gt_freed ft') = {..<gt_brk ft}"
proof -
  have loc: "frag_index_ops ops" using ops by (simp add: frag_index_ops_def)
  from frag_index_ops.run_ok [OF loc frag_index_ops.alloc_ok [OF loc] evs] obtain ft as outs where
    r: "frag_run ops srt (yfFragTabAlloc ops idle mx) evs = Some (ft, outs)" "frag_ok ops ft as []"
    "length outs = length evs" by blast
  from frag_index_ops.free_ok [OF loc r(2)] obtain ft' where "yfFragTabFree ops ft = Some ft'"
    "frag_ok ops ft' [] []" "gt_brk ft' = gt_brk ft" by blast
  then show ?thesis using r by (auto simp: frag_ok_def frag_queue_def frag_mem_def)
qed

text \<open>The table of buckets is an instance.\<close>

interpretation fragidx: frag_index_ops "bucket_ops yfFragKeyHash yfFragKeyEqual"
  unfolding frag_index_ops_def by (rule fragkey.bucket_table)

definition sample_frag :: "u16 \<Rightarrow> u8 \<Rightarrow> u16 \<Rightarrow> u64 \<Rightarrow> frag_event" where
  "sample_frag off mf iplen t =
     (Some \<lparr>fi_ipid = 7, fi_offset = off, fi_iphlen = 20, fi_l4hlen = (if off = 0 then 8 else 0), fi_frag = 1, fi_more = mf\<rparr>,
      zero_pbuf\<lparr>pb_ptime := t, pb_iplen := iplen,
        pb_key := zero_key\<lparr>k_version := 4, k_proto := 17, k_sp := (if off = 0 then 53 else 0)\<rparr>\<rparr>)"

theorem frag_table_safe_witness:
  "\<exists>ft as outs ft'. frag_run (bucket_ops yfFragKeyHash yfFragKeyEqual) c_sort
      (yfFragTabAlloc (bucket_ops yfFragKeyHash yfFragKeyEqual) 0 2)
      [sample_frag 8 0 60 10, sample_frag 0 1 28 11, (None, zero_pbuf)] = Some (ft, outs) \<and>
    length outs = length [sample_frag 8 0 60 10, sample_frag 0 1 28 11, (None, zero_pbuf)] \<and>
    frag_ok (bucket_ops yfFragKeyHash yfFragKeyEqual) ft as [] \<and>
    yfFragTabFree (bucket_ops yfFragKeyHash yfFragKeyEqual) ft = Some ft' \<and> gt_count ft' = 0 \<and>
    distinct (gt_freed ft') \<and> set (gt_freed ft') = {..<gt_brk ft}"
  by (rule frag_table_safe [OF fragkey.bucket_table]) (simp add: event_ok_def sample_frag_def key_ok_def)

subsection \<open>When fragments fit\<close>

definition rec_range :: "yfFragRec \<Rightarrow> nat set" where
  "rec_range r = {unat (fr_off r)..<unat (fr_off r) + unat (fr_len r)}"

text \<open>Fragments that do not overlap, none of them empty.\<close>

definition recs_disjoint :: "yfFragRec list \<Rightarrow> bool" where
  "recs_disjoint rs \<longleftrightarrow> distinct rs \<and> (\<forall>r \<in> set rs. fr_len r \<noteq> 0) \<and>
     (\<forall>a \<in> set rs. \<forall>b \<in> set rs. a \<noteq> b \<longrightarrow> rec_range a \<inter> rec_range b = {})"

definition covered :: "yfFragRec list \<Rightarrow> nat set" where
  "covered rs = (\<Union>r \<in> set rs. rec_range r)"

lemma unat_ucast32: "unat (ucast (w :: u16) :: u32) = unat w"
proof -
  have "unat w < 2 ^ 16" by (rule less_le_trans [OF unsigned_less]) simp
  then show ?thesis by (simp add: unsigned_ucast_eq take_bit_nat_eq_self_iff)
qed

lemma rec_end: "unat (ucast (fr_off r) + ucast (fr_len r) :: u32) = unat (fr_off r) + unat (fr_len r)"
proof -
  have "unat (fr_off r) < 2 ^ 16" "unat (fr_len r) < 2 ^ 16" by (rule less_le_trans [OF unsigned_less], simp)+
  then show ?thesis by (simp add: unat_plus_if' unat_ucast32)
qed

text \<open>The offsets increase from one record to the next, past its end.\<close>

lemma disjoint_sorted:
  assumes "recs_disjoint rs" "sorted_wrt (\<lambda>a b. fr_off a \<le> fr_off b) rs"
  shows "sorted_wrt (\<lambda>a b. unat (fr_off a) + unat (fr_len a) \<le> unat (fr_off b)) rs"
  using assms
proof (induction rs)
  case (Cons r rs)
  have "unat (fr_off r) + unat (fr_len r) \<le> unat (fr_off b)" if b: "b \<in> set rs" for b
  proof (rule ccontr)
    assume n: "\<not> ?thesis"
    have "r \<noteq> b" "fr_len b \<noteq> 0" "rec_range r \<inter> rec_range b = {}" using b Cons.prems(1) by (auto simp: recs_disjoint_def)
    moreover have "unat (fr_off r) \<le> unat (fr_off b)" using b Cons.prems(2) by (simp add: word_le_nat_alt)
    ultimately have "unat (fr_off b) \<in> rec_range r \<inter> rec_range b"
      using n by (simp add: rec_range_def unat_gt_0)
    then show False using \<open>rec_range r \<inter> rec_range b = {}\<close> by blast
  qed
  then show ?case using Cons by (simp add: recs_disjoint_def)
qed simp

lemma frag_fit_covers:
  assumes "sorted_wrt (\<lambda>a b. unat (fr_off a) + unat (fr_len a) \<le> unat (fr_off b)) rs"
    and "\<forall>r \<in> set rs. fr_len r \<noteq> 0 \<and> unat nx \<le> unat (fr_off r)"
  shows "frag_fit rs nx = Some e \<longleftrightarrow> unat nx \<le> unat e \<and> covered rs = {unat nx..<unat e}"
  using assms
proof (induction rs arbitrary: nx)
  case Nil
  then show ?case by (auto simp: covered_def word_unat_eq_iff)
next
  case (Cons r rs)
  let ?s = "unat (fr_off r)" and ?t = "unat (fr_off r) + unat (fr_len r)"
  have pos: "?s < ?t" using Cons.prems(2) by (simp add: unat_gt_0)
  have ge: "unat nx \<le> ?s" using Cons.prems(2) by simp
  have later: "\<forall>x \<in> covered rs. ?t \<le> x" using Cons.prems(1) by (fastforce simp: covered_def rec_range_def)
  have cov: "covered (r # rs) = {?s..<?t} \<union> covered rs" by (simp add: covered_def rec_range_def)
  show ?case
  proof (cases "?s \<le> unat nx")
    case True
    then have s: "?s = unat nx" using ge by simp
    have "frag_fit (r # rs) nx = Some e \<longleftrightarrow> ?t \<le> unat e \<and> covered rs = {?t..<unat e}"
      using Cons.IH [of "ucast (fr_off r) + ucast (fr_len r)"] Cons.prems True
      by (simp add: rec_end word_le_nat_alt unat_ucast32)
    also have "\<dots> \<longleftrightarrow> unat nx \<le> unat e \<and> covered (r # rs) = {unat nx..<unat e}"
    proof
      assume "?t \<le> unat e \<and> covered rs = {?t..<unat e}"
      then show "unat nx \<le> unat e \<and> covered (r # rs) = {unat nx..<unat e}" using s pos cov by auto
    next
      assume c: "unat nx \<le> unat e \<and> covered (r # rs) = {unat nx..<unat e}"
      then have sub: "{?s..<?t} \<subseteq> {unat nx..<unat e}" using cov by blast
      have "?t - 1 \<in> {?s..<?t}" using pos by auto
      then have "?t - 1 < unat e" using sub by auto
      then have te: "?t \<le> unat e" using pos by linarith
      have "covered rs = covered (r # rs) - {?s..<?t}" using cov later by fastforce
      also have "\<dots> = {?t..<unat e}" using c s te by auto
      finally show "?t \<le> unat e \<and> covered rs = {?t..<unat e}" using te by simp
    qed
    finally show ?thesis .
  next
    case False
    have "unat nx \<notin> covered (r # rs)" using False later cov pos by (auto simp: not_le)
    moreover have "?s \<in> covered (r # rs)" using cov pos by auto
    ultimately show ?thesis using False by (auto simp: word_le_nat_alt unat_ucast32)
  qed
qed

lemma disjoint_perm: "mset rs = mset rs' \<Longrightarrow> recs_disjoint rs = recs_disjoint rs'"
  by (metis mset_eq_imp_distinct_iff mset_eq_setD recs_disjoint_def)

lemma covered_perm: "mset rs = mset rs' \<Longrightarrow> covered rs = covered rs'"
  unfolding covered_def by (metis mset_eq_setD)

lemma sorted_by_offset:
  "garray_sort s \<Longrightarrow> sorted_wrt (\<lambda>a b. fr_off a \<le> fr_off b) (s yfFragSortByOffset rs)"
proof -
  assume "garray_sort s"
  then have "sorted_wrt (\<lambda>a b. uint (fr_off a) \<le> uint (fr_off b)) (s (\<lambda>a b. uint (fr_off a) - uint (fr_off b)) rs)"
    by (rule garray_sort.sort_by_key)
  moreover have "(\<lambda>a b. uint (fr_off a) - uint (fr_off b)) = yfFragSortByOffset"
    by (simp add: fun_eq_iff yfFragSortByOffset_def)
  ultimately show ?thesis by (simp add: word_le_def)
qed

lemma frag_fit_gapless:
  assumes "garray_sort srt" "recs_disjoint rs"
  shows "frag_fit (srt yfFragSortByOffset rs) 0 = Some e \<longleftrightarrow> covered rs = {0..<unat e}"
proof -
  have p: "mset (srt yfFragSortByOffset rs) = mset rs" using assms(1) by (rule garray_sort.sort_perm)
  have d: "recs_disjoint (srt yfFragSortByOffset rs)" using assms(2) disjoint_perm [OF p] by simp
  from disjoint_sorted [OF d sorted_by_offset [OF assms(1)]] show ?thesis
    using d frag_fit_covers [of "srt yfFragSortByOffset rs" 0 e] covered_perm [OF p] by (simp add: recs_disjoint_def)
qed

text \<open>Whatever the fragments, no octet before the end of an accepted datagram is missing.\<close>

lemma frag_fit_sound: "frag_fit rs nx = Some e \<Longrightarrow> {0..<unat e} \<subseteq> {0..<unat nx} \<union> covered rs"
proof (induction rs arbitrary: nx)
  case (Cons r rs)
  then have le: "unat (fr_off r) \<le> unat nx" and f: "frag_fit rs (ucast (fr_off r) + ucast (fr_len r)) = Some e"
    by (auto simp: word_le_nat_alt unat_ucast32 split: if_splits)
  show ?case using Cons.IH [OF f] le unfolding rec_end by (fastforce simp: covered_def rec_range_def)
qed simp

text \<open>C14: When a datagram is complete (\<open>yfFragComplete\<close>). Take fragments in any order of arrival, sorted by
  offset. The traversal never succeeds with an end \<open>e\<close> when an octet before \<open>e\<close> is missing; and when the fragments
  do not overlap and none is empty, it succeeds with end \<open>e\<close> exactly when they cover the octets from 0 to \<open>e\<close> and no
  others. (Fragments that overlap can be refused although they leave no gap.)\<close>

theorem frag_fit_exact:
  assumes "garray_sort srt"
  shows "(frag_fit (srt yfFragSortByOffset rs) 0 = Some e \<longrightarrow> {0..<unat e} \<subseteq> covered rs) \<and>
    (recs_disjoint rs \<longrightarrow> (frag_fit (srt yfFragSortByOffset rs) 0 = Some e \<longleftrightarrow> covered rs = {0..<unat e}))"
  using frag_fit_sound [of "srt yfFragSortByOffset rs" 0 e] covered_perm [OF garray_sort.sort_perm [OF assms]]
    frag_fit_gapless [OF assms] by auto

theorem frag_fit_exact_witness:
  "frag_fit (c_sort yfFragSortByOffset [\<lparr>fr_off = 8, fr_len = 40\<rparr>, \<lparr>fr_off = 0, fr_len = 8\<rparr>]) 0 = Some 48 \<and>
   (\<forall>e. frag_fit (c_sort yfFragSortByOffset [\<lparr>fr_off = 16, fr_len = 40\<rparr>, \<lparr>fr_off = 0, fr_len = 8\<rparr>]) 0 \<noteq> Some e)"
proof (intro conjI allI)
  let ?full = "[\<lparr>fr_off = 8, fr_len = 40\<rparr>, \<lparr>fr_off = 0, fr_len = 8\<rparr>] :: yfFragRec list"
  let ?gap = "[\<lparr>fr_off = 16, fr_len = 40\<rparr>, \<lparr>fr_off = 0, fr_len = 8\<rparr>] :: yfFragRec list"
  have d: "recs_disjoint ?full" "recs_disjoint ?gap" by (auto simp: recs_disjoint_def rec_range_def)
  have "covered ?full = {0..<unat (48 :: u32)}" by (auto simp: covered_def rec_range_def)
  then show "frag_fit (c_sort yfFragSortByOffset ?full) 0 = Some 48"
    using frag_fit_exact [OF csort.garray_sort_axioms, of ?full 48] d(1) by blast
  show "frag_fit (c_sort yfFragSortByOffset ?gap) 0 \<noteq> Some e" for e
  proof -
    have "16 \<in> covered ?gap" "8 \<notin> covered ?gap" by (auto simp: covered_def rec_range_def)
    then have "covered ?gap \<noteq> {0..<unat e}" by fastforce
    then show ?thesis using frag_fit_exact [OF csort.garray_sort_axioms, of ?gap e] d(2) by blast
  qed
qed

end
