(* ===== verification/DecodeSafe.thy ===== *)
theory DecodeSafe
  imports Decode
begin

text \<open>
  Memory safety of the decoder. \<open>cap_ok\<close> relates the packet pointer and the remaining length to
  the captured octets; every decoding function started in such a state loads only captured
  octets and returns to such a state, except on the inputs described by \<open>ip_malformed\<close> and
  \<open>ends_in_short_ws\<close>.
\<close>

definition cap_ok :: "bytes \<Rightarrow> dst \<Rightarrow> nat \<Rightarrow> bool" where
  "cap_ok buf st pkt = (pkt + unat (d_caplen st) \<le> length buf)"

definition safe_res :: "bytes \<Rightarrow> dec_res \<Rightarrow> bool" where
  "safe_res buf r = (case r of None \<Rightarrow> False | Some (st, None) \<Rightarrow> True | Some (st, Some p) \<Rightarrow> cap_ok buf st p)"

definition safe_l2 :: "bytes \<Rightarrow> l2_res \<Rightarrow> bool" where
  "safe_l2 buf r = (case r of None \<Rightarrow> False | Some (st, ty, None) \<Rightarrow> True | Some (st, ty, Some p) \<Rightarrow> cap_ok buf st p)"

lemma safe_l2_simps [simp]:
  "safe_l2 buf (Some (st, ty, None))" "safe_l2 buf (Some (st, ty, Some p)) = cap_ok buf st p"
  "\<not> safe_l2 buf None"
  by (simp_all add: safe_l2_def)

lemma safe_res_simps [simp]:
  "safe_res buf (Some (st, None))" "safe_res buf (Some (st, Some p)) = cap_ok buf st p"
  "\<not> safe_res buf None" "safe_res buf (reject f st)" "safe_res buf (reject_l4 st)"
  by (simp_all add: safe_res_def reject_def reject_l4_def)

lemma safe_bind:
  assumes "r = Some x" "safe_res buf (f x)"
  shows "safe_res buf (r \<bind> f)" using assms by simp

lemma rd8_in: "p < length buf \<Longrightarrow> rd8 buf p = Some (buf ! p)"
  by (simp add: rd8_def)

lemma rd16_in: "p + 2 \<le> length buf \<Longrightarrow> rd16 buf p = Some (be16 (buf ! p) (buf ! (p + 1)))"
  by (simp add: rd16_def rd8_in)

lemma rd32_in:
  "p + 4 \<le> length buf \<Longrightarrow>
   rd32 buf p = Some (be32 (buf ! p) (buf ! (p + 1)) (buf ! (p + 2)) (buf ! (p + 3)))"
  by (simp add: rd32_def rd8_in)

lemma rdn_in: "p + n \<le> length buf \<Longrightarrow> rdn buf p n = Some (take n (drop p buf))"
  by (simp add: rdn_def)

lemmas rd_in = rd8_in rd16_in rd32_in rdn_in

lemma caplen_ge [simp]: "(d_caplen st < w) = (unat (d_caplen st) < unat w)"
  by (simp add: word_less_nat_alt)

lemma small_u64 [simp]: "n < 2 ^ 63 \<Longrightarrow> unat (of_nat n :: u64) = n"
  by (simp add: unat_of_nat)

lemma ucast_u64: "unat (ucast (w :: u16) :: u64) = unat w"
proof -
  have "unat w < 2 ^ 16" by (rule less_le_trans [OF unsigned_less]) simp
  then show ?thesis by (simp add: unsigned_ucast_eq take_bit_nat_eq_self_iff)
qed

lemma eat_caplen: "n \<le> unat (d_caplen st) \<Longrightarrow> unat (d_caplen (eat n st)) = unat (d_caplen st) - n"
proof -
  assume n: "n \<le> unat (d_caplen st)"
  moreover have "unat (d_caplen st) < 2 ^ 64" by (rule less_le_trans [OF unsigned_less]) simp
  ultimately have "n < 2 ^ 64" by simp
  then have "unat (of_nat n :: u64) = n" by (simp add: unat_of_nat)
  with n show ?thesis by (simp add: eat_def unat_sub word_le_nat_alt)
qed

lemma cap_ok_eat:
  "\<lbrakk>cap_ok buf st pkt; n \<le> unat (d_caplen st)\<rbrakk> \<Longrightarrow> cap_ok buf (eat n st) (pkt + n)"
  by (simp add: cap_ok_def eat_caplen)

lemma cap_ok_caplen: "d_caplen st' = d_caplen st \<Longrightarrow> cap_ok buf st' pkt = cap_ok buf st pkt"
  by (simp add: cap_ok_def)

lemma caplen_updates [simp]:
  "d_caplen (count_fail f st) = d_caplen st" "d_caplen (set_ports sp dp st) = d_caplen st"
  "d_caplen (set_l4hlen n st) = d_caplen st"
  by (simp_all add: count_fail_def set_ports_def set_l4hlen_def)

subsection \<open>Layer 2\<close>

lemma PPP_safe: "cap_ok buf st pkt \<Longrightarrow> safe_l2 buf (yfDecodeL2PPP buf st pkt type)"
  by (auto simp: yfDecodeL2PPP_def rd_in cap_ok_eat cap_ok_def eat_caplen split: option.splits)

lemma version_safe:
  "cap_ok buf st pkt \<Longrightarrow> \<exists>ty. ip_version_to_type buf st pkt = Some ty"
proof (cases "d_caplen st = 0")
  case False
  moreover assume "cap_ok buf st pkt"
  ultimately have "pkt < length buf" by (auto simp: cap_ok_def simp flip: unat_gt_0)
  then show ?thesis by (simp add: ip_version_to_type_def rd_in Let_def)
qed (simp add: ip_version_to_type_def)

lemma Shim_safe: "cap_ok buf st pkt \<Longrightarrow> safe_l2 buf (yfDecodeL2Shim buf st pkt type)"
proof (induction buf st pkt type rule: yfDecodeL2Shim.induct)
  case (1 buf st pkt type)
  have e: "cap_ok buf (eat n (st\<lparr>d_l2info := l\<rparr>)) (pkt + n)" if "n \<le> unat (d_caplen st)" for n l
    using that 1(5) by (simp add: cap_ok_def eat_caplen)
  consider (q) "type = YF_TYPE_8021Q" | (m) "type = YF_TYPE_MPLS \<or> type = YF_TYPE_MPLSM"
    | (p) "type = YF_TYPE_PPPOE"
    | (o) "type \<noteq> YF_TYPE_8021Q" "type \<noteq> YF_TYPE_MPLS" "type \<noteq> YF_TYPE_MPLSM" "type \<noteq> YF_TYPE_PPPOE"
    by blast
  then show ?case
  proof cases
    case q
    show ?thesis
    proof (cases "unat (d_caplen st) < 4")
      case False
      with 1(5) have "pkt + 4 \<le> length buf" by (simp add: cap_ok_def)
      then show ?thesis using q False 1(1) e
        by (subst yfDecodeL2Shim.simps) (simp add: rd_in)
    qed (use q in \<open>subst yfDecodeL2Shim.simps, simp\<close>)
  next
    case m
    show ?thesis
    proof (cases "unat (d_caplen st) < 4")
      case False
      with 1(5) have l: "pkt + 4 \<le> length buf" by (simp add: cap_ok_def)
      define en where "en = be32 (buf ! pkt) (buf ! (pkt + 1)) (buf ! (pkt + 2)) (buf ! (pkt + 3))"
      define st1 where "st1 = eat 4 (st\<lparr>d_l2info := add_mpls_label en (d_l2info st)\<rparr>)"
      have c: "cap_ok buf st1 (pkt + 4)" using e False by (simp add: st1_def)
      obtain ty where ty: "ip_version_to_type buf st1 (pkt + 4) = Some ty"
        using version_safe [OF c] by blast
      have rd: "rd32 buf pkt = Some en" using l by (simp add: rd_in en_def)
      have ih2: "safe_l2 buf (yfDecodeL2Shim buf st1 (pkt + 4) t)" if "ty = Some t" "en AND 0x100 \<noteq> 0" for t
        using 1(2) [OF _ _ _ rd st1_def] m False that ty c by auto
      have ih3: "safe_l2 buf (yfDecodeL2Shim buf st1 (pkt + 4) type)" if "en AND 0x100 = 0"
        using 1(3) [OF _ _ _ rd st1_def] m False that c by auto
      show ?thesis using m False ih2 ih3 ty
        by (subst yfDecodeL2Shim.simps) (auto simp: rd Let_def st1_def [symmetric] split: option.splits)
    qed (use m in \<open>subst yfDecodeL2Shim.simps, auto\<close>)
  next
    case p
    show ?thesis
    proof (cases "unat (d_caplen st) < 6")
      case False
      then have "cap_ok buf (eat 6 st) (pkt + 6)" using 1(5) by (simp add: cap_ok_eat)
      then have s: "safe_l2 buf (yfDecodeL2PPP buf (eat 6 st) (pkt + 6) type)" by (rule PPP_safe)
      then obtain st' ty o' where r: "yfDecodeL2PPP buf (eat 6 st) (pkt + 6) type = Some (st', ty, o')"
        by (cases "yfDecodeL2PPP buf (eat 6 st) (pkt + 6) type") auto
      show ?thesis
      proof (cases o')
        case (Some a)
        then show ?thesis using p False s r 1(4) [of "(st', ty, o')" st' "(ty, o')" ty o' a]
          by (subst yfDecodeL2Shim.simps) simp
      qed (use p False r in \<open>subst yfDecodeL2Shim.simps, simp\<close>)
    qed (use p in \<open>subst yfDecodeL2Shim.simps, simp\<close>)
  next
    case o
    then show ?thesis using 1(5) by (subst yfDecodeL2Shim.simps) simp
  qed
qed

lemma L2_safe: "cap_ok buf st pkt \<Longrightarrow> safe_l2 buf (yfDecodeL2 buf st link pkt type)"
proof -
  assume c: "cap_ok buf st pkt"
  define st0 where "st0 = st\<lparr>d_l2info := zero_l2info\<rparr>"
  have c0: "cap_ok buf st0 pkt" using c by (simp add: st0_def cap_ok_def)
  have e: "cap_ok buf (eat n (st0\<lparr>d_l2info := l\<rparr>)) (pkt + n)" if "n \<le> unat (d_caplen st0)" for n l
    using that c0 by (simp add: cap_ok_def eat_caplen)
  have l: "pkt + n \<le> length buf" if "n \<le> unat (d_caplen st0)" for n
    using that c0 by (simp add: cap_ok_def)
  have ppp: "safe_l2 buf (case r of (st, ty, None) \<Rightarrow> Some (st, ty, None) | (st, ty, Some p) \<Rightarrow> yfDecodeL2Shim buf st p ty)"
    if "safe_l2 buf (Some r)" for r
    using that by (auto simp: Shim_safe split: prod.splits option.splits)
  show ?thesis
  proof (cases link)
    case TRACE_TYPE_ETH
    then show ?thesis using l [of 14] e [of 14]
      by (auto simp: yfDecodeL2_def st0_def [symmetric] Let_def rd_in Shim_safe)
  next
    case TRACE_TYPE_NONE
    then show ?thesis using version_safe [OF c0] c0
      by (auto simp: yfDecodeL2_def st0_def [symmetric] Let_def split: option.splits)
  next
    case TRACE_TYPE_LINUX_SLL
    then show ?thesis using l [of 16] cap_ok_eat [OF c0, of 16]
      by (auto simp: yfDecodeL2_def st0_def [symmetric] Let_def rd_in Shim_safe)
  next
    case TRACE_TYPE_PPP
    show ?thesis
    proof (cases "unat (d_caplen st0) < 2")
      case False
      define hd where "hd = (buf ! pkt = 0xff \<and> buf ! (pkt + 1) = 0x03)"
      define r where "r = yfDecodeL2PPP buf (if hd then eat 2 st0 else st0) (if hd then pkt + 2 else pkt) type"
      have r: "safe_l2 buf r" using c0 False unfolding r_def
        by (intro PPP_safe) (use cap_ok_eat [OF c0, of 2] in simp)
      then obtain x where x: "r = Some x" by (cases r) auto
      have "yfDecodeL2 buf st link pkt type =
        r \<bind> (\<lambda>r. case r of (st, ty, None) \<Rightarrow> Some (st, ty, None) | (st, ty, Some p) \<Rightarrow> yfDecodeL2Shim buf st p ty)"
        using TRACE_TYPE_PPP False l [of 2]
        by (simp add: yfDecodeL2_def st0_def [symmetric] Let_def rd_in hd_def r_def)
      then show ?thesis using ppp [of x] r x by simp
    qed (use TRACE_TYPE_PPP in \<open>simp add: yfDecodeL2_def st0_def [symmetric]\<close>)
  next
    case TRACE_TYPE_HDLC_POS
    then show ?thesis using l [of 4] cap_ok_eat [OF c0, of 4]
      by (auto simp: yfDecodeL2_def st0_def [symmetric] Let_def rd_in Shim_safe)
  qed (simp_all add: yfDecodeL2_def)
qed

subsection \<open>Layer 3\<close>

text \<open>What the decoder of the IP header does not check: that an IPv4 header has at least its five
  words and that the total length covers the header, and that the length of an IPv6 datagram
  fits in 16 bits.\<close>

definition ip4_malformed :: "bytes \<Rightarrow> nat \<Rightarrow> bool" where
  "ip4_malformed buf pkt =
     (let iph_len = unat (buf ! pkt AND 0x0F) * 4
      in iph_len < 20 \<or> unat (be16 (buf ! (pkt + 2)) (buf ! (pkt + 3))) < iph_len)"

definition ip6_malformed :: "bytes \<Rightarrow> nat \<Rightarrow> bool" where
  "ip6_malformed buf pkt = (unat (be16 (buf ! (pkt + 4)) (buf ! (pkt + 5))) + 40 \<ge> 2 ^ 16)"

lemma nibble_bound: "unat (b AND 0x0F :: u8) * 4 \<le> 60"
proof -
  have "b AND 0x0F \<le> 0x0F" by (rule word_and_le1)
  then show ?thesis by (simp add: word_le_nat_alt)
qed

lemma ip4_body_safe:
  assumes "cap_ok buf st pkt" "20 \<le> h" "h \<le> unat (d_caplen st)"
    and "h \<le> unat (be16 (buf ! (pkt + 2)) (buf ! (pkt + 3)))"
  shows "safe_res buf (ip4_body buf st pkt h)"
proof -
  have "pkt + 20 \<le> length buf" using assms by (simp add: cap_ok_def)
  moreover have "h \<le> unat (be16 (buf ! Suc (Suc pkt)) (buf ! Suc (Suc (Suc pkt))))"
    using assms(4) by (simp add: numeral_3_eq_3)
  ultimately show ?thesis using assms(1-3)
    by (auto simp: ip4_body_def rd_in Let_def cap_ok_def eat_caplen ucast_u64 word_less_nat_alt split: if_splits)
qed

lemma IPv4_safe:
  assumes c: "cap_ok buf st pkt" and m: "\<not> ip4_malformed buf pkt"
  shows "safe_res buf (yfDecodeIPv4 buf st pkt)"
proof (cases "d_caplen st = 0")
  case False
  define h where "h = unat (buf ! pkt AND 0x0F) * 4"
  have p: "pkt < length buf" using c False by (auto simp: cap_ok_def simp flip: unat_gt_0)
  have hw: "unat (of_nat h :: u64) = h" using nibble_bound [of "buf ! pkt"] by (intro small_u64) (simp add: h_def)
  have "yfDecodeIPv4 buf st pkt =
    (if d_caplen st < of_nat h then reject ip4hdr_inc st else ip4_body buf st pkt h)"
    using False p by (simp add: yfDecodeIPv4_def rd_in Let_def h_def)
  then show ?thesis using m c hw ip4_body_safe [of buf st pkt h]
    by (simp add: ip4_malformed_def h_def [symmetric] Let_def)
qed (simp add: yfDecodeIPv4_def)

lemma ip6_ext_safe: "cap_ok buf st pkt \<Longrightarrow> safe_res buf (ip6_ext buf st pkt l n)"
proof (induction buf st pkt l n rule: ip6_ext.induct)
  case (1 buf st pkt l n)
  have e: "cap_ok buf (eat k (st\<lparr>d_frag := f\<rparr>)) (pkt + k)" if "k \<le> unat (d_caplen st)" for k f
    using that 1(3) by (simp add: cap_ok_def eat_caplen)
  show ?case
  proof (cases "n = YF_PROTO_IP6_FRAG \<and> 8 \<le> unat (d_caplen st)")
    case True
    then have "pkt + 8 \<le> length buf" using 1(3) by (simp add: cap_ok_def)
    then show ?thesis using True e [of 8] 1(1)
      by (subst ip6_ext.simps) (auto simp: rd_in Let_def)
  next
    case False
    note F = this
    show ?thesis
    proof (cases "(n = YF_PROTO_IP6_HOP \<or> n = YF_PROTO_IP6_ROUTE \<or> n = YF_PROTO_IP6_DOPT) \<and> 2 \<le> unat (d_caplen st)")
      case True
      then have p: "pkt + 2 \<le> length buf" using 1(3) by (simp add: cap_ok_def)
      define hl where "hl = unat (buf ! (pkt + 1)) * 8 + 8"
      have "unat (buf ! (pkt + 1)) < 2 ^ 8" by (rule less_le_trans [OF unsigned_less]) simp
      then have hw: "unat (of_nat hl :: u64) = hl" by (intro small_u64) (simp add: hl_def)
      have "safe_res buf (ip6_ext buf (eat hl st) (pkt + hl) (l + of_nat hl) (buf ! pkt))" if "hl \<le> unat (d_caplen st)"
        using 1(2) [of "buf ! pkt" "buf ! (pkt + 1)" hl] True p that hw cap_ok_eat [OF 1(3), of hl]
        by (auto simp: rd_in hl_def)
      moreover have "ip6_ext buf st pkt l n =
        (if d_caplen st < of_nat hl then reject ip6ext_inc st
         else ip6_ext buf (eat hl st) (pkt + hl) (l + of_nat hl) (buf ! pkt))"
        using True p by (subst ip6_ext.simps) (auto simp: rd_in Let_def hl_def)
      ultimately show ?thesis using hw by simp
    next
      case F2: False
      then show ?thesis using F 1(3)
        by (subst ip6_ext.simps) (auto simp: cap_ok_def)
    qed
  qed
qed

lemma IPv6_safe:
  assumes c: "cap_ok buf st pkt" and m: "\<not> ip6_malformed buf pkt"
  shows "safe_res buf (yfDecodeIPv6 buf st pkt)"
proof (cases "unat (d_caplen st) < 40")
  case False
  define plen where "plen = be16 (buf ! (pkt + 4)) (buf ! (5 + pkt))"
  have "unat plen + unat (40 :: u16) < 2 ^ LENGTH(16)" using m
    by (simp add: ip6_malformed_def plen_def add.commute [of pkt 5])
  then have lw: "unat (ucast (plen + 40) :: u64) = unat plen + 40"
    by (simp add: ucast_u64 unat_plus_if')
  have l: "pkt + 40 \<le> length buf" using c False by (simp add: cap_ok_def)
  show ?thesis
    using False l c lw
    by (auto simp: yfDecodeIPv6_def rd_in Let_def plen_def [symmetric] cap_ok_def eat_caplen word_less_nat_alt
        intro!: ip6_ext_safe)
qed (simp add: yfDecodeIPv6_def)

subsection \<open>Layer 4\<close>

text \<open>A window scale option of length 2 passes the check of its length, and its value is then
  the octet after it; there is none when the option ends the capture.\<close>

definition ends_in_short_ws :: "bytes \<Rightarrow> bool" where
  "ends_in_short_ws buf =
     (2 \<le> length buf \<and> buf ! (length buf - 2) = YF_TOK_WS \<and> buf ! (length buf - 1) = 2)"

lemma tcp_option_safe:
  assumes "pkt + len \<le> length buf" "2 \<le> len" "\<not> (kind = YF_TOK_WS \<and> length buf \<le> pkt + 2)"
  shows "\<exists>r. tcp_option buf ti pkt tlen kind len = Some r"
proof -
  have "rd32 buf (pkt + len - 4) \<noteq> None" if "4 \<le> len" using assms(1) that by (simp add: rd_in)
  then show ?thesis using assms by (auto simp: tcp_option_def rd_in)
qed

lemma tcp_options_safe:
  "\<lbrakk>\<not> ends_in_short_ws buf; int pkt + tlen \<le> int (length buf)\<rbrakk> \<Longrightarrow>
    \<exists>ti' o'. tcp_options buf ti pkt tlen = Some (ti', o') \<and> (\<forall>p. o' = Some p \<longrightarrow> p = nat (int pkt + tlen))"
proof (induction buf ti pkt tlen rule: tcp_options.induct)
  case (1 buf ti pkt tlen)
  show ?case
  proof (cases "tlen > 0")
    case True
    then have p: "pkt < length buf" using 1(4) by simp
    then have rd0: "rd8 buf pkt = Some (buf ! pkt)" by (simp add: rd_in)
    show ?thesis
    proof (cases "buf ! pkt = YF_TOK_EOL \<or> buf ! pkt = YF_TOK_NOP \<or> tlen < 2")
      case True
      then show ?thesis using \<open>tlen > 0\<close> rd0 1(1) [OF \<open>tlen > 0\<close> rd0] 1(3,4)
        by (subst tcp_options.simps) auto
    next
      case False
      define n where "n = buf ! (pkt + 1)"
      have rd1: "rd8 buf (pkt + 1) = Some n" using False 1(4) by (simp add: rd_in n_def)
      show ?thesis
      proof (cases "n < 2 \<or> tlen < int (unat n)")
        case True
        then show ?thesis using False \<open>tlen > 0\<close> rd0 rd1 by (subst tcp_options.simps) auto
      next
        case F2: False
        then have "2 \<le> unat n" by (simp add: word_less_nat_alt)
        moreover have "pkt + unat n \<le> length buf" using F2 1(4) by linarith
        ultimately have n2: "2 \<le> unat n" "pkt + unat n \<le> length buf" by blast+
        have "\<not> (buf ! pkt = YF_TOK_WS \<and> length buf \<le> pkt + 2)"
        proof
          assume w: "buf ! pkt = YF_TOK_WS \<and> length buf \<le> pkt + 2"
          then have l: "length buf = pkt + 2" "unat n = 2" using n2 by simp_all
          then have "n = 2" using word_unat_eq_iff [of n 2] by simp
          then show False using 1(3) w l by (simp add: ends_in_short_ws_def n_def)
        qed
        then obtain r where r: "tcp_option buf ti pkt tlen (buf ! pkt) (unat n) = Some r"
          using tcp_option_safe n2 by blast
        show ?thesis
        proof (cases r)
          case None
          then show ?thesis using False F2 \<open>tlen > 0\<close> rd0 rd1 r by (subst tcp_options.simps) simp
        next
          case (Some ti')
          have "\<exists>ti'' o'. tcp_options buf ti' (pkt + unat n) (tlen - int (unat n)) = Some (ti'', o') \<and>
              (\<forall>p. o' = Some p \<longrightarrow> p = nat (int (pkt + unat n) + (tlen - int (unat n))))"
            by (rule 1(2) [OF \<open>tlen > 0\<close> rd0 _ _ _ rd1 F2 r Some]) (use False 1(3,4) in auto)
          then show ?thesis using Some False F2 \<open>tlen > 0\<close> rd0 rd1 r by (subst tcp_options.simps) simp
        qed
      qed
    qed
  qed (subst tcp_options.simps, simp)
qed

lemma off_bound: "unat (drop_bit 4 (b :: u8)) * 4 \<le> 60"
proof -
  have "unat b < 2 ^ 8" by (rule less_le_trans [OF unsigned_less]) simp
  then show ?thesis by (simp add: drop_bit_eq_div unat_div)
qed

lemma tcp_body_safe:
  assumes c: "cap_ok buf st pkt" and w: "\<not> ends_in_short_ws buf" and h60: "h \<le> 60"
  shows "safe_res buf (tcp_body buf st pkt h)"
proof (cases "d_caplen st < of_nat h \<or> \<not> dc_tomode (d_ctx (eat h st))")
  case True
  then show ?thesis using c h60 by (auto simp: tcp_body_def cap_ok_eat)
next
  case False
  then have h: "h \<le> unat (d_caplen st)" using h60 by simp
  then have "int (pkt + 20) + (int h - 20) \<le> int (length buf)" using c by (simp add: cap_ok_def)
  from tcp_options_safe [OF w this] obtain ti' o' where
    "tcp_options buf (d_tcpinfo (eat h st)) (pkt + 20) (int h - 20) = Some (ti', o')"
      "\<forall>p. o' = Some p \<longrightarrow> p = nat (int (pkt + 20) + (int h - 20))"
    by blast
  moreover have "nat (int (pkt + 20) + (int h - 20)) = pkt + h" by simp
  moreover have "cap_ok buf ((eat h st)\<lparr>d_tcpinfo := ti'\<rparr>) (pkt + h)"
    using c h by (simp add: cap_ok_def eat_caplen)
  ultimately show ?thesis using False by (auto simp: tcp_body_def Let_def split: option.splits)
qed

lemma TCP_safe:
  assumes c: "cap_ok buf st pkt" and w: "\<not> ends_in_short_ws buf"
  shows "safe_res buf (yfDecodeTCP buf st pkt)"
proof (cases "unat (d_caplen st) < 20")
  case True
  then show ?thesis using c by (simp add: yfDecodeTCP_def cap_ok_def Let_def)
next
  case False
  then have "pkt + 20 \<le> length buf" using c by (simp add: cap_ok_def)
  then show ?thesis using False c w
    by (simp add: yfDecodeTCP_def rd_in Let_def)
      (intro tcp_body_safe, simp_all add: cap_ok_def off_bound)
qed

lemma UDP_safe: "cap_ok buf st pkt \<Longrightarrow> safe_res buf (yfDecodeUDP buf st pkt)"
  by (auto simp: yfDecodeUDP_def rd_in cap_ok_def eat_caplen)

lemma ICMP_safe: "cap_ok buf st pkt \<Longrightarrow> safe_res buf (yfDecodeICMP buf st pkt)"
  by (auto simp: yfDecodeICMP_def rd_in cap_ok_def eat_caplen)

lemma gre_sre_safe: "cap_ok buf st pkt \<Longrightarrow> safe_res buf (gre_sre buf st pkt)"
proof (induction buf st pkt rule: gre_sre.induct)
  case (1 buf st pkt)
  show ?case
  proof (cases "unat (d_caplen st) < 4")
    case False
    then have p: "pkt + 4 \<le> length buf" using 1(2) by (simp add: cap_ok_def)
    define n where "n = 4 + unat (buf ! (pkt + 3))"
    have "unat (buf ! (pkt + 3)) < 2 ^ 8" by (rule less_le_trans [OF unsigned_less]) simp
    then have nw: "unat (of_nat n :: u64) = n" by (intro small_u64) (simp add: n_def)
    define fin where "fin = (buf ! (pkt + 3) = 0 \<and> be16 (buf ! pkt) (buf ! (pkt + 1)) = 0)"
    have eq: "gre_sre buf st pkt =
      (if fin then Some (eat 4 st, Some (pkt + 4))
       else if d_caplen st < of_nat n then reject_l4 st else gre_sre buf (eat n st) (pkt + n))"
      using False p by (subst gre_sre.simps) (simp add: rd_in n_def fin_def)
    have "safe_res buf (gre_sre buf (eat n st) (pkt + n))" if "\<not> fin" "n \<le> unat (d_caplen st)"
      using 1(1) [of "buf ! (pkt + 3)" "be16 (buf ! pkt) (buf ! (pkt + 1))"] False p that nw
        cap_ok_eat [OF 1(2), of n]
      by (simp add: rd_in fin_def n_def)
    then show ?thesis unfolding eq using nw cap_ok_eat [OF 1(2), of 4] False by simp
  qed (subst gre_sre.simps, simp)
qed

lemma gre_header_safe: "cap_ok buf st pkt \<Longrightarrow> safe_l2 buf (gre_header buf st pkt)"
proof (cases "unat (d_caplen st) < 4")
  case True
  then show ?thesis by (simp add: gre_header_def reject_l4_def reject_def)
next
  case False
  assume c: "cap_ok buf st pkt"
  with False have p: "pkt + 4 \<le> length buf" by (simp add: cap_ok_def)
  define b where "b = buf ! pkt"
  define n where "n = gre_hlen b"
  have nw: "unat (of_nat n :: u64) = n" by (intro small_u64) (simp add: n_def gre_hlen_def)
  define r where "r = (if b AND 0x40 \<noteq> 0 then gre_sre buf (eat n st) (pkt + n) else Some (eat n st, Some (pkt + n)))"
  have r: "safe_res buf r" if "n \<le> unat (d_caplen st)"
    using cap_ok_eat [OF c that] by (simp add: r_def gre_sre_safe)
  have "gre_header buf st pkt =
    (if buf ! (pkt + 1) AND 0x07 \<noteq> 0 then Some (count_fail grevers_inc st, 0, None)
     else if d_caplen st < of_nat n then map_option (\<lambda>(st, p). (st, 0, p)) (reject_l4 st)
     else r \<bind> (\<lambda>(st, q). Some (st, be16 (buf ! (pkt + 2)) (buf ! (pkt + 3)), q)))"
    using False p unfolding gre_header_def
    by (simp add: rd_in b_def [symmetric] n_def [symmetric] r_def [symmetric] Let_def numeral_3_eq_3)
  then show ?thesis using nw r
    by (cases r) (auto simp: reject_l4_def reject_def safe_l2_def safe_res_def split: option.splits)
qed

subsection \<open>Whole packets\<close>

definition ip_malformed :: "bytes \<Rightarrow> u16 \<Rightarrow> nat \<Rightarrow> bool" where
  "ip_malformed buf type pkt =
     (type = YF_TYPE_IPv4 \<and> ip4_malformed buf pkt \<or> type = YF_TYPE_IPv6 \<and> ip6_malformed buf pkt)"

text \<open>The layer 3 step of \<open>yfDecodeIP\<close>.\<close>

definition layer3 :: "bytes \<Rightarrow> dst \<Rightarrow> u16 \<Rightarrow> nat \<Rightarrow> dec_res" where
  "layer3 buf st type pkt =
     (if type = YF_TYPE_IPv4 then yfDecodeIPv4 buf st pkt
      else if type = YF_TYPE_IPv6 then yfDecodeIPv6 buf st pkt
      else if type = YF_TYPE_ARP then reject arptype_inc st
      else reject l3type_inc st)"

text \<open>\<open>ip_calls buf st type pkt type' pkt'\<close>: decoding IP at \<open>pkt\<close> calls \<open>yfDecodeIP\<close> at
  \<open>pkt'\<close>, itself included, with the datagrams inside GRE after it.\<close>

inductive ip_calls :: "bytes \<Rightarrow> dst \<Rightarrow> u16 \<Rightarrow> nat \<Rightarrow> u16 \<Rightarrow> nat \<Rightarrow> bool" for buf where
  ip_calls_self: "ip_calls buf st type pkt type pkt"
| ip_calls_gre:
    "\<lbrakk>layer3 buf st type pkt = Some (st1, Some p1); k_proto (d_key st1) = YF_PROTO_GRE; dc_gremode (d_ctx st1);
      gre_header buf st1 p1 = Some (st2, ty2, Some p2); ip_calls buf st2 ty2 p2 type' pkt'\<rbrakk>
     \<Longrightarrow> ip_calls buf st type pkt type' pkt'"

lemma layer3_safe:
  "\<lbrakk>cap_ok buf st pkt; \<not> ip_malformed buf type pkt\<rbrakk> \<Longrightarrow> safe_res buf (layer3 buf st type pkt)"
  by (simp add: layer3_def ip_malformed_def IPv4_safe IPv6_safe)

lemma IP_safe:
  "\<lbrakk>cap_ok buf st pkt; \<not> ends_in_short_ws buf;
    \<forall>type' pkt'. ip_calls buf st type pkt type' pkt' \<longrightarrow> \<not> ip_malformed buf type' pkt'\<rbrakk>
   \<Longrightarrow> safe_res buf (yfDecodeIP buf st type pkt)"
proof (induction buf st type pkt rule: yfDecodeIP.induct)
  case (1 buf st type pkt)
  have "\<not> ip_malformed buf type pkt" using 1(4) ip_calls_self by blast
  then have s3: "safe_res buf (layer3 buf st type pkt)" using 1(2) by (rule layer3_safe [rotated])
  show ?case
  proof (cases "dc_reqtype (d_ctx st) \<noteq> 0 \<and> dc_reqtype (d_ctx st) \<noteq> type")
    case req: False
    obtain st1 o1 where l3: "layer3 buf st type pkt = Some (st1, o1)"
      using s3 by (cases "layer3 buf st type pkt") auto
    show ?thesis
    proof (cases o1)
      case None
      then show ?thesis using req l3 by (subst yfDecodeIP.simps) (simp add: layer3_def [symmetric])
    next
      case (Some p1)
      then have c1: "cap_ok buf st1 p1" using s3 l3 by simp
      define off where "off = (is_frag st1 \<and> (case d_frag st1 of Some fi \<Rightarrow> fi_offset fi \<noteq> 0 | None \<Rightarrow> False))"
      have eq: "yfDecodeIP buf st type pkt =
        (if off then Some (st1, Some p1)
         else if k_proto (d_key st1) = YF_PROTO_TCP then yfDecodeTCP buf st1 p1
         else if k_proto (d_key st1) = YF_PROTO_UDP then yfDecodeUDP buf st1 p1
         else if k_proto (d_key st1) = YF_PROTO_ICMP \<or> k_proto (d_key st1) = YF_PROTO_ICMP6 then yfDecodeICMP buf st1 p1
         else if k_proto (d_key st1) = YF_PROTO_GRE \<and> dc_gremode (d_ctx st1) then yfDecodeGRE buf st1 p1
         else Some (set_ports 0 0 st1, Some p1))"
        using req l3 Some unfolding yfDecodeGRE_def
        by (subst yfDecodeIP.simps, subst if_not_P [OF req]) (simp add: layer3_def [symmetric] off_def [symmetric])
      have "safe_res buf (yfDecodeGRE buf st1 p1)"
        if g: "\<not> off" "k_proto (d_key st1) = YF_PROTO_GRE \<and> dc_gremode (d_ctx st1)"
      proof -
        obtain st2 ty2 o2 where gh: "gre_header buf st1 p1 = Some (st2, ty2, o2)"
          using gre_header_safe [OF c1] by (cases "gre_header buf st1 p1") auto
        show ?thesis
        proof (cases o2)
          case S2: (Some p2)
          have "cap_ok buf st2 p2" using gre_header_safe [OF c1] gh S2 by simp
          moreover have "\<forall>type' pkt'. ip_calls buf st2 ty2 p2 type' pkt' \<longrightarrow> \<not> ip_malformed buf type' pkt'"
            using ip_calls_gre [of buf st type pkt st1 p1 st2 ty2 p2] l3 Some g gh S2 1(4) by blast
          ultimately have "safe_res buf (yfDecodeIP buf st2 ty2 p2)"
            using 1(1) [of "(st1, Some p1)" st1 "Some p1" p1 "(st2, ty2, Some p2)" st2 "(ty2, Some p2)" ty2 "Some p2" p2]
              req l3 Some g gh S2 1(3) by (simp add: layer3_def off_def)
          then show ?thesis using gh S2 by (simp add: yfDecodeGRE_def)
        qed (use gh in \<open>simp add: yfDecodeGRE_def\<close>)
      qed
      moreover have "cap_ok buf (set_ports 0 0 st1) p1" using c1 by (simp add: cap_ok_def)
      ultimately show ?thesis unfolding eq
        using c1 1(3) by (simp add: TCP_safe UDP_safe ICMP_safe)
    qed
  qed (subst yfDecodeIP.simps, simp)
qed

text \<open>The state in which \<open>yfDecodeToPBuf\<close> enters layer 3.\<close>

definition to_l3 :: "u64 \<Rightarrow> dst \<Rightarrow> dst" where
  "to_l3 caplen st =
     (let l2 = (d_l2info st)\<lparr>l2_l2hlen := ucast (caplen - d_caplen st)\<rparr>
      in st\<lparr>d_l2info := l2, d_key := (d_key st)\<lparr>k_vlanId := l2_vlan_tag l2\<rparr>\<rparr>)"

abbreviation start_state :: "yfDecodeCtx \<Rightarrow> bytes \<Rightarrow> yfIPFragInfo option \<Rightarrow> yfPBuf \<Rightarrow> dst" where
  "start_state ctx buf fi pbuf \<equiv> dst_of ctx (of_nat (length buf)) fi (pbuf\<lparr>pb_ptime := 0\<rparr>)"

lemma start_cap_ok: "length buf < 2 ^ 63 \<Longrightarrow> cap_ok buf (start_state ctx buf fi pbuf) 0"
  by (simp add: cap_ok_def dst_of_def)

lemma yfDecodeToPBuf_eq:
  assumes "yfDecodeL2 buf (dst_of ctx caplen fi (pbuf\<lparr>pb_ptime := 0\<rparr>)) link 0 0 = Some (st, type, o1)"
  shows "yfDecodeToPBuf ctx link ptime caplen buf fi pbuf =
    (case o1 of None \<Rightarrow> Some (d_ctx st, d_frag st, pbuf_of st (pbuf\<lparr>pb_ptime := 0\<rparr>), False)
     | Some pkt \<Rightarrow> do {
         r \<leftarrow> yfDecodeIP buf (to_l3 caplen st) type pkt;
         case r of
           (st, None) \<Rightarrow> Some (d_ctx st, d_frag st, pbuf_of st (pbuf\<lparr>pb_ptime := 0\<rparr>), False)
         | (st, Some pkt) \<Rightarrow>
             Some (d_ctx st, d_frag st,
                   (pbuf_of st (pbuf\<lparr>pb_ptime := 0\<rparr>))\<lparr>pb_ptime := ptime, pb_allHeaderLen := of_nat pkt\<rparr>, True)
       })"
  using assms by (auto simp: yfDecodeToPBuf_def Let_def to_l3_def split: option.splits)

text \<open>C6: Memory safety of the decoder (\<open>yfDecodeToPBuf\<close>). Take a frame whose captured length is
  the number of its octets, on any link type, with any shim headers, extension headers, TCP
  options and nested GRE. If no IP header the decoder reaches is malformed in the ways it does
  not check (an IPv4 header of fewer than five words or longer than its total length, an IPv6
  payload length above 65495) and the capture does not end in a window scale option of length 2,
  then decoding terminates without a load outside the capture, and an accepted packet has all its
  headers within the capture.\<close>

theorem decode_in_bounds:
  assumes l: "length buf < 2 ^ 63" and w: "\<not> ends_in_short_ws buf"
    and m: "\<And>st type pkt type' pkt'.
      \<lbrakk>yfDecodeL2 buf (start_state ctx buf fi pbuf) link 0 0 = Some (st, type, Some pkt);
       ip_calls buf (to_l3 (of_nat (length buf)) st) type pkt type' pkt'\<rbrakk> \<Longrightarrow> \<not> ip_malformed buf type' pkt'"
  shows "\<exists>ctx' fi' pbuf' ok.
    yfDecodeToPBuf ctx link ptime (of_nat (length buf)) buf fi pbuf = Some (ctx', fi', pbuf', ok) \<and>
    (ok \<longrightarrow> pb_ptime pbuf' = ptime \<and> unat (pb_allHeaderLen pbuf') \<le> length buf)"
proof -
  have s2: "safe_l2 buf (yfDecodeL2 buf (start_state ctx buf fi pbuf) link 0 0)"
    by (rule L2_safe [OF start_cap_ok [OF l]])
  then obtain st type o1 where r2: "yfDecodeL2 buf (start_state ctx buf fi pbuf) link 0 0 = Some (st, type, o1)"
    by (cases "yfDecodeL2 buf (start_state ctx buf fi pbuf) link 0 0") auto
  show ?thesis
  proof (cases o1)
    case None
    then show ?thesis by (auto simp: yfDecodeToPBuf_eq [OF r2])
  next
    case (Some pkt)
    then have "cap_ok buf (to_l3 (of_nat (length buf)) st) pkt"
      using s2 r2 by (simp add: cap_ok_def to_l3_def Let_def)
    then have s3: "safe_res buf (yfDecodeIP buf (to_l3 (of_nat (length buf)) st) type pkt)"
      using w m r2 Some by (intro IP_safe) blast+
    then obtain st' o2 where r3: "yfDecodeIP buf (to_l3 (of_nat (length buf)) st) type pkt = Some (st', o2)"
      by (cases "yfDecodeIP buf (to_l3 (of_nat (length buf)) st) type pkt") auto
    show ?thesis
    proof (cases o2)
      case S2: (Some p)
      have "p \<le> length buf" using s3 r3 S2 by (simp add: cap_ok_def)
      with l show ?thesis using Some r3 S2 by (auto simp: yfDecodeToPBuf_eq [OF r2])
    qed (use Some r3 in \<open>auto simp: yfDecodeToPBuf_eq [OF r2]\<close>)
  qed
qed

text \<open>A UDP datagram in a raw IPv4 capture.\<close>

definition udp_frame :: bytes where
  "udp_frame = [0x45, 0, 0, 28, 0, 1, 0x40, 0, 64, 17, 0, 0, 10, 0, 0, 1, 10, 0, 0, 2,
                0x30, 0x39, 0, 53, 0, 8, 0, 0]"

definition plain_ctx :: yfDecodeCtx where
  "plain_ctx = yfDecodeCtxAlloc 0 True False"

lemma udp_frame_L2:
  "yfDecodeL2 udp_frame (start_state plain_ctx udp_frame None zero_pbuf) TRACE_TYPE_NONE 0 0 =
   Some ((start_state plain_ctx udp_frame None zero_pbuf)\<lparr>d_l2info := zero_l2info\<rparr>, YF_TYPE_IPv4, Some 0)"
  by code_simp

lemma udp_frame_L3:
  "map_option (map_prod (k_proto \<circ> d_key) id) (layer3 udp_frame
     (to_l3 28 ((start_state plain_ctx udp_frame None zero_pbuf)\<lparr>d_l2info := zero_l2info\<rparr>)) YF_TYPE_IPv4 0) =
   Some (YF_PROTO_UDP, Some 20)"
  by code_simp

lemma udp_frame_wf: "\<not> ip_malformed udp_frame YF_TYPE_IPv4 0"
  by code_simp

theorem decode_in_bounds_witness:
  "\<exists>ctx' fi' pbuf' ok.
    yfDecodeToPBuf plain_ctx TRACE_TYPE_NONE 5 (of_nat (length udp_frame)) udp_frame None zero_pbuf =
      Some (ctx', fi', pbuf', ok) \<and>
    (ok \<longrightarrow> pb_ptime pbuf' = 5 \<and> unat (pb_allHeaderLen pbuf') \<le> length udp_frame)"
proof (rule decode_in_bounds)
  show "length udp_frame < 2 ^ 63" by (simp add: udp_frame_def)
  show "\<not> ends_in_short_ws udp_frame" by code_simp
  fix st type pkt type' pkt'
  assume "yfDecodeL2 udp_frame (start_state plain_ctx udp_frame None zero_pbuf) TRACE_TYPE_NONE 0 0 =
      Some (st, type, Some pkt)"
    and c: "ip_calls udp_frame (to_l3 (of_nat (length udp_frame)) st) type pkt type' pkt'"
  then have st: "st = (start_state plain_ctx udp_frame None zero_pbuf)\<lparr>d_l2info := zero_l2info\<rparr>"
    "type = YF_TYPE_IPv4" "pkt = 0" by (simp_all add: udp_frame_L2)
  have l: "of_nat (length udp_frame) = (28 :: u64)" by code_simp
  from c show "\<not> ip_malformed udp_frame type' pkt'"
    by cases (use udp_frame_wf udp_frame_L3 in \<open>auto simp: st l\<close>)
qed

subsection \<open>What the decoder does not check\<close>

text \<open>One captured octet that claims a header of no words; a total length of zero; the IPv6
  payload length at its maximum; a window scale option of length 2 at the end of the capture: each
  is loaded past the captured octets.\<close>

lemma short_ip4_header_overruns:
  "yfDecodeToPBuf plain_ctx TRACE_TYPE_NONE 0 1 [0x40] None zero_pbuf = None"
  by code_simp

lemma zero_total_length_overruns:
  "yfDecodeToPBuf plain_ctx TRACE_TYPE_NONE 0 20 (take 20 (udp_frame[3 := 0])) None zero_pbuf = None"
  by code_simp

lemma ip6_length_wraps:
  "yfDecodeToPBuf plain_ctx TRACE_TYPE_NONE 0 40
     ([0x60, 0, 0, 0, 0xff, 0xff, 17, 64] @ replicate 32 0) None zero_pbuf = None"
  by code_simp

lemma short_window_scale_overruns:
  "tcp_options (replicate 20 0 @ [3, 2]) zero_tcpinfo 20 2 = None"
  by code_simp

text \<open>The flag for more fragments is set by every IPv6 fragment header.\<close>

lemma ip6_more_always_set: "fi_more (ip6_frag offlg ident fi) = 1"
proof -
  have "bit (offlg OR YF_IP6_MF) 0" by (simp add: bit_simps)
  then have "offlg OR YF_IP6_MF \<noteq> 0" by (metis bit_0_eq bot_apply bot_bool_def)
  then show ?thesis by (simp add: ip6_frag_def)
qed

end
