(* ===== verification/Ring.thy ===== *)
theory Ring
  imports QofPrelude
begin

text \<open>
  The ring array of \<open>src/ring.c\<close> (\<open>include/qof/ring.h\<close>), which carries decoded
  packet buffers from the packet source to the flow table. Element pointers are byte
  addresses (\<^typ>\<open>nat\<close>), the \<open>size_t\<close> counters 64-bit words. The code guarded by
  \<open>YAF_RING_THREAD\<close> is never compiled (no build file defines the symbol) and is left out;
  the head and tail reservation counters it would change are kept, as the unthreaded
  operations read them.

  A ring represents the list of the slot addresses in use, oldest first (\<open>rga_list\<close>);
  \<open>rga_put\<close> and \<open>rga_get\<close> are the operations together with the caller's write to
  or read from the slot they return, and the locale \<open>fifo_buffer\<close> is the contract the
  packet loop relies on.
\<close>

record rgaRing =
  rg_elt_sz :: u64
  rg_cap :: u64
  rg_count :: u64
  rg_peak :: u64
  rg_hrsv :: u64
  rg_trsv :: u64
  rg_base :: nat
  rg_end :: nat
  rg_head :: nat
  rg_tail :: nat

text \<open>\<open>aligned\<close> stands for \<open>HAVE_ALIGNED_ACCESS_REQUIRED\<close>, \<open>buf\<close> for the
  address the slice allocator returns.\<close>

definition rgaAlloc :: "bool \<Rightarrow> nat \<Rightarrow> u64 \<Rightarrow> u64 \<Rightarrow> rgaRing" where
  "rgaAlloc aligned buf elt_sz cap =
     (let alignedEltSize = (if aligned then elt_sz + (elt_sz mod 8) else elt_sz)
      in \<lparr>rg_elt_sz = alignedEltSize, rg_cap = cap, rg_count = 0, rg_peak = 0,
          rg_hrsv = 0, rg_trsv = 0, rg_base = buf,
          rg_end = buf + unat (alignedEltSize * (cap - 1)), rg_head = buf, rg_tail = buf\<rparr>)"

text \<open>Advance a pointer by one element and wrap it at the end of the array.\<close>

definition rga_advance :: "rgaRing \<Rightarrow> nat \<Rightarrow> nat" where
  "rga_advance ring ptr =
     (let ptr' = ptr + unat (rg_elt_sz ring)
      in if ptr' > rg_end ring then rg_base ring else ptr')"

definition rgaNextHead :: "rgaRing \<Rightarrow> rgaRing \<times> nat option" where
  "rgaNextHead ring =
     (if rg_count ring \<ge> rg_cap ring - rg_trsv ring then (ring, None)
      else
        let head = rg_head ring;
            ring = ring\<lparr>rg_head := rga_advance ring head\<rparr>;
            ring = ring\<lparr>rg_count := rg_count ring + 1\<rparr>;
            ring = (if rg_count ring > rg_peak ring
                    then ring\<lparr>rg_peak := rg_count ring\<rparr> else ring)
        in (ring, Some head))"

definition rgaForceHead :: "rgaRing \<Rightarrow> rgaRing \<times> nat" where
  "rgaForceHead ring =
     (let head = rg_head ring;
          ring = ring\<lparr>rg_head := rga_advance ring head\<rparr>;
          ring = ring\<lparr>rg_count := rg_count ring + 1\<rparr>;
          ring = (if rg_count ring \<ge> rg_cap ring - rg_trsv ring
                  then ring\<lparr>rg_tail := rga_advance ring (rg_tail ring),
                            rg_count := rg_count ring - 1\<rparr>
                  else ring);
          ring = (if rg_count ring > rg_peak ring
                  then ring\<lparr>rg_peak := rg_count ring\<rparr> else ring)
      in (ring, head))"

definition rgaPeekHead :: "rgaRing \<Rightarrow> nat option" where
  "rgaPeekHead ring = (if rg_count ring \<le> 0 then None else Some (rg_head ring))"

definition rgaNextTail :: "rgaRing \<Rightarrow> rgaRing \<times> nat option" where
  "rgaNextTail ring =
     (if rg_count ring \<le> rg_hrsv ring then (ring, None)
      else
        let tail = rg_tail ring;
            ring = ring\<lparr>rg_tail := rga_advance ring tail\<rparr>;
            ring = ring\<lparr>rg_count := rg_count ring - 1\<rparr>
        in (ring, Some tail))"

definition rgaPeekTail :: "rgaRing \<Rightarrow> nat option" where
  "rgaPeekTail ring = (if rg_count ring \<le> 0 then None else Some (rg_tail ring))"

definition rgaCount :: "rgaRing \<Rightarrow> u64" where
  "rgaCount ring = rg_count ring"

definition rgaPeak :: "rgaRing \<Rightarrow> u64" where
  "rgaPeak ring = rg_peak ring"

text \<open>Slot \<open>i\<close> of the ring, counted around the array; the slots in use; the invariant.\<close>

definition rga_slot :: "rgaRing \<Rightarrow> nat \<Rightarrow> nat" where
  "rga_slot r i = rg_base r + unat (rg_elt_sz r) * (i mod unat (rg_cap r))"

definition rga_first :: "rgaRing \<Rightarrow> nat" where
  "rga_first r = (rg_tail r - rg_base r) div unat (rg_elt_sz r)"

definition rga_list :: "rgaRing \<Rightarrow> nat list" where
  "rga_list r = map (\<lambda>k. rga_slot r (rga_first r + k)) [0..<unat (rg_count r)]"

definition rga_inv :: "rgaRing \<Rightarrow> bool" where
  "rga_inv r \<longleftrightarrow>
     rg_elt_sz r > 0 \<and> rg_cap r > 0 \<and> rg_count r \<le> rg_cap r \<and>
     rg_count r \<le> rg_peak r \<and> rg_peak r \<le> rg_cap r \<and>
     rg_trsv r \<le> rg_cap r \<and>
     rg_end r = rg_base r + unat (rg_elt_sz r) * (unat (rg_cap r) - 1) \<and>
     rga_first r < unat (rg_cap r) \<and>
     rg_tail r = rga_slot r (rga_first r) \<and>
     rg_head r = rga_slot r (rga_first r + unat (rg_count r))"

text \<open>The operations with the caller's access to the slot.\<close>

definition rga_put :: "(nat \<Rightarrow> 'a) \<times> rgaRing \<Rightarrow> 'a \<Rightarrow> ((nat \<Rightarrow> 'a) \<times> rgaRing) option" where
  "rga_put s v = (case rgaNextHead (snd s) of
       (r, Some a) \<Rightarrow> Some ((fst s)(a := v), r) | (r, None) \<Rightarrow> None)"

definition rga_get :: "(nat \<Rightarrow> 'a) \<times> rgaRing \<Rightarrow> ((nat \<Rightarrow> 'a) \<times> rgaRing) \<times> 'a option" where
  "rga_get s = (case rgaNextTail (snd s) of
       (r, Some a) \<Rightarrow> ((fst s, r), Some (fst s a)) | (r, None) \<Rightarrow> ((fst s, r), None))"

definition rga_contents :: "(nat \<Rightarrow> 'a) \<times> rgaRing \<Rightarrow> 'a list" where
  "rga_contents s = map (fst s) (rga_list (snd s))"

subsection \<open>Slots\<close>

lemma rga_invD:
  assumes "rga_inv r"
  shows "0 < unat (rg_elt_sz r)" "0 < unat (rg_cap r)" "unat (rg_count r) \<le> unat (rg_cap r)"
    "rga_first r < unat (rg_cap r)" "rg_tail r = rga_slot r (rga_first r)"
    "rg_head r = rga_slot r (rga_first r + unat (rg_count r))"
  using assms by (auto simp: rga_inv_def word_less_nat_alt word_le_nat_alt)

lemma rga_slot_mod [simp]: "rga_slot r (i mod unat (rg_cap r)) = rga_slot r i"
  by (simp add: rga_slot_def)

lemma rga_slot_eq:
  assumes "rga_inv r"
  shows "rga_slot r i = rga_slot r j \<longleftrightarrow> i mod unat (rg_cap r) = j mod unat (rg_cap r)"
  using rga_invD(1) [OF assms] by (simp add: rga_slot_def)

lemma rga_slot_index:
  assumes "rga_inv r"
  shows "(rga_slot r i - rg_base r) div unat (rg_elt_sz r) = i mod unat (rg_cap r)"
  using rga_invD(1) [OF assms] by (simp add: rga_slot_def)

lemma rga_advance_slot:
  assumes inv: "rga_inv r"
  shows "rga_advance r (rga_slot r i) = rga_slot r (Suc i)"
proof -
  let ?e = "unat (rg_elt_sz r)" and ?c = "unat (rg_cap r)"
  have e: "0 < ?e" and c: "0 < ?c" using inv by (rule rga_invD)+
  have en: "rg_end r = rg_base r + ?e * (?c - 1)" using inv by (simp add: rga_inv_def)
  show ?thesis
  proof (cases "Suc (i mod ?c) = ?c")
    case True
    then have "?c - 1 = i mod ?c" by arith
    then have "?e * (?c - 1) = ?e * (i mod ?c)" by simp
    then show ?thesis using True e en
      by (simp add: rga_advance_def rga_slot_def mod_Suc)
  next
    case False
    then have "Suc (i mod ?c) \<le> ?c - 1" using mod_less_divisor [OF c, of i] by arith
    then have "?e * Suc (i mod ?c) \<le> ?e * (?c - 1)" by (rule mult_le_mono2)
    then show ?thesis using False en
      by (simp add: rga_advance_def rga_slot_def mod_Suc)
  qed
qed

lemma distinct_rga_list:
  assumes inv: "rga_inv r"
  shows "distinct (rga_list r)"
proof -
  let ?c = "unat (rg_cap r)" and ?f = "rga_first r"
  have "\<And>i j. i < j \<Longrightarrow> j < ?c \<Longrightarrow> (?f + i) mod ?c \<noteq> (?f + j) mod ?c"
  proof
    fix i j assume ij: "i < j" "j < ?c" and eq: "(?f + i) mod ?c = (?f + j) mod ?c"
    then have "?c dvd (?f + j) - (?f + i)" by (metis mod_eq_dvd_iff_nat add_le_mono1 nat_add_left_cancel_le less_imp_le)
    with ij show False by (auto dest: dvd_imp_le)
  qed
  then have "inj_on (\<lambda>k. rga_slot r (?f + k)) {0..<?c}"
    by (auto simp: inj_on_def rga_slot_eq [OF inv] neq_iff) (metis nat_neq_iff)+
  then have "inj_on (\<lambda>k. rga_slot r (?f + k)) {0..<unat (rg_count r)}"
    using rga_invD(3) [OF inv] by (auto intro: inj_on_subset)
  then show ?thesis by (simp add: rga_list_def distinct_map)
qed


subsection \<open>The operations on the slot list\<close>

lemma rgaNextHead_full:
  "rg_count r \<ge> rg_cap r - rg_trsv r \<Longrightarrow> rgaNextHead r = (r, None)"
  by (simp add: rgaNextHead_def)

lemma rga_list_snoc:
  assumes "unat (rg_count r') = Suc (unat (rg_count r))" and "rga_first r' = rga_first r"
    and "\<And>i. rga_slot r' i = rga_slot r i"
  shows "rga_list r' = rga_list r @ [rga_slot r (rga_first r + unat (rg_count r))]"
  using assms by (simp add: rga_list_def)

lemma rgaNextHead_ok:
  assumes inv: "rga_inv r" and room: "rg_count r < rg_cap r - rg_trsv r"
  shows "\<exists>r'. rgaNextHead r = (r', Some (rg_head r)) \<and> rga_inv r' \<and>
    rga_list r' = rga_list r @ [rg_head r] \<and> rg_head r \<notin> set (rga_list r) \<and>
    rg_cap r' = rg_cap r \<and> rg_trsv r' = rg_trsv r \<and> rg_hrsv r' = rg_hrsv r"
proof -
  have tr: "rg_trsv r \<le> rg_cap r" using inv by (simp add: rga_inv_def)
  have lt: "rg_count r < rg_cap r"
    using room tr by (metis word_sub_le order_less_le_trans)
  define r' where "r' = fst (rgaNextHead r)"
  have nh: "rgaNextHead r = (r', Some (rg_head r))"
    using room by (simp add: r'_def rgaNextHead_def Let_def)
  have flds: "rg_elt_sz r' = rg_elt_sz r" "rg_cap r' = rg_cap r" "rg_base r' = rg_base r"
      "rg_end r' = rg_end r" "rg_tail r' = rg_tail r" "rg_trsv r' = rg_trsv r"
      "rg_hrsv r' = rg_hrsv r"
      "rg_count r' = rg_count r + 1" "rg_head r' = rga_advance r (rg_head r)"
      "rg_peak r' = max (rg_peak r) (rg_count r + 1)"
    using room by (auto simp: r'_def rgaNextHead_def Let_def max_def not_le)
  have sl: "\<And>i. rga_slot r' i = rga_slot r i" and fi: "rga_first r' = rga_first r"
    using flds by (simp_all add: rga_slot_def rga_first_def)
  have cs: "unat (rg_count r') = Suc (unat (rg_count r))"
    using unat_plus1_less [OF lt] flds by simp
  have hd: "rg_head r = rga_slot r (rga_first r + unat (rg_count r))" using inv by (rule rga_invD)
  have ls: "rga_list r' = rga_list r @ [rg_head r]" using rga_list_snoc [OF cs fi sl] hd by simp
  have le: "rg_count r' \<le> rg_cap r'" using cs lt flds by (simp add: word_le_nat_alt word_less_nat_alt)
  have "rga_inv r'"
    unfolding rga_inv_def sl fi cs
    using inv le flds hd rga_advance_slot [OF inv, of "rga_first r + unat (rg_count r)"]
    by (auto simp: rga_inv_def)
  moreover have "rg_head r \<notin> set (rga_list r)"
    using distinct_rga_list [OF calculation] ls by simp
  ultimately show ?thesis using nh ls flds by blast
qed

lemma rga_list_Cons:
  assumes inv: "rga_inv r" and c: "unat (rg_count r) = Suc n"
    and r': "unat (rg_count r') = n" "rga_first r' = Suc (rga_first r) mod unat (rg_cap r)"
      "\<And>i. rga_slot r' i = rga_slot r i"
  shows "rga_list r = rg_tail r # rga_list r'"
proof -
  have t: "rg_tail r = rga_slot r (rga_first r)" using inv by (rule rga_invD)
  have s: "\<And>k. rga_slot r (Suc (rga_first r) mod unat (rg_cap r) + k) = rga_slot r (rga_first r + Suc k)"
    by (simp add: rga_slot_def mod_simps)
  show ?thesis
    unfolding rga_list_def c r' s t by (simp add: upt_conv_Cons map_Suc_upt [symmetric] o_def del: upt_Suc)
qed

lemma rgaNextTail_empty: "rg_count r \<le> rg_hrsv r \<Longrightarrow> rgaNextTail r = (r, None)"
  by (simp add: rgaNextTail_def)

lemma rgaNextTail_ok:
  assumes inv: "rga_inv r" and some: "rg_hrsv r < rg_count r"
  shows "\<exists>r'. rgaNextTail r = (r', Some (rg_tail r)) \<and> rga_inv r' \<and>
    rga_list r = rg_tail r # rga_list r' \<and>
    rg_cap r' = rg_cap r \<and> rg_trsv r' = rg_trsv r \<and> rg_hrsv r' = rg_hrsv r"
proof -
  let ?c = "unat (rg_cap r)"
  define r' where "r' = fst (rgaNextTail r)"
  have nt: "rgaNextTail r = (r', Some (rg_tail r))"
    using some by (simp add: r'_def rgaNextTail_def Let_def)
  have flds: "rg_elt_sz r' = rg_elt_sz r" "rg_cap r' = rg_cap r" "rg_base r' = rg_base r"
      "rg_end r' = rg_end r" "rg_head r' = rg_head r" "rg_trsv r' = rg_trsv r"
      "rg_hrsv r' = rg_hrsv r"
      "rg_count r' = rg_count r - 1" "rg_tail r' = rga_advance r (rg_tail r)"
      "rg_peak r' = rg_peak r"
    using some by (auto simp: r'_def rgaNextTail_def Let_def)
  obtain n where n: "unat (rg_count r) = Suc n"
    using some by (metis gr0_implies_Suc unat_gt_0 word_not_simps(1) word_neq_0_conv)
  have cs: "unat (rg_count r') = n" using n flds by (metis diff_Suc_1 unat_minus_one unat_0 nat.distinct(1))
  have sl: "\<And>i. rga_slot r' i = rga_slot r i" using flds by (simp add: rga_slot_def)
  have tl': "rg_tail r' = rga_slot r (Suc (rga_first r))"
    using flds rga_invD(5) [OF inv] rga_advance_slot [OF inv] by simp
  then have fi: "rga_first r' = Suc (rga_first r) mod ?c"
    using rga_slot_index [OF inv] flds by (simp add: rga_first_def)
  have hd: "rg_head r = rga_slot r (rga_first r + unat (rg_count r))" using inv by (rule rga_invD)
  have hd': "rg_head r' = rga_slot r (Suc (rga_first r) mod ?c + n)"
    using hd flds n by (simp add: rga_slot_def mod_simps)
  have "rga_inv r'"
    unfolding rga_inv_def sl fi cs hd'
    using inv flds n cs tl' by (auto simp: rga_inv_def word_le_nat_alt word_less_nat_alt)
  then show ?thesis using nt rga_list_Cons [OF inv n cs fi sl] flds by blast
qed

lemma rgaForceHead_room:
  assumes "rga_inv r" and "rg_count r + 1 < rg_cap r - rg_trsv r"
    and "rg_count r < rg_cap r - rg_trsv r"
  shows "rgaForceHead r = (fst (rgaNextHead r), rg_head r)"
  using assms by (simp add: rgaForceHead_def rgaNextHead_def Let_def rga_advance_def)

lemma rgaForceHead_drop:
  assumes inv: "rga_inv r" and full: "rg_cap r - rg_trsv r \<le> rg_count r + 1"
  shows "rga_inv (fst (rgaForceHead r)) \<and> snd (rgaForceHead r) = rg_head r \<and>
    rga_list (fst (rgaForceHead r)) = tl (rga_list r @ [rg_head r])"
proof -
  let ?c = "unat (rg_cap r)" and ?n = "unat (rg_count r)"
  define r' where "r' = fst (rgaForceHead r)"
  have flds: "rg_elt_sz r' = rg_elt_sz r" "rg_cap r' = rg_cap r" "rg_base r' = rg_base r"
      "rg_end r' = rg_end r" "rg_trsv r' = rg_trsv r" "rg_count r' = rg_count r"
      "rg_head r' = rga_advance r (rg_head r)" "rg_tail r' = rga_advance r (rg_tail r)"
      "rg_peak r' = rg_peak r"
    using full inv by (auto simp: r'_def rgaForceHead_def rga_inv_def Let_def rga_advance_def)
  have sl: "\<And>i. rga_slot r' i = rga_slot r i" using flds by (simp add: rga_slot_def)
  have hd: "rg_head r = rga_slot r (rga_first r + ?n)" using inv by (rule rga_invD)
  have tl': "rg_tail r' = rga_slot r (Suc (rga_first r))"
    using flds rga_invD(5) [OF inv] rga_advance_slot [OF inv] by simp
  then have fi: "rga_first r' = Suc (rga_first r) mod ?c"
    using rga_slot_index [OF inv] flds by (simp add: rga_first_def)
  have s: "\<And>k. rga_slot r (Suc (rga_first r) mod ?c + k) = rga_slot r (rga_first r + Suc k)"
    by (simp add: rga_slot_def mod_simps)
  have hd': "rg_head r' = rga_slot r (Suc (rga_first r) mod ?c + ?n)"
    using flds hd rga_advance_slot [OF inv, of "rga_first r + ?n"] s by simp
  have "rga_inv r'"
    unfolding rga_inv_def sl fi hd' using inv flds tl' by (auto simp: rga_inv_def)
  moreover have "rga_list r @ [rg_head r] = map (\<lambda>k. rga_slot r (rga_first r + k)) [0..<Suc ?n]"
    by (simp add: rga_list_def hd)
  then have "rga_list r' = tl (rga_list r @ [rg_head r])"
    by (simp add: rga_list_def sl fi s flds upt_conv_Cons map_Suc_upt [symmetric] o_def del: upt_Suc)
  ultimately show ?thesis by (simp add: r'_def rgaForceHead_def Let_def)
qed

lemma rgaAlloc_inv:
  assumes "0 < elt" and "0 < cap" and "unat elt * unat cap < 2 ^ 64"
  shows "rga_inv (rgaAlloc False buf elt cap) \<and> rga_list (rgaAlloc False buf elt cap) = []"
proof -
  have c: "unat (cap - 1) = unat cap - 1" using assms(2) by (rule unat_minus1)
  have "unat elt * (unat cap - 1) < 2 ^ 64"
    using assms(3) by (meson diff_le_self le_less_trans mult_le_mono2)
  then have "unat (elt * (cap - 1)) = unat elt * (unat cap - 1)"
    by (simp add: unat_word_ariths c)
  then show ?thesis using assms(1,2)
    by (auto simp: rga_inv_def rgaAlloc_def Let_def rga_list_def rga_first_def rga_slot_def
        word_less_nat_alt)
qed

subsection \<open>The contract of the packet ring\<close>

text \<open>A bounded first-in first-out buffer: what may be put in comes out, in order.\<close>

locale fifo_buffer =
  fixes wf :: "'s \<Rightarrow> bool"
    and contents :: "'s \<Rightarrow> 'a list"
    and room :: "'s \<Rightarrow> nat"
    and put :: "'s \<Rightarrow> 'a \<Rightarrow> 's option"
    and get :: "'s \<Rightarrow> 's \<times> 'a option"
  assumes put_room: "wf s \<Longrightarrow> 0 < room s \<Longrightarrow> \<exists>s'. put s v = Some s' \<and> wf s' \<and>
      contents s' = contents s @ [v] \<and> room s' = room s - 1"
    and put_full: "wf s \<Longrightarrow> room s = 0 \<Longrightarrow> put s v = None"
    and get_empty: "wf s \<Longrightarrow> contents s = [] \<Longrightarrow> get s = (s, None)"
    and get_some: "wf s \<Longrightarrow> contents s = v # vs \<Longrightarrow>
      \<exists>s'. get s = (s', Some v) \<and> wf s' \<and> contents s' = vs \<and> room s' = Suc (room s)"
begin

lemma put_Some_iff: "wf s \<Longrightarrow> (\<exists>s'. put s v = Some s') \<longleftrightarrow> 0 < room s"
  using put_room put_full by (metis bot_nat_0.not_eq_extremum option.distinct(1))

lemma puts_contents:
  assumes "wf s" and "length vs \<le> room s"
  shows "\<exists>s'. foldl (\<lambda>os v. Option.bind os (\<lambda>s. put s v)) (Some s) vs = Some s' \<and> wf s' \<and>
    contents s' = contents s @ vs \<and> room s' = room s - length vs"
  using assms
proof (induction vs arbitrary: s)
  case Nil
  then show ?case by simp
next
  case (Cons v vs)
  then obtain s1 where "put s v = Some s1" "wf s1" "contents s1 = contents s @ [v]"
    "room s1 = room s - 1" using put_room [of s v] by auto
  with Cons.IH [of s1] Cons.prems show ?case by auto
qed

end

text \<open>The unthreaded ring: nothing is ever reserved.\<close>

definition rga_wf :: "(nat \<Rightarrow> 'a) \<times> rgaRing \<Rightarrow> bool" where
  "rga_wf s \<longleftrightarrow> rga_inv (snd s) \<and> rg_hrsv (snd s) = 0 \<and> rg_trsv (snd s) = 0"

definition rga_room :: "(nat \<Rightarrow> 'a) \<times> rgaRing \<Rightarrow> nat" where
  "rga_room s = unat (rg_cap (snd s)) - unat (rg_count (snd s))"

lemma length_rga_list [simp]: "length (rga_list r) = unat (rg_count r)"
  by (simp add: rga_list_def)

lemma rga_put_room:
  assumes wf: "rga_wf s" and room: "0 < rga_room s"
  shows "\<exists>s'. rga_put s v = Some s' \<and> rga_wf s' \<and>
    rga_contents s' = rga_contents s @ [v] \<and> rga_room s' = rga_room s - 1"
proof -
  obtain m r where s: "s = (m, r)" by (cases s)
  with wf have inv: "rga_inv r" and z: "rg_hrsv r = 0" "rg_trsv r = 0" by (simp_all add: rga_wf_def)
  from room have lt: "rg_count r < rg_cap r - rg_trsv r"
    by (simp add: rga_room_def s z word_less_nat_alt)
  from rgaNextHead_ok [OF inv lt] obtain r' where
    nh: "rgaNextHead r = (r', Some (rg_head r))" and i: "rga_inv r'"
    and l: "rga_list r' = rga_list r @ [rg_head r]" and n: "rg_head r \<notin> set (rga_list r)"
    and f: "rg_cap r' = rg_cap r" "rg_trsv r' = rg_trsv r" "rg_hrsv r' = rg_hrsv r" by blast
  have cnt: "unat (rg_count r') = Suc (unat (rg_count r))" using arg_cong [OF l, of length] by simp
  have "map (m(rg_head r := v)) (rga_list r) = map m (rga_list r)" using n by simp
  then show ?thesis
    using nh i l f z cnt by (simp add: s rga_put_def rga_wf_def rga_contents_def rga_room_def)
qed

lemma rga_get_some:
  assumes wf: "rga_wf s" and c: "rga_contents s = v # vs"
  shows "\<exists>s'. rga_get s = (s', Some v) \<and> rga_wf s' \<and> rga_contents s' = vs \<and>
    rga_room s' = Suc (rga_room s)"
proof -
  obtain m r where s: "s = (m, r)" by (cases s)
  with wf have inv: "rga_inv r" and z: "rg_hrsv r = 0" "rg_trsv r = 0" by (simp_all add: rga_wf_def)
  have "0 < unat (rg_count r)" using arg_cong [OF c, of length] by (simp add: rga_contents_def s)
  then have lt: "rg_hrsv r < rg_count r" by (simp add: z word_less_nat_alt)
  from rgaNextTail_ok [OF inv lt] obtain r' where
    nt: "rgaNextTail r = (r', Some (rg_tail r))" and i: "rga_inv r'"
    and l: "rga_list r = rg_tail r # rga_list r'"
    and f: "rg_cap r' = rg_cap r" "rg_trsv r' = rg_trsv r" "rg_hrsv r' = rg_hrsv r" by blast
  have cnt: "unat (rg_count r) = Suc (unat (rg_count r'))" using arg_cong [OF l, of length] by simp
  show ?thesis
    using nt i l f z c cnt rga_invD(3) [OF inv]
    by (auto simp: s rga_get_def rga_wf_def rga_contents_def rga_room_def)
qed

interpretation pbufring: fifo_buffer rga_wf rga_contents rga_room rga_put rga_get
proof (unfold_locales, goal_cases)
  case (1 s v)
  then show ?case by (rule rga_put_room)
next
  case (2 s v)
  then show ?case
    by (auto simp: rga_put_def rga_room_def rga_wf_def rgaNextHead_def word_le_nat_alt)
next
  case (3 s)
  then show ?case
    by (cases s) (simp add: rga_get_def rga_contents_def rga_wf_def rga_list_def rgaNextTail_def unat_eq_0)
next
  case (4 s v vs)
  then show ?case by (rule rga_get_some)
qed

subsection \<open>Properties\<close>

text \<open>The operations a client interleaves, with what it sees of each, on a state with a \<open>put\<close> and a
  \<open>get\<close> and on a bounded list.\<close>

datatype 'a ring_op = Put 'a | Get

datatype 'a ring_out = Stored bool | Got "'a option"

fun ring_step :: "(nat \<Rightarrow> 'a) \<times> rgaRing \<Rightarrow> 'a ring_op \<Rightarrow> ((nat \<Rightarrow> 'a) \<times> rgaRing) \<times> 'a ring_out" where
  "ring_step s (Put v) = (case rga_put s v of Some s' \<Rightarrow> (s', Stored True) | None \<Rightarrow> (s, Stored False))"
| "ring_step s Get = (case rga_get s of (s', v) \<Rightarrow> (s', Got v))"

fun queue_step :: "nat \<Rightarrow> 'a list \<Rightarrow> 'a ring_op \<Rightarrow> 'a list \<times> 'a ring_out" where
  "queue_step cap q (Put v) = (if length q < cap then (q @ [v], Stored True) else (q, Stored False))"
| "queue_step cap [] Get = ([], Got None)"
| "queue_step cap (v # q) Get = (q, Got (Some v))"

fun run_ops :: "('s \<Rightarrow> 'o \<Rightarrow> 's \<times> 'r) \<Rightarrow> 's \<Rightarrow> 'o list \<Rightarrow> 's \<times> 'r list" where
  "run_ops step s [] = (s, [])"
| "run_ops step s (x # xs) =
     (case step s x of (s, r) \<Rightarrow> case run_ops step s xs of (s, rs) \<Rightarrow> (s, r # rs))"

text \<open>The addresses of the array, which no operation leaves.\<close>

definition rga_array :: "rgaRing \<Rightarrow> nat set" where
  "rga_array r = rga_slot r ` {..<unat (rg_cap r)}"

lemma rga_head_in_array: "rga_inv r \<Longrightarrow> rg_head r \<in> rga_array r"
  using rga_invD(2,6) [of r] rga_slot_mod [of r "rga_first r + unat (rg_count r)"]
  by (auto simp: rga_array_def intro!: image_eqI [where x = "(rga_first r + unat (rg_count r)) mod unat (rg_cap r)"]
      simp del: rga_slot_mod)

lemma rga_shape:
  "rg_base (fst (rgaNextHead r)) = rg_base r" "rg_elt_sz (fst (rgaNextHead r)) = rg_elt_sz r"
  "rg_cap (fst (rgaNextHead r)) = rg_cap r"
  "rg_base (fst (rgaNextTail r)) = rg_base r" "rg_elt_sz (fst (rgaNextTail r)) = rg_elt_sz r"
  "rg_cap (fst (rgaNextTail r)) = rg_cap r"
  by (simp_all add: rgaNextHead_def rgaNextTail_def Let_def)

lemma rga_array_kept:
  "rga_array (fst (rgaNextHead r)) = rga_array r" "rga_array (fst (rgaNextTail r)) = rga_array r"
  by (simp_all add: rga_array_def rga_slot_def rga_shape)

lemma ring_step_array:
  assumes "rga_inv (snd s)" and "ring_step s x = (s', y)"
  shows "rga_array (snd s') = rga_array (snd s)" "rg_cap (snd s') = rg_cap (snd s)"
    "\<forall>a. a \<notin> rga_array (snd s) \<longrightarrow> fst s' a = fst s a"
proof -
  note shape = rga_shape [of "snd s"] rga_array_kept [of "snd s"]
  have h: "snd (rgaNextHead (snd s)) = None \<or> snd (rgaNextHead (snd s)) = Some (rg_head (snd s))"
    by (simp add: rgaNextHead_def Let_def)
  have "rga_array (snd s') = rga_array (snd s) \<and> rg_cap (snd s') = rg_cap (snd s) \<and>
      (\<forall>a. a \<notin> rga_array (snd s) \<longrightarrow> fst s' a = fst s a)"
  proof (cases x)
    case (Put v)
    then show ?thesis using assms h shape rga_head_in_array [OF assms(1)]
      by (cases "rgaNextHead (snd s)") (auto simp: rga_put_def split: option.splits)
  next
    case Get
    then show ?thesis using assms shape
      by (cases "rgaNextTail (snd s)") (auto simp: rga_get_def split: option.splits)
  qed
  then show "rga_array (snd s') = rga_array (snd s)" "rg_cap (snd s') = rg_cap (snd s)"
    "\<forall>a. a \<notin> rga_array (snd s) \<longrightarrow> fst s' a = fst s a" by blast+
qed

lemma ring_step_queue:
  assumes wf: "rga_wf s" and st: "ring_step s x = (s', y)"
  shows "rga_wf s' \<and> queue_step (unat (rg_cap (snd s))) (rga_contents s) x = (rga_contents s', y)"
proof (cases x)
  case (Put v)
  have len: "length (rga_contents s) = unat (rg_count (snd s))" by (simp add: rga_contents_def)
  show ?thesis
  proof (cases "0 < rga_room s")
    case True
    then show ?thesis using pbufring.put_room [OF wf True, of v] st Put len by (auto simp: rga_room_def)
  next
    case False
    then show ?thesis using pbufring.put_full [OF wf, of v] st Put len wf by (auto simp: rga_room_def)
  qed
next
  case Get
  then show ?thesis using pbufring.get_empty [OF wf] pbufring.get_some [OF wf] st wf
    by (cases "rga_contents s") force+
qed

lemma ring_run_queue:
  assumes "rga_wf s" and "run_ops ring_step s ops = (s', ys)"
  shows "rga_wf s' \<and> run_ops (queue_step (unat (rg_cap (snd s)))) (rga_contents s) ops = (rga_contents s', ys) \<and>
    rg_cap (snd s') = rg_cap (snd s) \<and> (\<forall>a. a \<notin> rga_array (snd s) \<longrightarrow> fst s' a = fst s a)"
  using assms
proof (induction ops arbitrary: s s' ys)
  case (Cons x ops)
  obtain s1 y where 1: "ring_step s x = (s1, y)" by fastforce
  obtain s2 zs where 2: "run_ops ring_step s1 ops = (s2, zs)" by fastforce
  have inv: "rga_inv (snd s)" using Cons.prems(1) by (simp add: rga_wf_def)
  note a = ring_step_array [OF inv 1]
  note q = ring_step_queue [OF Cons.prems(1) 1]
  show ?case using Cons.IH [OF conjunct1 [OF q] 2] q a 1 2 Cons.prems(2) by auto
qed simp

text \<open>C35: The ring is a bounded first-in first-out buffer. For any interleaving of puts (\<open>rgaNextHead\<close> and the
  caller's write to the slot) and gets (\<open>rgaNextTail\<close> and the read of the slot) on a new ring of a positive number of
  elements that fits the address space, on a platform without aligned access, however often they
  wrap around the array, every operation answers like a list of at most \<open>cap\<close> elements: a put is refused exactly
  when \<open>cap\<close> elements are held, a get returns the oldest element held and nothing exactly when none is; and no
  address outside the \<open>cap\<close> cells of the array is ever written.\<close>

theorem ring_holds_in_order:
  assumes "0 < elt" and "0 < cap" and "unat elt * unat cap < 2 ^ 64"
  shows "\<exists>s. run_ops ring_step (m, rgaAlloc False buf elt cap) ops =
      (s, snd (run_ops (queue_step (unat cap)) [] ops)) \<and>
    rga_contents s = fst (run_ops (queue_step (unat cap)) [] ops) \<and> length (rga_contents s) \<le> unat cap \<and>
    (\<forall>a. (\<forall>i < unat cap. a \<noteq> buf + unat elt * i) \<longrightarrow> fst s a = m a)"
proof -
  let ?s = "(m, rgaAlloc False buf elt cap)"
  have fields: "rg_cap (rgaAlloc False buf elt cap) = cap" "rg_base (rgaAlloc False buf elt cap) = buf"
    "rg_elt_sz (rgaAlloc False buf elt cap) = elt" by (simp_all add: rgaAlloc_def Let_def)
  from rgaAlloc_inv [OF assms] have wf: "rga_wf ?s" and c: "rga_contents ?s = []"
    by (simp_all add: rga_wf_def rga_contents_def) (simp_all add: rgaAlloc_def Let_def)
  obtain s ys where run: "run_ops ring_step ?s ops = (s, ys)" by fastforce
  note r = ring_run_queue [OF wf run, unfolded c snd_conv fst_conv fields(1)]
  have "length (rga_contents s) \<le> unat cap"
    using r rga_invD(3) [of "snd s"] by (simp add: rga_wf_def rga_contents_def)
  moreover have "rga_array (rgaAlloc False buf elt cap) = (\<lambda>i. buf + unat elt * i) ` {..<unat cap}"
    by (auto simp: rga_array_def rga_slot_def fields)
  ultimately show ?thesis using run r by (intro exI [of _ s]) auto
qed

theorem ring_holds_in_order_witness:
  "snd (run_ops ring_step (\<lambda>_. 0, rgaAlloc False 1000 16 2) [Put 7, Put 8, Put (9 :: int), Get, Put 5, Get, Get, Get]) =
    [Stored True, Stored True, Stored False, Got (Some 7), Stored True, Got (Some 8), Got (Some 5), Got None]"
proof -
  let ?ops = "[Put 7, Put 8, Put (9 :: int), Get, Put 5, Get, Get, Get]"
  have "snd (run_ops (queue_step (unat (2 :: u64))) [] ?ops) =
      [Stored True, Stored True, Stored False, Got (Some 7), Stored True, Got (Some 8), Got (Some 5), Got None]"
    by simp
  then show ?thesis using ring_holds_in_order [of 16 2 "\<lambda>_. 0" 1000 ?ops] by auto
qed

text \<open>A ring with no free slot refuses a further element and is left unchanged
  (\<open>rgaNextHead\<close> returns \<open>NULL\<close>), an empty one yields \<open>NULL\<close> from
  \<open>rgaNextTail\<close>, and while there is room the new slot is not one still in use.\<close>

lemma ring_bounds:
  assumes "rga_wf (m, r)"
  shows "(rgaNextHead r = (r, None) \<longleftrightarrow> length (rga_list r) = unat (rg_cap r)) \<and>
    (rgaNextTail r = (r, None) \<longleftrightarrow> rga_list r = []) \<and>
    (\<forall>r' a. rgaNextHead r = (r', Some a) \<longrightarrow> a \<notin> set (rga_list r) \<and> rga_list r' = rga_list r @ [a])"
proof -
  have inv: "rga_inv r" and z: "rg_hrsv r = 0" "rg_trsv r = 0" using assms by (simp_all add: rga_wf_def)
  have le: "unat (rg_count r) \<le> unat (rg_cap r)" using inv by (rule rga_invD)
  have e: "rga_list r = [] \<longleftrightarrow> \<not> rg_hrsv r < rg_count r"
    by (metis length_rga_list length_0_conv unat_eq_0 z(1) word_neq_0_conv)
  show ?thesis
    using rgaNextHead_ok [OF inv] rgaNextHead_full [of r] rgaNextTail_ok [OF inv]
      rgaNextTail_empty [of r] le e z
    by (cases "rg_count r < rg_cap r") (auto simp: word_less_nat_alt word_le_nat_alt not_less)
qed

text \<open>Forcing an element into a ring of capacity \<open>n\<close> keeps the most recent elements but
  at most \<open>n - 1\<close> of them: as soon as the occupancy with the new element reaches the capacity
  the oldest one is dropped, so a ring filled by \<open>rgaForceHead\<close> alone never holds
  \<open>n\<close> elements, unlike one filled by \<open>rgaNextHead\<close>.\<close>

lemma rgaForceHead_keeps_recent:
  assumes inv: "rga_inv r" and tr: "rg_trsv r = 0" and lt: "rg_count r < rg_cap r"
  shows "rga_inv (fst (rgaForceHead r)) \<and>
    rga_list (fst (rgaForceHead r)) =
      (if Suc (length (rga_list r)) < unat (rg_cap r) then rga_list r @ [rg_head r]
       else tl (rga_list r @ [rg_head r])) \<and>
    length (rga_list (fst (rgaForceHead r))) < unat (rg_cap r)"
proof -
  have s: "unat (rg_count r + 1) = Suc (unat (rg_count r))" using lt by (rule unat_plus1_less)
  show ?thesis
  proof (cases "rg_count r + 1 < rg_cap r")
    case True
    with s have c: "Suc (length (rga_list r)) < unat (rg_cap r)" by (simp add: word_less_nat_alt)
    obtain r' where n: "rgaNextHead r = (r', Some (rg_head r))" "rga_inv r'"
      "rga_list r' = rga_list r @ [rg_head r]"
      using rgaNextHead_ok [OF inv] lt tr by auto
    moreover have "rgaForceHead r = (r', rg_head r)"
      using rgaForceHead_room [OF inv] True lt tr n by simp
    moreover have "unat (rg_count r') = Suc (unat (rg_count r))"
      using arg_cong [OF n(3), of length] by simp
    ultimately show ?thesis using c by simp
  next
    case False
    then have "rg_cap r - rg_trsv r \<le> rg_count r + 1" using tr by simp
    from rgaForceHead_drop [OF inv this] False s show ?thesis
      by (simp add: word_less_nat_alt length_rga_list [symmetric] del: length_rga_list)
        (use lt in \<open>simp add: word_less_nat_alt\<close>)
  qed
qed

end
