(* ===== verification/Detune.thy ===== *)
theory Detune
  imports StreamStat
begin

text \<open>
  The packet detuner of \<open>src/qofdetune.c\<close>, compiled in with \<open>QOF_ENABLE_DETUNE\<close>: a leaky
  bucket, random loss and random delay applied to the packets between the decoder and the fragment
  table. The field \<open>bucket_cur\<close> is a C \<open>int\<close> that the code mixes with \<open>unsigned\<close> and
  64-bit operands; the model writes out each conversion. The \<open>double\<close> \<open>drop_p\<close> is a real. The C
  library's \<open>random\<close> is a parameter, a function on the generator's state; \<open>srandom\<close> only sets
  that state and is left out of \<open>qfDetuneAlloc\<close>.
\<close>

unbundle bit_operations_syntax

record qofDetune =
  dt_bucket_cur :: i32
  dt_bucket_max :: u32
  dt_bucket_rate :: u32
  dt_bucket_delay :: u32
  dt_drop_die :: sstLinSmooth
  dt_drop_p :: real
  dt_delay :: sstLinSmooth
  dt_delay_max :: u32
  dt_last_real_ms :: u64
  dt_last_delayed_ms :: u64
  dt_stat_bucket_drop :: u64
  dt_stat_random_drop :: u64
  dt_stat_highwater :: u32
  dt_stat_delay :: sstMean

definition qfDetuneAlloc :: "u32 \<Rightarrow> u32 \<Rightarrow> u32 \<Rightarrow> real \<Rightarrow> u32 \<Rightarrow> u32 \<Rightarrow> qofDetune" where
  "qfDetuneAlloc bucket_max bucket_rate bucket_delay drop_p delay_max alpha =
     \<lparr>dt_bucket_cur = 0, dt_bucket_max = bucket_max, dt_bucket_rate = bucket_rate,
      dt_bucket_delay = bucket_delay, dt_drop_die = sstLinSmoothInit\<lparr>ls_alpha := alpha\<rparr>, dt_drop_p = drop_p,
      dt_delay = sstLinSmoothInit\<lparr>ls_alpha := alpha\<rparr>, dt_delay_max = delay_max, dt_last_real_ms = 0,
      dt_last_delayed_ms = 0, dt_stat_bucket_drop = 0, dt_stat_random_drop = 0, dt_stat_highwater = 0,
      dt_stat_delay = sstMeanInit\<rparr>"

type_synonym 'r rng = "'r \<Rightarrow> u64 \<times> 'r"

definition randbits :: "'r rng \<Rightarrow> 'r \<Rightarrow> u32 \<times> 'r" where
  "randbits random r = (let (x, r) = random r in (ucast (x AND 0x3fffffff), r))"

definition randmax :: u64 where "randmax = 0x40000000"

text \<open>The leaky bucket: drain it for the time since the last packet let through, then add the packet;
  the Boolean is false for a tail drop.\<close>

definition detune_drain :: "qofDetune \<Rightarrow> u64 \<Rightarrow> qofDetune" where
  "detune_drain d ms =
     (if dt_last_real_ms d \<noteq> 0 \<and> dt_bucket_cur d \<noteq> 0 \<and> dt_last_real_ms d < ms
      then let cur = ucast (scast (dt_bucket_cur d) -
                       (ms - dt_last_real_ms d) * ucast (dt_bucket_rate d) div 1000 :: u64)
           in d\<lparr>dt_bucket_cur := (if cur <s 0 then 0 else cur)\<rparr>
      else d)"

definition detune_bucket :: "qofDetune \<Rightarrow> u64 \<Rightarrow> u32 \<Rightarrow> qofDetune \<times> bool" where
  "detune_bucket d ms octs =
     (if dt_bucket_max d \<noteq> 0 then
        let d = detune_drain d ms;
            d = d\<lparr>dt_bucket_cur := dt_bucket_cur d + octs\<rparr>;
            d = (if dt_stat_highwater d < dt_bucket_cur d
                 then d\<lparr>dt_stat_highwater := dt_bucket_cur d\<rparr> else d)
        in if dt_bucket_max d \<le> dt_bucket_cur d
           then (d\<lparr>dt_bucket_cur := dt_bucket_max d, dt_stat_bucket_drop := dt_stat_bucket_drop d + 1\<rparr>, False)
           else (d, True)
      else (d, True))"

definition detune_die :: "'r rng \<Rightarrow> qofDetune \<Rightarrow> 'r \<Rightarrow> qofDetune \<times> 'r \<times> bool" where
  "detune_die random d r =
     (if dt_drop_p d \<noteq> 0 then
        let (x, r) = randbits random r;
            d = d\<lparr>dt_drop_die := sstLinSmoothAdd (dt_drop_die d) x\<rparr>
        in if real (unat (ls_val (dt_drop_die d))) / real (unat randmax) < dt_drop_p d
           then (d\<lparr>dt_stat_random_drop := dt_stat_random_drop d + 1\<rparr>, r, False)
           else (d, r, True)
      else (d, r, True))"

definition detune_delay :: "'r rng \<Rightarrow> qofDetune \<Rightarrow> 'r \<Rightarrow> qofDetune \<times> 'r \<times> u32 \<times> u32" where
  "detune_delay random d r =
     (let bdelay = (if dt_bucket_max d \<noteq> 0 \<and> dt_bucket_delay d \<noteq> 0
                    then dt_bucket_cur d * dt_bucket_delay d div dt_bucket_max d else 0)
      in if dt_delay_max d \<noteq> 0 then
           let (x, r) = randbits random r;
               d = d\<lparr>dt_delay := sstLinSmoothAdd (dt_delay d)
                       (ucast (ucast x * ucast (dt_delay_max d) div randmax))\<rparr>
           in (d, r, bdelay, ls_val (dt_delay d))
         else (d, r, bdelay, 0))"

definition qfDetunePacket :: "'r rng \<Rightarrow> qofDetune \<Rightarrow> 'r \<Rightarrow> u64 \<Rightarrow> u32 \<Rightarrow> qofDetune \<times> 'r \<times> u64 \<times> bool" where
  "qfDetunePacket random d r ms octs =
     (let (d, ok) = detune_bucket d ms octs
      in if \<not> ok then (d, r, ms, False)
         else
           let (d, r, ok) = detune_die random d r
           in if \<not> ok then (d, r, ms, False)
              else
                let (d, r, bdelay, rdelay) = detune_delay random d r;
                    cur_ms = ms;
                    (d, ms) =
                      (if bdelay \<noteq> 0 \<or> rdelay \<noteq> 0 then
                         let ms = (if rdelay < bdelay then ms + ucast bdelay else ms + ucast rdelay);
                             ms = (if ms < dt_last_delayed_ms d then dt_last_delayed_ms d else ms)
                         in (d\<lparr>dt_stat_delay := sstMeanAdd (dt_stat_delay d) (ucast (ms - cur_ms))\<rparr>, ms)
                       else (d, ms))
                in (d\<lparr>dt_last_real_ms := cur_ms, dt_last_delayed_ms := ms\<rparr>, r, ms, True))"

text \<open>The count of packets the statistics dump reports as offered to the detuner.\<close>

definition qfDetuneDumpStats :: "qofDetune \<Rightarrow> u64 \<Rightarrow> u64" where
  "qfDetuneDumpStats d flowPacketCount =
     flowPacketCount + (dt_stat_bucket_drop d + dt_stat_random_drop d)"

subsection \<open>The bucket on natural numbers\<close>

text \<open>The detuner's bucket without the conversions: its level and the time of the last packet let through.\<close>

definition db_drain :: "nat \<Rightarrow> nat \<Rightarrow> nat \<Rightarrow> nat" where
  "db_drain rate lst ms = (if lst \<noteq> 0 \<and> lst < ms then (ms - lst) * rate div 1000 else 0)"

definition db_step :: "nat \<Rightarrow> nat \<Rightarrow> nat \<times> nat \<Rightarrow> nat \<times> nat \<Rightarrow> (nat \<times> nat) \<times> bool" where
  "db_step mx rate s p =
     (let level = fst s - db_drain rate (snd s) (fst p) + snd p
      in if mx \<le> level then ((mx, snd s), False) else ((level, fst p), True))"

definition bucket_ok :: "qofDetune \<Rightarrow> bool" where
  "bucket_ok d \<longleftrightarrow> unat (dt_bucket_max d) + 2 ^ 16 \<le> 2 ^ 31 \<and> unat (dt_bucket_cur d) \<le> unat (dt_bucket_max d)"

text \<open>The drain between two instants fits an \<open>int\<close>.\<close>

definition drain_fits :: "qofDetune \<Rightarrow> u64 \<Rightarrow> bool" where
  "drain_fits d ms \<longleftrightarrow> dt_last_real_ms d = 0 \<or>
     unat (ms - dt_last_real_ms d) * unat (dt_bucket_rate d) < 2 ^ 31 * 1000 \<or> ms \<le> dt_last_real_ms d"

lemma ucast_of_int_32: "(ucast (word_of_int k :: u64) :: i32) = word_of_int k"
  by (simp add: unsigned_of_int word_of_int_eq_iff)

lemma sint_small: "unat (c :: i32) < 2 ^ 31 \<Longrightarrow> sint c = int (unat c)"
proof -
  assume a: "unat c < 2 ^ 31"
  have "sint (word_of_int (int (unat c)) :: i32) = int (unat c)" using a by (intro sint_of_int_range) (simp_all del: of_nat_unat)
  then show ?thesis by simp
qed

lemma unat_ucast_64: "unat (ucast (x :: u32) :: u64) = unat x"
proof -
  have "unat x < 2 ^ 32" by (rule less_le_trans [OF unsigned_less]) simp
  then show ?thesis by (simp add: unsigned_ucast_eq take_bit_nat_eq_self_iff)
qed

lemma drain_word:
  fixes c :: i32 and x :: u64
  assumes "unat c < 2 ^ 31" "unat x < 2 ^ 31"
  defines "v \<equiv> (ucast (scast c - x) :: i32)"
  shows "unat (if v <s 0 then 0 else v) = unat c - unat x"
proof -
  have "scast c = (word_of_int (int (unat c)) :: u64)"
    unfolding sint_small [OF assms(1), symmetric] by (rule scast_eq)
  then have "scast c - x = word_of_int (int (unat c) - int (unat x))" by simp
  then have v: "v = word_of_int (int (unat c) - int (unat x))"
    unfolding v_def by (simp only: ucast_of_int_32)
  have s: "sint v = int (unat c) - int (unat x)"
    unfolding v using assms(1,2) by (intro sint_of_int_range) (simp_all del: of_nat_unat)
  have "unat v = unat c - unat x" if "unat x \<le> unat c"
  proof -
    have "v = of_nat (unat c - unat x)" unfolding v using that by (simp only: of_nat_diff [symmetric] of_int_of_nat_eq)
    then show ?thesis using assms(1) by (simp add: unsigned_of_nat take_bit_nat_eq_self_iff)
  qed
  then show ?thesis using s by (auto simp: word_sless_alt simp del: of_nat_unat)
qed

lemma drain_ok:
  assumes d: "bucket_ok d" and f: "drain_fits d ms"
  shows "unat (dt_bucket_cur (detune_drain d ms)) =
      unat (dt_bucket_cur d) - db_drain (unat (dt_bucket_rate d)) (unat (dt_last_real_ms d)) (unat ms)"
    and "detune_drain d ms = d\<lparr>dt_bucket_cur := dt_bucket_cur (detune_drain d ms)\<rparr>"
proof -
  let ?l = "dt_last_real_ms d" and ?r = "dt_bucket_rate d" and ?c = "dt_bucket_cur d"
  show "detune_drain d ms = d\<lparr>dt_bucket_cur := dt_bucket_cur (detune_drain d ms)\<rparr>"
    by (simp add: detune_drain_def Let_def)
  show "unat (dt_bucket_cur (detune_drain d ms)) = unat ?c - db_drain (unat ?r) (unat ?l) (unat ms)"
  proof (cases "?l \<noteq> 0 \<and> ?l < ms")
    case True
    then have le: "?l \<le> ms" by (simp add: less_imp_le)
    have sub: "unat (ms - ?l) = unat ms - unat ?l" using le by (simp add: unat_sub)
    have fit: "unat (ms - ?l) * unat ?r < 2 ^ 31 * 1000" using f True by (auto simp: drain_fits_def)
    let ?x = "(ms - ?l) * ucast ?r div 1000"
    have m: "unat ((ms - ?l) * ucast ?r) = unat (ms - ?l) * unat ?r"
      using fit by (subst unat_mult_lem [THEN iffD1]) (simp_all add: unat_ucast_64)
    have x: "unat ?x = (unat ms - unat ?l) * unat ?r div 1000" by (simp add: unat_div m sub)
    have x31: "unat ?x < 2 ^ 31" using fit x sub by simp
    have c31: "unat ?c < 2 ^ 31" using d by (auto simp: bucket_ok_def)
    have z: "?c = 0 \<Longrightarrow> unat ?c = 0" by simp
    show ?thesis using True drain_word [OF c31 x31] x z
      by (auto simp: detune_drain_def Let_def db_drain_def word_less_nat_alt unat_eq_0)
  qed (auto simp: detune_drain_def db_drain_def word_less_nat_alt unat_eq_0)
qed

lemma bucket_step:
  assumes d: "bucket_ok d" and f: "drain_fits d ms" and o: "unat octs < 2 ^ 16" and mx: "dt_bucket_max d \<noteq> 0"
  defines "s \<equiv> db_step (unat (dt_bucket_max d)) (unat (dt_bucket_rate d))
      (unat (dt_bucket_cur d), unat (dt_last_real_ms d)) (unat ms, unat octs)"
  shows "\<exists>hw. detune_bucket d ms octs =
      (d\<lparr>dt_bucket_cur := of_nat (fst (fst s)), dt_stat_highwater := hw,
         dt_stat_bucket_drop := dt_stat_bucket_drop d + of_bool (\<not> snd s)\<rparr>, snd s)"
    and "fst (fst s) \<le> unat (dt_bucket_max d)"
proof -
  let ?l = "unat (dt_bucket_cur d) - db_drain (unat (dt_bucket_rate d)) (unat (dt_last_real_ms d)) (unat ms)"
  obtain c where dd: "detune_drain d ms = d\<lparr>dt_bucket_cur := c\<rparr>" and c: "unat c = ?l"
    using drain_ok [OF d f] by metis
  have b: "?l + unat octs < 2 ^ 32" using d o by (auto simp: bucket_ok_def)
  have l: "unat (c + octs) = ?l + unat octs"
    using b unfolding c [symmetric] by (subst unat_add_lem [THEN iffD1]) simp_all
  have e: "c + octs = of_nat (?l + unat octs)" by (simp flip: l)
  show "fst (fst s) \<le> unat (dt_bucket_max d)" by (simp add: s_def db_step_def Let_def)
  show "\<exists>hw. detune_bucket d ms octs =
      (d\<lparr>dt_bucket_cur := of_nat (fst (fst s)), dt_stat_highwater := hw,
         dt_stat_bucket_drop := dt_stat_bucket_drop d + of_bool (\<not> snd s)\<rparr>, snd s)"
  proof (cases "unat (dt_bucket_max d) \<le> ?l + unat octs")
    case True
    then have k: "dt_bucket_max d \<le> c + octs" using l by (simp add: word_le_nat_alt)
    have s: "s = ((unat (dt_bucket_max d), unat (dt_last_real_ms d)), False)"
      using True by (simp add: s_def db_step_def)
    show ?thesis using k mx unfolding s
      by (intro exI [of _ "if dt_stat_highwater d < c + octs then c + octs else dt_stat_highwater d"])
        (simp add: detune_bucket_def dd Let_def)
  next
    case False
    then have k: "\<not> dt_bucket_max d \<le> c + octs" using l by (simp add: word_le_nat_alt)
    have s: "s = ((?l + unat octs, unat ms), True)" using False by (simp add: s_def db_step_def)
    show ?thesis using k mx unfolding s fst_conv e [symmetric]
      by (intro exI [of _ "if dt_stat_highwater d < c + octs then c + octs else dt_stat_highwater d"])
        (simp add: detune_bucket_def dd Let_def)
  qed
qed

subsection \<open>Sequences of packets\<close>

fun detune_run :: "'r rng \<Rightarrow> qofDetune \<Rightarrow> 'r \<Rightarrow> (u64 \<times> u32) list \<Rightarrow> qofDetune \<times> 'r \<times> (u64 \<times> bool) list" where
  "detune_run random d r [] = (d, r, [])"
| "detune_run random d r (p # ps) =
     (let (d, r, ms, ok) = qfDetunePacket random d r (fst p) (snd p);
          (d, r, outs) = detune_run random d r ps
      in (d, r, (ms, ok) # outs))"

fun db_run :: "nat \<Rightarrow> nat \<Rightarrow> nat \<times> nat \<Rightarrow> (nat \<times> nat) list \<Rightarrow> (nat \<times> nat) \<times> bool list" where
  "db_run mx rate s [] = (s, [])"
| "db_run mx rate s (p # ps) =
     (let (s, ok) = db_step mx rate s p; (s, oks) = db_run mx rate s ps in (s, ok # oks))"

definition dropped :: "qofDetune \<Rightarrow> u64" where
  "dropped d = dt_stat_bucket_drop d + dt_stat_random_drop d"

definition same_limits :: "qofDetune \<Rightarrow> qofDetune \<Rightarrow> bool" where
  "same_limits d d' \<longleftrightarrow> dt_bucket_max d' = dt_bucket_max d \<and> dt_bucket_rate d' = dt_bucket_rate d \<and>
     dt_drop_p d' = dt_drop_p d"

lemma detune_die_fields:
  assumes "detune_die random d r = (d', r', ok)"
  shows "same_limits d d'" "dt_bucket_cur d' = dt_bucket_cur d" "dt_last_real_ms d' = dt_last_real_ms d"
    "dropped d' = dropped d + of_bool (\<not> ok)" "dt_drop_p d = 0 \<Longrightarrow> ok"
  using assms by (auto simp: detune_die_def Let_def same_limits_def dropped_def split: if_splits prod.splits)

lemma detune_delay_fields:
  assumes "detune_delay random d r = (d', r', bd, rd)"
  shows "same_limits d d'" "dt_bucket_cur d' = dt_bucket_cur d" "dropped d' = dropped d"
  using assms by (auto simp: detune_delay_def Let_def same_limits_def dropped_def split: if_splits prod.splits)

lemma same_limits_trans [trans]: "same_limits a b \<Longrightarrow> same_limits b c \<Longrightarrow> same_limits a c"
  by (simp add: same_limits_def)

lemma delay_no_wrap:
  fixes ms :: u64 and b :: u32
  assumes "unat ms + 2 ^ 32 \<le> 2 ^ 64"
  shows "ms \<le> ms + ucast b"
proof -
  have "unat b < 2 ^ 32" by (rule less_le_trans [OF unsigned_less]) simp
  then have "unat (ms + ucast b) = unat ms + unat b"
    using assms by (subst unat_add_lem [THEN iffD1]) (simp_all add: unat_ucast_64)
  then show ?thesis by (simp add: word_le_nat_alt)
qed

lemma bucket_fields:
  assumes d: "bucket_ok d" and f: "drain_fits d ms" and o: "unat octs < 2 ^ 16"
    and b: "detune_bucket d ms octs = (d', ok)"
  shows "bucket_ok d'" "same_limits d d'" "dt_last_real_ms d' = dt_last_real_ms d"
    "dropped d' = dropped d + of_bool (\<not> ok)"
    "dt_bucket_max d \<noteq> 0 \<Longrightarrow>
       db_step (unat (dt_bucket_max d)) (unat (dt_bucket_rate d))
         (unat (dt_bucket_cur d), unat (dt_last_real_ms d)) (unat ms, unat octs) =
       ((unat (dt_bucket_cur d'), if ok then unat ms else unat (dt_last_real_ms d)), ok)"
proof -
  let ?s = "db_step (unat (dt_bucket_max d)) (unat (dt_bucket_rate d))
      (unat (dt_bucket_cur d), unat (dt_last_real_ms d)) (unat ms, unat octs)"
  have "bucket_ok d' \<and> same_limits d d' \<and> dt_last_real_ms d' = dt_last_real_ms d \<and>
    dropped d' = dropped d + of_bool (\<not> ok) \<and> (dt_bucket_max d \<noteq> 0 \<longrightarrow>
       ?s = ((unat (dt_bucket_cur d'), if ok then unat ms else unat (dt_last_real_ms d)), ok))"
  proof (cases "dt_bucket_max d = 0")
    case True
    then show ?thesis using b d by (simp add: detune_bucket_def same_limits_def)
  next
    case False
    obtain hw where h: "d' = d\<lparr>dt_bucket_cur := of_nat (fst (fst ?s)), dt_stat_highwater := hw,
         dt_stat_bucket_drop := dt_stat_bucket_drop d + of_bool (\<not> snd ?s)\<rparr>" "ok = snd ?s"
      using bucket_step(1) [OF d f o False] b by auto
    have le: "fst (fst ?s) \<le> unat (dt_bucket_max d)" by (rule bucket_step(2) [OF d f o False])
    have "fst (fst ?s) < 2 ^ 32" using le d by (auto simp: bucket_ok_def)
    then have u: "unat (of_nat (fst (fst ?s)) :: i32) = fst (fst ?s)"
      by (simp add: unsigned_of_nat take_bit_nat_eq_self_iff)
    have "?s = ((fst (fst ?s), if ok then unat ms else unat (dt_last_real_ms d)), ok)"
      using h(2) by (auto simp: db_step_def Let_def)
    then show ?thesis using h(1) u le d
      by (simp add: bucket_ok_def same_limits_def dropped_def h(2))
  qed
  then show "bucket_ok d'" "same_limits d d'" "dt_last_real_ms d' = dt_last_real_ms d"
    "dropped d' = dropped d + of_bool (\<not> ok)"
    "dt_bucket_max d \<noteq> 0 \<Longrightarrow> ?s = ((unat (dt_bucket_cur d'), if ok then unat ms else unat (dt_last_real_ms d)), ok)"
    by blast+
qed

lemma bucket_ok_cong:
  "bucket_ok d \<Longrightarrow> same_limits d d' \<Longrightarrow> dt_bucket_cur d' = dt_bucket_cur d \<Longrightarrow> bucket_ok d'"
  by (simp add: bucket_ok_def same_limits_def)

lemma packet_step:
  assumes d: "bucket_ok d" and f: "drain_fits d ms" and o: "unat octs < 2 ^ 16"
    and t: "unat ms + 2 ^ 32 \<le> 2 ^ 64"
    and p: "qfDetunePacket random d r ms octs = (d', r', ms', ok)"
  shows "bucket_ok d' \<and> same_limits d d' \<and> ms \<le> ms' \<and> dropped d' = dropped d + of_bool (\<not> ok) \<and>
    dt_last_real_ms d' = (if ok then ms else dt_last_real_ms d) \<and>
    (dt_drop_p d = 0 \<and> dt_bucket_max d \<noteq> 0 \<longrightarrow>
       db_step (unat (dt_bucket_max d)) (unat (dt_bucket_rate d))
         (unat (dt_bucket_cur d), unat (dt_last_real_ms d)) (unat ms, unat octs) =
       ((unat (dt_bucket_cur d'), unat (dt_last_real_ms d')), ok))"
proof -
  obtain d1 ok1 where b: "detune_bucket d ms octs = (d1, ok1)" by fastforce
  note b1 = bucket_fields [OF d f o b]
  show ?thesis
  proof (cases ok1)
    case False
    then have "d' = d1" "ms' = ms" "ok = False" using p b by (simp_all add: qfDetunePacket_def)
    then show ?thesis using b1 False by simp
  next
    case ok1: True
    obtain d2 r2 ok2 where e: "detune_die random d1 r = (d2, r2, ok2)" by (rule prod_cases3)
    note b2 = detune_die_fields [OF e]
    have p0: "dt_drop_p d1 = dt_drop_p d" using b1(2) by (simp add: same_limits_def)
    show ?thesis
    proof (cases ok2)
      case False
      then have "d' = d2" "ms' = ms" "ok = False" using p b e ok1 by (simp_all add: qfDetunePacket_def)
      moreover have "dt_drop_p d \<noteq> 0" using b2(5) False p0 by auto
      ultimately show ?thesis using b1 b2(1-4) ok1 False same_limits_trans [OF b1(2) b2(1)]
          bucket_ok_cong [OF b1(1) b2(1)] by simp
    next
      case True
      obtain d3 r3 bd rd where g: "detune_delay random d2 r2 = (d3, r3, bd, rd)" by (metis prod_cases4)
      note b3 = detune_delay_fields [OF g]
      have lim: "same_limits d d3" using same_limits_trans [OF same_limits_trans [OF b1(2) b2(1)] b3(1)] .
      have ok3: "bucket_ok d3" using bucket_ok_cong [OF bucket_ok_cong [OF b1(1) b2(1,2)] b3(1,2)] .
      have le: "ms \<le> ms + ucast bd" "ms \<le> ms + ucast rd" using delay_no_wrap [OF t] by auto
      have q: "(\<exists>x. d' = d3\<lparr>dt_stat_delay := x, dt_last_real_ms := ms, dt_last_delayed_ms := ms'\<rparr>) \<and> ok \<and> ms \<le> ms'"
      proof (cases "bd \<noteq> 0 \<or> rd \<noteq> 0")
        case False
        then show ?thesis using p b e g ok1 True
          by (intro conjI exI [of _ "dt_stat_delay d3"]) (auto simp: qfDetunePacket_def)
      next
        case nz: True
        show ?thesis
          using p b e g ok1 True nz le
          by (auto simp: qfDetunePacket_def Let_def split: if_splits intro: order_trans less_imp_le)
      qed
      then obtain x where q: "d' = d3\<lparr>dt_stat_delay := x, dt_last_real_ms := ms, dt_last_delayed_ms := ms'\<rparr>" "ok" "ms \<le> ms'"
        by blast
      then show ?thesis using lim ok3 b1(3,4,5) b2(2,3,4) b3(2,3) ok1 True
        by (simp add: same_limits_def bucket_ok_def dropped_def)
    qed
  qed
qed

text \<open>Packets within a window of time short enough for the drain to fit an \<open>int\<close>.\<close>

definition in_window :: "nat \<Rightarrow> nat \<Rightarrow> (u64 \<times> u32) list \<Rightarrow> bool" where
  "in_window beg W ps \<longleftrightarrow> beg + W + 2 ^ 32 \<le> 2 ^ 64 \<and>
     list_all (\<lambda>p. beg \<le> unat (fst p) \<and> unat (fst p) \<le> beg + W \<and> unat (snd p) < 2 ^ 16) ps"

definition detune_ok :: "nat \<Rightarrow> nat \<Rightarrow> qofDetune \<Rightarrow> bool" where
  "detune_ok beg W d \<longleftrightarrow> bucket_ok d \<and> W * unat (dt_bucket_rate d) < 2 ^ 31 * 1000 \<and>
     (dt_last_real_ms d = 0 \<or> beg \<le> unat (dt_last_real_ms d) \<and> unat (dt_last_real_ms d) \<le> beg + W)"

lemma detune_ok_drain:
  assumes "detune_ok beg W d" "beg \<le> unat ms" "unat ms \<le> beg + W"
  shows "drain_fits d ms"
proof (cases "dt_last_real_ms d = 0 \<or> ms \<le> dt_last_real_ms d")
  case False
  then have "unat (ms - dt_last_real_ms d) \<le> W" using assms by (auto simp: detune_ok_def unat_sub)
  then have "unat (ms - dt_last_real_ms d) * unat (dt_bucket_rate d) \<le> W * unat (dt_bucket_rate d)" by simp
  then show ?thesis using assms(1) unfolding drain_fits_def detune_ok_def by linarith
qed (auto simp: drain_fits_def)

lemma detune_run_ok:
  assumes "detune_ok beg W d" and "in_window beg W ps" and "detune_run random d r ps = (d', r', outs)"
  shows "detune_ok beg W d' \<and> same_limits d d' \<and> length outs = length ps \<and>
    dropped d' = dropped d + of_nat (length (filter (Not \<circ> snd) outs)) \<and>
    list_all2 (\<lambda>p q. fst p \<le> fst q) ps outs \<and>
    (dt_drop_p d = 0 \<and> dt_bucket_max d \<noteq> 0 \<longrightarrow>
      db_run (unat (dt_bucket_max d)) (unat (dt_bucket_rate d)) (unat (dt_bucket_cur d), unat (dt_last_real_ms d))
        (map (\<lambda>p. (unat (fst p), unat (snd p))) ps) =
      ((unat (dt_bucket_cur d'), unat (dt_last_real_ms d')), map snd outs))"
  using assms
proof (induction ps arbitrary: d r d' r' outs)
  case Nil
  then show ?case by (simp add: same_limits_def)
next
  case (Cons p ps)
  obtain d1 r1 ms1 ok1 where a: "qfDetunePacket random d r (fst p) (snd p) = (d1, r1, ms1, ok1)" by (metis prod_cases4)
  obtain d2 r2 outs2 where b: "detune_run random d1 r1 ps = (d2, r2, outs2)" by (rule prod_cases3)
  have o: "d' = d2" "outs = (ms1, ok1) # outs2" using Cons.prems(3) a b by simp_all
  have w: "beg \<le> unat (fst p)" "unat (fst p) \<le> beg + W" "unat (snd p) < 2 ^ 16" "in_window beg W ps"
    and t: "unat (fst p) + 2 ^ 32 \<le> 2 ^ 64"
    using Cons.prems(2) by (auto simp: in_window_def)
  have bk: "bucket_ok d" using Cons.prems(1) by (simp add: detune_ok_def)
  note st = packet_step [OF bk detune_ok_drain [OF Cons.prems(1) w(1,2)] w(3) t a]
  have ok1: "detune_ok beg W d1"
    using st Cons.prems(1) w by (auto simp: detune_ok_def same_limits_def)
  note ih = Cons.IH [OF ok1 w(4) b]
  have lim: "dt_bucket_max d1 = dt_bucket_max d" "dt_bucket_rate d1 = dt_bucket_rate d" "dt_drop_p d1 = dt_drop_p d"
    using st by (simp_all add: same_limits_def)
  have "same_limits d d2" using same_limits_trans st ih by blast
  then show ?case using st ih lim by (simp add: o)
qed

subsection \<open>Properties\<close>

text \<open>C37: The detuner keeps its accounts. For any source of random numbers and any packets within a
  window of time short enough that the bucket's drain fits an \<open>int\<close>, the bucket's level stays
  between zero and its maximum, every packet offered is either let through or counted once as a tail
  drop or a random drop (so the total reported by \<open>qfDetuneDumpStats\<close> is the number of packets
  offered), and no packet is given a time before its own.\<close>

theorem detune_accounts:
  assumes "unat bmax + 2 ^ 16 \<le> 2 ^ 31" and "W * unat rate < 2 ^ 31 * 1000" and "in_window beg W ps"
  shows "\<exists>d r' outs. detune_run random (qfDetuneAlloc bmax rate bdelay p dmax alpha) r ps = (d, r', outs) \<and>
    0 \<le> sint (dt_bucket_cur d) \<and> sint (dt_bucket_cur d) \<le> int (unat bmax) \<and>
    qfDetuneDumpStats d (of_nat (length (filter snd outs))) = of_nat (length ps) \<and>
    list_all2 (\<lambda>p q. fst p \<le> fst q) ps outs"
proof -
  let ?d = "qfDetuneAlloc bmax rate bdelay p dmax alpha"
  obtain d r' outs where run: "detune_run random ?d r ps = (d, r', outs)" by (rule prod_cases3)
  have "detune_ok beg W ?d" using assms(1,2) by (simp add: detune_ok_def bucket_ok_def qfDetuneAlloc_def)
  note r = detune_run_ok [OF this assms(3) run]
  have d: "bucket_ok d" "dt_bucket_max d = bmax"
    using r by (simp_all add: detune_ok_def same_limits_def qfDetuneAlloc_def)
  have "sint (dt_bucket_cur d) = int (unat (dt_bucket_cur d))"
    using d by (intro sint_small) (auto simp: bucket_ok_def)
  moreover have "qfDetuneDumpStats d (of_nat (length (filter snd outs))) = of_nat (length ps)"
  proof -
    have "qfDetuneDumpStats d (of_nat (length (filter snd outs))) =
        of_nat (length (filter snd outs) + length (filter (Not \<circ> snd) outs))"
      using r by (simp add: qfDetuneDumpStats_def dropped_def qfDetuneAlloc_def algebra_simps)
    also have "\<dots> = of_nat (length outs)" by (simp only: sum_length_filter_compl comp_def)
    finally show ?thesis using r by simp
  qed
  ultimately show ?thesis using run d r
    by (intro exI [of _ d] exI [of _ r'] exI [of _ outs]) (simp add: bucket_ok_def del: of_nat_unat)
qed

theorem detune_accounts_witness:
  "\<exists>d r' outs. detune_run (\<lambda>r. (r * 0x9E3779B1, r + 1)) (qfDetuneAlloc 3000 1000 20 (1 / 10) 50 4) 7
      [(1000000, 1500), (1000010, 1400), (1000020, 1500), (1000500, 40)] = (d, r', outs) \<and>
    0 \<le> sint (dt_bucket_cur d) \<and> sint (dt_bucket_cur d) \<le> int (unat (3000 :: u32)) \<and>
    qfDetuneDumpStats d (of_nat (length (filter snd outs))) =
      of_nat (length [(1000000 :: u64, 1500 :: u32), (1000010, 1400), (1000020, 1500), (1000500, 40)]) \<and>
    list_all2 (\<lambda>p q. fst p \<le> fst q) [(1000000, 1500 :: u32), (1000010, 1400), (1000020, 1500), (1000500, 40)] outs"
  by (rule detune_accounts [where W = 1000 and beg = 1000000]) (simp_all add: in_window_def)

text \<open>A leaky bucket as it is meant: its level and the time up to which it has been drained. Every interval
  drains once, whatever became of the packet at its end; a packet that would fill the bucket is dropped and leaves
  it full.\<close>

definition leak_step :: "nat \<Rightarrow> nat \<Rightarrow> nat \<times> nat \<Rightarrow> nat \<times> nat \<Rightarrow> (nat \<times> nat) \<times> bool" where
  "leak_step mx rate s p =
     (let level = fst s - (fst p - snd s) * rate div 1000 + snd p
      in if mx \<le> level then ((mx, fst p), False) else ((level, fst p), True))"

fun leak_run :: "nat \<Rightarrow> nat \<Rightarrow> nat \<times> nat \<Rightarrow> (nat \<times> nat) list \<Rightarrow> (nat \<times> nat) \<times> bool list" where
  "leak_run mx rate s [] = (s, [])"
| "leak_run mx rate s (p # ps) =
     (let (s, ok) = leak_step mx rate s p; (s, oks) = leak_run mx rate s ps in (s, ok # oks))"

text \<open>From a lower level, drained up to an earlier time, the detuner's bucket passes whatever the leaky bucket
  passes; from the same level and time they agree until the first drop.\<close>

lemma drain_mono:
  assumes "0 < lc" and "lc \<le> li" and "li \<le> ms"
  shows "(ms - li) * rate div 1000 \<le> db_drain rate lc ms"
proof (cases "lc < ms")
  case True
  have "(ms - li) * rate \<le> (ms - lc) * rate" using assms by (intro mult_right_mono) auto
  then show ?thesis using True assms by (simp add: db_drain_def div_le_mono)
qed (use assms in \<open>simp add: db_drain_def\<close>)

lemma leak_passes:
  "\<lbrakk>c \<le> i; 0 < lc; lc \<le> li; sorted (li # map fst ps)\<rbrakk> \<Longrightarrow>
   list_all2 (\<longrightarrow>) (snd (leak_run mx rate (i, li) ps)) (snd (db_run mx rate (c, lc) ps))"
proof (induction ps arbitrary: c i lc li)
  case (Cons p ps)
  have ms: "li \<le> fst p" "sorted (fst p # map fst ps)" using Cons.prems(4) by simp_all
  have "c - db_drain rate lc (fst p) + snd p \<le> i - (fst p - li) * rate div 1000 + snd p"
    using Cons.prems(1) drain_mono [OF Cons.prems(2,3) ms(1), of rate] by linarith
  then show ?case using Cons.IH [OF _ _ _ ms(2)] Cons.prems(2,3) ms(1)
    by (auto simp: leak_step_def db_step_def Let_def split_beta)
qed simp

lemma leak_agrees:
  "\<lbrakk>0 < l; sorted (l # map fst ps)\<rbrakk> \<Longrightarrow>
   takeWhile id (snd (db_run mx rate (c, l) ps)) = takeWhile id (snd (leak_run mx rate (c, l) ps))"
proof (induction ps arbitrary: c l)
  case (Cons p ps)
  have "db_drain rate l (fst p) = (fst p - l) * rate div 1000" using Cons.prems by (auto simp: db_drain_def)
  then show ?case using Cons.IH [of "fst p"] Cons.prems
    by (auto simp: leak_step_def db_step_def Let_def split_beta)
qed simp

text \<open>C36: The bucket against a leaky bucket. With a bucket of less than half the \<open>int\<close> range, no random
  drop, packets in the order of their times, within a window short enough that the drain fits an \<open>int\<close>, and a
  first packet smaller than the bucket: every packet a leaky bucket of that size and rate passes, the detuner
  passes, and up to the first tail drop it passes and drops the same packets. (After a tail drop the detuner may pass
  more, because it drains the interval before it again.)\<close>

theorem detune_leaky_bucket:
  assumes "unat bmax + 2 ^ 16 \<le> 2 ^ 31" and "W * unat rate < 2 ^ 31 * 1000" and "in_window beg W ps"
    and "0 < beg" and "sorted (map fst ps)" and "\<forall>p \<in> set (take 1 ps). snd p < bmax"
  shows "let passed = map snd (snd (snd (detune_run random (qfDetuneAlloc bmax rate bdelay 0 dmax alpha) r ps)));
      meant = snd (leak_run (unat bmax) (unat rate) (0, 0) (map (\<lambda>p. (unat (fst p), unat (snd p))) ps))
    in list_all2 (\<longrightarrow>) meant passed \<and> takeWhile id passed = takeWhile id meant"
proof (cases ps)
  case (Cons p qs)
  let ?d = "qfDetuneAlloc bmax rate bdelay 0 dmax alpha" and ?n = "\<lambda>p :: u64 \<times> u32. (unat (fst p), unat (snd p))"
  obtain d r' outs where run: "detune_run random ?d r ps = (d, r', outs)" by (rule prod_cases3)
  have first: "unat (snd p) < unat bmax" "bmax \<noteq> 0" "0 < unat (fst p)"
    using assms(3,4,6) Cons by (auto simp: word_less_nat_alt in_window_def)
  have "detune_ok beg W ?d" using assms(1,2) by (simp add: detune_ok_def bucket_ok_def qfDetuneAlloc_def)
  note r = detune_run_ok [OF this assms(3) run]
  have p: "map snd (snd (snd (detune_run random ?d r ps))) = snd (db_run (unat bmax) (unat rate) (0, 0) (map ?n ps))"
    using r run first(2) by (simp add: qfDetuneAlloc_def)
  have "sorted (map fst (map ?n ps))"
    using assms(5) by (simp add: sorted_map o_def word_le_nat_alt)
  then have so: "sorted (unat (fst p) # map fst (map ?n qs))" by (simp add: Cons o_def)
  have "db_step (unat bmax) (unat rate) (0, 0) (?n p) = ((unat (snd p), unat (fst p)), True)"
    "leak_step (unat bmax) (unat rate) (0, 0) (?n p) = ((unat (snd p), unat (fst p)), True)"
    using first(1) by (simp_all add: db_step_def leak_step_def)
  then show ?thesis unfolding p Let_def
    using leak_passes [OF order_refl first(3) order_refl so, of "unat bmax" "unat rate" "unat (snd p)"]
      leak_agrees [OF first(3) so, of "unat bmax" "unat rate" "unat (snd p)"]
    by (simp add: Cons split_beta)
qed simp

theorem detune_leaky_bucket_witness:
  "list_all2 (\<longrightarrow>) [True, False, False]
     (map snd (snd (snd (detune_run (\<lambda>r. (r, r)) (qfDetuneAlloc 2000 1000 20 0 0 4) 7
        [(1000, 1500), (2000, 1600), (2000, 100)])))) \<and>
   takeWhile id (map snd (snd (snd (detune_run (\<lambda>r. (r, r)) (qfDetuneAlloc 2000 1000 20 0 0 4) 7
        [(1000, 1500), (2000, 1600), (2000, 100)])))) = [True]"
  using detune_leaky_bucket [of 2000 1000 1000 1000
      "[(1000, 1500), (2000, 1600), (2000, 100)]" "\<lambda>r. (r, r)" 20 0 4 7]
  by (simp add: in_window_def leak_step_def Let_def del: detune_run.simps)

subsection \<open>Behaviour outside the bounds\<close>

text \<open>The comment says the delayed time is clamped to avoid reordering, but the clamp is only reached
  when the packet itself is delayed: after a delayed packet, one with no delay is given an earlier
  time.\<close>

lemma detune_reorders:
  "map fst (snd (snd (detune_run (\<lambda>r. (r, r)) (qfDetuneAlloc 3000 1000000 20 0 0 4) (0 :: u64)
     [(1000, 2900), (1010, 40)]))) = [1019, 1010]"
  by (simp add: qfDetuneAlloc_def qfDetunePacket_def detune_bucket_def detune_drain_def detune_die_def
      detune_delay_def Let_def word_sless_alt)

text \<open>A tail drop leaves the time of the last packet where it was, so the same interval drains the
  bucket again at the next packet.\<close>

lemma detune_drains_twice:
  "map snd (snd (snd (detune_run (\<lambda>r. (r, r)) (qfDetuneAlloc 2000 1000 0 0 0 4) (0 :: u64)
     [(1000, 1500), (2000, 1600), (2000, 100)]))) = [True, False, True]"
  by (simp add: qfDetuneAlloc_def qfDetunePacket_def detune_bucket_def detune_drain_def detune_die_def
      detune_delay_def Let_def word_sless_alt)

text \<open>A first packet that fills the bucket leaves no time to drain from: the bucket stays full and every
  packet after it is dropped, however long the pauses.\<close>

lemma detune_stays_full:
  "map snd (snd (snd (detune_run (\<lambda>r. (r, r)) (qfDetuneAlloc 1000 1000 0 0 0 4) (0 :: u64)
     [(1000, 1500), (60000, 40), (600000, 40)]))) = [False, False, False]"
  by (simp add: qfDetuneAlloc_def qfDetunePacket_def detune_bucket_def detune_drain_def detune_die_def
      detune_delay_def Let_def word_sless_alt)

text \<open>After a long silence the drain no longer fits an \<open>int\<close> and the bucket is taken to be full.\<close>

lemma detune_drain_wraps:
  "map snd (snd (snd (detune_run (\<lambda>r. (r, r)) (qfDetuneAlloc 3000 1000000 0 0 0 4) (0 :: u64)
     [(1000, 1500), (3001000, 40)]))) = [True, False]"
  by (simp add: qfDetuneAlloc_def qfDetunePacket_def detune_bucket_def detune_drain_def detune_die_def
      detune_delay_def Let_def word_sless_alt)

text \<open>Random numbers have thirty bits, so their product with the smoothing weight overflows: two equal
  throws give a smoothed die far from their value.\<close>

lemma detune_die_overflows:
  "sint (ls_val (foldl sstLinSmoothAdd (sstLinSmoothInit\<lparr>ls_alpha := 4\<rparr>) [0x30000000, 0x30000000])) = - 0x10000000"
  by (simp add: sstLinSmoothAdd_def sstLinSmoothInit_def sstMinMaxInit_def sstMinMaxAdd_def c_sdiv_def Let_def)

end
