(* ===== verification/Meter.thy ===== *)
theory Meter
  imports FlowTabFlush FragSpec DecodeSafe Ring Detune
begin

text \<open>
  The packet loop of the meter, from the capture library to the flow records: the libtrace input of
  \<open>src/qofltrace.c\<close> and the flush logic of \<open>src/yaflush.c\<close>. It composes the decoder, the
  detuner, the fragment table, the packet ring and the flow table.

  The record \<open>qfContext\<close> is the C structure's part that the loop uses. The part the packet handler
  works on (decoder, fragment table, detuner with the state of the random number generator, and the
  packet buffers in the ring's slots) is the field \<open>cx_front\<close>. Outside the sources and therefore
  parameters, gathered in \<open>qf_env\<close>: the capture library (reading a packet, its contents, the
  error state), the two hash tables, the sorting function, \<open>random\<close>, the output (opening and closing
  it, writing a flow, a statistics record or the templates, emitting the buffer; theory \<open>Export\<close>
  models what is in a flow record), the asynchronous flag \<open>yaf_quit\<close> as a function of the number of
  times it has been read, and the contents of two C variables that are read before they are written.
  Statistics dumps to the log are left out. \<open>None\<close> is an abort, as in the components.
\<close>

record trace_packet =
  tp_sec :: u64
  tp_usec :: u64
  tp_link :: linktype
  tp_caplen :: u64
  tp_buf :: bytes

record 's trace_ops =
  trace_read_packet :: "'s \<Rightarrow> 's \<times> int"
  trace_packet_of :: "'s \<Rightarrow> trace_packet"
  trace_is_err :: "'s \<Rightarrow> bool"

text \<open>The statistics record: what the meter puts into it and what it takes from its surroundings (the
  start time, the capture library's drop count, the address of the host and the observation
  domain).\<close>

record yfIpfixStats =
  systemInitTimeMilliseconds :: u64
  exportedFlowTotalCount :: u64
  packetTotalCount :: u64
  droppedPacketTotalCount :: u64
  ignoredPacketTotalCount :: u64
  notSentPacketTotalCount :: u64
  expiredFragmentCount :: u32
  assembledFragmentCount :: u32
  flowTableFlushEvents :: u32
  flowTablePeakCount :: u32
  exporterIPv4Address :: u32
  exportingProcessId :: u32

record 'w out_ops =
  out_open :: "'w \<Rightarrow> 'w \<times> bool"
  out_close :: "'w \<Rightarrow> bool \<Rightarrow> 'w"
  out_flow :: "'w writer"
  out_stats :: "'w \<Rightarrow> yfIpfixStats \<Rightarrow> 'w \<times> bool"
  out_templates :: "'w \<Rightarrow> 'w \<times> bool"
  out_emit :: "'w \<Rightarrow> 'w \<times> bool"

record ('t, 'g, 'r, 'w, 's) qf_env =
  e_flow :: "'t flow_ops"
  e_frag :: "'g frag_ops"
  e_sort :: frag_sort
  e_random :: "'r rng"
  e_out :: "'w out_ops"
  e_trace :: "'s trace_ops"
  e_quit :: "nat \<Rightarrow> bool"
  e_fraginfo :: yfIPFragInfo
  e_trv :: int
  e_start_time :: u64
  e_dropped :: u64
  e_host_ip :: u32
  e_odid :: u32

record ('g, 'r) qf_front =
  fr_dectx :: yfDecodeCtx
  fr_fragtab :: "'g yfFragTab option"
  fr_detune :: "qofDetune option"
  fr_rng :: 'r
  fr_pbufs :: "nat \<Rightarrow> yfPBuf"

record ('t, 'g, 'r, 'w, 's) qfContext =
  cx_front :: "('g, 'r) qf_front"
  cx_flowtab :: "'t yfFlowTab"
  cx_pbufring :: rgaRing
  cx_fbuf :: bool
  cx_template_rtx_period :: u32
  cx_template_rtx_last :: u64
  cx_rotate_period :: u32
  cx_rotate_last :: u64
  cx_stats_period :: u32
  cx_stats_last :: u64
  cx_out :: 'w
  cx_trace :: 's
  cx_polls :: nat
  cx_err :: bool

text \<open>The error pointer of the context is a flag: a call that fails sets it, and nothing in the loop clears it.\<close>

definition note_error :: "bool \<Rightarrow> ('t, 'g, 'r, 'w, 's) qfContext \<Rightarrow> ('t, 'g, 'r, 'w, 's) qfContext" where
  "note_error ok cx = (if ok then cx else cx\<lparr>cx_err := True\<rparr>)"

lemma note_error_simps [simp]:
  "note_error True cx = cx" "cx_front (note_error ok cx) = cx_front cx" "cx_flowtab (note_error ok cx) = cx_flowtab cx"
  "cx_pbufring (note_error ok cx) = cx_pbufring cx" "cx_fbuf (note_error ok cx) = cx_fbuf cx"
  "cx_out (note_error ok cx) = cx_out cx" "cx_trace (note_error ok cx) = cx_trace cx"
  "cx_polls (note_error ok cx) = cx_polls cx" "cx_err (note_error ok cx) = (cx_err cx \<or> \<not> ok)"
  by (simp_all add: note_error_def)

definition TRACE_PACKET_GROUP :: nat where "TRACE_PACKET_GROUP = 32"

subsection \<open>One packet\<close>

text \<open>Decode, detune and reassemble one captured packet into the buffer at an address. The result of
  the reassembly is not looked at: a fragment still waiting is marked by time zero.\<close>

definition trace_detune :: "('t, 'g, 'r, 'w, 's) qf_env \<Rightarrow> ('g, 'r) qf_front \<Rightarrow> addr \<Rightarrow> ('g, 'r) qf_front \<times> bool" where
  "trace_detune env fr a =
     (case fr_detune fr of
        None \<Rightarrow> (fr, True)
      | Some d \<Rightarrow>
          let pbuf = fr_pbufs fr a;
              (d, r, ms, ok) = qfDetunePacket (e_random env) d (fr_rng fr) (pb_ptime pbuf) (ucast (pb_iplen pbuf))
          in (fr\<lparr>fr_detune := Some d, fr_rng := r, fr_pbufs := (fr_pbufs fr)(a := pbuf\<lparr>pb_ptime := ms\<rparr>)\<rparr>, ok))"

definition qfTraceHandlePacket ::
  "('t, 'g, 'r, 'w, 's) qf_env \<Rightarrow> ('g, 'r) qf_front \<Rightarrow> trace_packet \<Rightarrow> addr \<Rightarrow> (('g, 'r) qf_front \<times> bool) option" where
  "qfTraceHandlePacket env fr tp a = do {
     let fraginfo = (if fr_fragtab fr = None then None else Some (e_fraginfo env));
     (ctx, fraginfo, pbuf, ok) \<leftarrow>
       yfDecodeToPBuf (fr_dectx fr) (tp_link tp) (yfDecodeTimeval (tp_sec tp) (tp_usec tp)) (tp_caplen tp)
         (tp_buf tp) fraginfo (fr_pbufs fr a);
     let fr = fr\<lparr>fr_dectx := ctx, fr_pbufs := (fr_pbufs fr)(a := pbuf)\<rparr>;
     if \<not> ok then Some (fr, False)
     else do {
       let (fr, ok) = trace_detune env fr a;
       if \<not> ok then Some (fr, False)
       else case (fraginfo, fr_fragtab fr) of
           (Some fi, Some ft) \<Rightarrow>
             if fi_frag fi \<noteq> 0 then do {
               (ft, fi, pbuf, complete) \<leftarrow> yfDefragPBuf (e_frag env) (e_sort env) ft (Some fi) (fr_pbufs fr a);
               Some (fr\<lparr>fr_fragtab := Some ft, fr_pbufs := (fr_pbufs fr)(a := pbuf)\<rparr>, True)
             }
             else Some (fr, True)
         | _ \<Rightarrow> Some (fr, True)
     }
   }"

subsection \<open>Flushing\<close>

text \<open>The loop over the ring: each buffer that is not marked by time zero goes to the flow table.\<close>

partial_function (option) process_ring ::
  "'t flow_ops \<Rightarrow> (nat \<Rightarrow> yfPBuf) \<Rightarrow> rgaRing \<Rightarrow> 't yfFlowTab \<Rightarrow> (rgaRing \<times> 't yfFlowTab) option" where
  "process_ring ops pbufs ring ft =
     (case rgaNextTail ring of
        (ring, None) \<Rightarrow> Some (ring, ft)
      | (ring, Some a) \<Rightarrow>
          if pb_ptime (pbufs a) = 0 then process_ring ops pbufs ring ft
          else Option.bind (yfFlowPBuf ops ft (pbufs a)) (process_ring ops pbufs ring))"

definition open_output :: "('t, 'g, 'r, 'w, 's) qf_env \<Rightarrow> ('t, 'g, 'r, 'w, 's) qfContext \<Rightarrow> ('t, 'g, 'r, 'w, 's) qfContext" where
  "open_output env cx =
     (if cx_fbuf cx then cx
      else let (w, ok) = out_open (e_out env) (cx_out cx) in cx\<lparr>cx_out := w, cx_fbuf := ok\<rparr>)"

definition close_output ::
  "('t, 'g, 'r, 'w, 's) qf_env \<Rightarrow> bool \<Rightarrow> ('t, 'g, 'r, 'w, 's) qfContext \<Rightarrow> ('t, 'g, 'r, 'w, 's) qfContext" where
  "close_output env flush cx = cx\<lparr>cx_out := out_close (e_out env) (cx_out cx) flush\<rparr>"

definition flush_table ::
  "('t, 'g, 'r, 'w, 's) qf_env \<Rightarrow> bool \<Rightarrow> ('t, 'g, 'r, 'w, 's) qfContext \<Rightarrow> (('t, 'g, 'r, 'w, 's) qfContext \<times> bool) option" where
  "flush_table env close cx =
     map_option (\<lambda>(ft, w, ok). (cx\<lparr>cx_flowtab := ft, cx_out := w\<rparr>, ok))
       (yfFlowTabFlush (e_flow env) (out_flow (e_out env)) (cx_flowtab cx) (cx_out cx) close)"

text \<open>Closing the output file when its rotation is due; \<open>reopen\<close> is what \<open>yfProcessPBufRing\<close> does
  and \<open>yfTimeOutFlush\<close> does not.\<close>

definition rotate_output ::
  "('t, 'g, 'r, 'w, 's) qf_env \<Rightarrow> bool \<Rightarrow> ('t, 'g, 'r, 'w, 's) qfContext \<Rightarrow> ('t, 'g, 'r, 'w, 's) qfContext \<times> bool" where
  "rotate_output env reopen cx =
     (if cx_rotate_period cx \<noteq> 0 then
        let cur_time = yfFlowTabCurrentTime (cx_flowtab cx)
        in if cx_rotate_last cx \<noteq> 0 then
             if ucast (cx_rotate_period cx) < cur_time - cx_rotate_last cx then
               let cx = (close_output env True cx)\<lparr>cx_fbuf := False, cx_rotate_last := cur_time\<rparr>;
                   cx = (if reopen then open_output env cx else cx)
               in (cx, reopen \<longrightarrow> cx_fbuf cx)
             else (cx, True)
           else (cx\<lparr>cx_rotate_last := cur_time\<rparr>, True)
      else (cx, True))"

definition yfProcessPBufRing ::
  "('t, 'g, 'r, 'w, 's) qf_env \<Rightarrow> ('t, 'g, 'r, 'w, 's) qfContext \<Rightarrow> (('t, 'g, 'r, 'w, 's) qfContext \<times> bool) option" where
  "yfProcessPBufRing env cx = do {
     let cx = open_output env cx;
     if \<not> cx_fbuf cx then Some (cx, False)
     else do {
       (ring, ft) \<leftarrow> process_ring (e_flow env) (fr_pbufs (cx_front cx)) (cx_pbufring cx) (cx_flowtab cx);
       (cx, ok) \<leftarrow> flush_table env False (cx\<lparr>cx_pbufring := ring, cx_flowtab := ft\<rparr>);
       if \<not> ok then Some (cx, False) else Some (rotate_output env True cx)
     }
   }"

definition yfTimeOutFlush ::
  "('t, 'g, 'r, 'w, 's) qf_env \<Rightarrow> ('t, 'g, 'r, 'w, 's) qfContext \<Rightarrow> (('t, 'g, 'r, 'w, 's) qfContext \<times> bool) option" where
  "yfTimeOutFlush env cx = do {
     let cx = open_output env cx;
     if \<not> cx_fbuf cx then Some (cx, False)
     else do {
       (cx, ok) \<leftarrow> flush_table env False cx;
       if \<not> ok then Some (cx, False)
       else
         let (w, ok) = out_emit (e_out env) (cx_out cx); cx = cx\<lparr>cx_out := w\<rparr>
         in if \<not> ok then Some (cx, False) else Some (rotate_output env False cx)
     }
   }"

text \<open>The statistics record is filled from the two tables and the decoder; without an output nothing is
  written. Preparing the templates is part of the output's operation.\<close>

definition yfWriteStatsRec :: "('t, 'g, 'r, 'w, 's) qf_env \<Rightarrow> ('t, 'g, 'r, 'w, 's) qfContext \<Rightarrow> ('t, 'g, 'r, 'w, 's) qfContext \<times> bool" where
  "yfWriteStatsRec env cx =
     (let (pkts, flows, seqrej, peak, flushes) = yfGetFlowTabStats (cx_flowtab cx);
          (expired, assembled) =
            (case fr_fragtab (cx_front cx) of Some ft \<Rightarrow> yfGetFragTabStats ft | None \<Rightarrow> (0, 0));
          rec = \<lparr>systemInitTimeMilliseconds = e_start_time env, exportedFlowTotalCount = flows,
                 packetTotalCount = pkts, droppedPacketTotalCount = e_dropped env,
                 ignoredPacketTotalCount = ucast (yfDecodeUndecodedCount (fr_dectx (cx_front cx))),
                 notSentPacketTotalCount = seqrej, expiredFragmentCount = expired,
                 assembledFragmentCount = assembled, flowTableFlushEvents = flushes,
                 flowTablePeakCount = peak, exporterIPv4Address = e_host_ip env,
                 exportingProcessId = e_odid env\<rparr>
      in if \<not> cx_fbuf cx then (cx, False)
         else let (w, ok) = out_stats (e_out env) (cx_out cx) rec in (cx\<lparr>cx_out := w\<rparr>, ok))"

definition yfFinalFlush ::
  "('t, 'g, 'r, 'w, 's) qf_env \<Rightarrow> ('t, 'g, 'r, 'w, 's) qfContext \<Rightarrow> bool \<Rightarrow> (('t, 'g, 'r, 'w, 's) qfContext \<times> bool) option" where
  "yfFinalFlush env cx ok =
     (if cx_fbuf cx then
        if ok then do {
          (cx, frv) \<leftarrow> flush_table env True cx;
          let (cx, srv) = (if cx_stats_period cx \<noteq> 0 then yfWriteStatsRec env cx else (cx, True));
          Some (note_error (frv \<and> srv) (close_output env True cx), frv \<and> srv)
        }
        else Some (close_output env False cx, False)
      else Some (cx, ok))"

subsection \<open>The loop\<close>

text \<open>Statistics and templates are exported when their periods have passed; the caller ignores the
  result, and the error stays set. A failed statistics record leaves the templates alone.\<close>

definition qfTracePeriodicExport ::
  "('t, 'g, 'r, 'w, 's) qf_env \<Rightarrow> ('t, 'g, 'r, 'w, 's) qfContext \<Rightarrow> u64 \<Rightarrow> ('t, 'g, 'r, 'w, 's) qfContext \<times> bool" where
  "qfTracePeriodicExport env cx ctime =
     (let (cx, ok) =
        (if cx_stats_period cx \<noteq> 0 \<and> ucast (cx_stats_period cx) \<le> ctime - cx_stats_last cx then
           let (cx, ok) = yfWriteStatsRec env cx in (if ok then cx\<lparr>cx_stats_last := ctime\<rparr> else cx, ok)
         else (cx, True))
      in if \<not> ok then (cx, False)
         else if cx_template_rtx_period cx \<noteq> 0 \<and>
                 ucast (cx_template_rtx_period cx) \<le> ctime - cx_template_rtx_last cx then
           let (w, ok) = out_templates (e_out env) (cx_out cx); cx = cx\<lparr>cx_out := w\<rparr>
           in (if ok then cx\<lparr>cx_template_rtx_last := ctime\<rparr> else cx, ok)
         else (cx, True))"

definition yaf_quit ::
  "('t, 'g, 'r, 'w, 's) qf_env \<Rightarrow> ('t, 'g, 'r, 'w, 's) qfContext \<Rightarrow> bool \<times> ('t, 'g, 'r, 'w, 's) qfContext" where
  "yaf_quit env cx = (e_quit env (cx_polls cx), cx\<lparr>cx_polls := cx_polls cx + 1\<rparr>)"

text \<open>Reading packets into one buffer until one is accepted or the trace ends.\<close>

partial_function (option) trace_fill ::
  "('t, 'g, 'r, 'w, 's) qf_env \<Rightarrow> addr \<Rightarrow> ('t, 'g, 'r, 'w, 's) qfContext \<Rightarrow> (('t, 'g, 'r, 'w, 's) qfContext \<times> int) option" where
  "trace_fill env a cx =
     (let (s, trv) = trace_read_packet (e_trace env) (cx_trace cx); cx = cx\<lparr>cx_trace := s\<rparr>
      in if trv \<le> 0 then Some (cx, trv)
         else Option.bind (qfTraceHandlePacket env (cx_front cx) (trace_packet_of (e_trace env) s) a)
           (\<lambda>(fr, ok). let cx = cx\<lparr>cx_front := fr\<rparr> in if ok then Some (cx, trv) else trace_fill env a cx))"

text \<open>Filling a group: the number is what is left of \<open>TRACE_PACKET_GROUP - i\<close>.\<close>

fun trace_group ::
  "('t, 'g, 'r, 'w, 's) qf_env \<Rightarrow> nat \<Rightarrow> ('t, 'g, 'r, 'w, 's) qfContext \<Rightarrow> int \<Rightarrow>
   (('t, 'g, 'r, 'w, 's) qfContext \<times> int) option" where
  "trace_group env 0 cx trv = Some (cx, trv)"
| "trace_group env (Suc k) cx trv =
     (let (quit, cx) = yaf_quit env cx
      in if quit then Some (cx, trv)
         else case rgaNextHead (cx_pbufring cx) of
             (ring, None) \<Rightarrow> None
           | (ring, Some a) \<Rightarrow> do {
               (cx, trv) \<leftarrow> trace_fill env a (cx\<lparr>cx_pbufring := ring\<rparr>);
               if trv \<le> 0 then Some (cx, trv) else trace_group env k cx trv
             })"

partial_function (option) trace_loop ::
  "('t, 'g, 'r, 'w, 's) qf_env \<Rightarrow> ('t, 'g, 'r, 'w, 's) qfContext \<Rightarrow> int \<Rightarrow> (('t, 'g, 'r, 'w, 's) qfContext \<times> bool) option" where
  "trace_loop env cx trv =
     (let (quit, cx) = yaf_quit env cx
      in if quit then Some (cx, True)
         else Option.bind (trace_group env TRACE_PACKET_GROUP cx trv) (\<lambda>(cx, trv).
           if trace_is_err (e_trace env) (cx_trace cx) then Some (cx, False)
           else
             let (quit, cx) = yaf_quit env cx
             in if quit \<or> trv = 0 then Some (cx, True)
                else Option.bind (yfProcessPBufRing env cx) (\<lambda>(cx, ok).
                  if \<not> ok then Some (note_error False cx, False)
                  else
                    let (cx, ok) = qfTracePeriodicExport env cx (yfFlowTabCurrentTime (cx_flowtab cx))
                    in trace_loop env (note_error ok cx) trv)))"

definition qfTraceMain ::
  "('t, 'g, 'r, 'w, 's) qf_env \<Rightarrow> ('t, 'g, 'r, 'w, 's) qfContext \<Rightarrow> (('t, 'g, 'r, 'w, 's) qfContext \<times> bool) option" where
  "qfTraceMain env cx = do {
     (cx, ok) \<leftarrow> trace_loop env cx (e_trv env);
     yfFinalFlush env cx ok
   }"

end
