(* ===== verification/IfMap.thy ===== *)
theory IfMap
  imports PacketTypes "HOL-Library.List_Lexorder"
begin

text \<open>
  The interface map and the list of internal networks of \<open>src/qofifmap.c\<close>: sorted arrays of
  address ranges, searched by bisection. An array with its size is a list. An IPv6 address is a list
  of sixteen octets and \<open>qfIp6Compare\<close> the sign of \<open>memcmp\<close>.

  Where the code is undefined the model says so: \<open>qfPrefixMask6\<close> writes past its buffer for prefixes
  longer than 135 bits, which is the result \<open>None\<close>; the insertion shifts the array with \<open>memcpy\<close>,
  which is undefined for overlapping blocks, that is, as soon as two elements move. What it then leaves
  in the moved cells is the parameter \<open>mc\<close>, of which nothing is assumed: the lookup theorems are about networks
  added in an order in which at most one element ever moves (\<open>nearly_ascending\<close>), where the blocks do not overlap, and
  hold for every \<open>mc\<close>. \<open>exit\<close> on a failed \<open>realloc\<close> and the dump functions are left out.

  The locale \<open>prefix_map\<close> is the contract of a searched range array; both address families provide
  it, and the lookup theorems are proved in it once.
\<close>

record qfIfMapEntry4 =
  e4_a :: u32
  e4_b :: u32
  e4_ifnum :: u8

record qfIfMapEntry6 =
  e6_a :: "u8 list"
  e6_b :: "u8 list"
  e6_ifnum :: u8

record qfIfMap =
  src4map :: "qfIfMapEntry4 list"
  dst4map :: "qfIfMapEntry4 list"
  src6map :: "qfIfMapEntry6 list"
  dst6map :: "qfIfMapEntry6 list"

record qfNetList =
  ip4map :: "qfIfMapEntry4 list"
  ip6map :: "qfIfMapEntry6 list"

datatype qfNetDirection = QF_DIR_IN | QF_DIR_OUT | QF_DIR_EXT | QF_DIR_INT

subsection \<open>Addresses and masks\<close>

fun memcmp :: "u8 list \<Rightarrow> u8 list \<Rightarrow> nat \<Rightarrow> int" where
  "memcmp (x # xs) (y # ys) (Suc n) = (if x = y then memcmp xs ys n else if x < y then - 1 else 1)"
| "memcmp xs ys n = 0"

definition qfIp6Compare :: "u8 list \<Rightarrow> u8 list \<Rightarrow> int" where
  "qfIp6Compare a b = memcmp a b 16"

definition qfPrefixMask4 :: "u8 \<Rightarrow> u32" where
  "qfPrefixMask4 p = ((\<lambda>v. drop_bit 1 v OR 0x80000000) ^^ unat p) 0"

definition qfPrefixMask6 :: "u8 \<Rightarrow> u8 list option" where
  "qfPrefixMask6 p =
     (let i = unat p div 8
      in if 16 < i then None
         else let mask = replicate i 0xff @ replicate (16 - i) 0
              in Some (if i < 16
                       then mask[i := ((\<lambda>v. drop_bit 1 v OR 0x80) ^^ (unat p mod 8)) (mask ! i)]
                       else mask))"

definition qfIp6BitInvert :: "u8 list \<Rightarrow> u8 list" where
  "qfIp6BitInvert addr = map (\<lambda>v. NOT v) addr"

definition qfIp6BitAnd :: "u8 list \<Rightarrow> u8 list \<Rightarrow> u8 list" where
  "qfIp6BitAnd a b = map2 (AND) a b"

definition qfIp6BitOr :: "u8 list \<Rightarrow> u8 list \<Rightarrow> u8 list" where
  "qfIp6BitOr a b = map2 (OR) a b"

subsection \<open>Searching\<close>

text \<open>The bisection loop: the bounds are \<open>ssize_t\<close> and may become \<open>-1\<close>. The result is the entry
  found; outside it is \<open>None\<close> for an access out of the array.\<close>

function bisect :: "('e \<Rightarrow> bool) \<Rightarrow> ('e \<Rightarrow> bool) \<Rightarrow> 'e list \<Rightarrow> int \<Rightarrow> int \<Rightarrow> 'e option option" where
  "bisect hit below m x y =
     (if y < x then Some None
      else
        let i = (x + y) div 2
        in if i < 0 \<or> int (length m) \<le> i then None
           else if hit (m ! nat i) then Some (Some (m ! nat i))
           else if below (m ! nat i) then bisect hit below m (i + 1) y
           else bisect hit below m x (i - 1))"
  by pat_completeness auto

termination bisect
  by (relation "measure (\<lambda>(hit, below, m, x, y). nat (y - x + 1))") auto

declare bisect.simps [simp del]

definition qfMapSearch4 :: "qfIfMapEntry4 list \<Rightarrow> u32 \<Rightarrow> u8 option" where
  "qfMapSearch4 m addr =
     map_option (\<lambda>r. case r of Some e \<Rightarrow> e4_ifnum e | None \<Rightarrow> 0)
       (bisect (\<lambda>e. e4_a e \<le> addr \<and> addr \<le> e4_b e) (\<lambda>e. e4_b e < addr) m 0 (int (length m) - 1))"

definition qfMapSearch6 :: "qfIfMapEntry6 list \<Rightarrow> u8 list \<Rightarrow> u8 option" where
  "qfMapSearch6 m addr =
     map_option (\<lambda>r. case r of Some e \<Rightarrow> e6_ifnum e | None \<Rightarrow> 0)
       (bisect (\<lambda>e. - 1 < qfIp6Compare addr (e6_a e) \<and> qfIp6Compare addr (e6_b e) < 1)
         (\<lambda>e. qfIp6Compare (e6_a e) addr < 0) m 0 (int (length m) - 1))"

subsection \<open>Inserting\<close>

text \<open>The insertion point: \<open>before\<close> says that the address is below an entry, \<open>past\<close> and \<open>after\<close>
  that it is above, as the code tests it at the end of the array and inside. The scan is the loop from index 1.\<close>

fun ins_scan :: "('e \<Rightarrow> bool) \<Rightarrow> ('e \<Rightarrow> bool) \<Rightarrow> nat \<Rightarrow> 'e list \<Rightarrow> nat" where
  "ins_scan before after i (e # f # m) =
     (if after e \<and> before f then i else ins_scan before after (Suc i) (f # m))"
| "ins_scan before after i m = i"

definition ins_point :: "('e \<Rightarrow> bool) \<Rightarrow> ('e \<Rightarrow> bool) \<Rightarrow> ('e \<Rightarrow> bool) \<Rightarrow> 'e list \<Rightarrow> nat" where
  "ins_point before past after m =
     (if m = [] \<or> before (hd m) then 0
      else if past (last m) then length m
      else ins_scan before after 1 m)"

text \<open>Shifting up the elements from the insertion point and storing the new one.\<close>

type_synonym 'e mover = "nat \<Rightarrow> 'e list \<Rightarrow> 'e list"

definition ins_at :: "'e mover \<Rightarrow> nat \<Rightarrow> 'e \<Rightarrow> 'e list \<Rightarrow> 'e list" where
  "ins_at mc i e m = take i m @ [e] @ (if length m - i \<le> 1 then drop i m else mc i m)"

definition qfMapInsert4 :: "qfIfMapEntry4 mover \<Rightarrow> qfIfMapEntry4 list \<Rightarrow> u32 \<Rightarrow> u8 \<Rightarrow> u8 \<Rightarrow> qfIfMapEntry4 list" where
  "qfMapInsert4 mc m addr pfx ifnum =
     (let i = ins_point (\<lambda>e. addr < e4_a e) (\<lambda>e. e4_b e < addr) (\<lambda>e. e4_b e < addr) m;
          mask = qfPrefixMask4 pfx
      in ins_at mc i \<lparr>e4_a = addr AND mask, e4_b = addr OR NOT mask, e4_ifnum = ifnum\<rparr> m)"

definition qfMapInsert6 ::
  "qfIfMapEntry6 mover \<Rightarrow> qfIfMapEntry6 list \<Rightarrow> u8 list \<Rightarrow> u8 \<Rightarrow> u8 \<Rightarrow> qfIfMapEntry6 list option" where
  "qfMapInsert6 mc m addr pfx ifnum =
     (let i = ins_point (\<lambda>e. qfIp6Compare addr (e6_a e) < 0) (\<lambda>e. 0 < qfIp6Compare addr (e6_b e))
                (\<lambda>e. qfIp6Compare (e6_b e) addr < 0) m
      in map_option (\<lambda>mask.
           ins_at mc i \<lparr>e6_a = qfIp6BitAnd addr mask, e6_b = qfIp6BitOr addr (qfIp6BitInvert mask), e6_ifnum = ifnum\<rparr> m)
           (qfPrefixMask6 pfx))"

subsection \<open>The map and the network list\<close>

definition qfIfMapInit :: qfIfMap where
  "qfIfMapInit = \<lparr>src4map = [], dst4map = [], src6map = [], dst6map = []\<rparr>"

definition qfIfMapAddIPv4Mapping :: "qfIfMapEntry4 mover \<Rightarrow> qfIfMap \<Rightarrow> u32 \<Rightarrow> u8 \<Rightarrow> u8 \<Rightarrow> u8 \<Rightarrow> qfIfMap" where
  "qfIfMapAddIPv4Mapping mc mp addr pfx ingress egress =
     (let mp = (if ingress \<noteq> 0 then mp\<lparr>src4map := qfMapInsert4 mc (src4map mp) addr pfx ingress\<rparr> else mp)
      in if egress \<noteq> 0 then mp\<lparr>dst4map := qfMapInsert4 mc (dst4map mp) addr pfx egress\<rparr> else mp)"

definition qfIfMapAddIPv6Mapping :: "qfIfMapEntry6 mover \<Rightarrow> qfIfMap \<Rightarrow> u8 list \<Rightarrow> u8 \<Rightarrow> u8 \<Rightarrow> u8 \<Rightarrow> qfIfMap option" where
  "qfIfMapAddIPv6Mapping mc mp addr pfx ingress egress =
     Option.bind (if ingress \<noteq> 0 then map_option (\<lambda>m. mp\<lparr>src6map := m\<rparr>) (qfMapInsert6 mc (src6map mp) addr pfx ingress)
                  else Some mp)
       (\<lambda>mp. if egress \<noteq> 0 then map_option (\<lambda>m. mp\<lparr>dst6map := m\<rparr>) (qfMapInsert6 mc (dst6map mp) addr pfx egress)
              else Some mp)"

definition qfIfMapAddresses :: "qfIfMap \<Rightarrow> yfFlowKey \<Rightarrow> (u8 \<times> u8) option" where
  "qfIfMapAddresses mp key =
     (if k_version key = 4 then
        Option.bind (qfMapSearch4 (src4map mp) (k_sip4 key)) (\<lambda>ingress.
        map_option (Pair ingress) (qfMapSearch4 (dst4map mp) (k_dip4 key)))
      else if k_version key = 6 then
        Option.bind (qfMapSearch6 (src6map mp) (k_sip6 key)) (\<lambda>ingress.
        map_option (Pair ingress) (qfMapSearch6 (dst6map mp) (k_dip6 key)))
      else Some (0, 0))"

definition qfNetListAddIPv4 :: "qfIfMapEntry4 mover \<Rightarrow> qfNetList \<Rightarrow> u32 \<Rightarrow> u8 \<Rightarrow> qfNetList" where
  "qfNetListAddIPv4 mc list addr pfx = list\<lparr>ip4map := qfMapInsert4 mc (ip4map list) addr pfx 1\<rparr>"

definition qfNetListAddIPv6 :: "qfIfMapEntry6 mover \<Rightarrow> qfNetList \<Rightarrow> u8 list \<Rightarrow> u8 \<Rightarrow> qfNetList option" where
  "qfNetListAddIPv6 mc list addr pfx =
     map_option (\<lambda>m. list\<lparr>ip6map := m\<rparr>) (qfMapInsert6 mc (ip6map list) addr pfx 1)"

definition qfFlowDirection :: "qfNetList \<Rightarrow> yfFlowKey \<Rightarrow> qfNetDirection option" where
  "qfFlowDirection srclist key =
     Option.bind
       (if k_version key = 4 then
          Option.bind (qfMapSearch4 (ip4map srclist) (k_sip4 key)) (\<lambda>ss.
          map_option (Pair ss) (qfMapSearch4 (ip4map srclist) (k_dip4 key)))
        else if k_version key = 6 then
          Option.bind (qfMapSearch6 (ip6map srclist) (k_sip6 key)) (\<lambda>ss.
          map_option (Pair ss) (qfMapSearch6 (ip6map srclist) (k_dip6 key)))
        else Some (0, 0))
       (\<lambda>(ss, ds). Some (if ss \<noteq> 0 \<and> ds \<noteq> 0 then QF_DIR_INT else if ss \<noteq> 0 then QF_DIR_IN
          else if ds \<noteq> 0 then QF_DIR_OUT else QF_DIR_EXT))"

subsection \<open>Sorted arrays of ranges\<close>

text \<open>Entries that are ranges, in ascending order and disjoint.\<close>

definition ranges_ok :: "('e \<Rightarrow> 'k :: linorder) \<Rightarrow> ('e \<Rightarrow> 'k) \<Rightarrow> 'e list \<Rightarrow> bool" where
  "ranges_ok lo hi m \<longleftrightarrow> (\<forall>e \<in> set m. lo e \<le> hi e) \<and> sorted_wrt (\<lambda>e f. hi e < lo f) m"

lemma ranges_nth:
  assumes "ranges_ok lo hi m" "i < j" "j < length m"
  shows "hi (m ! i) < lo (m ! j)"
  using assms by (auto simp: ranges_ok_def sorted_wrt_iff_nth_less)

lemma bisect_ok:
  assumes r: "ranges_ok lo hi m"
    and hit: "\<And>e. e \<in> set m \<Longrightarrow> hit e \<longleftrightarrow> lo e \<le> k \<and> k \<le> hi e"
    and below: "\<And>e. e \<in> set m \<Longrightarrow> \<not> hit e \<Longrightarrow> below e \<longleftrightarrow> hi e < k"
  shows "\<lbrakk>0 \<le> x; y < int (length m); \<forall>j < length m. hit (m ! j) \<longrightarrow> x \<le> int j \<and> int j \<le> y\<rbrakk> \<Longrightarrow>
    bisect hit below m x y = Some (find hit m)"
proof (induction "nat (y - x + 1)" arbitrary: x y rule: less_induct)
  case less
  show ?case
  proof (cases "y < x")
    case True
    then have "\<forall>j < length m. \<not> hit (m ! j)" using less.prems(3) by fastforce
    then have "find hit m = None" by (simp add: find_None_iff in_set_conv_nth) metis
    then show ?thesis using True by (subst bisect.simps) simp
  next
    case False
    define i where "i = (x + y) div 2"
    have i: "0 \<le> i" "x \<le> i" "i \<le> y" "i < int (length m)" using False less.prems(1,2) by (auto simp: i_def)
    define e where "e = m ! nat i"
    have e: "e \<in> set m" using i by (simp add: e_def)
    have le: "lo e \<le> hi e" using r e by (simp add: ranges_ok_def)
    have b: "bisect hit below m x y = (if hit e then Some (Some e)
        else if below e then bisect hit below m (i + 1) y else bisect hit below m x (i - 1))"
      using False i by (subst bisect.simps) (simp add: i_def [symmetric] e_def Let_def)
    have up: "lo e < lo (m ! j)" "hi e < lo (m ! j)" if "nat i < j" "j < length m" for j
      using ranges_nth [OF r that] le by (auto simp: e_def)
    have dn: "hi (m ! j) < lo e" if "j < nat i" for j
      using ranges_nth [OF r that] i by (simp add: e_def)
    show ?thesis
    proof (cases "hit e")
      case h: True
      have "\<not> hit (m ! j)" if "j < nat i" for j
        using dn [OF that] hit [of "m ! j"] hit [OF e] h that i by (auto simp: nth_mem)
      then have "find hit m = Some e" using h i by (auto simp: find_Some_iff e_def intro!: exI [of _ "nat i"])
      then show ?thesis using b h by simp
    next
      case nh: False
      show ?thesis
      proof (cases "below e")
        case True
        then have lt: "hi e < k" using below [OF e nh] by simp
        have "int j > i" if "hit (m ! j)" "j < length m" for j
        proof (rule ccontr)
          assume "\<not> i < int j"
          then have "j \<le> nat i" by simp
          moreover have "j \<noteq> nat i" using that nh by (auto simp: e_def)
          ultimately have "hi (m ! j) < lo e" by (intro dn) simp
          then show False using hit [of "m ! j"] that lt le by (auto simp: nth_mem)
        qed
        then have "bisect hit below m (i + 1) y = Some (find hit m)"
          using less.prems i by (intro less.hyps) force+
        then show ?thesis using b nh True by simp
      next
        case nb: False
        then have lt: "k < lo e" using below [OF e nh] nh hit [OF e] by force
        have "int j < i" if "hit (m ! j)" "j < length m" for j
        proof (rule ccontr)
          assume "\<not> int j < i"
          then have "nat i \<le> j" by simp
          moreover have "j \<noteq> nat i" using that nh by (auto simp: e_def)
          ultimately have "lo e < lo (m ! j)" using that by (intro up) simp_all
          then show False using hit [of "m ! j"] that lt by (auto simp: nth_mem)
        qed
        then have "bisect hit below m x (i - 1) = Some (find hit m)"
          using less.prems i by (intro less.hyps) force+
        then show ?thesis using b nh nb by simp
      qed
    qed
  qed
qed

text \<open>The insertion point splits the array at the address.\<close>

lemma ins_scan_after:
  "\<lbrakk>after e; \<forall>f \<in> set m. before f \<longleftrightarrow> \<not> after f\<rbrakk> \<Longrightarrow> ins_scan before after i (e # m) = i + length (takeWhile after m)"
  by (induction m arbitrary: e i) auto

lemma ins_point_split:
  assumes "\<forall>f \<in> set m. before f \<longleftrightarrow> \<not> after f" "\<forall>f \<in> set m. past f \<longleftrightarrow> after f"
    "sorted_wrt (\<lambda>f g. after g \<longrightarrow> after f) m"
  shows "ins_point before past after m = length (takeWhile after m)"
proof (cases m)
  case (Cons e m')
  have "after (last m) \<Longrightarrow> \<forall>f \<in> set m. after f"
  proof
    fix f assume l: "after (last m)" and f: "f \<in> set m"
    have "m = butlast m @ [last m]" using Cons by simp
    then have "sorted_wrt (\<lambda>f g. after g \<longrightarrow> after f) (butlast m @ [last m])" using assms(3) by simp
    then have "\<forall>f \<in> set (butlast m). after f" using l by (simp add: sorted_wrt_append)
    then show "after f" using f l by (metis in_set_butlastD in_set_conv_decomp last_snoc rotate1.simps(2) set_ConsD set_rotate1 \<open>m = butlast m @ [last m]\<close>)
  qed
  then have tw: "takeWhile after m = m" if "after (last m)" using that by (simp add: takeWhile_eq_all_conv)
  have e: "e \<in> set m" "last m \<in> set m" using Cons by simp_all
  show ?thesis
  proof (cases "after (last m)")
    case True
    then have "after e" using tw e(1) set_takeWhileD by metis
    then have "\<not> before e" "past (last m)" "m \<noteq> []" "hd m = e" using assms(1,2) e True Cons by auto
    then show ?thesis using tw [OF True] by (simp only: ins_point_def if_True if_False simp_thms)
  next
    case False
    then show ?thesis using assms(1,2) e Cons ins_scan_after [of after e m' before 1] by (auto simp: ins_point_def)
  qed
qed (simp add: ins_point_def)

definition apart :: "('e \<Rightarrow> 'k :: linorder) \<Rightarrow> ('e \<Rightarrow> 'k) \<Rightarrow> 'e \<Rightarrow> 'e \<Rightarrow> bool" where
  "apart lo hi e f \<longleftrightarrow> hi e < lo f \<or> hi f < lo e"

lemma dropWhile_down: "sorted_wrt (\<lambda>f g. P g \<longrightarrow> P f) m \<Longrightarrow> f \<in> set (dropWhile P m) \<Longrightarrow> \<not> P f"
  by (induction m) (auto split: if_splits)

lemma insert_ranges:
  assumes r: "ranges_ok lo hi m" and a: "\<forall>f \<in> set m. apart lo hi e f" and k: "lo e \<le> k" "k \<le> hi e"
    and t: "\<forall>f \<in> set m. (before f \<longleftrightarrow> k < lo f) \<and> (past f \<longleftrightarrow> hi f < k) \<and> (after f \<longleftrightarrow> hi f < k)"
    and few: "length (filter (\<lambda>f. k < lo f) m) \<le> 1"
  shows "ranges_ok lo hi (ins_at mc (ins_point before past after m) e m)"
    "set (ins_at mc (ins_point before past after m) e m) = insert e (set m)"
proof -
  have le: "lo f \<le> hi f" if "f \<in> set m" for f using r that by (simp add: ranges_ok_def)
  have d: "after f \<longleftrightarrow> hi f < lo e" "before f \<longleftrightarrow> \<not> after f" "\<not> after f \<Longrightarrow> hi e < lo f" if "f \<in> set m" for f
    using that a t k le [OF that] by (auto simp: apart_def)
  have srt: "sorted_wrt (\<lambda>f g. after g \<longrightarrow> after f) m"
  proof (rule sorted_wrt_mono_rel)
    show "sorted_wrt (\<lambda>e f. hi e < lo f) m" using r by (simp add: ranges_ok_def)
    show "after g \<longrightarrow> after f" if "f \<in> set m" "g \<in> set m" "hi f < lo g" for f g
      using d(1) [OF that(1)] d(1) [OF that(2)] that(3) le [OF that(2)] by auto
  qed
  have p: "ins_point before past after m = length (takeWhile after m)"
    using d(2) t srt by (intro ins_point_split) auto
  have td: "take (length (takeWhile after m)) m = takeWhile after m" "drop (length (takeWhile after m)) m = dropWhile after m"
    by (rule takeWhile_eq_take [symmetric], rule dropWhile_eq_drop [symmetric])
  have lt: "k < lo f" if "f \<in> set (dropWhile after m)" for f
    using dropWhile_down [OF srt that] d(2) [OF set_dropWhileD [OF that]] t set_dropWhileD [OF that] by blast
  have "filter (\<lambda>f. k < lo f) (takeWhile after m @ dropWhile after m) =
      filter (\<lambda>f. k < lo f) (takeWhile after m) @ dropWhile after m"
    unfolding filter_append using lt by (simp add: filter_id_conv)
  then have "length (dropWhile after m) \<le> 1" using few by (simp only: takeWhile_dropWhile_id length_append)
  then have "length m - length (takeWhile after m) \<le> 1"
    using length_append [of "takeWhile after m" "dropWhile after m"] unfolding takeWhile_dropWhile_id by arith
  then have i: "ins_at mc (ins_point before past after m) e m = takeWhile after m @ e # dropWhile after m"
    by (simp add: ins_at_def p td)
  have "set m = set (takeWhile after m) \<union> set (dropWhile after m)"
    using set_append [of "takeWhile after m" "dropWhile after m"] by (simp only: takeWhile_dropWhile_id)
  then show "set (ins_at mc (ins_point before past after m) e m) = insert e (set m)"
    unfolding i by (simp only: set_append list.set) blast
  have lo: "hi f < lo e" if "f \<in> set (takeWhile after m)" for f
    using set_takeWhileD [OF that] d(1) by auto
  have up: "hi e < lo f" if "f \<in> set (dropWhile after m)" for f
    using d(3) [OF set_dropWhileD [OF that]] dropWhile_down [OF srt that] by simp
  have "sorted_wrt (\<lambda>e f. hi e < lo f) (takeWhile after m @ dropWhile after m)" using r by (simp add: ranges_ok_def)
  then have "sorted_wrt (\<lambda>e f. hi e < lo f) (takeWhile after m)" "sorted_wrt (\<lambda>e f. hi e < lo f) (dropWhile after m)"
    by (simp_all only: sorted_wrt_append)
  moreover have "hi f < lo g" if "f \<in> set (takeWhile after m)" "g \<in> set (dropWhile after m)" for f g
    using lo [OF that(1)] up [OF that(2)] k by order
  ultimately show "ranges_ok lo hi (ins_at mc (ins_point before past after m) e m)"
    unfolding i ranges_ok_def using lo up k r
    by (auto simp: sorted_wrt_append ranges_ok_def dest: set_takeWhileD set_dropWhileD)
qed

text \<open>An order of insertion in which at most one of the earlier keys is above the new one, so that at most one
  element moves.\<close>

definition nearly_ascending :: "'k :: linorder list \<Rightarrow> bool" where
  "nearly_ascending ks \<longleftrightarrow> list_all (\<lambda>i. length (filter (\<lambda>k. ks ! i < k) (take i ks)) \<le> 1) [0..<length ks]"

lemma nearly_ascending_snoc:
  "nearly_ascending (ks @ [k]) \<longleftrightarrow> nearly_ascending ks \<and> length (filter (\<lambda>j. k < j) ks) \<le> 1"
  by (auto simp: nearly_ascending_def list_all_iff nth_append)

lemma filter_filter_le: "length (filter Q (filter P xs)) \<le> length (filter Q xs)"
  by (induction xs) auto

lemma nearly_ascending_filter: "nearly_ascending (map f xs) \<Longrightarrow> nearly_ascending (map f (filter P xs))"
proof (induction xs rule: rev_induct)
  case (snoc x xs)
  then show ?case using filter_filter_le [of "\<lambda>y. f x < f y" P xs]
    by (auto simp: nearly_ascending_snoc filter_map o_def)
qed simp

lemma ranges_distinct: "ranges_ok lo hi m \<Longrightarrow> distinct m"
proof (induction m)
  case (Cons e m)
  then show ?case by (auto simp: ranges_ok_def dest: leD)
qed simp

subsection \<open>The contract\<close>

locale prefix_map =
  fixes lo hi :: "'e \<Rightarrow> 'k :: linorder" and num :: "'e \<Rightarrow> u8" and okk :: "'k \<Rightarrow> bool" and oke :: "'e \<Rightarrow> bool"
    and search :: "'e list \<Rightarrow> 'k \<Rightarrow> u8 option" and entry :: "'p \<Rightarrow> 'e" and key :: "'p \<Rightarrow> 'k" and ins :: "'e list \<Rightarrow> 'p \<Rightarrow> 'e list" and okp :: "'p \<Rightarrow> bool"
  assumes search_find: "\<lbrakk>ranges_ok lo hi m; list_all oke m; okk k\<rbrakk> \<Longrightarrow>
      search m k = Some (case find (\<lambda>e. lo e \<le> k \<and> k \<le> hi e) m of Some e \<Rightarrow> num e | None \<Rightarrow> 0)"
    and entry_ok: "okp p \<Longrightarrow> oke (entry p) \<and> lo (entry p) \<le> key p \<and> key p \<le> hi (entry p)"
    and ins_ranges: "\<lbrakk>ranges_ok lo hi m; list_all oke m; okp p; \<forall>f \<in> set m. apart lo hi (entry p) f;
        length (filter (\<lambda>f. key p < lo f) m) \<le> 1\<rbrakk> \<Longrightarrow>
      ranges_ok lo hi (ins m p) \<and> set (ins m p) = insert (entry p) (set m)"
begin

text \<open>After inserting pairwise disjoint ranges in a nearly ascending order, a lookup gives the number of the range
  that contains the key, and zero when none does.\<close>

lemma few_above:
  assumes "list_all okp ps" and "ranges_ok lo hi m" and "set m = entry ` set ps" and "length (filter (\<lambda>q. k < key q) ps) \<le> 1"
  shows "length (filter (\<lambda>f. k < lo f) m) \<le> 1"
proof -
  have "length (filter (\<lambda>f. k < lo f) m) = card (set (filter (\<lambda>f. k < lo f) m))"
    by (rule distinct_card [OF distinct_filter [OF ranges_distinct [OF assms(2)]], symmetric])
  also have "\<dots> \<le> card (entry ` set (filter (\<lambda>q. k < key q) ps))"
    using assms(1,3) entry_ok by (intro card_mono) (fastforce simp: list_all_iff)+
  also have "\<dots> \<le> card (set (filter (\<lambda>q. k < key q) ps))" by (rule card_image_le) simp
  also have "\<dots> \<le> 1" using card_length [of "filter (\<lambda>q. k < key q) ps"] assms(4) by linarith
  finally show ?thesis .
qed

lemma inserts_ok:
  "\<lbrakk>list_all okp ps; sorted_wrt (\<lambda>p q. apart lo hi (entry p) (entry q)) ps; nearly_ascending (map key ps)\<rbrakk> \<Longrightarrow>
   ranges_ok lo hi (foldl ins [] ps) \<and> list_all oke (foldl ins [] ps) \<and> set (foldl ins [] ps) = entry ` set ps"
proof (induction ps rule: rev_induct)
  case Nil
  then show ?case by (simp add: ranges_ok_def)
next
  case (snoc p ps)
  then have ih: "ranges_ok lo hi (foldl ins [] ps)" "list_all oke (foldl ins [] ps)" "set (foldl ins [] ps) = entry ` set ps"
    by (auto simp: sorted_wrt_append nearly_ascending_snoc)
  have "length (filter (\<lambda>f. key p < lo f) (foldl ins [] ps)) \<le> 1"
    using snoc.prems(1,3) by (intro few_above [OF _ ih(1,3)]) (auto simp: nearly_ascending_snoc filter_map o_def)
  moreover have "\<forall>f \<in> set (foldl ins [] ps). apart lo hi (entry p) f"
    using snoc.prems(2) unfolding ih(3) by (auto simp: sorted_wrt_append apart_def)
  ultimately show ?case using ins_ranges [OF ih(1,2), of p] snoc.prems(1) entry_ok [of p] ih(2,3)
    by (auto simp: list_all_iff)
qed

lemma lookup_inserted:
  assumes ps: "list_all okp ps" "sorted_wrt (\<lambda>p q. apart lo hi (entry p) (entry q)) ps" "nearly_ascending (map key ps)"
    and k: "okk k"
  shows "search (foldl ins [] ps) k =
    Some (case find (\<lambda>p. lo (entry p) \<le> k \<and> k \<le> hi (entry p)) ps of Some p \<Rightarrow> num (entry p) | None \<Rightarrow> 0)"
proof -
  let ?m = "foldl ins [] ps" and ?in = "\<lambda>e. lo e \<le> k \<and> k \<le> hi e"
  note ok = inserts_ok [OF ps]
  have uniq: "e = f" if h: "e \<in> set ?m" "f \<in> set ?m" "?in e" "?in f" for e f
  proof -
    obtain i j where "i < length ?m" "j < length ?m" "?m ! i = e" "?m ! j = f" using h(1,2) by (metis in_set_conv_nth)
    then show ?thesis using ranges_nth [of lo hi ?m i j] ranges_nth [of lo hi ?m j i] ok h(3,4)
      by (cases i j rule: linorder_cases) auto
  qed
  have "(case find ?in ?m of Some e \<Rightarrow> num e | None \<Rightarrow> 0) =
      (case find (\<lambda>p. ?in (entry p)) ps of Some p \<Rightarrow> num (entry p) | None \<Rightarrow> 0)"
  proof (cases "find (\<lambda>p. ?in (entry p)) ps")
    case None
    then have "find ?in ?m = None" using ok by (auto simp: find_None_iff)
    then show ?thesis using None by simp
  next
    case (Some p)
    then have p: "p \<in> set ps" "?in (entry p)" by (auto simp: find_Some_iff)
    then have "find ?in ?m \<noteq> None" unfolding find_None_iff using ok by auto
    then obtain f where f: "find ?in ?m = Some f" by blast
    then have "f \<in> set ?m" "?in f" by (auto simp: find_Some_iff)
    then have "f = entry p" using uniq p ok by blast
    then show ?thesis using f Some by simp
  qed
  then show ?thesis using search_find [of ?m k] ok k by simp
qed

end

subsection \<open>IPv4\<close>

lemma prefix_mask4:
  assumes "unat p \<le> 32"
  shows "qfPrefixMask4 p = NOT (mask (32 - unat p))"
proof -
  have "list_all (\<lambda>n. ((\<lambda>v :: u32. drop_bit 1 v OR 0x80000000) ^^ n) 0 = NOT (mask (32 - n))) [0..<33]" by code_simp
  then show ?thesis using assms by (simp add: qfPrefixMask4_def list_all_iff)
qed

text \<open>The range of a prefix is the addresses that agree with it in the leading bits.\<close>

lemma drop_bit_mono: "(x :: 'a :: len word) \<le> y \<Longrightarrow> drop_bit n x \<le> drop_bit n y"
proof -
  have "take_bit LENGTH('a) (unat w) = unat w" for w :: "'a word" by (rule take_bit_nat_eq_self) (rule unsigned_less)
  then show "x \<le> y \<Longrightarrow> ?thesis"
    unfolding word_le_nat_alt unsigned_drop_bit_eq by (simp add: drop_bit_eq_div div_le_mono)
qed

lemma prefix_range:
  fixes a k :: "'a :: len word"
  shows "a AND NOT (mask n) \<le> k \<and> k \<le> a OR mask n \<longleftrightarrow> drop_bit n k = drop_bit n a"
proof
  have d: "drop_bit n (a AND NOT (mask n)) = drop_bit n a"
    by (rule bit_eqI) (auto simp: bit_simps dest: bit_imp_le_length)
  have d': "drop_bit n (a OR mask n) = drop_bit n a" by (rule bit_eqI) (auto simp: bit_simps)
  assume "a AND NOT (mask n) \<le> k \<and> k \<le> a OR mask n"
  then have "drop_bit n a \<le> drop_bit n k" "drop_bit n k \<le> drop_bit n a" using drop_bit_mono d d' by metis+
  then show "drop_bit n k = drop_bit n a" by simp
next
  assume e: "drop_bit n k = drop_bit n a"
  have b: "bit k j = bit a j" if "n \<le> j" for j
    using arg_cong [OF e, of "\<lambda>w. bit w (j - n)"] that by (simp add: bit_simps)
  have "a AND NOT (mask n) = k AND NOT (mask n)" by (rule bit_eqI) (use b in \<open>auto simp: bit_simps\<close>)
  moreover have "a OR mask n = k OR mask n" by (rule bit_eqI) (use b in \<open>auto simp: bit_simps\<close>)
  ultimately show "a AND NOT (mask n) \<le> k \<and> k \<le> a OR mask n" by (simp add: word_and_le2 le_word_or2)
qed

type_synonym rule4 = "u32 \<times> u8 \<times> u8"

definition entry4 :: "rule4 \<Rightarrow> qfIfMapEntry4" where
  "entry4 p = (case p of (addr, pfx, ifnum) \<Rightarrow>
     \<lparr>e4_a = addr AND qfPrefixMask4 pfx, e4_b = addr OR NOT (qfPrefixMask4 pfx), e4_ifnum = ifnum\<rparr>)"

definition insert4 :: "qfIfMapEntry4 mover \<Rightarrow> qfIfMapEntry4 list \<Rightarrow> rule4 \<Rightarrow> qfIfMapEntry4 list" where
  "insert4 mc m p = (case p of (addr, pfx, ifnum) \<Rightarrow> qfMapInsert4 mc m addr pfx ifnum)"

definition in_net4 :: "u32 \<Rightarrow> u8 \<Rightarrow> u32 \<Rightarrow> bool" where
  "in_net4 addr pfx k \<longleftrightarrow> drop_bit (32 - unat pfx) k = drop_bit (32 - unat pfx) addr"

lemma in_entry4:
  assumes "unat pfx \<le> 32"
  shows "e4_a (entry4 (addr, pfx, n)) \<le> k \<and> k \<le> e4_b (entry4 (addr, pfx, n)) \<longleftrightarrow> in_net4 addr pfx k"
  using prefix_range [of addr "32 - unat pfx" k] by (simp add: entry4_def prefix_mask4 [OF assms] in_net4_def)

lemma prefix_map4:
  "prefix_map e4_a e4_b e4_ifnum (\<lambda>k. True) (\<lambda>e. True) qfMapSearch4 entry4 fst (insert4 mc) (\<lambda>p. True)"
proof
  fix m :: "qfIfMapEntry4 list" and k and p :: rule4
  show "ranges_ok e4_a e4_b m \<Longrightarrow>
      qfMapSearch4 m k = Some (case find (\<lambda>e. e4_a e \<le> k \<and> k \<le> e4_b e) m of Some e \<Rightarrow> e4_ifnum e | None \<Rightarrow> 0)"
    unfolding qfMapSearch4_def by (subst bisect_ok [where lo = e4_a and hi = e4_b and k = k]) auto
  obtain addr pfx n where p: "p = (addr, pfx, n)" by (rule prod_cases3)
  have k: "e4_a (entry4 p) \<le> addr" "addr \<le> e4_b (entry4 p)" by (simp_all add: p entry4_def word_and_le2 le_word_or2)
  then show "True \<and> e4_a (entry4 p) \<le> fst p \<and> fst p \<le> e4_b (entry4 p)" by (simp add: p)
  show "ranges_ok e4_a e4_b (insert4 mc m p) \<and> set (insert4 mc m p) = insert (entry4 p) (set m)"
    if "ranges_ok e4_a e4_b m" "\<forall>f \<in> set m. apart e4_a e4_b (entry4 p) f" "length (filter (\<lambda>f. fst p < e4_a f) m) \<le> 1"
    using insert_ranges [OF that(1,2) k _ that(3) [unfolded p fst_conv], of "\<lambda>e. addr < e4_a e" "\<lambda>e. e4_b e < addr" "\<lambda>e. e4_b e < addr"]
    by (simp add: insert4_def qfMapInsert4_def p Let_def entry4_def)
qed

text \<open>Two networks that do not overlap, and rules for which no two networks of a direction do.\<close>

definition nets_apart4 :: "u32 \<times> u8 \<Rightarrow> u32 \<times> u8 \<Rightarrow> bool" where
  "nets_apart4 a b \<longleftrightarrow> \<not> in_net4 (fst a) (min (snd a) (snd b)) (fst b)"

lemma entries_apart4:
  assumes "unat p \<le> 32" "unat q \<le> 32" and "nets_apart4 (a, p) (b, q)"
  shows "apart e4_a e4_b (entry4 (a, p, x)) (entry4 (b, q, y))"
proof (rule ccontr)
  let ?e = "entry4 (a, p, x)" and ?f = "entry4 (b, q, y)"
  assume "\<not> apart e4_a e4_b ?e ?f"
  then have o: "e4_a ?f \<le> e4_b ?e" "e4_a ?e \<le> e4_b ?f" by (simp_all add: apart_def not_less)
  have le: "e4_a ?e \<le> e4_b ?e" "e4_a ?f \<le> e4_b ?f"
    using prefix_map.entry_ok [OF prefix_map4] order_trans by blast+
  define k where "k = max (e4_a ?e) (e4_a ?f)"
  have k: "e4_a ?e \<le> k \<and> k \<le> e4_b ?e" "e4_a ?f \<le> k \<and> k \<le> e4_b ?f" using o le by (simp_all add: k_def)
  have "in_net4 a p k" "in_net4 b q k"
    using k(1) unfolding in_entry4 [OF assms(1)] apply assumption
    using k(2) unfolding in_entry4 [OF assms(2)] by assumption
  then have e: "drop_bit (32 - unat p) k = drop_bit (32 - unat p) a" "drop_bit (32 - unat q) k = drop_bit (32 - unat q) b"
    by (simp_all add: in_net4_def)
  define n where "n = 32 - unat (min p q)"
  have n: "32 - unat p \<le> n" "32 - unat q \<le> n" by (auto simp: n_def min_def word_le_nat_alt)
  have "drop_bit n k = drop_bit n a" "drop_bit n k = drop_bit n b"
    using n arg_cong [OF e(1), of "drop_bit (n - (32 - unat p))"] arg_cong [OF e(2), of "drop_bit (n - (32 - unat q))"]
    by simp_all
  then show False using assms(3) by (simp add: nets_apart4_def in_net4_def n_def)
qed

lemma lookup4:
  assumes ps: "list_all (\<lambda>(a, p, n). unat p \<le> 32) ps" and asc: "nearly_ascending (map fst ps)"
    and ap: "sorted_wrt (\<lambda>(a, p, n) (b, q, m). nets_apart4 (a, p) (b, q)) ps"
  shows "qfMapSearch4 (foldl (insert4 mc) [] ps) k =
    Some (case find (\<lambda>(a, p, n). in_net4 a p k) ps of Some (a, p, n) \<Rightarrow> n | None \<Rightarrow> 0)"
proof -
  have "sorted_wrt (\<lambda>p q. apart e4_a e4_b (entry4 p) (entry4 q)) ps"
    using ap by (rule sorted_wrt_mono_rel [rotated]) (use ps in \<open>fastforce simp: list_all_iff intro: entries_apart4\<close>)
  note l = prefix_map.lookup_inserted [OF prefix_map4 _ this asc, of mc k]
  have f: "find (\<lambda>p. e4_a (entry4 p) \<le> k \<and> k \<le> e4_b (entry4 p)) ps = find (\<lambda>(a, p, n). in_net4 a p k) ps"
  proof (intro find_cong refl)
    fix r assume "r \<in> set ps"
    moreover obtain a p n where "r = (a, p, n)" by (rule prod_cases3)
    ultimately show "(e4_a (entry4 r) \<le> k \<and> k \<le> e4_b (entry4 r)) = (case r of (a, p, n) \<Rightarrow> in_net4 a p k)"
      using ps in_entry4 [of p a n k] by (auto simp: list_all_iff)
  qed
  show ?thesis using l unfolding f
    by (auto simp: entry4_def list_all_iff split: option.splits)
qed

subsection \<open>IPv6\<close>

lemma memcmp_lex:
  "length a = length b \<Longrightarrow> length a \<le> n \<Longrightarrow> (memcmp a b n < 0 \<longleftrightarrow> a < b) \<and> (memcmp a b n = 0 \<longleftrightarrow> a = b)"
proof (induction a b arbitrary: n rule: list_induct2)
  case (Cons x xs y ys)
  then show ?case by (cases n) auto
qed simp

lemma ip6_compare:
  assumes "length a = 16" "length b = 16"
  shows "qfIp6Compare a b < 0 \<longleftrightarrow> a < b" "0 < qfIp6Compare a b \<longleftrightarrow> b < a" "- 1 < qfIp6Compare a b \<longleftrightarrow> b \<le> a"
    "qfIp6Compare a b < 1 \<longleftrightarrow> a \<le> b"
  using memcmp_lex [of a b 16] assms by (force simp: qfIp6Compare_def)+

lemma mask6_length: "qfPrefixMask6 p = Some ms \<Longrightarrow> length ms = 16"
  by (auto simp: qfPrefixMask6_def Let_def split: if_splits)

lemma mask6_Some: "unat p \<le> 128 \<Longrightarrow> \<exists>ms. qfPrefixMask6 p = Some ms"
  by (simp add: qfPrefixMask6_def Let_def)

lemma bytes_and_le: "length a = length m \<Longrightarrow> map2 (AND) a m \<le> (a :: u8 list)"
proof (induction a m rule: list_induct2)
  case (Cons x xs y ys)
  then show ?case using word_and_le2 [of x y] by (simp add: le_less [of "x AND y" x])
qed simp

lemma bytes_le_or: "length a = length m \<Longrightarrow> (a :: u8 list) \<le> map2 (OR) a m"
proof (induction a m rule: list_induct2)
  case (Cons x xs y ys)
  then show ?case using le_word_or2 [of x y] by (simp add: le_less [of x "x OR y"])
qed simp

type_synonym rule6 = "u8 list \<times> u8 \<times> u8"

definition entry6 :: "rule6 \<Rightarrow> qfIfMapEntry6" where
  "entry6 p = (case p of (addr, pfx, ifnum) \<Rightarrow> let m = the (qfPrefixMask6 pfx) in
     \<lparr>e6_a = qfIp6BitAnd addr m, e6_b = qfIp6BitOr addr (qfIp6BitInvert m), e6_ifnum = ifnum\<rparr>)"

definition insert6 :: "qfIfMapEntry6 mover \<Rightarrow> qfIfMapEntry6 list \<Rightarrow> rule6 \<Rightarrow> qfIfMapEntry6 list" where
  "insert6 mc m p = (case p of (addr, pfx, ifnum) \<Rightarrow> the (qfMapInsert6 mc m addr pfx ifnum))"

definition rule6_ok :: "rule6 \<Rightarrow> bool" where
  "rule6_ok p \<longleftrightarrow> length (fst p) = 16 \<and> unat (fst (snd p)) \<le> 128"

definition entry6_ok :: "qfIfMapEntry6 \<Rightarrow> bool" where
  "entry6_ok e \<longleftrightarrow> length (e6_a e) = 16 \<and> length (e6_b e) = 16"

lemma prefix_map6:
  "prefix_map e6_a e6_b e6_ifnum (\<lambda>k. length k = 16) entry6_ok qfMapSearch6 entry6 fst (insert6 mc) rule6_ok"
proof
  fix m :: "qfIfMapEntry6 list" and k :: "u8 list" and p :: rule6
  show "qfMapSearch6 m k = Some (case find (\<lambda>e. e6_a e \<le> k \<and> k \<le> e6_b e) m of Some e \<Rightarrow> e6_ifnum e | None \<Rightarrow> 0)"
    if r: "ranges_ok e6_a e6_b m" "list_all entry6_ok m" "length k = 16"
  proof -
    have c: "- 1 < qfIp6Compare k (e6_a e) \<and> qfIp6Compare k (e6_b e) < 1 \<longleftrightarrow> e6_a e \<le> k \<and> k \<le> e6_b e"
      "qfIp6Compare (e6_a e) k < 0 \<longleftrightarrow> e6_a e < k" if "e \<in> set m" for e
      using r(2,3) that by (auto simp: list_all_iff entry6_ok_def ip6_compare)
    have f: "find (\<lambda>e. - 1 < qfIp6Compare k (e6_a e) \<and> qfIp6Compare k (e6_b e) < 1) m = find (\<lambda>e. e6_a e \<le> k \<and> k \<le> e6_b e) m"
      using c by (intro find_cong refl) auto
    have le: "e6_a e \<le> e6_b e" if "e \<in> set m" for e using r(1) that by (simp add: ranges_ok_def)
    have "qfIp6Compare (e6_a e) k < 0 \<longleftrightarrow> e6_b e < k"
      if "e \<in> set m" "\<not> (- 1 < qfIp6Compare k (e6_a e) \<and> qfIp6Compare k (e6_b e) < 1)" for e
    proof -
      have n: "\<not> (e6_a e \<le> k \<and> k \<le> e6_b e)" using c(1) [OF that(1)] that(2) by blast
      have "e6_a e < k \<longleftrightarrow> e6_b e < k"
      proof
        assume "e6_a e < k"
        then have "\<not> k \<le> e6_b e" using n by (simp add: less_imp_le)
        then show "e6_b e < k" by (simp add: not_le)
      next
        assume "e6_b e < k"
        with le [OF that(1)] show "e6_a e < k" by (rule le_less_trans)
      qed
      then show ?thesis using c(2) [OF that(1)] by simp
    qed
    then show ?thesis unfolding qfMapSearch6_def
      by (subst bisect_ok [OF r(1), where k = k]) (use c in \<open>auto simp: f\<close>)
  qed
  assume p: "rule6_ok p"
  obtain addr pfx n where e: "p = (addr, pfx, n)" by (rule prod_cases3)
  obtain ms where ms: "qfPrefixMask6 pfx = Some ms" "length ms = 16" "length addr = 16"
    using mask6_Some [of pfx] mask6_length p by (auto simp: rule6_ok_def e)
  have k: "e6_a (entry6 p) \<le> addr" "addr \<le> e6_b (entry6 p)" and ok: "entry6_ok (entry6 p)"
    using ms by (simp_all add: e entry6_def Let_def entry6_ok_def qfIp6BitAnd_def qfIp6BitOr_def qfIp6BitInvert_def
        bytes_and_le bytes_le_or)
  then show "entry6_ok (entry6 p) \<and> e6_a (entry6 p) \<le> fst p \<and> fst p \<le> e6_b (entry6 p)" by (simp add: e)
  show "ranges_ok e6_a e6_b (insert6 mc m p) \<and> set (insert6 mc m p) = insert (entry6 p) (set m)"
    if r: "ranges_ok e6_a e6_b m" "list_all entry6_ok m" "\<forall>f \<in> set m. apart e6_a e6_b (entry6 p) f"
      "length (filter (\<lambda>f. fst p < e6_a f) m) \<le> 1"
  proof -
    let ?b = "\<lambda>e. qfIp6Compare addr (e6_a e) < 0" and ?p = "\<lambda>e. 0 < qfIp6Compare addr (e6_b e)"
      and ?a = "\<lambda>e. qfIp6Compare (e6_b e) addr < 0"
    have t: "\<forall>f \<in> set m. (?b f \<longleftrightarrow> addr < e6_a f) \<and> (?p f \<longleftrightarrow> e6_b f < addr) \<and> (?a f \<longleftrightarrow> e6_b f < addr)"
      using r(2) ms(3) by (auto simp: list_all_iff entry6_ok_def ip6_compare)
    have "insert6 mc m p = ins_at mc (ins_point ?b ?p ?a m) (entry6 p) m"
      using ms(1) by (simp add: insert6_def qfMapInsert6_def e entry6_def Let_def)
    then show ?thesis using insert_ranges [OF r(1,3) k t r(4) [unfolded e fst_conv]] by simp
  qed
qed

subsection \<open>Properties\<close>

interpretation map4: prefix_map e4_a e4_b e4_ifnum "\<lambda>k. True" "\<lambda>e. True" qfMapSearch4 entry4 fst "insert4 mc" "\<lambda>p. True"
  for mc
  by (rule prefix_map4)

interpretation map6: prefix_map e6_a e6_b e6_ifnum "\<lambda>k. length k = 16" entry6_ok qfMapSearch6 entry6 fst
    "insert6 mc" rule6_ok for mc
  by (rule prefix_map6)

text \<open>The rules of an interface map, as the configuration adds them.\<close>

type_synonym map_rule = "u32 \<times> u8 \<times> u8 \<times> u8"

definition add_rules4 :: "qfIfMapEntry4 mover \<Rightarrow> map_rule list \<Rightarrow> qfIfMap" where
  "add_rules4 mc rs = foldl (\<lambda>mp (a, p, i, e). qfIfMapAddIPv4Mapping mc mp a p i e) qfIfMapInit rs"

lemma add_rules4_maps:
  "src4map (add_rules4 mc rs) = foldl (insert4 mc) [] (map (\<lambda>(a, p, i, e). (a, p, i)) (filter (\<lambda>(a, p, i, e). i \<noteq> 0) rs))"
  "dst4map (add_rules4 mc rs) = foldl (insert4 mc) [] (map (\<lambda>(a, p, i, e). (a, p, e)) (filter (\<lambda>(a, p, i, e). e \<noteq> 0) rs))"
  unfolding add_rules4_def
  by (induction rs rule: rev_induct)
    (auto simp: qfIfMapInit_def qfIfMapAddIPv4Mapping_def insert4_def Let_def split: prod.splits)

definition rules_ok4 :: "map_rule list \<Rightarrow> bool" where
  "rules_ok4 rs \<longleftrightarrow> list_all (\<lambda>(a, p, i, e). unat p \<le> 32) rs \<and>
     sorted_wrt (\<lambda>(a, p, i, e) (b, q, j, f). nets_apart4 (a, p) (b, q)) rs \<and> nearly_ascending (map fst rs)"

lemma rules_lookup4:
  assumes rs: "rules_ok4 rs"
  shows "qfMapSearch4 (foldl (insert4 mc) [] (map (\<lambda>(a, p, i, e). (a, p, g i e)) (filter (\<lambda>(a, p, i, e). g i e \<noteq> 0) rs))) k =
    Some (case find (\<lambda>(a, p, i, e). g i e \<noteq> 0 \<and> in_net4 a p k) rs of Some (a, p, i, e) \<Rightarrow> g i e | None \<Rightarrow> 0)"
proof -
  let ?ps = "map (\<lambda>(a, p, i, e). (a, p, g i e)) (filter (\<lambda>(a, p, i, e). g i e \<noteq> 0) rs)"
  have ok: "list_all (\<lambda>(a, p, n). unat p \<le> 32) ?ps" using rs by (auto simp: rules_ok4_def list_all_iff)
  have "sorted_wrt (\<lambda>(a, p, i, e) (b, q, j, f). nets_apart4 (a, p) (b, q)) (filter (\<lambda>(a, p, i, e). g i e \<noteq> 0) rs)"
    using rs by (simp add: rules_ok4_def sorted_wrt_filter)
  then have srt: "sorted_wrt (\<lambda>(a, p, n) (b, q, m). nets_apart4 (a, p) (b, q)) ?ps"
    unfolding sorted_wrt_map by (rule sorted_wrt_mono_rel [rotated]) auto
  have "(case find (\<lambda>(a, p, n). in_net4 a p k) ?ps of Some (a, p, n) \<Rightarrow> n | None \<Rightarrow> 0) =
      (case find (\<lambda>(a, p, i, e). g i e \<noteq> 0 \<and> in_net4 a p k) rs of Some (a, p, i, e) \<Rightarrow> g i e | None \<Rightarrow> 0)"
    by (induction rs) auto
  moreover have "map fst ?ps = map fst (filter (\<lambda>(a, p, i, e). g i e \<noteq> 0) rs)" by (simp add: split_beta o_def)
  then have "nearly_ascending (map fst ?ps)" using rs by (simp only: rules_ok4_def nearly_ascending_filter)
  ultimately show ?thesis using lookup4 [OF ok _ srt, of mc k] by simp
qed

text \<open>C21: Interface lookup for IPv4. Add rules (a prefix of at most 32 bits with an ingress and an egress
  interface number), no two prefixes overlapping, in an order in which at most one of the earlier addresses is above
  each new one, so that the insertion never copies overlapping blocks: then \<open>qfIfMapAddresses\<close> stays within its arrays and returns, for a flow key, the
  ingress number of the rule whose prefix contains the source address and the egress number of the
  rule whose prefix contains the destination address, zero where no rule with a number does.\<close>

theorem ifmap_finds_prefix4:
  assumes "rules_ok4 rs" and "k_version key = 4"
  shows "qfIfMapAddresses (add_rules4 mc rs) key = Some
    (case find (\<lambda>(a, p, i, e). i \<noteq> 0 \<and> in_net4 a p (k_sip4 key)) rs of Some (a, p, i, e) \<Rightarrow> i | None \<Rightarrow> 0,
     case find (\<lambda>(a, p, i, e). e \<noteq> 0 \<and> in_net4 a p (k_dip4 key)) rs of Some (a, p, i, e) \<Rightarrow> e | None \<Rightarrow> 0)"
  using rules_lookup4 [OF assms(1), of mc "\<lambda>i e. i" "k_sip4 key"] rules_lookup4 [OF assms(1), of mc "\<lambda>i e. e" "k_dip4 key"] assms(2)
  by (simp add: qfIfMapAddresses_def add_rules4_maps)

definition ex_rules :: "map_rule list" where
  "ex_rules = [(0xC0A80100, 24, 3, 0), (0x0A000000, 8, 1, 2), (0xAC100000, 12, 5, 6)]"

definition ex_key4 :: yfFlowKey where
  "ex_key4 = \<lparr>k_sp = 0, k_dp = 0, k_proto = 6, k_version = 4, k_vlanId = 0, k_sip4 = 0xC0A80107, k_dip4 = 0x0A010203,
     k_sip6 = [], k_dip6 = []\<rparr>"

theorem ifmap_finds_prefix4_witness:
  "qfIfMapAddresses (add_rules4 (\<lambda>i m. []) ex_rules) ex_key4 = Some (3, 2)"
proof -
  have "rules_ok4 ex_rules" by code_simp
  moreover have "k_version ex_key4 = 4" by (simp add: ex_key4_def)
  ultimately have "qfIfMapAddresses (add_rules4 (\<lambda>i m. []) ex_rules) ex_key4 = Some
    (case find (\<lambda>(a, p, i, e). i \<noteq> 0 \<and> in_net4 a p (k_sip4 ex_key4)) ex_rules of Some (a, p, i, e) \<Rightarrow> i | None \<Rightarrow> 0,
     case find (\<lambda>(a, p, i, e). e \<noteq> 0 \<and> in_net4 a p (k_dip4 ex_key4)) ex_rules of Some (a, p, i, e) \<Rightarrow> e | None \<Rightarrow> 0)"
    by (intro ifmap_finds_prefix4)
  also have "\<dots> = Some (3, 2)" by code_simp
  finally show ?thesis .
qed

text \<open>In any other order what the lookup finds depends on what \<open>memcpy\<close> leaves of overlapping blocks.\<close>

lemma descending_depends_on_memcpy:
  defines "rs \<equiv> [(0xC0A80100, 24, 3, 4), (0xAC100000, 12, 5, 6), (0x0A000000, 8, 1, 2)] :: map_rule list"
  shows "qfIfMapAddresses (add_rules4 (\<lambda>i m. drop i m) rs) ex_key4 = Some (3, 2)"
    "qfIfMapAddresses (add_rules4 (\<lambda>i m. replicate (length m - i) (hd m)) rs) ex_key4 = Some (0, 2)"
  unfolding rs_def by code_simp+

text \<open>Internal networks.\<close>

definition add_nets4 :: "qfIfMapEntry4 mover \<Rightarrow> (u32 \<times> u8) list \<Rightarrow> qfNetList" where
  "add_nets4 mc ns = foldl (\<lambda>l (a, p). qfNetListAddIPv4 mc l a p) \<lparr>ip4map = [], ip6map = []\<rparr> ns"

definition internal4 :: "(u32 \<times> u8) list \<Rightarrow> u32 \<Rightarrow> bool" where
  "internal4 ns k \<longleftrightarrow> (\<exists>(a, p) \<in> set ns. in_net4 a p k)"

definition nets_ok4 :: "(u32 \<times> u8) list \<Rightarrow> bool" where
  "nets_ok4 ns \<longleftrightarrow> list_all (\<lambda>(a, p). unat p \<le> 32) ns \<and> sorted_wrt nets_apart4 ns \<and> nearly_ascending (map fst ns)"

lemma nets_lookup4:
  assumes ns: "nets_ok4 ns"
  shows "qfMapSearch4 (ip4map (add_nets4 mc ns)) k = Some (if internal4 ns k then 1 else 0)"
proof -
  let ?rs = "map (\<lambda>(a, p). (a, p, 1, 0)) ns :: map_rule list"
  have m: "ip4map (add_nets4 mc ns) = foldl (insert4 mc) [] (map (\<lambda>(a, p, i, e). (a, p, i)) (filter (\<lambda>(a, p, i, e). i \<noteq> 0) ?rs))"
    unfolding add_nets4_def by (induction ns rule: rev_induct) (auto simp: qfNetListAddIPv4_def insert4_def)
  have "rules_ok4 ?rs" using ns by (auto simp: rules_ok4_def nets_ok4_def list_all_iff sorted_wrt_map split_beta o_def)
  from rules_lookup4 [OF this, of mc "\<lambda>i e. i" k]
  have "qfMapSearch4 (ip4map (add_nets4 mc ns)) k = Some
    (case find (\<lambda>(a, p, i, e). i \<noteq> 0 \<and> in_net4 a p k) ?rs of Some (a, p, i, e) \<Rightarrow> i | None \<Rightarrow> 0)" unfolding m .
  moreover have "(case find (\<lambda>(a, p, i, e). i \<noteq> 0 \<and> in_net4 a p k) ?rs of Some (a, p, i, e) \<Rightarrow> i | None \<Rightarrow> 0) =
      (if internal4 ns k then 1 else 0)"
    by (induction ns) (auto simp: internal4_def)
  ultimately show ?thesis by simp
qed

text \<open>The direction of a flow. With a list of internal IPv4 networks, no two overlapping, added in
  a nearly ascending order, \<open>qfFlowDirection\<close> tells flows inside the networks, out of them, into them and past them
  by whether the source and the destination are in one of the networks.\<close>

lemma flow_direction_correct:
  assumes "nets_ok4 ns" and "k_version key = 4"
  shows "qfFlowDirection (add_nets4 mc ns) key = Some
    (if internal4 ns (k_sip4 key) then if internal4 ns (k_dip4 key) then QF_DIR_INT else QF_DIR_IN
     else if internal4 ns (k_dip4 key) then QF_DIR_OUT else QF_DIR_EXT)"
  using assms(2) by (simp add: qfFlowDirection_def nets_lookup4 [OF assms(1)])

subsection \<open>IPv6 lookup\<close>

text \<open>Bit \<open>j\<close> of an address, counted from the most significant, and an address in an IPv6 network:
  the leading bits of the prefix agree.\<close>

definition addr_bit :: "u8 list \<Rightarrow> nat \<Rightarrow> bool" where
  "addr_bit a j = bit (a ! (j div 8)) (7 - j mod 8)"

definition in_net6 :: "u8 list \<Rightarrow> u8 \<Rightarrow> u8 list \<Rightarrow> bool" where
  "in_net6 addr pfx k \<longleftrightarrow> list_all (\<lambda>j. addr_bit k j = addr_bit addr j) [0..<unat pfx]"

lemma mask6_shape:
  assumes "unat p \<le> 128"
  defines "i \<equiv> unat p div 8"
  shows "qfPrefixMask6 p = Some (replicate i 0xff @
     (if i < 16 then NOT (mask (8 - unat p mod 8)) # replicate (15 - i) 0 else []))"
proof -
  have i: "i \<le> 16" using assms by simp
  have "list_all (\<lambda>r. ((\<lambda>v :: u8. drop_bit 1 v OR 0x80) ^^ r) 0 = NOT (mask (8 - r))) [0..<8]" by code_simp
  then have r: "((\<lambda>v :: u8. drop_bit 1 v OR 0x80) ^^ (unat p mod 8)) 0 = NOT (mask (8 - unat p mod 8))"
    by (simp add: list_all_iff)
  have q: "qfPrefixMask6 p = Some (if i < 16 then (replicate i 0xff @ replicate (16 - i) 0)
      [i := ((\<lambda>v. drop_bit 1 v OR 0x80) ^^ (unat p mod 8)) ((replicate i 0xff @ replicate (16 - i) 0) ! i)]
      else replicate i 0xff @ replicate (16 - i) 0)"
    unfolding qfPrefixMask6_def Let_def i_def [symmetric] using i by simp
  show ?thesis
  proof (cases "i < 16")
    case True
    define n where "n = 15 - i"
    have n: "16 - i = Suc n" "15 - i = n" using True by (simp_all add: n_def)
    show ?thesis unfolding q n using True r by (simp add: nth_append list_update_append)
  next
    case False
    then show ?thesis unfolding q using i by simp
  qed
qed

lemma zeros_le: "replicate (length k) (0 :: u8) \<le> k"
proof (induction k)
  case (Cons x k)
  then show ?case by (cases "x = 0") (simp_all add: word_neq_0_conv)
qed simp

lemma le_ones: "k \<le> replicate (length k) (- 1 :: u8)"
proof (induction k)
  case (Cons x k)
  then show ?case using word_n1_ge [of x] by (cases "x = - 1") (auto simp: le_less)
qed simp

text \<open>Between the lowest and the highest address of a network.\<close>

lemma lex_between:
  fixes p k :: "u8 list"
  shows "length k = length p + Suc n \<Longrightarrow>
    p @ x # replicate n 0 \<le> k \<and> k \<le> p @ y # replicate n (- 1) \<longleftrightarrow>
    take (length p) k = p \<and> x \<le> k ! length p \<and> k ! length p \<le> y"
proof (induction p arbitrary: k)
  case Nil
  then obtain z k' where k: "k = z # k'" "length k' = n" by (auto simp: length_Suc_conv)
  have "x # replicate n 0 \<le> z # k' \<longleftrightarrow> x \<le> z" "z # k' \<le> y # replicate n (- 1) \<longleftrightarrow> z \<le> y"
    using zeros_le [of k'] le_ones [of k'] k(2) by (simp_all add: le_less [of x z] le_less [of z y])
  then show ?case using k by simp
next
  case (Cons a p)
  then obtain z k' where k: "k = z # k'" "length k' = length p + Suc n" by (auto simp: length_Suc_conv)
  then show ?case using Cons.IH [of k'] by (simp del: append.simps(2) add: append_Cons) (blast dest: less_asym)
qed

lemma leading_bits:
  fixes x y :: u8
  assumes "r \<le> 8"
  shows "drop_bit (8 - r) x = drop_bit (8 - r) y \<longleftrightarrow> (\<forall>t < r. bit x (7 - t) = bit y (7 - t))"
proof
  assume e: "drop_bit (8 - r) x = drop_bit (8 - r) y"
  show "\<forall>t < r. bit x (7 - t) = bit y (7 - t)"
  proof (intro allI impI)
    fix t assume "t < r"
    then have "8 - r + (7 - t - (8 - r)) = 7 - t" using assms by simp
    then show "bit x (7 - t) = bit y (7 - t)"
      using arg_cong [OF e, of "\<lambda>w. bit w (7 - t - (8 - r))"] by (simp add: bit_drop_bit_eq)
  qed
next
  assume b: "\<forall>t < r. bit x (7 - t) = bit y (7 - t)"
  show "drop_bit (8 - r) x = drop_bit (8 - r) y"
  proof (rule bit_eqI)
    fix n assume "possible_bit TYPE(u8) n"
    show "bit (drop_bit (8 - r) x) n = bit (drop_bit (8 - r) y) n"
    proof (cases "n < r")
      case True
      then have "7 - (r - 1 - n) = 8 - r + n" using assms by simp
      then show ?thesis using b [rule_format, of "r - 1 - n"] True by (simp add: bit_drop_bit_eq)
    next
      case False
      then have "\<not> bit w (8 - r + n)" for w :: u8 using bit_imp_le_length [of w "8 - r + n"] assms by auto
      then show ?thesis by (simp add: bit_drop_bit_eq)
    qed
  qed
qed

lemma upto_bytes: "(\<forall>j < 8 * i + r. P j) \<longleftrightarrow> (\<forall>m < i. \<forall>t < 8. P (8 * m + t)) \<and> (\<forall>t < r. P (8 * i + t))"
  for i r :: nat
proof (intro iffI conjI allI impI)
  fix m t :: nat
  assume p: "\<forall>j < 8 * i + r. P j"
  show "t < r \<Longrightarrow> P (8 * i + t)" using p by simp
  assume "m < i" "t < 8"
  then show "P (8 * m + t)" using p by simp
next
  fix j
  assume p: "(\<forall>m < i. \<forall>t < 8. P (8 * m + t)) \<and> (\<forall>t < r. P (8 * i + t))" and j: "j < 8 * i + r"
  show "P j"
  proof (cases "j < 8 * i")
    case True
    then have "P (8 * (j div 8) + j mod 8)" using p by (intro p [THEN conjunct1, rule_format]) auto
    then show ?thesis by simp
  next
    case False
    then have "P (8 * i + (j - 8 * i))" using p j by (intro p [THEN conjunct2, rule_format]) simp
    then show ?thesis using False by simp
  qed
qed

lemma in_net6_bytes:
  assumes l: "length a = 16" "length k = 16" and p: "unat pfx \<le> 128"
  defines "i \<equiv> unat pfx div 8" and "r \<equiv> unat pfx mod 8"
  shows "in_net6 a pfx k \<longleftrightarrow> take i k = take i a \<and> (\<forall>t < r. bit (k ! i) (7 - t) = bit (a ! i) (7 - t))"
proof -
  have u: "unat pfx = 8 * i + r" by (simp add: i_def r_def)
  have r: "r < 8" by (simp add: r_def)
  have eq8: "x = y \<longleftrightarrow> (\<forall>t < 8. bit x (7 - t) = bit y (7 - t))" for x y :: u8
    using leading_bits [of 8 x y] by simp
  have "take i k = take i a \<longleftrightarrow> (\<forall>m < i. k ! m = a ! m)"
    using l u p by (auto simp: list_eq_iff_nth_eq)
  also have "\<dots> \<longleftrightarrow> (\<forall>m < i. \<forall>t < 8. addr_bit k (8 * m + t) = addr_bit a (8 * m + t))"
    unfolding eq8 by (simp add: addr_bit_def)
  finally show ?thesis using r unfolding in_net6_def u list_all_iff
    by (simp add: atLeast0LessThan Ball_def upto_bytes addr_bit_def)
qed

lemma in_entry6:
  assumes l: "length a = 16" "length k = 16" and p: "unat pfx \<le> 128"
  shows "e6_a (entry6 (a, pfx, n)) \<le> k \<and> k \<le> e6_b (entry6 (a, pfx, n)) \<longleftrightarrow> in_net6 a pfx k"
proof -
  define i where "i = unat pfx div 8"
  define b where "b = 8 - unat pfx mod 8"
  have i: "i \<le> 16" using p by (simp add: i_def)
  have ff: "0xff = (- 1 :: u8)" by simp
  note sh = mask6_shape [OF p, folded i_def b_def, unfolded ff]
  have ands: "map2 (AND) xs (replicate (length xs) (- 1 :: u8)) = xs" for xs by (induction xs) simp_all
  have ors: "map2 (OR) xs (replicate (length xs) (0 :: u8)) = xs" for xs by (induction xs) simp_all
  have and0: "map2 (AND) xs (replicate (length xs) (0 :: u8)) = replicate (length xs) 0" for xs by (induction xs) simp_all
  have or1: "map2 (OR) xs (replicate (length xs) (- 1 :: u8)) = replicate (length xs) (- 1)" for xs by (induction xs) simp_all
  show ?thesis
  proof (cases "i < 16")
    case True
    define c d where "c = take i a" and "d = drop (Suc i) a"
    have a: "a = c @ a ! i # d" "length c = i" "length d = 15 - i" using True l by (simp_all add: c_def d_def id_take_nth_drop)
    have lo: "e6_a (entry6 (a, pfx, n)) = c @ (a ! i AND NOT (mask b)) # replicate (15 - i) 0"
      unfolding entry6_def using True sh ands [of c] and0 [of d] a(2,3)
      by (subst a(1)) (simp add: Let_def qfIp6BitAnd_def nth_append)
    have hi: "e6_b (entry6 (a, pfx, n)) = c @ (a ! i OR mask b) # replicate (15 - i) (- 1)"
      unfolding entry6_def using True sh ors [of c] or1 [of d] a(2,3)
      by (subst a(1)) (simp add: Let_def qfIp6BitOr_def qfIp6BitInvert_def nth_append)
    have "length k = length c + Suc (15 - i)" using l a True by simp
    note m = lex_between [OF this, of "a ! i AND NOT (mask b)" "a ! i OR mask b"]
    show ?thesis unfolding lo hi m a(2) prefix_range
      unfolding in_net6_bytes [OF l p] i_def [symmetric] c_def b_def by (simp add: leading_bits)
  next
    case False
    then have e: "i = 16" "unat pfx mod 8 = 0" using i p unfolding i_def by presburger+
    have "e6_a (entry6 (a, pfx, n)) = a" "e6_b (entry6 (a, pfx, n)) = a"
      unfolding entry6_def using e sh ands [of a] ors [of a] l
      by (simp_all add: Let_def qfIp6BitAnd_def qfIp6BitOr_def qfIp6BitInvert_def)
    then show ?thesis unfolding in_net6_bytes [OF l p] i_def [symmetric] using e l by auto
  qed
qed

definition nets_apart6 :: "u8 list \<times> u8 \<Rightarrow> u8 list \<times> u8 \<Rightarrow> bool" where
  "nets_apart6 a b \<longleftrightarrow> \<not> in_net6 (fst a) (min (snd a) (snd b)) (fst b)"

lemma entries_apart6:
  assumes p: "length a = 16" "unat p \<le> 128" and q: "length b = 16" "unat q \<le> 128" and ap: "nets_apart6 (a, p) (b, q)"
  shows "apart e6_a e6_b (entry6 (a, p, x)) (entry6 (b, q, y))"
proof (rule ccontr)
  let ?e = "entry6 (a, p, x)" and ?f = "entry6 (b, q, y)"
  assume "\<not> apart e6_a e6_b ?e ?f"
  then have o: "e6_a ?f \<le> e6_b ?e" "e6_a ?e \<le> e6_b ?f" by (simp_all add: apart_def not_less)
  have ok: "entry6_ok ?e \<and> e6_a ?e \<le> e6_b ?e" "entry6_ok ?f \<and> e6_a ?f \<le> e6_b ?f"
    using map6.entry_ok [of "(a, p, x)"] map6.entry_ok [of "(b, q, y)"] p q
    by (auto simp: rule6_ok_def intro: order_trans)
  define k where "k = max (e6_a ?e) (e6_a ?f)"
  have l: "length k = 16" using ok by (simp add: k_def entry6_ok_def max_def)
  have k: "e6_a ?e \<le> k \<and> k \<le> e6_b ?e" "e6_a ?f \<le> k \<and> k \<le> e6_b ?f" using o ok by (simp_all add: k_def)
  have n: "in_net6 a p k" "in_net6 b q k"
    using k(1) unfolding in_entry6 [OF p(1) l p(2)] apply assumption
    using k(2) unfolding in_entry6 [OF q(1) l q(2)] by assumption
  have "unat (min p q) \<le> unat p" "unat (min p q) \<le> unat q" by (auto simp: min_def word_le_nat_alt)
  then have "in_net6 a (min p q) b" using n by (auto simp: in_net6_def list_all_iff)
  then show False using ap by (simp add: nets_apart6_def)
qed

lemma lookup6:
  assumes ps: "list_all rule6_ok ps" and asc: "nearly_ascending (map fst ps)"
    and ap: "sorted_wrt (\<lambda>(a, p, n) (b, q, m). nets_apart6 (a, p) (b, q)) ps" and l: "length k = 16"
  shows "qfMapSearch6 (foldl (insert6 mc) [] ps) k =
    Some (case find (\<lambda>(a, p, n). in_net6 a p k) ps of Some (a, p, n) \<Rightarrow> n | None \<Rightarrow> 0)"
proof -
  have "sorted_wrt (\<lambda>p q. apart e6_a e6_b (entry6 p) (entry6 q)) ps"
    using ap by (rule sorted_wrt_mono_rel [rotated]) (use ps in \<open>fastforce simp: list_all_iff rule6_ok_def intro: entries_apart6\<close>)
  note lk = prefix_map.lookup_inserted [OF prefix_map6 ps this asc l, of mc]
  have f: "find (\<lambda>p. e6_a (entry6 p) \<le> k \<and> k \<le> e6_b (entry6 p)) ps = find (\<lambda>(a, p, n). in_net6 a p k) ps"
  proof (intro find_cong refl)
    fix r assume "r \<in> set ps"
    moreover obtain a p n where "r = (a, p, n)" by (rule prod_cases3)
    ultimately show "(e6_a (entry6 r) \<le> k \<and> k \<le> e6_b (entry6 r)) = (case r of (a, p, n) \<Rightarrow> in_net6 a p k)"
      using ps l in_entry6 [of a k p n] by (auto simp: list_all_iff rule6_ok_def)
  qed
  show ?thesis using lk unfolding f by (auto simp: entry6_def Let_def split: option.splits)
qed

type_synonym map_rule6 = "u8 list \<times> u8 \<times> u8 \<times> u8"

definition add_rules6 :: "qfIfMapEntry6 mover \<Rightarrow> map_rule6 list \<Rightarrow> qfIfMap option" where
  "add_rules6 mc rs = foldl (\<lambda>o' (a, p, i, e). Option.bind o' (\<lambda>mp. qfIfMapAddIPv6Mapping mc mp a p i e)) (Some qfIfMapInit) rs"

definition rules_ok6 :: "map_rule6 list \<Rightarrow> bool" where
  "rules_ok6 rs \<longleftrightarrow> list_all (\<lambda>(a, p, i, e). length a = 16 \<and> unat p \<le> 128) rs \<and>
     sorted_wrt (\<lambda>(a, p, i, e) (b, q, j, f). nets_apart6 (a, p) (b, q)) rs \<and> nearly_ascending (map fst rs)"

definition side6 :: "(u8 \<Rightarrow> u8 \<Rightarrow> u8) \<Rightarrow> map_rule6 list \<Rightarrow> rule6 list" where
  "side6 g rs = map (\<lambda>(a, p, i, e). (a, p, g i e)) (filter (\<lambda>(a, p, i, e). g i e \<noteq> 0) rs)"

lemma insert6_Some:
  "unat p \<le> 128 \<Longrightarrow> qfMapInsert6 mc m a p n = Some (insert6 mc m (a, p, n))"
  using mask6_Some [of p] by (auto simp: qfMapInsert6_def insert6_def Let_def)

lemma add_rules6_maps:
  "list_all (\<lambda>(a, p, i, e). length a = 16 \<and> unat p \<le> 128) rs \<Longrightarrow>
   add_rules6 mc rs = Some (qfIfMapInit\<lparr>src6map := foldl (insert6 mc) [] (side6 (\<lambda>i e. i) rs),
     dst6map := foldl (insert6 mc) [] (side6 (\<lambda>i e. e) rs)\<rparr>)"
proof (induction rs rule: rev_induct)
  case Nil
  then show ?case by (simp add: add_rules6_def side6_def qfIfMapInit_def)
next
  case (snoc r rs)
  obtain a p i e where r: "r = (a, p, i, e)" by (rule prod_cases4)
  have "unat p \<le> 128" using snoc.prems r by simp
  moreover have "add_rules6 mc (rs @ [r]) = Option.bind (add_rules6 mc rs) (\<lambda>mp. qfIfMapAddIPv6Mapping mc mp a p i e)"
    by (simp add: add_rules6_def r)
  ultimately show ?case using snoc r
    by (simp add: qfIfMapAddIPv6Mapping_def insert6_Some side6_def qfIfMapInit_def)
qed

lemma rules_lookup6:
  assumes rs: "rules_ok6 rs" and l: "length k = 16"
  shows "qfMapSearch6 (foldl (insert6 mc) [] (side6 g rs)) k =
    Some (case find (\<lambda>(a, p, i, e). g i e \<noteq> 0 \<and> in_net6 a p k) rs of Some (a, p, i, e) \<Rightarrow> g i e | None \<Rightarrow> 0)"
proof -
  have ok: "list_all rule6_ok (side6 g rs)" using rs by (auto simp: rules_ok6_def list_all_iff side6_def rule6_ok_def)
  have "sorted_wrt (\<lambda>(a, p, i, e) (b, q, j, f). nets_apart6 (a, p) (b, q)) (filter (\<lambda>(a, p, i, e). g i e \<noteq> 0) rs)"
    using rs by (simp add: rules_ok6_def sorted_wrt_filter)
  then have srt: "sorted_wrt (\<lambda>(a, p, n) (b, q, m). nets_apart6 (a, p) (b, q)) (side6 g rs)"
    unfolding side6_def sorted_wrt_map by (rule sorted_wrt_mono_rel [rotated]) auto
  have "(case find (\<lambda>(a, p, n). in_net6 a p k) (side6 g rs) of Some (a, p, n) \<Rightarrow> n | None \<Rightarrow> 0) =
      (case find (\<lambda>(a, p, i, e). g i e \<noteq> 0 \<and> in_net6 a p k) rs of Some (a, p, i, e) \<Rightarrow> g i e | None \<Rightarrow> 0)"
    unfolding side6_def by (induction rs) auto
  moreover have "map fst (side6 g rs) = map fst (filter (\<lambda>(a, p, i, e). g i e \<noteq> 0) rs)"
    by (simp add: side6_def split_beta o_def)
  then have "nearly_ascending (map fst (side6 g rs))" using rs by (simp only: rules_ok6_def nearly_ascending_filter)
  ultimately show ?thesis using lookup6 [OF ok _ srt l] by simp
qed

text \<open>C22: Interface lookup for IPv6. Rules whose prefixes have at most 128 bits and do not overlap, added in
  an order in which at most one of the earlier addresses is above each new one, so that the insertion never copies
  overlapping blocks: \<open>qfIfMapAddIPv6Mapping\<close> never leaves the mask buffer, and \<open>qfIfMapAddresses\<close> returns the
  ingress number of the rule whose network contains the source and the egress number of the rule whose
  network contains the destination, where containment is agreement in the leading bits although the code
  compares sixteen-octet bounds with \<open>memcmp\<close>.\<close>

theorem ifmap_finds_prefix6:
  assumes "rules_ok6 rs" and "k_version key = 6"
    and "length (k_sip6 key) = 16" and "length (k_dip6 key) = 16"
  shows "Option.bind (add_rules6 mc rs) (\<lambda>mp. qfIfMapAddresses mp key) = Some
    (case find (\<lambda>(a, p, i, e). i \<noteq> 0 \<and> in_net6 a p (k_sip6 key)) rs of Some (a, p, i, e) \<Rightarrow> i | None \<Rightarrow> 0,
     case find (\<lambda>(a, p, i, e). e \<noteq> 0 \<and> in_net6 a p (k_dip6 key)) rs of Some (a, p, i, e) \<Rightarrow> e | None \<Rightarrow> 0)"
proof -
  have "list_all (\<lambda>(a, p, i, e). length a = 16 \<and> unat p \<le> 128) rs" using assms(1) by (simp add: rules_ok6_def)
  then show ?thesis using assms(2) rules_lookup6 [OF assms(1,3), of mc "\<lambda>i e. i"] rules_lookup6 [OF assms(1,4), of mc "\<lambda>i e. e"]
    by (simp add: add_rules6_maps qfIfMapAddresses_def)
qed

theorem ifmap_finds_prefix6_witness:
  "Option.bind (add_rules6 (\<lambda>i m. [])
      [(0x20 # 0x01 # 0x0d # 0xb8 # replicate 12 0, 32, 1, 2), (0xfe # 0x80 # replicate 14 0, 10, 3, 4)])
     (\<lambda>mp. qfIfMapAddresses mp (ex_key4\<lparr>k_version := 6, k_sip6 := 0xfe # 0xbf # replicate 14 7,
        k_dip6 := 0x20 # 0x01 # 0x0d # 0xb8 # replicate 12 9\<rparr>)) = Some (3, 2)"
proof -
  let ?rs = "[(0x20 # 0x01 # 0x0d # 0xb8 # replicate 12 0, 32, 1, 2), (0xfe # 0x80 # replicate 14 0, 10, 3, 4)] :: map_rule6 list"
  let ?s = "0xfe # 0xbf # replicate 14 7 :: u8 list" and ?d = "0x20 # 0x01 # 0x0d # 0xb8 # replicate 12 9 :: u8 list"
  let ?k = "ex_key4\<lparr>k_version := 6, k_sip6 := ?s, k_dip6 := ?d\<rparr>"
  have ok: "rules_ok6 ?rs" by code_simp
  have "Option.bind (add_rules6 (\<lambda>i m. []) ?rs) (\<lambda>mp. qfIfMapAddresses mp ?k) = Some
    (case find (\<lambda>(a, p, i, e). i \<noteq> 0 \<and> in_net6 a p (k_sip6 ?k)) ?rs of Some (a, p, i, e) \<Rightarrow> i | None \<Rightarrow> 0,
     case find (\<lambda>(a, p, i, e). e \<noteq> 0 \<and> in_net6 a p (k_dip6 ?k)) ?rs of Some (a, p, i, e) \<Rightarrow> e | None \<Rightarrow> 0)"
    by (rule ifmap_finds_prefix6 [OF ok]) simp_all
  also have "\<dots> = Some (3, 2)" by code_simp
  finally show ?thesis .
qed

end
