(* ===== verification/MacList.thy ===== *)
theory MacList
  imports IfMap
begin

text \<open>
  The list of source MAC addresses of \<open>src/qofmaclist.c\<close>. An array of six-octet addresses is a list
  of octet lists. To make room the code calls \<open>memcpy\<close> with the values of two octets of the array
  where it means their addresses: a copy from and to almost arbitrary memory, which is the result
  \<open>None\<close> of \<open>qfMacListAdd\<close>. The lookup is the bisection shared with the interface map.
\<close>

record qfMacList =
  macaddrs :: "u8 list list"

definition qfMacCompare :: "u8 list \<Rightarrow> u8 list \<Rightarrow> int" where
  "qfMacCompare a b = memcmp a b 6"

definition qfMacListInit :: qfMacList where
  "qfMacListInit = \<lparr>macaddrs = []\<rparr>"

definition mac_ins_point :: "u8 list list \<Rightarrow> u8 list \<Rightarrow> nat" where
  "mac_ins_point m a =
     (if m = [] \<or> qfMacCompare a (hd m) \<noteq> 0 then 0
      else if 0 < qfMacCompare a (last m) then length m
      else ins_scan (\<lambda>e. 0 < qfMacCompare a e) (\<lambda>e. 0 < qfMacCompare e a) 1 m)"

definition qfMacListAdd :: "qfMacList \<Rightarrow> u8 list \<Rightarrow> qfMacList option" where
  "qfMacListAdd list macaddr =
     (let i = mac_ins_point (macaddrs list) macaddr
      in if i < length (macaddrs list) then None
         else Some (list\<lparr>macaddrs := macaddrs list @ [macaddr]\<rparr>))"

definition qfMacListContains :: "qfMacList \<Rightarrow> u8 list \<Rightarrow> bool option" where
  "qfMacListContains list macaddr =
     map_option (\<lambda>r. r \<noteq> None)
       (bisect (\<lambda>e. qfMacCompare macaddr e = 0) (\<lambda>e. qfMacCompare e macaddr < 0) (macaddrs list) 0
         (int (length (macaddrs list)) - 1))"

subsection \<open>Adding and looking up\<close>

lemma mac_compare_eq:
  "\<lbrakk>length a = 6; length b = 6\<rbrakk> \<Longrightarrow> qfMacCompare a b = 0 \<longleftrightarrow> a = b"
  using memcmp_lex [of a b 6] by (simp add: qfMacCompare_def)

lemma memcmp_refl [simp]: "memcmp a a n = 0"
proof (induction n arbitrary: a)
  case (Suc n)
  then show ?case by (cases a) simp_all
qed simp

lemma ins_scan_never:
  "(\<And>e. e \<in> set m \<Longrightarrow> \<not> after e) \<Longrightarrow> ins_scan before after i m = (if m = [] then i else i + length m - 1)"
  by (induction before after i m rule: ins_scan.induct) auto

lemma mac_point_same: "mac_ins_point (replicate n a) a = n"
proof (cases n)
  case (Suc k)
  have "last (replicate n a) = a" using Suc by simp
  moreover have "ins_scan (\<lambda>e. 0 < qfMacCompare a e) (\<lambda>e. 0 < qfMacCompare e a) 1 (replicate n a) = n"
    by (subst ins_scan_never) (auto simp: qfMacCompare_def Suc)
  ultimately show ?thesis using Suc by (simp add: mac_ins_point_def qfMacCompare_def)
qed (simp add: mac_ins_point_def)

lemma mac_add_same: "qfMacListAdd \<lparr>macaddrs = replicate n a\<rparr> a = Some \<lparr>macaddrs = replicate (Suc n) a\<rparr>"
  by (simp add: qfMacListAdd_def mac_point_same replicate_append_same)

lemma mac_add_other:
  assumes "0 < n" "length a = 6" "length b = 6" "a \<noteq> b"
  shows "qfMacListAdd \<lparr>macaddrs = replicate n a\<rparr> b = None"
  using assms by (auto simp: qfMacListAdd_def mac_ins_point_def mac_compare_eq Let_def hd_replicate)

definition add_macs :: "u8 list list \<Rightarrow> qfMacList option" where
  "add_macs ms = foldl (\<lambda>l m. Option.bind l (\<lambda>l. qfMacListAdd l m)) (Some qfMacListInit) ms"

lemma add_macs_snoc: "add_macs (ms @ [m]) = Option.bind (add_macs ms) (\<lambda>l. qfMacListAdd l m)"
  by (simp add: add_macs_def)

lemma add_macs_result:
  "\<forall>m \<in> set ms. length m = 6 \<Longrightarrow>
   add_macs ms = (if \<forall>m \<in> set ms. m = hd ms then Some \<lparr>macaddrs = ms\<rparr> else None)"
proof (induction ms rule: rev_induct)
  case Nil
  then show ?case by (simp add: add_macs_def qfMacListInit_def)
next
  case (snoc m ms)
  show ?case
  proof (cases "ms = []")
    case True
    then show ?thesis using mac_add_same [of 0 m] by (simp add: add_macs_def qfMacListInit_def)
  next
    case ne: False
    show ?thesis
    proof (cases "\<forall>x \<in> set ms. x = hd ms")
      case True
      then have r: "ms = replicate (length ms) (hd ms)" by (simp add: replicate_length_same)
      have a: "add_macs (ms @ [m]) = qfMacListAdd \<lparr>macaddrs = ms\<rparr> m" using snoc True by (simp add: add_macs_snoc)
      show ?thesis
      proof (cases "m = hd ms")
        case m: True
        have "qfMacListAdd \<lparr>macaddrs = replicate (length ms) m\<rparr> m = Some \<lparr>macaddrs = replicate (length ms) m @ [m]\<rparr>"
          by (simp add: mac_add_same replicate_append_same)
        then show ?thesis unfolding a using True m r ne by simp
      next
        case False
        have "length (hd ms) = 6" "length m = 6" using snoc.prems ne by simp_all
        then have "qfMacListAdd \<lparr>macaddrs = replicate (length ms) (hd ms)\<rparr> m = None"
          using mac_add_other [of "length ms" "hd ms" m] False ne by simp
        then show ?thesis unfolding a using r False ne by simp
      qed
    next
      case False
      then show ?thesis using snoc ne by (auto simp: add_macs_snoc)
    qed
  qed
qed

lemma contains_same:
  assumes "length a = 6" "length m = 6"
  shows "qfMacListContains \<lparr>macaddrs = replicate n a\<rparr> m = Some (0 < n \<and> m = a)"
proof -
  have "bisect (\<lambda>e. qfMacCompare m e = 0) (\<lambda>e. qfMacCompare e m < 0) (replicate n a) x y = Some (if x \<le> y \<and> m = a then Some a else None)"
    if "0 \<le> x" "y < int n" for x y
    using that
  proof (induction "nat (y - x + 1)" arbitrary: x y rule: less_induct)
    case less
    show ?case
    proof (cases "y < x")
      case True
      then show ?thesis by (subst bisect.simps) simp
    next
      case False
      let ?i = "(x + y) div 2"
      have i: "0 \<le> ?i" "x \<le> ?i" "?i \<le> y" "?i < int n" using False less.prems by auto
      then have e: "replicate n a ! nat ?i = a" by simp
      have up: "bisect (\<lambda>e. qfMacCompare m e = 0) (\<lambda>e. qfMacCompare e m < 0) (replicate n a) (?i + 1) y =
          Some (if ?i + 1 \<le> y \<and> m = a then Some a else None)" using i less.prems False by (intro less.hyps) auto
      have dn: "bisect (\<lambda>e. qfMacCompare m e = 0) (\<lambda>e. qfMacCompare e m < 0) (replicate n a) x (?i - 1) =
          Some (if x \<le> ?i - 1 \<and> m = a then Some a else None)" using i less.prems False by (intro less.hyps) auto
      show ?thesis using False i up dn e mac_compare_eq [OF assms(2,1)]
        by (subst bisect.simps) (simp add: Let_def)
    qed
  qed
  from this [of 0 "int n - 1"] show ?thesis by (simp add: qfMacListContains_def)
qed

text \<open>C26: The MAC list holds one address. For six-octet addresses, the additions succeed exactly when all
  the addresses are the same, and the list then contains exactly them; adding a second, different address
  always makes the code copy through octet values used as pointers (\<open>None\<close>).\<close>

theorem mac_list_holds_one:
  assumes "\<forall>m \<in> set ms. length m = 6" and "length a = 6"
  shows "Option.bind (add_macs ms) (\<lambda>l. qfMacListContains l a) =
    (if \<forall>m \<in> set ms. m = hd ms then Some (a \<in> set ms) else None)"
proof (cases "\<forall>m \<in> set ms. m = hd ms")
  case True
  then have "ms = replicate (length ms) (hd ms)" by (simp add: replicate_length_same)
  moreover have "qfMacListContains \<lparr>macaddrs = replicate (length ms) (hd ms)\<rparr> a = Some (0 < length ms \<and> a = hd ms)" if "ms \<noteq> []"
    using assms that by (intro contains_same) simp_all
  moreover have "a \<in> set ms \<longleftrightarrow> a = hd ms" if "ms \<noteq> []" using True that by (metis hd_in_set)
  moreover have "qfMacListContains \<lparr>macaddrs = []\<rparr> a = Some False" using contains_same [of a a 0] assms by simp
  ultimately show ?thesis using True by (cases "ms = []") (simp_all add: add_macs_result [OF assms(1)] add_macs_result [of "[]"])
next
  case False
  then have "add_macs ms = None" using add_macs_result [OF assms(1)] by (simp only: if_False)
  then show ?thesis using False by (simp only: if_False bind.simps)
qed

theorem mac_list_holds_one_witness:
  "Option.bind (add_macs [[0, 1, 2, 3, 4, 5]]) (\<lambda>l. qfMacListContains l [0, 1, 2, 3, 4, 5]) = Some True \<and>
   Option.bind (add_macs [[0, 1, 2, 3, 4, 5], [9, 1, 2, 3, 4, 5]]) (\<lambda>l. qfMacListContains l [9, 1, 2, 3, 4, 5]) = None"
  by (subst (1 2) mac_list_holds_one) simp_all

end
