(* ===== verification/Export.thy ===== *)
theory Export
  imports Meter MacList
begin

unbundle bit_operations_syntax

text \<open>
  The record writer of \<open>src/yafcore.c\<close>: the template table, the C structure it has to match, the
  choice of exported elements, and the function that fills a record from a flow and hands it to the
  IPFIX library.

  A structure type is the list of its members with their C types, and a record under construction is
  the list of the members assigned so far: a member that is not in it holds whatever was on the stack.
  The library libfixbuf is not part of the program: its functions are the operations \<open>fbuf_ops\<close> on a
  buffer state. Allocation failures (which abort inside glib) are left out. A conversion from \<open>double\<close>
  is the truncation of a real number; C leaves it undefined when the result does not fit.
\<close>

subsection \<open>The template table\<close>

abbreviation YAF_FLOW_BASE_TID :: u16 where "YAF_FLOW_BASE_TID \<equiv> 0xB000"
abbreviation YAF_FLOW_FULL_TID :: u16 where "YAF_FLOW_FULL_TID \<equiv> 0xB800"
abbreviation YAF_OPTIONS_TID :: u16 where "YAF_OPTIONS_TID \<equiv> 0xD000"

definition YTF_BIF :: u32 where "YTF_BIF = 0x0001"
definition YTF_TCP :: u32 where "YTF_TCP = 0x0002"
definition YTF_RTT :: u32 where "YTF_RTT = 0x0004"
definition YTF_TSV :: u32 where "YTF_TSV = 0x0008"
definition YTF_IP4 :: u32 where "YTF_IP4 = 0x0010"
definition YTF_IP6 :: u32 where "YTF_IP6 = 0x0020"
definition YTF_FLE :: u32 where "YTF_FLE = 0x0040"
definition YTF_RLE :: u32 where "YTF_RLE = 0x0080"
definition YTF_ALL :: u32 where "YTF_ALL = 0x007F"

lemmas YTF_defs = YTF_BIF_def YTF_TCP_def YTF_RTT_def YTF_TSV_def YTF_IP4_def YTF_IP6_def YTF_FLE_def YTF_RLE_def
  YTF_ALL_def

definition YAF_RLEMAX :: u64 where "YAF_RLEMAX = 0x80000000"
definition QOF_MIN_RTT_COUNT :: i32 where "QOF_MIN_RTT_COUNT = 1"
definition QOF_EXPORT_SPEC_SZ :: nat where "QOF_EXPORT_SPEC_SZ = 96"

record fbInfoElementSpec =
  ie_name :: string
  len_override :: u16
  ie_flags :: u32

definition ie :: "string \<Rightarrow> u16 \<Rightarrow> u32 \<Rightarrow> fbInfoElementSpec" where
  "ie n l f = \<lparr>ie_name = n, len_override = l, ie_flags = f\<rparr>"

definition qof_internal_spec :: "fbInfoElementSpec list" where
  "qof_internal_spec = [
    ie ''flowId'' 8 0,
    ie ''flowStartMilliseconds'' 8 0,
    ie ''flowEndMilliseconds'' 8 0,
    ie ''octetDeltaCount'' 8 YTF_FLE,
    ie ''reverseOctetDeltaCount'' 8 (YTF_FLE OR YTF_BIF),
    ie ''packetDeltaCount'' 8 YTF_FLE,
    ie ''reversePacketDeltaCount'' 8 (YTF_FLE OR YTF_BIF),
    ie ''transportOctetDeltaCount'' 8 YTF_FLE,
    ie ''reverseTransportOctetDeltaCount'' 8 (YTF_FLE OR YTF_BIF),
    ie ''transportPacketDeltaCount'' 8 YTF_FLE,
    ie ''reverseTransportPacketDeltaCount'' 8 (YTF_FLE OR YTF_BIF),
    ie ''octetDeltaCount'' 4 YTF_RLE,
    ie ''reverseOctetDeltaCount'' 4 (YTF_RLE OR YTF_BIF),
    ie ''packetDeltaCount'' 4 YTF_RLE,
    ie ''reversePacketDeltaCount'' 4 (YTF_RLE OR YTF_BIF),
    ie ''transportOctetDeltaCount'' 4 YTF_RLE,
    ie ''reverseTransportOctetDeltaCount'' 4 (YTF_RLE OR YTF_BIF),
    ie ''transportPacketDeltaCount'' 4 YTF_RLE,
    ie ''reverseTransportPacketDeltaCount'' 4 (YTF_RLE OR YTF_BIF),
    ie ''sourceIPv4Address'' 4 YTF_IP4,
    ie ''destinationIPv4Address'' 4 YTF_IP4,
    ie ''sourceIPv6Address'' 16 YTF_IP6,
    ie ''destinationIPv6Address'' 16 YTF_IP6,
    ie ''tcpSequenceCount'' 8 (YTF_TCP OR YTF_FLE),
    ie ''reverseTcpSequenceCount'' 8 (YTF_TCP OR YTF_FLE OR YTF_BIF),
    ie ''tcpSequenceLossCount'' 8 (YTF_TCP OR YTF_FLE),
    ie ''reverseTcpSequenceLossCount'' 8 (YTF_TCP OR YTF_FLE OR YTF_BIF),
    ie ''tcpRetransmitCount'' 8 (YTF_TCP OR YTF_FLE),
    ie ''reverseTcpRetransmitCount'' 8 (YTF_TCP OR YTF_FLE OR YTF_BIF),
    ie ''tcpLossEventCount'' 8 (YTF_TCP OR YTF_FLE),
    ie ''reverseTcpLossEventCount'' 8 (YTF_TCP OR YTF_FLE OR YTF_BIF),
    ie ''tcpSequenceJumpCount'' 8 (YTF_TCP OR YTF_FLE),
    ie ''reverseTcpSequenceJumpCount'' 8 (YTF_TCP OR YTF_FLE OR YTF_BIF),
    ie ''tcpDupAckCount'' 8 (YTF_TCP OR YTF_FLE OR YTF_BIF),
    ie ''reverseTcpDupAckCount'' 8 (YTF_TCP OR YTF_FLE OR YTF_BIF),
    ie ''tcpSelAckCount'' 8 (YTF_TCP OR YTF_FLE OR YTF_BIF),
    ie ''reverseTcpSelAckCount'' 8 (YTF_TCP OR YTF_FLE OR YTF_BIF),
    ie ''tcpSequenceCount'' 4 (YTF_TCP OR YTF_RLE),
    ie ''reverseTcpSequenceCount'' 4 (YTF_TCP OR YTF_RLE OR YTF_BIF),
    ie ''tcpSequenceLossCount'' 4 (YTF_TCP OR YTF_RLE),
    ie ''reverseTcpSequenceLossCount'' 4 (YTF_TCP OR YTF_RLE OR YTF_BIF),
    ie ''tcpRetransmitCount'' 4 (YTF_TCP OR YTF_RLE),
    ie ''reverseTcpRetransmitCount'' 4 (YTF_TCP OR YTF_RLE OR YTF_BIF),
    ie ''tcpLossEventCount'' 4 (YTF_TCP OR YTF_RLE),
    ie ''reverseTcpLossEventCount'' 4 (YTF_TCP OR YTF_RLE OR YTF_BIF),
    ie ''tcpSequenceJumpCount'' 4 (YTF_TCP OR YTF_RLE),
    ie ''reverseTcpSequenceJumpCount'' 4 (YTF_TCP OR YTF_RLE OR YTF_BIF),
    ie ''tcpDupAckCount'' 4 (YTF_TCP OR YTF_RLE OR YTF_BIF),
    ie ''reverseTcpDupAckCount'' 4 (YTF_TCP OR YTF_RLE OR YTF_BIF),
    ie ''tcpSelAckCount'' 4 (YTF_TCP OR YTF_RLE OR YTF_BIF),
    ie ''reverseTcpSelAckCount'' 4 (YTF_TCP OR YTF_RLE OR YTF_BIF),
    ie ''tcpSequenceNumber'' 4 YTF_TCP,
    ie ''reverseTcpSequenceNumber'' 4 (YTF_TCP OR YTF_BIF),
    ie ''maxTcpSequenceJump'' 4 YTF_TCP,
    ie ''reverseMaxTcpSequenceJump'' 4 (YTF_TCP OR YTF_BIF),
    ie ''qofTcpCharacteristics'' 4 YTF_TCP,
    ie ''reverseQofTcpCharacteristics'' 4 (YTF_TCP OR YTF_BIF),
    ie ''minTcpRwin'' 4 YTF_TCP,
    ie ''reverseMinTcpRwin'' 4 (YTF_TCP OR YTF_BIF),
    ie ''meanTcpRwin'' 4 YTF_TCP,
    ie ''reverseMeanTcpRwin'' 4 (YTF_TCP OR YTF_BIF),
    ie ''maxTcpRwin'' 4 YTF_TCP,
    ie ''reverseMaxTcpRwin'' 4 (YTF_TCP OR YTF_BIF),
    ie ''tcpReceiverStallCount'' 4 YTF_TCP,
    ie ''reverseTcpReceiverStallCount'' 4 (YTF_TCP OR YTF_BIF),
    ie ''tcpTimestampFrequency'' 4 (YTF_TCP OR YTF_TSV),
    ie ''reverseTcpTimestampFrequency'' 4 (YTF_TCP OR YTF_TSV OR YTF_BIF),
    ie ''tcpRttSampleCount'' 4 YTF_RTT,
    ie ''lastTcpRttMilliseconds'' 2 YTF_RTT,
    ie ''minTcpRttMilliseconds'' 2 YTF_RTT,
    ie ''declaredTcpMss'' 2 YTF_TCP,
    ie ''reverseDeclaredTcpMss'' 2 (YTF_TCP OR YTF_BIF),
    ie ''observedTcpMss'' 2 YTF_TCP,
    ie ''reverseObservedTcpMss'' 2 (YTF_TCP OR YTF_BIF),
    ie ''minTcpIOTMilliseconds'' 4 YTF_TCP,
    ie ''reverseMinTcpIOTMilliseconds'' 4 (YTF_TCP OR YTF_BIF),
    ie ''maxTcpIOTMilliseconds'' 4 YTF_TCP,
    ie ''reverseMaxTcpIOTMilliseconds'' 4 (YTF_TCP OR YTF_BIF),
    ie ''minTcpChirpMilliseconds'' 2 (YTF_TCP OR YTF_TSV),
    ie ''reverseMinTcpChirpMilliseconds'' 2 (YTF_TCP OR YTF_TSV OR YTF_BIF),
    ie ''maxTcpChirpMilliseconds'' 2 (YTF_TCP OR YTF_TSV),
    ie ''reverseMaxTcpChirpMilliseconds'' 2 (YTF_TCP OR YTF_TSV OR YTF_BIF),
    ie ''meanTcpChirpMilliseconds'' 2 (YTF_TCP OR YTF_TSV),
    ie ''reverseMeanTcpChirpMilliseconds'' 2 (YTF_TCP OR YTF_TSV OR YTF_BIF),
    ie ''reverseFlowDeltaMilliseconds'' 4 YTF_BIF,
    ie ''sourceTransportPort'' 2 0,
    ie ''destinationTransportPort'' 2 0,
    ie ''protocolIdentifier'' 1 0,
    ie ''flowEndReason'' 1 0,
    ie ''ingressInterface'' 1 0,
    ie ''egressInterface'' 1 0,
    ie ''sourceMacAddress'' 6 0,
    ie ''destinationMacAddress'' 6 0,
    ie ''vlanId'' 2 0,
    ie ''minimumTTL'' 1 0,
    ie ''maximumTTL'' 1 0,
    ie ''reverseMinimumTTL'' 1 YTF_BIF,
    ie ''reverseMaximumTTL'' 1 YTF_BIF,
    ie ''initialTCPFlags'' 1 YTF_TCP,
    ie ''reverseInitialTCPFlags'' 1 (YTF_TCP OR YTF_BIF),
    ie ''unionTCPFlags'' 1 YTF_TCP,
    ie ''reverseUnionTCPFlags'' 1 (YTF_TCP OR YTF_BIF),
    ie ''tcpControlBits'' 1 YTF_TCP,
    ie ''reverseTcpControlBits'' 1 (YTF_TCP OR YTF_BIF)]"

definition yaf_stats_option_spec :: "fbInfoElementSpec list" where
  "yaf_stats_option_spec = map (\<lambda>n. ie n 0 0) [
    ''systemInitTimeMilliseconds'', ''exportedFlowRecordTotalCount'', ''packetTotalCount'',
    ''droppedPacketTotalCount'', ''ignoredPacketTotalCount'', ''notSentPacketTotalCount'',
    ''expiredFragmentCount'', ''assembledFragmentCount'', ''flowTableFlushEventCount'',
    ''flowTablePeakCount'', ''exporterIPv4Address'', ''exportingProcessId'']"

subsection \<open>The record structure\<close>

datatype ctype = UInt64 | UInt32 | UInt16 | UInt8 | Int32 | Int16 | Octets nat

fun csize :: "ctype \<Rightarrow> int" where
  "csize UInt64 = 8" | "csize UInt32 = 4" | "csize UInt16 = 2" | "csize UInt8 = 1"
| "csize Int32 = 4" | "csize Int16 = 2" | "csize (Octets n) = int n"

fun calign :: "ctype \<Rightarrow> int" where
  "calign (Octets n) = 1"
| "calign t = csize t"

type_synonym cstruct = "(string \<times> ctype) list"

definition yfIpfixFlow_t :: cstruct where
  "yfIpfixFlow_t = [
    (''flowId'', UInt64),
    (''flowStartMilliseconds'', UInt64),
    (''flowEndMilliseconds'', UInt64),
    (''octetCount'', UInt64),
    (''reverseOctetCount'', UInt64),
    (''packetCount'', UInt64),
    (''reversePacketCount'', UInt64),
    (''transportOctetDeltaCount'', UInt64),
    (''reverseTransportOctetDeltaCount'', UInt64),
    (''transportPacketDeltaCount'', UInt64),
    (''reverseTransportPacketDeltaCount'', UInt64),
    (''sourceIPv4Address'', UInt32),
    (''destinationIPv4Address'', UInt32),
    (''sourceIPv6Address'', Octets 16),
    (''destinationIPv6Address'', Octets 16),
    (''tcpSequenceCount'', UInt64),
    (''reverseTcpSequenceCount'', UInt64),
    (''tcpSequenceLossCount'', UInt64),
    (''reverseTcpSequenceLossCount'', UInt64),
    (''tcpRetransmitCount'', UInt64),
    (''reverseTcpRetransmitCount'', UInt64),
    (''tcpLossEventCount'', UInt64),
    (''reverseTcpLossEventCount'', UInt64),
    (''tcpSequenceJumpCount'', UInt64),
    (''reverseTcpSequenceJumpCount'', UInt64),
    (''tcpDupAckCount'', UInt64),
    (''reverseTcpDupAckCount'', UInt64),
    (''tcpSelAckCount'', UInt64),
    (''reverseTcpSelAckCount'', UInt64),
    (''tcpSequenceNumber'', UInt32),
    (''reverseTcpSequenceNumber'', UInt32),
    (''maxTcpSequenceJump'', UInt32),
    (''reverseMaxTcpSequenceJump'', UInt32),
    (''qofTcpCharacteristics'', UInt32),
    (''reverseQofTcpCharacteristics'', UInt32),
    (''minTcpRwin'', UInt32),
    (''reverseMinTcpRwin'', UInt32),
    (''meanTcpRwin'', UInt32),
    (''reverseMeanTcpRwin'', UInt32),
    (''maxTcpRwin'', UInt32),
    (''reverseMaxTcpRwin'', UInt32),
    (''tcpReceiverStallCount'', UInt32),
    (''reverseTcpReceiverStallCount'', UInt32),
    (''tcpTimestampFrequency'', UInt32),
    (''reverseTcpTimestampFrequency'', UInt32),
    (''tcpRttSampleCount'', UInt32),
    (''lastTcpRttMilliseconds'', UInt16),
    (''minTcpRttMilliseconds'', UInt16),
    (''declaredTcpMss'', UInt16),
    (''reverseDeclaredTcpMss'', UInt16),
    (''observedTcpMss'', UInt16),
    (''reverseObservedTcpMss'', UInt16),
    (''minTcpIOTMilliseconds'', UInt32),
    (''reverseMinTcpIOTMilliseconds'', UInt32),
    (''maxTcpIOTMilliseconds'', UInt32),
    (''reverseMaxTcpIOTMilliseconds'', UInt32),
    (''minTcpChirpMilliseconds'', Int16),
    (''reverseMinTcpChirpMilliseconds'', Int16),
    (''maxTcpChirpMilliseconds'', Int16),
    (''reverseMaxTcpChirpMilliseconds'', Int16),
    (''meanTcpChirpMilliseconds'', Int16),
    (''reverseMeanTcpChirpMilliseconds'', Int16),
    (''reverseFlowDeltaMilliseconds'', Int32),
    (''sourceTransportPort'', UInt16),
    (''destinationTransportPort'', UInt16),
    (''protocolIdentifier'', UInt8),
    (''flowEndReason'', UInt8),
    (''ingressInterface'', UInt8),
    (''egressInterface'', UInt8),
    (''sourceMacAddress'', Octets 6),
    (''destinationMacAddress'', Octets 6),
    (''vlanId'', UInt16),
    (''minimumTTL'', UInt8),
    (''maximumTTL'', UInt8),
    (''reverseMinimumTTL'', UInt8),
    (''reverseMaximumTTL'', UInt8),
    (''initialTCPFlags'', UInt8),
    (''reverseInitialTCPFlags'', UInt8),
    (''unionTCPFlags'', UInt8),
    (''reverseUnionTCPFlags'', UInt8),
    (''tcpControlBits'', UInt8),
    (''reverseTcpControlBits'', UInt8)]"

text \<open>The layout rule of C: a member starts at the next multiple of its alignment.\<close>

definition align_up :: "int \<Rightarrow> int \<Rightarrow> int" where
  "align_up n a = (n + a - 1) div a * a"

fun offsetsof :: "cstruct \<Rightarrow> int \<Rightarrow> int list" where
  "offsetsof [] n = []"
| "offsetsof ((m, t) # ms) n = (let o' = align_up n (calign t) in o' # offsetsof ms (o' + csize t))"

fun tmpl_offsets :: "fbInfoElementSpec list \<Rightarrow> int \<Rightarrow> int list" where
  "tmpl_offsets [] n = []"
| "tmpl_offsets (s # ss) n =
     (if ie_flags s AND YTF_RLE = 0 then n # tmpl_offsets ss (n + uint (len_override s)) else tmpl_offsets ss n)"

text \<open>The check at start: the offsets array has room for \<open>QOF_EXPORT_SPEC_SZ\<close> elements (\<open>None\<close> when it
  is overrun or read where it was not written), and the program stops when an offset differs (\<open>Some False\<close>).\<close>

definition qfInternalTemplateCheck :: "bool option" where
  "qfInternalTemplateCheck =
     (let internal_offsets = tmpl_offsets qof_internal_spec 0; offs = offsetsof yfIpfixFlow_t 0
      in if QOF_EXPORT_SPEC_SZ < length internal_offsets \<or> length internal_offsets < length offs then None
         else Some (offs = take (length offs) internal_offsets))"

subsection \<open>Configuration of the writer\<close>

record qfWriter =
  yaf_core_force_biflow :: bool
  yaf_core_map_ipv6 :: bool
  yaf_core_ifmap :: "qfIfMap option"
  yaf_source_netlist :: "qfNetList option"
  yaf_source_maclist :: "qfMacList option"
  qof_export_spec :: "fbInfoElementSpec list"
  stats_template_initialized :: bool
  yaf_start_time :: u64

definition yfWriterForceBiflowExport :: "qfWriter \<Rightarrow> bool \<Rightarrow> qfWriter" where
  "yfWriterForceBiflowExport w biforce_mode = w\<lparr>yaf_core_force_biflow := biforce_mode\<rparr>"

definition yfWriterExportMappedV6 :: "qfWriter \<Rightarrow> bool \<Rightarrow> qfWriter" where
  "yfWriterExportMappedV6 w map_mode = w\<lparr>yaf_core_map_ipv6 := map_mode\<rparr>"

definition yfWriterUseInterfaceMap :: "qfWriter \<Rightarrow> qfIfMap option \<Rightarrow> qfWriter" where
  "yfWriterUseInterfaceMap w ifmap = w\<lparr>yaf_core_ifmap := ifmap\<rparr>"

definition yfWriterUseSourceNets :: "qfWriter \<Rightarrow> qfNetList option \<Rightarrow> qfWriter" where
  "yfWriterUseSourceNets w srclist = w\<lparr>yaf_source_netlist := srclist\<rparr>"

definition yfWriterUseSourceMacs :: "qfWriter \<Rightarrow> qfMacList option \<Rightarrow> qfWriter" where
  "yfWriterUseSourceMacs w maclist = w\<lparr>yaf_source_maclist := maclist\<rparr>"

definition yfWriterExportReset :: "qfWriter \<Rightarrow> qfWriter" where
  "yfWriterExportReset w = w\<lparr>qof_export_spec := []\<rparr>"

text \<open>The loop copies every entry with the name, to get both the full and the reduced length, while the
  array (which keeps one cell for the terminator) has room.\<close>

fun export_copy :: "string \<Rightarrow> fbInfoElementSpec list \<Rightarrow> fbInfoElementSpec list \<Rightarrow> bool \<Rightarrow> fbInfoElementSpec list \<times> bool" where
  "export_copy iename [] out rv = (out, rv)"
| "export_copy iename (s # ss) out rv =
     (if \<not> length out < QOF_EXPORT_SPEC_SZ - 1 then (out, rv)
      else if ie_name s = iename then export_copy iename ss (out @ [s]) True
      else export_copy iename ss out rv)"

definition yfWriterExportIE :: "qfWriter \<Rightarrow> string \<Rightarrow> qfWriter \<times> bool" where
  "yfWriterExportIE w iename =
     (if QOF_EXPORT_SPEC_SZ - 1 \<le> length (qof_export_spec w) then (w, False)
      else case export_copy iename qof_internal_spec (qof_export_spec w) False of
        (out, rv) \<Rightarrow> (w\<lparr>qof_export_spec := out\<rparr>, rv))"

definition yfWriterExportIECount :: "qfWriter \<Rightarrow> nat" where
  "yfWriterExportIECount w = length (qof_export_spec w)"

subsection \<open>Filling the record\<close>

datatype fval = V64 u64 | V32 u32 | V16 u16 | V8 u8 | VI32 i32 | VI16 "16 word" | VOcts "u8 list"

fun fval_type :: "fval \<Rightarrow> ctype" where
  "fval_type (V64 x) = UInt64" | "fval_type (V32 x) = UInt32" | "fval_type (V16 x) = UInt16"
| "fval_type (V8 x) = UInt8" | "fval_type (VI32 x) = Int32" | "fval_type (VI16 x) = Int16"
| "fval_type (VOcts xs) = Octets (length xs)"

type_synonym frec = "(string \<times> fval) list"

text \<open>The direction: a flow out of the source networks, or to a source MAC address, is turned round.\<close>

definition flow_reversed :: "qfWriter \<Rightarrow> yfFlow \<Rightarrow> bool option" where
  "flow_reversed w f =
     Option.bind
       (case yaf_source_netlist w of None \<Rightarrow> Some False
        | Some nl \<Rightarrow> map_option (\<lambda>d. d = QF_DIR_OUT) (qfFlowDirection nl (f_key f)))
       (\<lambda>b. if b then Some True
             else case yaf_source_maclist w of None \<Rightarrow> Some False
                  | Some ml \<Rightarrow> qfMacListContains ml (f_destinationMacAddr f))"

definition base_fields :: "yfFlow \<Rightarrow> yfFlowVal \<Rightarrow> yfFlowVal \<Rightarrow> frec" where
  "base_fields f val rval = [
      (''flowStartMilliseconds'', V64 (f_stime f)),
      (''flowEndMilliseconds'', V64 (f_etime f)),
      (''reverseFlowDeltaMilliseconds'', VI32 (f_rdtime f)),
      (''flowId'', V64 (f_fid f)),
      (''flowEndReason'', V8 (f_reason f)),
      (''minimumTTL'', V8 (fv_minttl val)),
      (''reverseMinimumTTL'', V8 (fv_minttl rval)),
      (''maximumTTL'', V8 (fv_maxttl val)),
      (''reverseMaximumTTL'', V8 (fv_maxttl rval)),
      (''octetCount'', V64 (fv_oct val)),
      (''reverseOctetCount'', V64 (fv_oct rval)),
      (''packetCount'', V64 (fv_pkt val)),
      (''reversePacketCount'', V64 (fv_pkt rval)),
      (''transportOctetDeltaCount'', V64 (fv_appoct val)),
      (''reverseTransportOctetDeltaCount'', V64 (fv_appoct rval)),
      (''transportPacketDeltaCount'', V64 (fv_apppkt val)),
      (''reverseTransportPacketDeltaCount'', V64 (fv_apppkt rval))]"

definition port_fields :: "yfFlowKey \<Rightarrow> frec" where
  "port_fields key = [
      (''sourceTransportPort'', V16 (k_sp key)),
      (''destinationTransportPort'', V16 (k_dp key)),
      (''protocolIdentifier'', V8 (k_proto key))]"

text \<open>The octets of a 32-bit address in network order, behind the prefix of mapped addresses.\<close>

definition htonl_octets :: "u32 \<Rightarrow> u8 list" where
  "htonl_octets a = [ucast (drop_bit 24 a), ucast (drop_bit 16 a), ucast (drop_bit 8 a), ucast a]"

definition yaf_ip6map_pfx :: "u8 list" where
  "yaf_ip6map_pfx = [0, 0, 0, 0, 0, 0, 0, 0, 0, 0, 0xFF, 0xFF]"

definition addr_fields :: "qfWriter \<Rightarrow> yfFlowKey \<Rightarrow> frec \<times> u32" where
  "addr_fields w key =
     (if yaf_core_map_ipv6 w \<and> k_version key = 4 then
        ([(''sourceIPv6Address'', VOcts (yaf_ip6map_pfx @ htonl_octets (k_sip4 key))),
          (''destinationIPv6Address'', VOcts (yaf_ip6map_pfx @ htonl_octets (k_dip4 key)))], YTF_IP6)
      else if k_version key = 4 then
        ([(''sourceIPv4Address'', V32 (k_sip4 key)), (''destinationIPv4Address'', V32 (k_dip4 key))], YTF_IP4)
      else if k_version key = 6 then
        ([(''sourceIPv6Address'', VOcts (k_sip6 key)), (''destinationIPv6Address'', VOcts (k_dip6 key))], YTF_IP6)
      else ([], 0))"

definition flags_fields :: "yfFlowVal \<Rightarrow> yfFlowVal \<Rightarrow> frec" where
  "flags_fields val rval = [
      (''initialTCPFlags'', V8 (fv_iflags val)),
      (''reverseInitialTCPFlags'', V8 (fv_iflags rval)),
      (''unionTCPFlags'', V8 (fv_uflags val)),
      (''reverseUnionTCPFlags'', V8 (fv_uflags rval)),
      (''tcpControlBits'', V8 (fv_iflags val OR fv_uflags val)),
      (''reverseTcpControlBits'', V8 (fv_iflags rval OR fv_uflags rval))]"

definition trunc :: "real \<Rightarrow> int" where
  "trunc x = (if x < 0 then \<lceil>x\<rceil> else \<lfloor>x\<rfloor>)"

definition tcp_fields :: "yfFlowVal \<Rightarrow> qfTcpVal \<Rightarrow> frec" where
  "tcp_fields val t = [
      (''tcpSequenceCount'', V64 (qfSeqCount (tv_seq t) (fv_iflags val OR fv_uflags val))),
      (''tcpSequenceLossCount'', V64 (ucast (snd (qfSeqCountLost (tv_seq t))))),
      (''tcpRetransmitCount'', V64 (ucast (sq_rtx (tv_seq t)))),
      (''tcpSequenceJumpCount'', V64 (ucast (sq_ooo (tv_seq t)))),
      (''maxTcpSequenceJump'', V32 (sq_maxooo (tv_seq t))),
      (''tcpLossEventCount'', V64 (ucast (sq_lossct (tv_seq t)))),
      (''tcpDupAckCount'', V64 (ucast (ack_dup_ct (tv_ack t)))),
      (''tcpSelAckCount'', V64 (ucast (ack_sel_ct (tv_ack t)))),
      (''qofTcpCharacteristics'', V32 (op_flags (tv_opts t))),
      (''tcpSequenceNumber'', V32 (sq_isn (tv_seq t))),
      (''observedTcpMss'', V16 (op_mss (tv_opts t))),
      (''declaredTcpMss'', V16 (op_mss_opt (tv_opts t))),
      (''minTcpRwin'', V32 (mm_min (sm_mm (rw_val (tv_rwin t))))),
      (''meanTcpRwin'', V32 (word_of_int (trunc (sm_mean (rw_val (tv_rwin t)))))),
      (''maxTcpRwin'', V32 (mm_max (sm_mm (rw_val (tv_rwin t))))),
      (''tcpReceiverStallCount'', V32 (rw_stall (tv_rwin t))),
      (''minTcpIOTMilliseconds'', V32 (mm_min (sm_mm (sq_seg_iat (tv_seq t))))),
      (''maxTcpIOTMilliseconds'', V32 (mm_max (sm_mm (sq_seg_iat (tv_seq t)))))]"

definition ts_fields :: "qfTcpVal \<Rightarrow> frec" where
  "ts_fields t = [
      (''tcpTimestampFrequency'', V32 (qfTimestampHz (tv_seq t))),
      (''minTcpChirpMilliseconds'', VI16 (ucast (mm_min (sm_mm (sq_seg_variat (tv_seq t)))))),
      (''maxTcpChirpMilliseconds'', VI16 (ucast (mm_max (sm_mm (sq_seg_variat (tv_seq t)))))),
      (''meanTcpChirpMilliseconds'', VI16 (word_of_int (trunc (sm_mean (sq_seg_variat (tv_seq t))))))]"

definition reverse_tcp_fields :: "yfFlowVal \<Rightarrow> qfTcpVal \<Rightarrow> frec" where
  "reverse_tcp_fields val t = [
      (''reverseTcpSequenceCount'', V64 (qfSeqCount (tv_seq t) (fv_iflags val OR fv_uflags val))),
      (''reverseTcpSequenceLossCount'', V64 (ucast (snd (qfSeqCountLost (tv_seq t))))),
      (''reverseTcpRetransmitCount'', V64 (ucast (sq_rtx (tv_seq t)))),
      (''reverseTcpSequenceJumpCount'', V64 (ucast (sq_ooo (tv_seq t)))),
      (''reverseMaxTcpSequenceJump'', V32 (sq_maxooo (tv_seq t))),
      (''reverseTcpLossEventCount'', V64 (ucast (sq_lossct (tv_seq t)))),
      (''reverseTcpDupAckCount'', V64 (ucast (ack_dup_ct (tv_ack t)))),
      (''reverseTcpSelAckCount'', V64 (ucast (ack_sel_ct (tv_ack t)))),
      (''reverseQofTcpCharacteristics'', V32 (op_flags (tv_opts t))),
      (''reverseTcpSequenceNumber'', V32 (sq_isn (tv_seq t))),
      (''reverseObservedTcpMss'', V16 (op_mss (tv_opts t))),
      (''reverseDeclaredTcpMss'', V16 (op_mss_opt (tv_opts t))),
      (''reverseMinTcpRwin'', V32 (mm_min (sm_mm (rw_val (tv_rwin t))))),
      (''reverseMeanTcpRwin'', V32 (word_of_int (trunc (sm_mean (rw_val (tv_rwin t)))))),
      (''reverseMaxTcpRwin'', V32 (mm_max (sm_mm (rw_val (tv_rwin t))))),
      (''reverseTcpReceiverStallCount'', V32 (rw_stall (tv_rwin t))),
      (''reverseMinTcpIOTMilliseconds'', V32 (mm_min (sm_mm (sq_seg_iat (tv_seq t))))),
      (''reverseMaxTcpIOTMilliseconds'', V32 (mm_max (sm_mm (sq_seg_iat (tv_seq t)))))]"

definition reverse_ts_fields :: "qfTcpVal \<Rightarrow> frec" where
  "reverse_ts_fields t = [
      (''reverseTcpTimestampFrequency'', V32 (qfTimestampHz (tv_seq t))),
      (''reverseMinTcpChirpMilliseconds'', VI16 (ucast (mm_min (sm_mm (sq_seg_variat (tv_seq t)))))),
      (''reverseMaxTcpChirpMilliseconds'', VI16 (ucast (mm_max (sm_mm (sq_seg_variat (tv_seq t)))))),
      (''reverseMeanTcpChirpMilliseconds'', VI16 (word_of_int (trunc (sm_mean (sq_seg_variat (tv_seq t))))))]"

text \<open>One direction of the TCP part: the timestamp elements are set when a frequency could be measured,
  and counting the losses clears the gaps of the sequence tracker.\<close>

definition tcp_side ::
  "(yfFlowVal \<Rightarrow> qfTcpVal \<Rightarrow> frec) \<Rightarrow> (qfTcpVal \<Rightarrow> frec) \<Rightarrow> yfFlowVal \<Rightarrow> frec \<times> u32 \<times> yfFlowVal" where
  "tcp_side fs tsf val =
     (case fv_tcp val of
        None \<Rightarrow> ([], 0, val)
      | Some t \<Rightarrow>
          let hz = qfTimestampHz (tv_seq t)
          in (fs val t @ (if hz \<noteq> 0 then tsf t else []), if hz \<noteq> 0 then YTF_TSV else 0,
              val\<lparr>fv_tcp := Some (t\<lparr>tv_seq := fst (qfSeqCountLost (tv_seq t))\<rparr>)\<rparr>))"

definition rtt_fields :: "yfFlow \<Rightarrow> frec \<times> u32" where
  "rtt_fields f =
     (let val = rtt_val (f_rtt f)
      in if \<not> (QOF_MIN_RTT_COUNT \<le>s ls_n val) then ([], 0)
         else ([(''lastTcpRttMilliseconds'', V16 (ucast (ls_val val))),
                (''minTcpRttMilliseconds'', V16 (ucast (mm_min (ls_mm val)))),
                (''tcpRttSampleCount'', V32 (ls_n val))], YTF_RTT))"

definition mac_fields :: "yfFlow \<Rightarrow> yfFlowKey \<Rightarrow> yfFlowVal \<Rightarrow> yfFlowVal \<Rightarrow> frec" where
  "mac_fields f key val rval = [
      (''sourceMacAddress'', VOcts (take 6 (f_sourceMacAddr f))),
      (''destinationMacAddress'', VOcts (take 6 (f_destinationMacAddr f))),
      (''vlanId'', V16 (k_vlanId key)),
      (''ingressInterface'', V8 (fv_netIf val)),
      (''egressInterface'', V8 (fv_netIf rval))]"

definition length_flag :: "yfFlowVal \<Rightarrow> yfFlowVal \<Rightarrow> u32" where
  "length_flag val rval =
     (if fv_oct val < YAF_RLEMAX \<and> fv_oct rval < YAF_RLEMAX \<and> fv_pkt val < YAF_RLEMAX \<and> fv_pkt rval < YAF_RLEMAX
      then YTF_RLE else YTF_FLE)"

text \<open>The TCP part: its members and flags, and the values as the loss counts leave them.\<close>

definition tcp_part :: "yfFlow \<Rightarrow> yfFlowKey \<Rightarrow> yfFlowVal \<Rightarrow> yfFlowVal \<Rightarrow> frec \<times> u32 \<times> yfFlowVal \<times> yfFlowVal" where
  "tcp_part f key val rval =
     (if k_proto key = YF_PROTO_TCP then
        let (fw, fflag, val') = tcp_side tcp_fields ts_fields val;
            (rv, rflag, rval') = tcp_side reverse_tcp_fields reverse_ts_fields rval;
            (rtt, rttflag) = rtt_fields f
        in (flags_fields val rval @ fw @ rv @ rtt, YTF_TCP OR fflag OR rflag OR rttflag, val', rval')
      else ([], 0, val, rval))"

datatype fb_error = FB_ERROR_TMPL | FB_ERROR_OTHER

datatype qof_error = FbError fb_error | IllegalVersion u8

text \<open>The record of a flow: the flow as it is left, the members assigned, the template flags and the
  error set on the way. The interface map is searched with the key of the flow as it was metered, the
  result stored in the oriented values.\<close>

definition orient :: "bool \<Rightarrow> yfFlow \<Rightarrow> yfFlowKey \<times> yfFlowVal \<times> yfFlowVal" where
  "orient rvd f = (if rvd then (yfFlowKeyReverse (f_key f) zero_key, f_rval f, f_val f) else (f_key f, f_val f, f_rval f))"

definition map_interfaces :: "qfWriter \<Rightarrow> yfFlowKey \<Rightarrow> yfFlowVal \<Rightarrow> yfFlowVal \<Rightarrow> (yfFlowVal \<times> yfFlowVal) option" where
  "map_interfaces w key val rval =
     (case yaf_core_ifmap w of None \<Rightarrow> Some (val, rval)
      | Some mp \<Rightarrow> map_option (\<lambda>(i, e). (val\<lparr>fv_netIf := i\<rparr>, rval\<lparr>fv_netIf := e\<rparr>)) (qfIfMapAddresses mp key))"

definition flow_record :: "qfWriter \<Rightarrow> yfFlow \<Rightarrow> (yfFlow \<times> frec \<times> u32 \<times> qof_error option) option" where
  "flow_record w f = do {
     rvd \<leftarrow> flow_reversed w f;
     let (key, val, rval) = orient rvd f;
     let base = base_fields f val rval;
     (val, rval) \<leftarrow> map_interfaces w (f_key f) val rval;
     let (addrs, aflag) = addr_fields w key;
     let err = (if aflag = 0 then Some (IllegalVersion (k_version key)) else None);
     let (tcp, tflag, val, rval) = tcp_part f key val rval;
     let rec = base @ port_fields key @ addrs @ tcp @ mac_fields f key val rval;
     let biflag = (if yaf_core_force_biflow w \<or> fv_pkt rval \<noteq> 0 then YTF_BIF else 0);
     Some (if rvd then f\<lparr>f_val := rval, f_rval := val\<rparr> else f\<lparr>f_val := val, f_rval := rval\<rparr>,
           rec, aflag OR tflag OR biflag OR length_flag val rval, err)
   }"

subsection \<open>Handing it to the IPFIX library\<close>

datatype fbTransport = FB_SCTP | FB_TCP | FB_UDP | FB_DTLS_SCTP | FB_TLS_TCP | FB_DTLS_UDP

record fbConnSpec =
  cs_transport :: fbTransport
  cs_host :: "string option"
  cs_svc :: "string option"
  cs_ssl_ca_file :: "string option"
  cs_ssl_cert_file :: "string option"
  cs_ssl_key_file :: "string option"
  cs_ssl_key_pass :: "string option"

text \<open>The connection specifier filled with zeros.\<close>

definition no_connspec :: fbConnSpec where
  "no_connspec = \<lparr>cs_transport = FB_SCTP, cs_host = None, cs_svc = None, cs_ssl_ca_file = None, cs_ssl_cert_file = None,
     cs_ssl_key_file = None, cs_ssl_key_pass = None\<rparr>"

datatype fb_exporter = ExporterFile string | ExporterFP nat | ExporterNet fbConnSpec

record ('b, 'm) fbuf_ops =
  fbSessionAlloc :: 'b
  fBufAllocForExport :: "'b \<Rightarrow> fb_exporter \<Rightarrow> 'b"
  fbSessionSetDomain :: "'b \<Rightarrow> u32 \<Rightarrow> 'b"
  fbTemplateAppendSpecArray :: "fbInfoElementSpec list \<Rightarrow> u32 \<Rightarrow> fb_error + 'm"
  fbTemplateSetOptionsScope :: "'m \<Rightarrow> nat \<Rightarrow> 'm"
  fbSessionAddTemplate :: "'b \<Rightarrow> bool \<Rightarrow> u16 \<Rightarrow> 'm \<Rightarrow> 'b \<times> fb_error option"
  fbSessionExportTemplates :: "'b \<Rightarrow> 'b \<times> fb_error option"
  fBufSetInternalTemplate :: "'b \<Rightarrow> u16 \<Rightarrow> 'b \<times> fb_error option"
  fBufSetExportTemplate :: "'b \<Rightarrow> u16 \<Rightarrow> 'b \<times> fb_error option"
  fBufAppend :: "'b \<Rightarrow> frec \<Rightarrow> 'b \<times> fb_error option"
  fBufEmit :: "'b \<Rightarrow> 'b \<times> fb_error option"
  fBufFree :: "'b \<Rightarrow> 'b"

text \<open>\<open>g_set_error\<close> keeps an error that is set already.\<close>

definition set_err :: "qof_error option \<Rightarrow> fb_error \<Rightarrow> qof_error option" where
  "set_err err e = (case err of None \<Rightarrow> Some (FbError e) | Some e' \<Rightarrow> Some e')"

definition yfAllocInternalTemplate :: "('b, 'm) fbuf_ops \<Rightarrow> fb_error + 'm" where
  "yfAllocInternalTemplate ops = fbTemplateAppendSpecArray ops qof_internal_spec YTF_ALL"

definition yfAllocExportTemplate :: "('b, 'm) fbuf_ops \<Rightarrow> qfWriter \<Rightarrow> u32 \<Rightarrow> fb_error + 'm" where
  "yfAllocExportTemplate ops w flags =
     fbTemplateAppendSpecArray ops (if yfWriterExportIECount w \<noteq> 0 then qof_export_spec w else qof_internal_spec) flags"

definition yfSetExportTemplate ::
  "('b, 'm) fbuf_ops \<Rightarrow> qfWriter \<Rightarrow> 'b \<Rightarrow> u16 \<Rightarrow> qof_error option \<Rightarrow> 'b \<times> bool \<times> qof_error option" where
  "yfSetExportTemplate ops w b tid err =
     (case fBufSetExportTemplate ops b tid of
        (b, None) \<Rightarrow> (b, True, err)
      | (b, Some e) \<Rightarrow>
          let err = set_err err e
          in if err \<noteq> Some (FbError FB_ERROR_TMPL) then (b, False, err)
             else case yfAllocExportTemplate ops w (ucast (tid AND NOT YAF_FLOW_BASE_TID)) of
                 Inl e \<Rightarrow> (b, False, Some (FbError e))
               | Inr tmpl \<Rightarrow>
                   (case fbSessionAddTemplate ops b False tid tmpl of
                      (b, Some e) \<Rightarrow> (b, False, Some (FbError e))
                    | (b, None) \<Rightarrow>
                        (case fBufSetExportTemplate ops b tid of
                           (b, None) \<Rightarrow> (b, True, None)
                         | (b, Some e) \<Rightarrow> (b, False, Some (FbError e)))))"

definition yfWriteFlow ::
  "('b, 'm) fbuf_ops \<Rightarrow> qfWriter \<Rightarrow> 'b \<Rightarrow> yfFlow \<Rightarrow> (yfFlow \<times> 'b \<times> bool \<times> qof_error option) option" where
  "yfWriteFlow ops w b f = do {
     (f, rec, flags, err) \<leftarrow> flow_record w f;
     let wtid = YAF_FLOW_BASE_TID OR ucast flags;
     let (b, ok, err) = yfSetExportTemplate ops w b wtid err;
     if \<not> ok then Some (f, b, False, err)
     else case fBufAppend ops b rec of
         (b, Some e) \<Rightarrow> Some (f, b, False, set_err err e)
       | (b, None) \<Rightarrow> Some (f, b, True, err)
   }"

definition yfWriterClose :: "('b, 'm) fbuf_ops \<Rightarrow> 'b \<Rightarrow> bool \<Rightarrow> 'b \<times> fb_error option" where
  "yfWriterClose ops b flush =
     (let (b, e) = (if flush then fBufEmit ops b else (b, None)) in (fBufFree ops b, e))"

subsection \<open>Opening a writer\<close>

text \<open>Adding the template of the statistics record, whose last two elements are its scope, once as an
  internal and once as an exported template.\<close>

definition add_stats_template :: "('b, 'm) fbuf_ops \<Rightarrow> 'b \<Rightarrow> 'b \<times> fb_error option" where
  "add_stats_template ops b =
     (case fbTemplateAppendSpecArray ops yaf_stats_option_spec 0 of
        Inl e \<Rightarrow> (b, Some e)
      | Inr tmpl \<Rightarrow>
          let tmpl = fbTemplateSetOptionsScope ops tmpl 2
          in case fbSessionAddTemplate ops b True YAF_OPTIONS_TID tmpl of
               (b, Some e) \<Rightarrow> (b, Some e)
             | (b, None) \<Rightarrow> fbSessionAddTemplate ops b False YAF_OPTIONS_TID tmpl)"

definition yfInitExporterSession ::
  "('b, 'm) fbuf_ops \<Rightarrow> qfWriter \<Rightarrow> u32 \<Rightarrow> u64 \<Rightarrow> qfWriter \<times> (fb_error + 'b)" where
  "yfInitExporterSession ops w domain cur_time =
     (let w = w\<lparr>yaf_start_time := cur_time * 1000\<rparr>; b = fbSessionSetDomain ops (fbSessionAlloc ops) domain
      in (w, case yfAllocInternalTemplate ops of
               Inl e \<Rightarrow> Inl e
             | Inr tmpl \<Rightarrow>
                 (case fbSessionAddTemplate ops b True YAF_FLOW_FULL_TID tmpl of
                    (b, Some e) \<Rightarrow> Inl e
                  | (b, None) \<Rightarrow>
                      (case add_stats_template ops b of (b, Some e) \<Rightarrow> Inl e | (b, None) \<Rightarrow> Inr b))))"

text \<open>The end the three constructors share: export the templates and select the internal one.\<close>

definition writer_start :: "('b, 'm) fbuf_ops \<Rightarrow> 'b \<Rightarrow> fb_error + 'b" where
  "writer_start ops b =
     (case fbSessionExportTemplates ops b of
        (b, Some e) \<Rightarrow> Inl e
      | (b, None) \<Rightarrow>
          (case fBufSetInternalTemplate ops b YAF_FLOW_FULL_TID of (b, Some e) \<Rightarrow> Inl e | (b, None) \<Rightarrow> Inr b))"

definition yfWriterForFile ::
  "('b, 'm) fbuf_ops \<Rightarrow> qfWriter \<Rightarrow> string \<Rightarrow> u32 \<Rightarrow> u64 \<Rightarrow> qfWriter \<times> (fb_error + 'b)" where
  "yfWriterForFile ops w path domain cur_time =
     (case yfInitExporterSession ops w domain cur_time of
        (w, Inl e) \<Rightarrow> (w, Inl e)
      | (w, Inr b) \<Rightarrow> (w, writer_start ops (fBufAllocForExport ops b (ExporterFile path))))"

definition yfWriterForFP ::
  "('b, 'm) fbuf_ops \<Rightarrow> qfWriter \<Rightarrow> nat \<Rightarrow> u32 \<Rightarrow> u64 \<Rightarrow> qfWriter \<times> (fb_error + 'b)" where
  "yfWriterForFP ops w fp domain cur_time =
     (case yfInitExporterSession ops w domain cur_time of
        (w, Inl e) \<Rightarrow> (w, Inl e)
      | (w, Inr b) \<Rightarrow> (w, writer_start ops (fBufAllocForExport ops b (ExporterFP fp))))"

definition yfWriterForSpec ::
  "('b, 'm) fbuf_ops \<Rightarrow> qfWriter \<Rightarrow> fbConnSpec \<Rightarrow> u32 \<Rightarrow> u64 \<Rightarrow> qfWriter \<times> (fb_error + 'b)" where
  "yfWriterForSpec ops w spec domain cur_time =
     (case yfInitExporterSession ops w domain cur_time of
        (w, Inl e) \<Rightarrow> (w, Inl e)
      | (w, Inr b) \<Rightarrow>
          (w, writer_start ops (fbSessionSetDomain ops (fBufAllocForExport ops b (ExporterNet spec)) domain)))"

subsection \<open>The statistics record\<close>

definition stats_fields :: "yfIpfixStats \<Rightarrow> frec" where
  "stats_fields r = [
      (''systemInitTimeMilliseconds'', V64 (systemInitTimeMilliseconds r)),
      (''exportedFlowTotalCount'', V64 (exportedFlowTotalCount r)),
      (''packetTotalCount'', V64 (packetTotalCount r)),
      (''droppedPacketTotalCount'', V64 (droppedPacketTotalCount r)),
      (''ignoredPacketTotalCount'', V64 (ignoredPacketTotalCount r)),
      (''notSentPacketTotalCount'', V64 (notSentPacketTotalCount r)),
      (''expiredFragmentCount'', V32 (expiredFragmentCount r)),
      (''assembledFragmentCount'', V32 (assembledFragmentCount r)),
      (''flowTableFlushEvents'', V32 (flowTableFlushEvents r)),
      (''flowTablePeakCount'', V32 (flowTablePeakCount r)),
      (''exporterIPv4Address'', V32 (exporterIPv4Address r)),
      (''exportingProcessId'', V32 (exportingProcessId r))]"

text \<open>The static flag remembers that the templates were added, to whichever session.\<close>

definition yfEnsureStatsTemplate ::
  "('b, 'm) fbuf_ops \<Rightarrow> qfWriter \<Rightarrow> 'b \<Rightarrow> qfWriter \<times> 'b \<times> bool \<times> qof_error option" where
  "yfEnsureStatsTemplate ops w b =
     (case (if stats_template_initialized w then (b, None) else add_stats_template ops b) of
        (b, Some e) \<Rightarrow> (w, b, False, Some (FbError e))
      | (b, None) \<Rightarrow>
          let w = w\<lparr>stats_template_initialized := True\<rparr>
          in case fBufSetInternalTemplate ops b YAF_OPTIONS_TID of
               (b, Some e) \<Rightarrow> (w, b, False, Some (FbError e))
             | (b, None) \<Rightarrow> (case yfSetExportTemplate ops w b YAF_OPTIONS_TID None of (b, ok, err) \<Rightarrow> (w, b, ok, err)))"

definition write_stats ::
  "('b, 'm) fbuf_ops \<Rightarrow> qfWriter \<Rightarrow> 'b \<Rightarrow> yfIpfixStats \<Rightarrow> qfWriter \<times> 'b \<times> bool \<times> qof_error option" where
  "write_stats ops w b r =
     (case yfEnsureStatsTemplate ops w b of
        (w, b, False, err) \<Rightarrow> (w, b, False, err)
      | (w, b, True, err) \<Rightarrow>
          (case fBufAppend ops b (stats_fields r) of
             (b, Some e) \<Rightarrow> (w, b, False, Some (FbError e))
           | (b, None) \<Rightarrow>
               (case fBufSetInternalTemplate ops b YAF_FLOW_FULL_TID of
                  (b, Some e) \<Rightarrow> (w, b, False, Some (FbError e))
                | (b, None) \<Rightarrow> (w, b, True, None))))"

end
