(* ===== verification/ExportRun.thy ===== *)
theory ExportRun
  imports ExportSpec
begin

unbundle bit_operations_syntax

text \<open>
  The record writer against the IPFIX library. The library is described by the locale \<open>fixbuf\<close>: a view of a
  buffer (its exported and internal templates, those selected, the records appended) and what the library's
  documented functions do to it. Also here: the choice of exported elements.
\<close>

subsection \<open>The library\<close>

text \<open>What a buffer and its session hold. A record is kept with the internal template that describes the
  structure it was read from and the exported template it goes out under.\<close>

record 'm fbview =
  vw_ext :: "u16 \<Rightarrow> 'm option"
  vw_int :: "u16 \<Rightarrow> 'm option"
  vw_cur :: "u16 option"
  vw_icur :: "u16 option"
  vw_recs :: "(u16 \<times> u16 \<times> frec) list"

text \<open>A template is built from the elements whose flags are all given; adding a template makes it known;
  selecting one succeeds exactly when the session has it and fails with the missing-template error otherwise; an
  appended record goes out under the selected templates; the other calls change nothing of the view.\<close>

locale fixbuf =
  fixes ops :: "('b, 'm) fbuf_ops" and view :: "'b \<Rightarrow> 'm fbview" and elems :: "'m \<Rightarrow> fbInfoElementSpec list"
  assumes build: "\<exists>m. fbTemplateAppendSpecArray ops spec flags = Inr m \<and> elems m = filter (selected flags) spec"
    and scope: "elems (fbTemplateSetOptionsScope ops m n) = elems m"
    and new_session: "view (fbSessionAlloc ops) = \<lparr>vw_ext = (\<lambda>t. None), vw_int = (\<lambda>t. None), vw_cur = None, vw_icur = None, vw_recs = []\<rparr>"
    and new_buffer: "view (fBufAllocForExport ops b x) = view b"
    and domain: "view (fbSessionSetDomain ops b d) = view b"
    and add_ext: "\<exists>b'. fbSessionAddTemplate ops b False tid m = (b', None) \<and> view b' = (view b)\<lparr>vw_ext := (vw_ext (view b))(tid \<mapsto> m)\<rparr>"
    and add_int: "\<exists>b'. fbSessionAddTemplate ops b True tid m = (b', None) \<and> view b' = (view b)\<lparr>vw_int := (vw_int (view b))(tid \<mapsto> m)\<rparr>"
    and send_templates: "\<exists>b'. fbSessionExportTemplates ops b = (b', None) \<and> view b' = view b"
    and set_ext: "\<exists>b'. fBufSetExportTemplate ops b tid = (b', if vw_ext (view b) tid = None then Some FB_ERROR_TMPL else None) \<and>
      view b' = (if vw_ext (view b) tid = None then view b else (view b)\<lparr>vw_cur := Some tid\<rparr>)"
    and set_int: "\<exists>b'. fBufSetInternalTemplate ops b tid = (b', if vw_int (view b) tid = None then Some FB_ERROR_TMPL else None) \<and>
      view b' = (if vw_int (view b) tid = None then view b else (view b)\<lparr>vw_icur := Some tid\<rparr>)"
    and append: "\<lbrakk>vw_icur (view b) = Some i; vw_cur (view b) = Some tid\<rbrakk> \<Longrightarrow>
      \<exists>b'. fBufAppend ops b r = (b', None) \<and> view b' = (view b)\<lparr>vw_recs := vw_recs (view b) @ [(i, tid, r)]\<rparr>"
    and emit: "\<exists>b'. fBufEmit ops b = (b', None) \<and> view b' = view b"
    and free: "vw_recs (view (fBufFree ops b)) = vw_recs (view b)"

definition spec_of :: "qfWriter \<Rightarrow> fbInfoElementSpec list" where
  "spec_of w = (if qof_export_spec w \<noteq> [] then qof_export_spec w else qof_internal_spec)"

definition flow_tid :: "u32 \<Rightarrow> u16" where
  "flow_tid flags = YAF_FLOW_BASE_TID OR ucast flags"

text \<open>Every flow template the session has contains the elements its identifier stands for.\<close>

definition templates_ok :: "qfWriter \<Rightarrow> ('m \<Rightarrow> fbInfoElementSpec list) \<Rightarrow> (u16 \<Rightarrow> 'm option) \<Rightarrow> bool" where
  "templates_ok w elems tm \<longleftrightarrow> (\<forall>fl m. fl < 0x100 \<and> tm (flow_tid fl) = Some m \<longrightarrow> elems m = filter (selected fl) (spec_of w))"

text \<open>The flags of a flow record fit beside the base of the template identifiers.\<close>

lemma low_octet: "take_bit 8 fl = fl \<longleftrightarrow> fl < 0x100" for fl :: u32
  by (simp add: word_unat_eq_iff unsigned_take_bit_eq take_bit_nat_eq_self_iff word_less_nat_alt)

lemma flow_tid_flags: "fl < 0x100 \<Longrightarrow> ucast (flow_tid fl AND NOT YAF_FLOW_BASE_TID) = fl"
proof -
  assume "fl < 0x100"
  then have t: "take_bit 8 fl = fl" by (simp add: low_octet)
  have b: "bit fl k \<Longrightarrow> k < 8" for k using t by (metis bit_take_bit_iff)
  define B where "B = YAF_FLOW_BASE_TID"
  have base: "B = push_bit 12 0xB" by (simp add: push_bit_eq_mult B_def)
  have c: "bit B k \<Longrightarrow> 12 \<le> k" for k unfolding base bit_push_bit_iff by blast
  have d: "\<not> bit B k" if "bit fl k" for k using b [OF that] c [of k] by linarith
  show ?thesis unfolding flow_tid_def B_def [symmetric]
    by (rule bit_eqI) (auto simp: bit_simps d dest: b [THEN less_trans [of _ 8 16]])
qed

lemma flow_tid_inj: "\<lbrakk>fl < 0x100; fl' < 0x100; flow_tid fl = flow_tid fl'\<rbrakk> \<Longrightarrow> fl = fl'"
  using flow_tid_flags by metis

lemma record_flags_small:
  assumes "flow_record w f = Some (f', rec, flags, err)"
  shows "flags < 0x100"
proof -
  obtain rvd key v r where fl: "flags = snd (addr_fields w key) OR tcp_flags f key v r OR (if biflow w r then YTF_BIF else 0) OR length_flag v r"
    using assms by (rule flow_record_parts)
  have or8: "take_bit 8 a = a \<Longrightarrow> take_bit 8 b = b \<Longrightarrow> take_bit 8 (a OR b) = a OR b" for a b :: u32 by simp
  have "take_bit 8 (snd (addr_fields w key)) = snd (addr_fields w key)"
    "take_bit 8 (tcp_flags f key v r) = tcp_flags f key v r"
    "take_bit 8 (length_flag v r) = length_flag v r" "take_bit 8 (if biflow w r then YTF_BIF else 0) = (if biflow w r then YTF_BIF else 0)"
    by (simp_all add: addr_fields_def tcp_flags_def tcp_part_def tcp_side_def rtt_fields_def length_flag_def YTF_defs Let_def split_beta
        low_octet split: option.splits)
  then have "take_bit 8 flags = flags" unfolding fl by (intro or8)
  then show ?thesis by (simp add: low_octet)
qed

subsection \<open>Writing a flow\<close>

context fixbuf
begin

lemma set_template:
  assumes fl: "fl < 0x100"
  shows "\<exists>b' tm. yfSetExportTemplate ops w b (flow_tid fl) None = (b', True, None) \<and>
    view b' = (view b)\<lparr>vw_ext := tm, vw_cur := Some (flow_tid fl)\<rparr> \<and>
    (\<forall>t. t \<noteq> flow_tid fl \<longrightarrow> tm t = vw_ext (view b) t) \<and> tm (flow_tid fl) \<noteq> None \<and>
    (templates_ok w elems (vw_ext (view b)) \<longrightarrow> templates_ok w elems tm)"
proof -
  obtain b1 where b1: "fBufSetExportTemplate ops b (flow_tid fl) =
      (b1, if vw_ext (view b) (flow_tid fl) = None then Some FB_ERROR_TMPL else None)"
    "view b1 = (if vw_ext (view b) (flow_tid fl) = None then view b else (view b)\<lparr>vw_cur := Some (flow_tid fl)\<rparr>)"
    using set_ext by blast
  show ?thesis
  proof (cases "vw_ext (view b) (flow_tid fl)")
    case (Some m)
    then show ?thesis using b1
      by (intro exI [of _ b1] exI [of _ "vw_ext (view b)"]) (simp add: yfSetExportTemplate_def)
  next
    case None
    obtain m where m: "fbTemplateAppendSpecArray ops (spec_of w) fl = Inr m" "elems m = filter (selected fl) (spec_of w)"
      using build by blast
    obtain b2 where b2: "fbSessionAddTemplate ops b1 False (flow_tid fl) m = (b2, None)"
      "view b2 = (view b1)\<lparr>vw_ext := (vw_ext (view b1))(flow_tid fl \<mapsto> m)\<rparr>" using add_ext by blast
    obtain b3 where b3: "fBufSetExportTemplate ops b2 (flow_tid fl) =
        (b3, if vw_ext (view b2) (flow_tid fl) = None then Some FB_ERROR_TMPL else None)"
      "view b3 = (if vw_ext (view b2) (flow_tid fl) = None then view b2 else (view b2)\<lparr>vw_cur := Some (flow_tid fl)\<rparr>)"
      using set_ext by blast
    have al: "yfAllocExportTemplate ops w (ucast (flow_tid fl AND NOT YAF_FLOW_BASE_TID)) = Inr m"
      using m(1) unfolding flow_tid_flags [OF fl] by (simp add: yfAllocExportTemplate_def spec_of_def yfWriterExportIECount_def)
    have "templates_ok w elems ((vw_ext (view b))(flow_tid fl \<mapsto> m))" if "templates_ok w elems (vw_ext (view b))"
      using that fl m(2) flow_tid_inj by (auto simp: templates_ok_def)
    then show ?thesis using None b1 b2 b3 al
      by (intro exI [of _ b3] exI [of _ "(vw_ext (view b))(flow_tid fl \<mapsto> m)"]) (simp add: yfSetExportTemplate_def set_err_def)
  qed
qed

lemma write_flow:
  assumes r: "flow_record w f = Some (f', rec, flags, None)" and i: "vw_icur (view b) = Some i"
  shows "\<exists>b' tm. yfWriteFlow ops w b f = Some (f', b', True, None) \<and>
    view b' = (view b)\<lparr>vw_ext := tm, vw_cur := Some (flow_tid flags), vw_recs := vw_recs (view b) @ [(i, flow_tid flags, rec)]\<rparr> \<and>
    (\<forall>t. t \<noteq> flow_tid flags \<longrightarrow> tm t = vw_ext (view b) t) \<and> tm (flow_tid flags) \<noteq> None \<and>
    (templates_ok w elems (vw_ext (view b)) \<longrightarrow> templates_ok w elems tm)"
proof -
  from set_template [OF record_flags_small [OF r], of w b] obtain b1 tm where
    b1: "yfSetExportTemplate ops w b (flow_tid flags) None = (b1, True, None)"
    "view b1 = (view b)\<lparr>vw_ext := tm, vw_cur := Some (flow_tid flags)\<rparr>"
    and tm: "\<forall>t. t \<noteq> flow_tid flags \<longrightarrow> tm t = vw_ext (view b) t" "tm (flow_tid flags) \<noteq> None"
      "templates_ok w elems (vw_ext (view b)) \<longrightarrow> templates_ok w elems tm" by blast
  obtain b2 where "fBufAppend ops b1 rec = (b2, None)"
    "view b2 = (view b1)\<lparr>vw_recs := vw_recs (view b1) @ [(i, flow_tid flags, rec)]\<rparr>"
    using append [of b1 i "flow_tid flags" rec] i b1(2) by auto
  then show ?thesis using r b1 tm by (intro exI [of _ b2] exI [of _ tm]) (simp add: yfWriteFlow_def flow_tid_def)
qed

end

text \<open>C17: One flow, one record, under the right template. With a library that behaves as documented, and the full
  internal template selected, writing a flow of a legal IP version succeeds and appends exactly the record filled
  from it; the template it goes out under is loaded on first use, and contains exactly the chosen elements whose
  flags the record's flags cover; the templates of the session stay those their identifiers stand for.\<close>

theorem write_flow_exports:
  assumes "fixbuf ops view elems" and "templates_ok w elems (vw_ext (view b))" and "vw_icur (view b) = Some YAF_FLOW_FULL_TID"
    and "flow_record w f = Some (f', rec, flags, None)"
  shows "\<exists>b' m. yfWriteFlow ops w b f = Some (f', b', True, None) \<and>
    vw_recs (view b') = vw_recs (view b) @ [(YAF_FLOW_FULL_TID, flow_tid flags, rec)] \<and>
    vw_ext (view b') (flow_tid flags) = Some m \<and> elems m = filter (selected flags) (spec_of w) \<and>
    templates_ok w elems (vw_ext (view b')) \<and> vw_icur (view b') = Some YAF_FLOW_FULL_TID"
proof -
  from fixbuf.write_flow [OF assms(1,4,3)] assms(2) obtain b' tm where
    b: "yfWriteFlow ops w b f = Some (f', b', True, None)"
    "view b' = (view b)\<lparr>vw_ext := tm, vw_cur := Some (flow_tid flags),
       vw_recs := vw_recs (view b) @ [(YAF_FLOW_FULL_TID, flow_tid flags, rec)]\<rparr>"
    "tm (flow_tid flags) \<noteq> None" "templates_ok w elems tm" by blast
  then obtain m where m: "tm (flow_tid flags) = Some m" by blast
  then have "elems m = filter (selected flags) (spec_of w)"
    using b(4) record_flags_small [OF assms(4)] by (simp add: templates_ok_def)
  then show ?thesis using b m assms(3) by simp
qed

text \<open>A buffer that keeps what the view shows.\<close>

type_synonym log_buf = "fbInfoElementSpec list fbview"

definition empty_buf :: log_buf where
  "empty_buf = \<lparr>vw_ext = (\<lambda>t. None), vw_int = (\<lambda>t. None), vw_cur = None, vw_icur = None, vw_recs = []\<rparr>"

definition log_fbuf :: "(log_buf, fbInfoElementSpec list) fbuf_ops" where
  "log_fbuf = \<lparr>fbSessionAlloc = empty_buf, fBufAllocForExport = (\<lambda>b x. b), fbSessionSetDomain = (\<lambda>b d. b),
     fbTemplateAppendSpecArray = (\<lambda>spec flags. Inr (filter (selected flags) spec)), fbTemplateSetOptionsScope = (\<lambda>m n. m),
     fbSessionAddTemplate = (\<lambda>b int tid m. (if int then b\<lparr>vw_int := (vw_int b)(tid \<mapsto> m)\<rparr> else b\<lparr>vw_ext := (vw_ext b)(tid \<mapsto> m)\<rparr>, None)),
     fbSessionExportTemplates = (\<lambda>b. (b, None)),
     fBufSetInternalTemplate = (\<lambda>b tid. if vw_int b tid = None then (b, Some FB_ERROR_TMPL) else (b\<lparr>vw_icur := Some tid\<rparr>, None)),
     fBufSetExportTemplate = (\<lambda>b tid. if vw_ext b tid = None then (b, Some FB_ERROR_TMPL) else (b\<lparr>vw_cur := Some tid\<rparr>, None)),
     fBufAppend = (\<lambda>b r. case (vw_icur b, vw_cur b) of (Some i, Some tid) \<Rightarrow> (b\<lparr>vw_recs := vw_recs b @ [(i, tid, r)]\<rparr>, None)
       | _ \<Rightarrow> (b, Some FB_ERROR_TMPL)),
     fBufEmit = (\<lambda>b. (b, None)), fBufFree = (\<lambda>b. b)\<rparr>"

interpretation logbuf: fixbuf log_fbuf "\<lambda>b. b" "\<lambda>m. m"
  by unfold_locales (simp_all add: log_fbuf_def empty_buf_def)

theorem write_flow_exports_witness:
  "\<exists>f' b' rec. yfWriteFlow log_fbuf ex_writer (empty_buf\<lparr>vw_icur := Some YAF_FLOW_FULL_TID\<rparr>) ex_flow = Some (f', b', True, None) \<and>
     vw_recs b' = [(YAF_FLOW_FULL_TID, 0xB090, rec)] \<and> (''octetCount'', V64 40) \<in> set rec"
proof -
  let ?b = "empty_buf\<lparr>vw_icur := Some YAF_FLOW_FULL_TID\<rparr>"
  obtain f' rec flags where r: "flow_record ex_writer ex_flow = Some (f', rec, flags, None)" "flags = 0x90"
    "(''octetCount'', V64 40) \<in> set rec"
    using ex_record by blast
  have "templates_ok ex_writer (\<lambda>m. m) (vw_ext ?b)" by (simp add: templates_ok_def empty_buf_def)
  from write_flow_exports [OF logbuf.fixbuf_axioms this _ r(1)] r(2,3) show ?thesis
    by (auto simp: empty_buf_def flow_tid_def)
qed

subsection \<open>Choosing the elements\<close>

lemma export_copy_result:
  "export_copy n ss out rv =
     (let ms = take (QOF_EXPORT_SPEC_SZ - 1 - length out) (filter (\<lambda>s. ie_name s = n) ss) in (out @ ms, rv \<or> ms \<noteq> []))"
proof (induction n ss out rv rule: export_copy.induct)
  case (2 n s ss out rv)
  then show ?case
  proof (cases "QOF_EXPORT_SPEC_SZ - 1 - length out")
    case (Suc k)
    then have "length out < QOF_EXPORT_SPEC_SZ - 1" "QOF_EXPORT_SPEC_SZ - 1 - length (out @ [s]) = k" by simp_all
    then show ?thesis using 2 Suc by (cases "ie_name s = n") (auto simp: Let_def)
  next
    case 0
    then show ?thesis by auto
  qed
qed simp

fun request :: "qfWriter \<Rightarrow> string list \<Rightarrow> qfWriter \<times> bool" where
  "request w [] = (w, True)"
| "request w (n # ns) = (case yfWriterExportIE w n of (w, ok) \<Rightarrow> if ok then request w ns else (w, False))"

definition matches :: "string \<Rightarrow> fbInfoElementSpec list" where
  "matches n = filter (\<lambda>s. ie_name s = n) qof_internal_spec"

lemma export_ie_result:
  assumes "length (qof_export_spec w) \<le> QOF_EXPORT_SPEC_SZ - 1"
  shows "yfWriterExportIE w n = (w\<lparr>qof_export_spec := take (QOF_EXPORT_SPEC_SZ - 1) (qof_export_spec w @ matches n)\<rparr>,
    length (qof_export_spec w) < QOF_EXPORT_SPEC_SZ - 1 \<and> matches n \<noteq> [])"
proof (cases "QOF_EXPORT_SPEC_SZ - 1 \<le> length (qof_export_spec w)")
  case True
  then have "length (qof_export_spec w) = QOF_EXPORT_SPEC_SZ - 1" using assms by simp
  then show ?thesis by (simp add: yfWriterExportIE_def)
next
  case False
  then show ?thesis by (auto simp: yfWriterExportIE_def export_copy_result Let_def matches_def)
qed

lemma take_snoc_take: "take n (take n xs @ ys) = take n (xs @ ys)"
  by (simp add: min_def)

lemma request_from:
  "\<lbrakk>qof_export_spec w = take (QOF_EXPORT_SPEC_SZ - 1) xs; request w ns = (w', ok)\<rbrakk> \<Longrightarrow>
   \<exists>k \<le> length ns. qof_export_spec w' = take (QOF_EXPORT_SPEC_SZ - 1) (xs @ concat (map matches (take k ns))) \<and>
     (ok \<longrightarrow> k = length ns \<and> (\<forall>n \<in> set ns. matches n \<noteq> [])) \<and>
     (\<not> ok \<longrightarrow> k < length ns \<and> (matches (ns ! k) = [] \<or> yfWriterExportIECount w' = QOF_EXPORT_SPEC_SZ - 1))"
proof (induction ns arbitrary: w xs)
  case Nil
  then show ?case by simp
next
  case (Cons n ns)
  have le: "length (qof_export_spec w) \<le> QOF_EXPORT_SPEC_SZ - 1" using Cons.prems(1) by simp
  note ie = export_ie_result [OF le, of n]
  show ?case
  proof (cases "length (qof_export_spec w) < QOF_EXPORT_SPEC_SZ - 1 \<and> matches n \<noteq> []")
    case True
    let ?w = "w\<lparr>qof_export_spec := take (QOF_EXPORT_SPEC_SZ - 1) (qof_export_spec w @ matches n)\<rparr>"
    have "qof_export_spec ?w = take (QOF_EXPORT_SPEC_SZ - 1) (xs @ matches n)"
      unfolding Cons.prems(1) take_snoc_take by simp
    moreover have "request ?w ns = (w', ok)" using Cons.prems(2) ie True by simp
    ultimately obtain k where k: "k \<le> length ns"
      "qof_export_spec w' = take (QOF_EXPORT_SPEC_SZ - 1) ((xs @ matches n) @ concat (map matches (take k ns)))"
      "ok \<longrightarrow> k = length ns \<and> (\<forall>n \<in> set ns. matches n \<noteq> [])"
      "\<not> ok \<longrightarrow> k < length ns \<and> (matches (ns ! k) = [] \<or> yfWriterExportIECount w' = QOF_EXPORT_SPEC_SZ - 1)"
      using Cons.IH by meson
    then show ?thesis using True by (intro exI [of _ "Suc k"]) auto
  next
    case False
    then have "w' = w\<lparr>qof_export_spec := take (QOF_EXPORT_SPEC_SZ - 1) (qof_export_spec w @ matches n)\<rparr>" "\<not> ok"
      using Cons.prems(2) ie by auto
    moreover have "take (QOF_EXPORT_SPEC_SZ - 1) (qof_export_spec w @ matches n) = qof_export_spec w"
      using False le by (cases "matches n = []") auto
    ultimately show ?thesis using False le Cons.prems(1) by (intro exI [of _ 0]) (auto simp: yfWriterExportIECount_def)
  qed
qed

text \<open>The export template stays within its array. After a reset, requests for any element names leave at most
  ninety-five entries (the ninety-sixth cell ends the list): those of the requests served, in their order and
  each in its full and reduced length, cut where the array is full. If every request was answered with success,
  every name is known; a refused request has an unknown name or found the array full, and changes nothing.\<close>

lemma export_requests_bounded:
  assumes "request (yfWriterExportReset w) ns = (w', ok)"
  shows "yfWriterExportIECount w' < QOF_EXPORT_SPEC_SZ \<and>
    (\<exists>k \<le> length ns. qof_export_spec w' = take 95 (concat (map matches (take k ns))) \<and>
      (ok \<longrightarrow> k = length ns \<and> (\<forall>n \<in> set ns. matches n \<noteq> [])) \<and>
      (\<not> ok \<longrightarrow> matches (ns ! k) = [] \<or> yfWriterExportIECount w' = 95))"
proof -
  have z: "qof_export_spec (yfWriterExportReset w) = take (QOF_EXPORT_SPEC_SZ - 1) []" by (simp add: yfWriterExportReset_def)
  have q: "QOF_EXPORT_SPEC_SZ - 1 = 95" "QOF_EXPORT_SPEC_SZ = 96" by (simp_all add: QOF_EXPORT_SPEC_SZ_def)
  from request_from [OF z assms] show ?thesis unfolding q yfWriterExportIECount_def by auto
qed

end
