(* ===== verification/AirUtil.thy ===== *)
theory AirUtil
  imports QofPrelude
begin

unbundle bit_operations_syntax

text \<open>
  The utilities of \<open>airframe/src/airutil.c\<close>: broken-down times and their printed forms, printed addresses,
  prefix masks and hexadecimal dumps. Text is a \<open>string\<close>; a \<open>GString\<close> an operation appends to is the string
  before it. The unsigned conversions of \<open>printf\<close> and the calendar of \<open>gmtime_r\<close> are definitions here;
  times before 1970 do not occur. Arithmetic on \<open>uint32_t\<close> wraps, \<open>time_t\<close> is an integer.
\<close>

subsection \<open>Numbers in text\<close>

definition digit :: "nat \<Rightarrow> char" where
  "digit d = char_of (if d < 10 then 48 + d else 87 + d)"

fun numeral_in :: "nat \<Rightarrow> nat \<Rightarrow> string" where
  "numeral_in b n = (if n < b \<or> b < 2 then [digit n] else numeral_in b (n div b) @ [digit (n mod b)])"

declare numeral_in.simps [simp del]

definition zero_pad :: "nat \<Rightarrow> string \<Rightarrow> string" where
  "zero_pad k s = replicate (k - length s) (digit 0) @ s"

definition fmt_u :: "nat \<Rightarrow> nat \<Rightarrow> string" where
  "fmt_u k n = zero_pad k (numeral_in 10 n)"

definition fmt_x :: "nat \<Rightarrow> nat \<Rightarrow> string" where
  "fmt_x k n = zero_pad k (numeral_in 16 n)"

subsection \<open>Times\<close>

datatype AirTimeFormat = AIR_TIME_ISO8601 | AIR_TIME_ISO8601_NS | AIR_TIME_SQUISHED | AIR_TIME_ISO8601_HMS

record tm =
  tm_year :: nat
  tm_mon :: nat
  tm_mday :: nat
  tm_hour :: nat
  tm_min :: nat
  tm_sec :: nat

text \<open>The calendar of \<open>gmtime_r\<close>, with the year in full and the month from 1.\<close>

definition leap :: "nat \<Rightarrow> bool" where
  "leap y \<longleftrightarrow> y mod 4 = 0 \<and> y mod 100 \<noteq> 0 \<or> y mod 400 = 0"

definition year_days :: "nat \<Rightarrow> nat" where
  "year_days y = (if leap y then 366 else 365)"

definition month_days :: "nat \<Rightarrow> nat list" where
  "month_days y = [31, if leap y then 29 else 28, 31, 30, 31, 30, 31, 31, 30, 31, 30, 31]"

function find_year :: "nat \<Rightarrow> nat \<Rightarrow> nat \<times> nat" where
  "find_year y d = (if d < year_days y then (y, d) else find_year (Suc y) (d - year_days y))"
  by pat_completeness auto

termination find_year
  by (relation "measure (\<lambda>(y, d). d)") (auto simp: year_days_def)

declare find_year.simps [simp del]

fun find_month :: "nat \<Rightarrow> nat list \<Rightarrow> nat \<Rightarrow> nat \<times> nat" where
  "find_month i (m # ms) d = (if d < m then (i, d) else find_month (Suc i) ms (d - m))"
| "find_month i [] d = (i, d)"

definition gmtime_r :: "nat \<Rightarrow> tm" where
  "gmtime_r t =
     (let (y, d) = find_year 1970 (t div 86400); (m, d) = find_month 1 (month_days y) d; s = t mod 86400
      in \<lparr>tm_year = y, tm_mon = m, tm_mday = Suc d, tm_hour = s div 3600, tm_min = s mod 3600 div 60, tm_sec = s mod 60\<rparr>)"

definition hms :: "tm \<Rightarrow> string" where
  "hms t = fmt_u 2 (tm_hour t) @ '':'' @ fmt_u 2 (tm_min t) @ '':'' @ fmt_u 2 (tm_sec t)"

definition ymd :: "tm \<Rightarrow> string" where
  "ymd t = fmt_u 4 (tm_year t) @ ''-'' @ fmt_u 2 (tm_mon t) @ ''-'' @ fmt_u 2 (tm_mday t)"

definition air_time_g_string_append :: "string \<Rightarrow> nat \<Rightarrow> AirTimeFormat \<Rightarrow> string" where
  "air_time_g_string_append str time fmtid =
     (let t = gmtime_r time
      in str @ (case fmtid of
          AIR_TIME_ISO8601 \<Rightarrow> ymd t @ '' '' @ hms t
        | AIR_TIME_ISO8601_NS \<Rightarrow> ymd t @ ''T'' @ hms t
        | AIR_TIME_SQUISHED \<Rightarrow> fmt_u 4 (tm_year t) @ fmt_u 2 (tm_mon t) @ fmt_u 2 (tm_mday t) @
            fmt_u 2 (tm_hour t) @ fmt_u 2 (tm_min t) @ fmt_u 2 (tm_sec t)
        | AIR_TIME_ISO8601_HMS \<Rightarrow> hms t))"

definition AIR_TIME_BUF_MINSZ :: nat where "AIR_TIME_BUF_MINSZ = 20"

text \<open>The variant for a buffer passes all six fields whatever the format, so the short format prints
  year, month and day as if they were hours, minutes and seconds; \<open>snprintf\<close> cuts the text to the buffer.\<close>

definition air_time_buf_print :: "nat \<Rightarrow> AirTimeFormat \<Rightarrow> string" where
  "air_time_buf_print time fmtid =
     take (AIR_TIME_BUF_MINSZ - 1)
       (case fmtid of
          AIR_TIME_ISO8601_HMS \<Rightarrow>
            (let t = gmtime_r time in fmt_u 2 (tm_year t) @ '':'' @ fmt_u 2 (tm_mon t) @ '':'' @ fmt_u 2 (tm_mday t))
        | _ \<Rightarrow> air_time_g_string_append [] time fmtid)"

definition air_mstime_g_string_append :: "string \<Rightarrow> u64 \<Rightarrow> AirTimeFormat \<Rightarrow> string" where
  "air_mstime_g_string_append str mstime fmtid =
     air_time_g_string_append str (unat (mstime div 1000)) fmtid @ ''.'' @ fmt_u 3 (unat (mstime mod 1000))"

definition dpm :: "nat list" where
  "dpm = [31, 28, 31, 30, 31, 30, 31, 31, 30, 31, 30, 31]"

text \<open>Seconds since 1970; a failed assertion is \<open>None\<close>.\<close>

definition air_time_gm :: "u32 \<Rightarrow> u32 \<Rightarrow> u32 \<Rightarrow> u32 \<Rightarrow> u32 \<Rightarrow> u32 \<Rightarrow> int option" where
  "air_time_gm year mon day hour mnt sec =
     (if \<not> (1970 \<le> year \<and> 1 \<le> mon \<and> mon \<le> 12) then None
      else
        let epoday = uint (365 * (year - 1970) +
                       (((year - 1) div 4 - 1969 div 4) - ((year - 1) div 100 - 1969 div 100) +
                        ((year - 1) div 400 - 1969 div 400)));
            epoday = epoday + int (sum_list (take (unat mon - 1) dpm));
            epoday = (if 2 < mon \<and> (year mod 4 = 0 \<and> year mod 100 \<noteq> 0 \<or> year mod 400 = 0) then epoday + 1 else epoday);
            epoday = epoday + uint (day - 1)
        in Some (epoday * 86400 + uint (hour * 3600) + uint (mnt * 60) + uint sec))"

subsection \<open>Addresses and dumps\<close>

definition air_ipaddr_buf_print :: "u32 \<Rightarrow> string" where
  "air_ipaddr_buf_print ipaddr =
     (let dqp = (\<lambda>k. fmt_u 1 (unat (ucast (drop_bit k (ipaddr AND drop_bit (24 - k) 0xff000000)) :: u8)))
      in take 15 (dqp 24 @ ''.'' @ dqp 16 @ ''.'' @ dqp 8 @ ''.'' @ dqp 0))"

text \<open>The eight groups of an IPv6 address, printed from the left: the first run of zero groups becomes
  the double colon.\<close>

fun ip6_groups :: "u8 list \<Rightarrow> u16 list" where
  "ip6_groups (a # b # bs) = (push_bit 8 (ucast a) OR ucast b) # ip6_groups bs"
| "ip6_groups bs = []"

fun ip6_print :: "nat \<Rightarrow> bool \<Rightarrow> bool \<Rightarrow> u16 list \<Rightarrow> string" where
  "ip6_print i colon_start colon_end [] = []"
| "ip6_print i colon_start colon_end (aq # gs) =
     (if aq \<noteq> 0 \<or> colon_end
      then fmt_x 4 (unat aq) @ (if i < 7 then '':'' else []) @ ip6_print (Suc i) colon_start (colon_start \<or> colon_end) gs
      else if \<not> colon_start then (if i = 0 then ''::'' else '':'') @ ip6_print (Suc i) True colon_end gs
      else ip6_print (Suc i) colon_start colon_end gs)"

definition air_ip6addr_buf_print :: "u8 list \<Rightarrow> string" where
  "air_ip6addr_buf_print ipaddr = ip6_print 0 False False (ip6_groups ipaddr)"

definition air_mask_from_prefix :: "u32 \<Rightarrow> u32" where
  "air_mask_from_prefix pfx = ((\<lambda>v. drop_bit 1 v OR 0x80000000) ^^ unat pfx) 0"

definition hexdump_line :: "string \<Rightarrow> string \<Rightarrow> u8 list \<Rightarrow> nat \<Rightarrow> string" where
  "hexdump_line str lpfx cs lineoff =
     str @ lpfx @ '' '' @ fmt_x 4 lineoff @ '':'' @
     concat (map (\<lambda>c. '' '' @ fmt_x 2 (unat c)) cs) @ replicate (3 * (16 - length cs)) (CHR '' '') @ '' '' @
     map (\<lambda>c. if 32 \<le> c \<and> c < 128 then char_of (unat c) else CHR ''.'') cs @ [CHR 0x0A]"

definition air_hexdump_g_string_append_line :: "string \<Rightarrow> string \<Rightarrow> u8 list \<Rightarrow> nat \<Rightarrow> string \<times> nat" where
  "air_hexdump_g_string_append_line str lpfx buf lineoff =
     (if buf = [] then (str, 0) else (hexdump_line str lpfx (take 16 buf) lineoff, min 16 (length buf)))"

function hexdump_loop :: "string \<Rightarrow> string \<Rightarrow> u8 list \<Rightarrow> nat \<Rightarrow> string" where
  "hexdump_loop str lpfx buf lineoff =
     (let (str, cwr) = air_hexdump_g_string_append_line str lpfx buf lineoff
      in if cwr = 16 then hexdump_loop str lpfx (drop cwr buf) (lineoff + cwr) else str)"
  by pat_completeness auto

termination hexdump_loop
  by (relation "measure (\<lambda>(str, lpfx, buf, n). length buf)")
    (auto simp: air_hexdump_g_string_append_line_def split: if_splits)

declare hexdump_loop.simps [simp del]

definition air_hexdump_g_string_append :: "string \<Rightarrow> string \<Rightarrow> u8 list \<Rightarrow> string" where
  "air_hexdump_g_string_append str lpfx buf = hexdump_loop str lpfx buf 0"

subsection \<open>Times there and back\<close>

text \<open>The days before a year, by counting.\<close>

definition days_to :: "nat \<Rightarrow> nat" where
  "days_to y = (\<Sum>k = 1970..<y. year_days k)"

lemma days_to_Suc: "1970 \<le> y \<Longrightarrow> days_to (Suc y) = days_to y + year_days y"
  by (simp add: days_to_def)

lemma div_pred: "0 < n \<Longrightarrow> y div n = (y - 1) div n + (if y mod n = 0 \<and> 0 < y then 1 else 0)" for y n :: nat
proof (cases y)
  case (Suc k)
  assume "0 < n"
  then show ?thesis using Suc by (simp add: div_Suc)
qed simp

text \<open>The leap days counted as the code counts them.\<close>

lemma days_to_closed:
  "1970 \<le> y \<Longrightarrow> days_to y + (y - 1) div 100 + 477 = 365 * (y - 1970) + (y - 1) div 4 + (y - 1) div 400"
proof (induction y rule: nat_induct_at_least)
  case base
  then show ?case by (simp add: days_to_def)
next
  case (Suc y)
  have s: "y div 4 = (y - 1) div 4 + (if y mod 4 = 0 then 1 else 0)" "y div 100 = (y - 1) div 100 + (if y mod 100 = 0 then 1 else 0)"
    "y div 400 = (y - 1) div 400 + (if y mod 400 = 0 then 1 else 0)"
    using Suc.hyps div_pred [of 4 y] div_pred [of 100 y] div_pred [of 400 y] by simp_all
  have l: "y mod 400 = 0 \<Longrightarrow> y mod 100 = 0" "y mod 100 = 0 \<Longrightarrow> y mod 4 = 0"
    using mod_mod_cancel [of 100 400 y] mod_mod_cancel [of 4 100 y] by simp_all
  have yd: "year_days y + (if y mod 100 = 0 then 1 else 0) = 365 + (if y mod 4 = 0 then 1 else 0) + (if y mod 400 = 0 then 1 else 0)"
    using l by (auto simp: year_days_def leap_def)
  have "365 * (Suc y - 1970) = 365 * (y - 1970) + 365" using Suc.hyps by (simp add: Suc_diff_le)
  then show ?case using Suc.IH yd unfolding diff_Suc_1 days_to_Suc [OF Suc.hyps] s by linarith
qed

lemma find_year_days: "1970 \<le> y \<Longrightarrow> d < year_days y \<Longrightarrow> find_year 1970 (days_to y + d) = (y, d)"
proof -
  assume y: "1970 \<le> y" and d: "d < year_days y"
  have "find_year 1970 (days_to y + e) = find_year y e" for e using y
  proof (induction y arbitrary: e rule: nat_induct_at_least)
    case base
    then show ?case by (simp add: days_to_def)
  next
    case (Suc y)
    then have "find_year 1970 (days_to (Suc y) + e) = find_year y (year_days y + e)" by (simp add: days_to_Suc add.assoc)
    then show ?case by (subst (asm) (2) find_year.simps) simp
  qed
  from this [of d] show ?thesis using d by (subst (asm) (2) find_year.simps) simp
qed

lemma find_month_days:
  "\<lbrakk>j < length ms; d < ms ! j\<rbrakk> \<Longrightarrow> find_month i ms (sum_list (take j ms) + d) = (i + j, d)"
proof (induction ms arbitrary: i j)
  case (Cons m ms)
  show ?case
  proof (cases j)
    case (Suc k)
    then show ?thesis using Cons.IH [of k "Suc i"] Cons.prems by (simp add: add.assoc)
  qed (use Cons.prems in simp)
qed simp

text \<open>The first days of the months: the code adds the leap day after February.\<close>

lemma month_offset:
  "j < 12 \<Longrightarrow> sum_list (take j (month_days y)) = sum_list (take j dpm) + (if 2 \<le> j \<and> leap y then 1 else 0)"
proof -
  have "list_all (\<lambda>j. sum_list (take j [31, if b then 29 else 28, 31, 30, 31, 30, 31, 31, 30, 31, 30, 31]) =
      sum_list (take j dpm) + (if 2 \<le> j \<and> b then 1 else 0)) [0..<12]" for b
    by (cases b) (simp_all add: upt_rec dpm_def)
  from this [of "leap y"] show "j < 12 \<Longrightarrow> ?thesis" by (simp add: list_all_iff month_days_def)
qed

lemma year_months: "j < 12 \<Longrightarrow> d < month_days y ! j \<Longrightarrow> sum_list (take j (month_days y)) + d < year_days y"
proof -
  have "list_all (\<lambda>j. sum_list (take j [31, if b then 29 else 28, 31, 30, 31, 30, 31, 31, 30, 31, 30, 31]) +
      [31, if b then 29 else 28, 31, 30, 31, 30, 31, 31, 30, 31, 30, 31] ! j \<le> (if b then 366 else 365 :: nat)) [0..<12]" for b
    by (cases b) (simp_all add: upt_rec dpm_def)
  from this [of "leap y", folded month_days_def year_days_def]
  have "j < 12 \<Longrightarrow> sum_list (take j (month_days y)) + month_days y ! j \<le> year_days y" by (simp add: list_all_iff)
  then show "j < 12 \<Longrightarrow> d < month_days y ! j \<Longrightarrow> ?thesis" by linarith
qed

text \<open>A valid date and time of day, with a year for which the day count stays in 32 bits.\<close>

definition tm_ok :: "tm \<Rightarrow> bool" where
  "tm_ok t \<longleftrightarrow> 1970 \<le> tm_year t \<and> tm_year t \<le> 10000000 \<and> 1 \<le> tm_mon t \<and> tm_mon t \<le> 12 \<and> 1 \<le> tm_mday t \<and>
     tm_mday t \<le> month_days (tm_year t) ! (tm_mon t - 1) \<and> tm_hour t < 24 \<and> tm_min t < 60 \<and> tm_sec t < 60"

definition tm_gm :: "tm \<Rightarrow> int option" where
  "tm_gm t = air_time_gm (of_nat (tm_year t)) (of_nat (tm_mon t)) (of_nat (tm_mday t)) (of_nat (tm_hour t)) (of_nat (tm_min t))
     (of_nat (tm_sec t))"

text \<open>The seconds of a date, counted.\<close>

definition tm_secs :: "tm \<Rightarrow> nat" where
  "tm_secs t = (days_to (tm_year t) + sum_list (take (tm_mon t - 1) (month_days (tm_year t))) + (tm_mday t - 1)) * 86400 +
     tm_hour t * 3600 + tm_min t * 60 + tm_sec t"

lemma gmtime_secs:
  assumes "tm_ok t"
  shows "gmtime_r (tm_secs t) = t"
proof -
  define s where "s = tm_hour t * 3600 + tm_min t * 60 + tm_sec t"
  define d where "d = sum_list (take (tm_mon t - 1) (month_days (tm_year t))) + (tm_mday t - 1)"
  have ok: "tm_hour t < 24" "tm_min t < 60" "tm_sec t < 60" using assms by (simp_all add: tm_ok_def)
  have s: "s < 86400" "s div 3600 = tm_hour t" "s mod 3600 div 60 = tm_min t" "s mod 60 = tm_sec t"
  proof -
    have a: "tm_min t * 60 + tm_sec t < 3600" using ok by simp
    show "s < 86400" using ok by (simp add: s_def)
    have "s = (tm_min t * 60 + tm_sec t) + tm_hour t * 3600" by (simp add: s_def)
    then have q: "s div 3600 = tm_hour t" "s mod 3600 = tm_min t * 60 + tm_sec t" using a by simp_all
    then show "s div 3600 = tm_hour t" "s mod 3600 div 60 = tm_min t" using ok by simp_all
    have "s = tm_sec t + (tm_hour t * 60 + tm_min t) * 60" by (simp add: s_def)
    then show "s mod 60 = tm_sec t" using ok by (simp only: mod_mult_self1 mod_less)
  qed
  have j: "tm_mon t - 1 < 12" "tm_mday t - 1 < month_days (tm_year t) ! (tm_mon t - 1)" using assms by (auto simp: tm_ok_def)
  have y: "find_year 1970 (days_to (tm_year t) + d) = (tm_year t, d)"
    using assms year_months [OF j] by (intro find_year_days) (simp_all add: tm_ok_def d_def)
  have m: "find_month 1 (month_days (tm_year t)) d = (tm_mon t, tm_mday t - 1)"
    using find_month_days [of "tm_mon t - 1" "month_days (tm_year t)" "tm_mday t - 1" 1] j assms
    by (simp add: d_def tm_ok_def) (simp add: month_days_def)
  have "tm_secs t = s + (days_to (tm_year t) + d) * 86400" by (simp add: tm_secs_def s_def d_def)
  then have "tm_secs t div 86400 = days_to (tm_year t) + d" "tm_secs t mod 86400 = s"
    using s(1) by (simp_all only: div_mult_self1 mod_mult_self1 div_less mod_less)
  then show ?thesis using y m s assms by (simp add: gmtime_r_def tm_ok_def)
qed

text \<open>The word arithmetic of the code does not wrap for such years.\<close>

lemma unat_small: "a < 2 ^ 32 \<Longrightarrow> unat (of_nat a :: u32) = a"
  by (simp add: unat_of_nat take_bit_nat_eq_self)

lemma word_div_nat: "a < 2 ^ 32 \<Longrightarrow> b < 2 ^ 32 \<Longrightarrow> (of_nat a :: u32) div of_nat b = of_nat (a div b)"
  using order.strict_trans1 [OF div_le_dividend [of a b], of "2 ^ 32"]
  by (simp only: word_unat_eq_iff unat_div unat_small)

lemma word_mod_nat: "a < 2 ^ 32 \<Longrightarrow> b < 2 ^ 32 \<Longrightarrow> (of_nat a :: u32) mod of_nat b = of_nat (a mod b)"
  using order.strict_trans1 [OF mod_less_eq_dividend [of a b], of "2 ^ 32"]
  by (simp only: word_unat_eq_iff unat_mod unat_small)

lemma days_to_small: "1970 \<le> y \<Longrightarrow> y \<le> 10000000 \<Longrightarrow> days_to y < 2 ^ 32"
proof -
  assume y: "1970 \<le> y" "y \<le> 10000000"
  have "(y - 1) div 4 \<le> 2500000" "(y - 1) div 400 \<le> 25000" "365 * (y - 1970) \<le> 3650000000" using y(2) by simp_all
  then show ?thesis using days_to_closed [OF y(1)] by simp
qed

lemma epoday_word:
  assumes y: "1970 \<le> y" "y \<le> 10000000"
  shows "365 * ((of_nat y :: u32) - 1970) + ((((of_nat y - 1) div 4 - 1969 div 4) - ((of_nat y - 1) div 100 - 1969 div 100)) +
     ((of_nat y - 1) div 400 - 1969 div 400)) = of_nat (days_to y)"
proof -
  have p: "(of_nat y :: u32) - 1 = of_nat (y - 1)" "(of_nat y :: u32) - 1970 = of_nat (y - 1970)" using y by (simp_all add: of_nat_diff)
  have q: "(of_nat (y - 1) :: u32) div 4 = of_nat ((y - 1) div 4)" "(of_nat (y - 1) :: u32) div 100 = of_nat ((y - 1) div 100)"
    "(of_nat (y - 1) :: u32) div 400 = of_nat ((y - 1) div 400)"
    using word_div_nat [of "y - 1" 4] word_div_nat [of "y - 1" 100] word_div_nat [of "y - 1" 400] y by simp_all
  have "(of_nat (days_to y + (y - 1) div 100 + 477) :: u32) = of_nat (365 * (y - 1970) + (y - 1) div 4 + (y - 1) div 400)"
    by (simp only: days_to_closed [OF y(1)])
  then have "(of_nat (days_to y) :: u32) + of_nat ((y - 1) div 100) + 477 =
      365 * of_nat (y - 1970) + of_nat ((y - 1) div 4) + of_nat ((y - 1) div 400)" by (simp only: of_nat_add of_nat_mult of_nat_numeral)
  then have "(of_nat (days_to y) :: u32) =
      365 * of_nat (y - 1970) + of_nat ((y - 1) div 4) + of_nat ((y - 1) div 400) - of_nat ((y - 1) div 100) - 477" by (simp add: algebra_simps)
  then show ?thesis unfolding p q by simp
qed

lemma tm_gm_secs:
  assumes ok: "tm_ok t"
  shows "tm_gm t = Some (int (tm_secs t))"
proof -
  let ?y = "tm_year t" and ?m = "tm_mon t"
  have y: "1970 \<le> ?y" "?y \<le> 10000000" and m: "1 \<le> ?m" "?m \<le> 12" and r: "tm_hour t < 24" "tm_min t < 60" "tm_sec t < 60" "1 \<le> tm_mday t"
    using ok by (simp_all add: tm_ok_def)
  have u: "uint (of_nat n :: u32) = int n" if "n < 2 ^ 32" for n
    using unat_small [OF that] by (metis uint_nat)
  have c: "(of_nat a :: u32) \<le> of_nat b \<longleftrightarrow> a \<le> b" "(of_nat a :: u32) < of_nat b \<longleftrightarrow> a < b" if "a < 2 ^ 32" "b < 2 ^ 32" for a b
    using that by (simp_all add: word_le_nat_alt word_less_nat_alt unat_small)
  have cmp: "(1970 :: u32) \<le> of_nat ?y" "(1 :: u32) \<le> of_nat ?m" "of_nat ?m \<le> (12 :: u32)" "(2 :: u32) < of_nat ?m \<longleftrightarrow> 2 < ?m"
    using c(1) [of 1970 ?y] c(1) [of 1 ?m] c(1) [of ?m 12] c(2) [of 2 ?m] y m by simp_all
  have z: "(of_nat ?y :: u32) mod of_nat n = 0 \<longleftrightarrow> ?y mod n = 0" if "0 < n" "n \<le> 400" for n
  proof -
    have "?y mod n < 2 ^ 32" "n < 2 ^ 32" "?y < 2 ^ 32" using that y(2) mod_less_divisor [OF that(1), of ?y] by simp_all
    then show ?thesis by (simp only: word_mod_nat word_unat_eq_iff [of "of_nat (?y mod n)"] unat_small unat_0)
  qed
  have lp: "((of_nat ?y :: u32) mod 4 = 0 \<and> (of_nat ?y :: u32) mod 100 \<noteq> 0 \<or> (of_nat ?y :: u32) mod 400 = 0) \<longleftrightarrow> leap ?y"
    using z [of 4] z [of 100] z [of 400] by (simp add: leap_def)
  have um: "unat (of_nat ?m :: u32) = ?m" using m by (intro unat_small) simp
  have dd: "tm_mday t \<le> 31"
  proof -
    have "list_all (\<lambda>j. month_days ?y ! j \<le> 31) [0..<12]" by (simp add: month_days_def upt_rec)
    then have "month_days ?y ! (?m - 1) \<le> 31" using m by (simp add: list_all_iff)
    then show ?thesis using ok by (simp add: tm_ok_def)
  qed
  have "(of_nat (tm_mday t) :: u32) - 1 = of_nat (tm_mday t - 1)" using r(4) by (simp add: of_nat_diff)
  then have day: "uint ((of_nat (tm_mday t) :: u32) - 1) = int (tm_mday t - 1)" using u [of "tm_mday t - 1"] dd by simp
  have hour: "uint ((of_nat (tm_hour t) :: u32) * 3600) = int (tm_hour t * 3600)" "uint ((of_nat (tm_min t) :: u32) * 60) = int (tm_min t * 60)"
    "uint (of_nat (tm_sec t) :: u32) = int (tm_sec t)"
    using u [of "tm_hour t * 3600"] u [of "tm_min t * 60"] u [of "tm_sec t"] r by simp_all
  have epo: "uint (365 * ((of_nat ?y :: u32) - 1970) + ((((of_nat ?y - 1) div 4 - 1969 div 4) - ((of_nat ?y - 1) div 100 - 1969 div 100)) +
     ((of_nat ?y - 1) div 400 - 1969 div 400))) = int (days_to ?y)"
    unfolding epoday_word [OF y] by (rule u) (rule days_to_small [OF y])
  have mo: "int (sum_list (take (?m - 1) (month_days ?y))) = int (sum_list (take (?m - 1) dpm)) + (if 2 < ?m \<and> leap ?y then 1 else 0)"
    using month_offset [of "?m - 1" ?y] m by auto
  obtain d where d: "tm_mday t = Suc d" using r(4) by (cases "tm_mday t") simp_all
  show ?thesis unfolding tm_gm_def air_time_gm_def Let_def epo day hour um lp cmp(4) tm_secs_def using cmp(1-3) mo
    by (simp add: algebra_simps d)
qed

text \<open>C23: Times there and back. For every valid date and time of day from 1970 to the year ten million,
  \<open>air_time_gm\<close> gives the number of seconds the calendar counts, without wrapping, and the calendar takes it back
  to the same date and time.\<close>

theorem air_time_roundtrip:
  assumes "tm_ok t"
  shows "tm_gm t = Some (int (tm_secs t)) \<and> gmtime_r (tm_secs t) = t"
  using tm_gm_secs [OF assms] gmtime_secs [OF assms] by simp

theorem air_time_roundtrip_witness:
  "tm_gm \<lparr>tm_year = 2000, tm_mon = 2, tm_mday = 29, tm_hour = 23, tm_min = 59, tm_sec = 58\<rparr> = Some 951868798 \<and>
   gmtime_r 951868798 = \<lparr>tm_year = 2000, tm_mon = 2, tm_mday = 29, tm_hour = 23, tm_min = 59, tm_sec = 58\<rparr>"
proof -
  let ?t = "\<lparr>tm_year = 2000, tm_mon = 2, tm_mday = 29, tm_hour = 23, tm_min = 59, tm_sec = 58\<rparr>"
  have "tm_ok ?t" by (simp add: tm_ok_def month_days_def leap_def)
  moreover have "tm_secs ?t = 951868798"
    using days_to_closed [of 2000] by (simp add: tm_secs_def month_days_def)
  ultimately show ?thesis using air_time_roundtrip [of ?t] by simp
qed

subsection \<open>Numerals\<close>

text \<open>Reading a decimal numeral back.\<close>

definition digit_value :: "char \<Rightarrow> nat" where
  "digit_value c = of_char c - 48"

definition decimal_value :: "string \<Rightarrow> nat" where
  "decimal_value s = foldl (\<lambda>v c. 10 * v + digit_value c) 0 s"

lemma digit_value_digit: "d < 10 \<Longrightarrow> digit_value (digit d) = d"
proof -
  have "list_all (\<lambda>d. digit_value (digit d) = d) [0..<10]" by code_simp
  then show "d < 10 \<Longrightarrow> ?thesis" by (simp add: list_all_iff)
qed

lemma decimal_value_numeral: "decimal_value (numeral_in 10 n) = n"
proof (induction n rule: less_induct)
  case (less n)
  show ?case
  proof (cases "n < 10")
    case True
    then show ?thesis by (simp add: numeral_in.simps [of 10 n] decimal_value_def digit_value_digit)
  next
    case False
    then have "decimal_value (numeral_in 10 (n div 10)) = n div 10" by (intro less.IH) simp
    then show ?thesis using False by (simp add: numeral_in.simps [of 10 n] decimal_value_def digit_value_digit)
  qed
qed

lemma decimal_value_fmt [simp]: "decimal_value (fmt_u k n) = n"
proof -
  have "foldl (\<lambda>v c. 10 * v + digit_value c) 0 (replicate j (digit 0)) = 0" for j
    by (induction j) (simp_all add: digit_value_digit)
  then show ?thesis using decimal_value_numeral [of n] by (simp add: fmt_u_def zero_pad_def decimal_value_def)
qed

lemma digits_plain: "set (numeral_in 10 n) \<subseteq> digit ` {..<10}"
proof (induction n rule: less_induct)
  case (less n)
  show ?case
  proof (cases "n < 10")
    case False
    then show ?thesis using less.IH [of "n div 10"] by (simp add: numeral_in.simps [of 10 n])
  qed (simp add: numeral_in.simps [of 10 n])
qed

lemma fmt_no_hyphen: "CHR ''-'' \<notin> set (fmt_u k n)"
proof -
  have "list_all (\<lambda>d. digit d \<noteq> CHR ''-'') [0..<10]" by code_simp
  then have d: "CHR ''-'' \<notin> digit ` {..<10}" and "digit 0 \<noteq> CHR ''-''"
    unfolding list_all_iff by (auto simp del: upt_rec_numeral)
  then show ?thesis using d digits_plain [of n] by (auto simp: fmt_u_def zero_pad_def)
qed

end
