(* ===== verification/Output.thy ===== *)
theory Output
  imports ExportRun AirUtil
begin

text \<open>
  Output files: the lock files of \<open>airframe/src/airlock.c\<close> and the opening and closing of outputs in
  \<open>src/yafout.c\<close>. The file system is the set of paths that exist; \<open>open\<close> with \<open>O_CREAT | O_EXCL\<close> fails
  when the path exists or when the environment refuses it (\<open>can\<close>). Of a lock's file descriptor only whether
  it was opened matters, which is the field \<open>held\<close>. Critical log messages are left out.
\<close>

subsection \<open>Locks\<close>

record AirLock =
  lpath :: "string option"
  held :: bool

definition AIR_LOCK_INIT :: AirLock where
  "AIR_LOCK_INIT = \<lparr>lpath = None, held = False\<rparr>"

definition air_lock_acquire :: "(string \<Rightarrow> bool) \<Rightarrow> string set \<Rightarrow> AirLock \<Rightarrow> string \<Rightarrow> string set \<times> AirLock \<times> bool" where
  "air_lock_acquire can fs lock path =
     (let lp = path @ ''.lock''; lock = lock\<lparr>lpath := Some lp\<rparr>
      in if lp \<in> fs \<or> \<not> can lp then (fs - {lp}, lock, False)
         else (insert lp fs, lock\<lparr>held := True\<rparr>, True))"

definition air_lock_release :: "string set \<Rightarrow> AirLock \<Rightarrow> string set \<times> AirLock" where
  "air_lock_release fs lock =
     (if \<not> held lock then (fs, lock)
      else (case lpath lock of Some lp \<Rightarrow> fs - {lp} | None \<Rightarrow> fs, lock\<lparr>held := False\<rparr>))"

subsection \<open>Outputs\<close>

text \<open>The part of the output context that opening an output and the set-up (theory \<open>Setup\<close>) use; the times
  of the last exports, the lock and the buffer are in the states that the operations change. The set-up leaves
  a specifier, so that \<open>out_path\<close> is the string that \<open>outspec\<close> points to.\<close>

record qfOutputContext =
  outspec :: "string option"
  transport :: "string option"
  enable_tls :: bool
  connspec :: fbConnSpec
  odid :: u32
  template_rtx_period :: u32
  rotate_period :: u32
  stats_period :: u32
  enable_lock :: bool

datatype out_error = LockError | WriterError fb_error

definition out_path :: "qfOutputContext \<Rightarrow> string" where
  "out_path octx = (case outspec octx of Some s \<Rightarrow> s | None \<Rightarrow> [])"

definition output_name :: "qfOutputContext \<Rightarrow> nat \<Rightarrow> u32 \<Rightarrow> string" where
  "output_name octx time serial =
     (if rotate_period octx \<noteq> 0
      then air_time_g_string_append (out_path octx @ ''-'') time AIR_TIME_SQUISHED @ ''-'' @ fmt_u 5 (unat serial) @ ''.ipfix''
      else out_path octx)"

text \<open>Opening an output: over the network, or to a file, under a lock unless the specifier is a single
  character other than the hyphen. \<open>serial\<close> is the static file number.\<close>

record outputs =
  os_writer :: qfWriter
  os_fs :: "string set"
  os_lock :: "AirLock option"
  os_serial :: u32

definition yfOutputOpen ::
  "('b, 'm) fbuf_ops \<Rightarrow> (string \<Rightarrow> bool) \<Rightarrow> nat \<Rightarrow> qfOutputContext \<Rightarrow> outputs \<Rightarrow> outputs \<times> (out_error + 'b)" where
  "yfOutputOpen ops can time octx st =
     (if transport octx \<noteq> None then
        case yfWriterForSpec ops (os_writer st) (connspec octx) (odid octx) (of_nat time) of
          (w, r) \<Rightarrow> (st\<lparr>os_writer := w\<rparr>, map_sum WriterError (\<lambda>b. b) r)
      else
        let name = output_name octx time (os_serial st);
            st = (if rotate_period octx \<noteq> 0 then st\<lparr>os_serial := os_serial st + 1\<rparr> else st);
            (st, ok) =
              (case os_lock st of
                 Some l \<Rightarrow>
                   if \<not> (length (out_path octx) = 1 \<and> out_path octx \<noteq> ''-'')
                   then (case air_lock_acquire can (os_fs st) l name of
                           (fs, l, ok) \<Rightarrow> (st\<lparr>os_fs := fs, os_lock := Some l\<rparr>, ok))
                   else (st, True)
               | None \<Rightarrow> (st, True));
            unlock = (\<lambda>st. case os_lock st of
                 Some l \<Rightarrow> (case air_lock_release (os_fs st) l of (fs, l) \<Rightarrow> st\<lparr>os_fs := fs, os_lock := Some l\<rparr>)
               | None \<Rightarrow> st)
        in if \<not> ok then (unlock st, Inl LockError)
           else case yfWriterForFile ops (os_writer st) name (odid octx) (of_nat time) of
               (w, Inl e) \<Rightarrow> (unlock (st\<lparr>os_writer := w\<rparr>), Inl (WriterError e))
             | (w, Inr b) \<Rightarrow> (st\<lparr>os_writer := w\<rparr>, Inr b))"

definition yfOutputClose :: "('b, 'm) fbuf_ops \<Rightarrow> outputs \<Rightarrow> 'b \<Rightarrow> bool \<Rightarrow> outputs \<times> 'b \<times> bool" where
  "yfOutputClose ops st b flush =
     (case yfWriterClose ops b flush of (b, e) \<Rightarrow>
        (case os_lock st of
           Some l \<Rightarrow> (case air_lock_release (os_fs st) l of (fs, l) \<Rightarrow> st\<lparr>os_fs := fs, os_lock := Some l\<rparr>)
         | None \<Rightarrow> st, b, e = None))"

subsection \<open>File names\<close>

text \<open>The file number can be read off the name: it stands between the last hyphen and the extension.\<close>

definition name_number :: "string \<Rightarrow> nat" where
  "name_number s = decimal_value (rev (takeWhile (\<lambda>c. c \<noteq> CHR ''-'') (drop 6 (rev s))))"

lemma name_number_output: "rotate_period octx \<noteq> 0 \<Longrightarrow> name_number (output_name octx time serial) = unat serial"
proof -
  assume "rotate_period octx \<noteq> 0"
  then obtain p where n: "output_name octx time serial = p @ ''-'' @ fmt_u 5 (unat serial) @ ''.ipfix''"
    by (simp add: output_name_def)
  have a: "\<forall>c \<in> set (rev (fmt_u 5 (unat serial))). c \<noteq> CHR ''-''" using fmt_no_hyphen [of 5 "unat serial"] by auto
  have "drop 6 (rev (output_name octx time serial)) = rev (fmt_u 5 (unat serial)) @ CHR ''-'' # rev p" by (simp add: n)
  moreover have "takeWhile (\<lambda>c. c \<noteq> CHR ''-'') (rev (fmt_u 5 (unat serial)) @ CHR ''-'' # rev p) = rev (fmt_u 5 (unat serial))"
    using a by (subst takeWhile_append2) auto
  ultimately show ?thesis by (simp add: name_number_def)
qed

text \<open>The names a number of openings use, whatever happens to the writers and locks.\<close>

fun open_names :: "('b, 'm) fbuf_ops \<Rightarrow> (string \<Rightarrow> bool) \<Rightarrow> qfOutputContext \<Rightarrow> outputs \<Rightarrow> nat list \<Rightarrow> string list" where
  "open_names ops can octx st [] = []"
| "open_names ops can octx st (t # ts) =
     output_name octx t (os_serial st) # open_names ops can octx (fst (yfOutputOpen ops can t octx st)) ts"

lemma open_serial:
  "transport octx = None \<Longrightarrow> rotate_period octx \<noteq> 0 \<Longrightarrow> os_serial (fst (yfOutputOpen ops can t octx st)) = os_serial st + 1"
  by (auto simp: yfOutputOpen_def Let_def split: option.splits prod.splits sum.splits)

lemma open_names_numbers:
  "\<lbrakk>transport octx = None; rotate_period octx \<noteq> 0\<rbrakk> \<Longrightarrow>
   map name_number (open_names ops can octx st ts) = map (\<lambda>i. unat (os_serial st + of_nat i)) [0..<length ts]"
proof (induction ts arbitrary: st)
  case (Cons t ts)
  have "map (\<lambda>i. unat (os_serial st + of_nat i)) [0..<length (t # ts)] =
      unat (os_serial st) # map (\<lambda>i. unat (os_serial st + 1 + of_nat i)) [0..<length ts]"
    by (simp add: upt_conv_Cons map_Suc_upt [symmetric] add.assoc del: upt_Suc)
  then show ?case using Cons by (simp add: name_number_output open_serial del: upt_Suc)
qed simp

text \<open>C25: Rotation never writes twice to the same file. With rotation, any sequence of up to \<open>2\<^sup>3\<^sup>2\<close> openings of
  output files, at any times and whether or not they succeed, uses pairwise different file names.\<close>

theorem rotation_names_distinct:
  assumes "transport octx = None" and "rotate_period octx \<noteq> 0" and "length ts \<le> 2 ^ 32"
  shows "distinct (open_names ops can octx st ts)"
proof -
  have "inj_on (\<lambda>i. unat (os_serial st + of_nat i)) {..<length ts}"
  proof (rule inj_onI)
    fix i j assume h: "i \<in> {..<length ts}" "j \<in> {..<length ts}" "unat (os_serial st + of_nat i) = unat (os_serial st + of_nat j)"
    then have "(of_nat i :: u32) = of_nat j" by (simp add: word_unat_eq_iff [symmetric])
    moreover have "i < 2 ^ 32" "j < 2 ^ 32" using h(1,2) assms(3) by auto
    ultimately show "i = j" by (metis unat_small)
  qed
  then have "distinct (map name_number (open_names ops can octx st ts))"
    by (simp add: open_names_numbers [OF assms(1,2)] distinct_map atLeast0LessThan)
  then show ?thesis by (simp add: distinct_map)
qed

definition ex_octx :: qfOutputContext where
  "ex_octx = \<lparr>outspec = Some ''flows'', transport = None, enable_tls = False, connspec = no_connspec, odid = 1,
     template_rtx_period = 0, rotate_period = 60000, stats_period = 0, enable_lock = True\<rparr>"

theorem rotation_names_distinct_witness:
  "distinct (open_names log_fbuf (\<lambda>p. True) ex_octx
     \<lparr>os_writer = ex_writer, os_fs = {}, os_lock = None, os_serial = 0\<rparr> [5, 5, 7])"
  by (rule rotation_names_distinct) (simp_all add: ex_octx_def)

subsection \<open>Mutual exclusion\<close>

text \<open>Processes that acquire and release locks: a state is the file system and the lock of each process, and
  a run leaves a trace of what happened to which lock file. A process does not acquire while it holds its
  lock, and releasing a lock that is not held leaves no trace.\<close>

type_synonym lock_state = "string set \<times> (nat \<Rightarrow> AirLock)"

datatype lock_event = Granted (lock_file: string) | Refused (lock_file: string) | Released (lock_file: string)

inductive lock_run :: "(string \<Rightarrow> bool) \<Rightarrow> lock_state \<Rightarrow> lock_event list \<Rightarrow> lock_state \<Rightarrow> bool" for can s where
  lock_start: "lock_run can s [] s"
| lock_grant: "\<lbrakk>lock_run can s es (fs, L); \<not> held (L p); air_lock_acquire can fs (L p) path = (fs', l, True)\<rbrakk> \<Longrightarrow>
    lock_run can s (es @ [Granted (path @ ''.lock'')]) (fs', L(p := l))"
| lock_refuse: "\<lbrakk>lock_run can s es (fs, L); \<not> held (L p); air_lock_acquire can fs (L p) path = (fs', l, False)\<rbrakk> \<Longrightarrow>
    lock_run can s (es @ [Refused (path @ ''.lock'')]) (fs', L(p := l))"
| lock_release: "\<lbrakk>lock_run can s es (fs, L); held (L p); lpath (L p) = Some lp; air_lock_release fs (L p) = (fs', l)\<rbrakk> \<Longrightarrow>
    lock_run can s (es @ [Released lp]) (fs', L(p := l))"
| lock_idle: "\<lbrakk>lock_run can s es (fs, L); \<not> held (L p); air_lock_release fs (L p) = (fs', l)\<rbrakk> \<Longrightarrow>
    lock_run can s es (fs', L(p := l))"

text \<open>The two specifications of a lock file: it exists after a trace if the last event on it was a grant, and
  its holders are the processes whose lock is held under its name.\<close>

definition file_after :: "bool \<Rightarrow> string \<Rightarrow> lock_event list \<Rightarrow> bool" where
  "file_after old lp es =
     (case rev (filter (\<lambda>e. lock_file e = lp) es) of [] \<Rightarrow> old | Granted _ # _ \<Rightarrow> True | _ \<Rightarrow> False)"

lemma file_after_simps [simp]:
  "file_after old lp [] = old"
  "file_after old lp (es @ [Granted q]) = (q = lp \<or> file_after old lp es)"
  "file_after old lp (es @ [Refused q]) = (q \<noteq> lp \<and> file_after old lp es)"
  "file_after old lp (es @ [Released q]) = (q \<noteq> lp \<and> file_after old lp es)"
  by (auto simp: file_after_def)

definition holders :: "(nat \<Rightarrow> AirLock) \<Rightarrow> string \<Rightarrow> nat set" where
  "holders L lp = {p. held (L p) \<and> lpath (L p) = Some lp}"

lemma holders_upd:
  "holders (L(p := l)) lp = (if held l \<and> lpath l = Some lp then insert p (holders L lp) else holders L lp - {p})"
  by (auto simp: holders_def)

lemma acquireD:
  assumes "air_lock_acquire can fs l path = (fs', l', ok)"
  shows "ok \<longleftrightarrow> path @ ''.lock'' \<notin> fs \<and> can (path @ ''.lock'')"
    "fs' = (if ok then insert (path @ ''.lock'') fs else fs - {path @ ''.lock''})"
    "lpath l' = Some (path @ ''.lock'')" "held l' \<longleftrightarrow> ok \<or> held l"
  using assms by (auto simp: air_lock_acquire_def Let_def split: if_splits)

lemma run_file:
  "lock_run can (fs, L) es s' \<Longrightarrow> lp \<in> fst s' \<longleftrightarrow> file_after (lp \<in> fs) lp es"
proof (induction rule: lock_run.induct)
  case (lock_grant es gs K p path gs' l)
  then show ?case using acquireD(2) [OF lock_grant.hyps(3)] by auto
next
  case (lock_refuse es gs K p path gs' l)
  then show ?case using acquireD(2) [OF lock_refuse.hyps(3)] by auto
qed (auto simp: air_lock_release_def)

text \<open>Every refusal lets one process more hold the lock.\<close>

lemma run_holders:
  "\<lbrakk>lock_run can (fs, L) es s'; \<forall>p. \<not> held (L p)\<rbrakk> \<Longrightarrow> finite (holders (snd s') lp) \<and>
     card (holders (snd s') lp) \<le> count_list es (Refused lp) + of_bool (lp \<in> fst s')"
proof (induction rule: lock_run.induct)
  case lock_start
  then show ?case by (simp add: holders_def)
next
  case (lock_grant es gs K p path gs' l)
  then have "path @ ''.lock'' \<notin> gs" "gs' = insert (path @ ''.lock'') gs" "lpath l = Some (path @ ''.lock'')" "held l"
    using acquireD [OF lock_grant.hyps(3)] by simp_all
  then show ?case using lock_grant.IH [OF lock_grant.prems] card_Diff1_le [of "holders K lp" p]
    by (auto simp: holders_upd card_insert_if simp del: fun_upd_apply)
next
  case (lock_refuse es gs K p path gs' l)
  then have "gs' = gs - {path @ ''.lock''}" "lpath l = Some (path @ ''.lock'')" "\<not> held l"
    using acquireD [OF lock_refuse.hyps(3)] by simp_all
  then show ?case using lock_refuse.IH [OF lock_refuse.prems] card_Diff1_le [of "holders K lp" p]
    by (cases "lp \<in> gs") (auto simp: holders_upd simp del: fun_upd_apply)
next
  case (lock_release es gs K p q gs' l)
  then have r: "gs' = gs - {q}" "\<not> held l" "p \<in> holders K q" "q \<noteq> lp \<Longrightarrow> p \<notin> holders K lp"
    by (auto simp: air_lock_release_def holders_def)
  then show ?case using lock_release.IH [OF lock_release.prems] card_Diff1_less [of "holders K lp" p]
    by (cases "q = lp"; cases "lp \<in> gs") (auto simp: holders_upd simp del: fun_upd_apply)
next
  case (lock_idle es gs K p gs' l)
  then have "gs' = gs" "K(p := l) = K" by (auto simp: air_lock_release_def)
  then show ?case using lock_idle.IH [OF lock_idle.prems] by (simp del: fun_upd_apply)
qed

text \<open>C24: How far a lock excludes. Start where nobody holds a lock and let any number of processes acquire
  and release, acquisitions that are refused included. At any time a lock file exists exactly if the last event on it
  was a granted acquisition (or it was there at the start and nothing happened to it), so that the next
  acquisition is granted exactly if it does not exist and the system lets it be created; the number of processes that hold a lock is at most one more than the number
  of refused acquisitions of it, each of which removes the file; in particular a lock that was never refused
  has at most one holder, and its file exists while it is held.\<close>

theorem lock_excludes:
  assumes "lock_run can (fs, L) es (fs', L')" and "\<forall>p. \<not> held (L p)" and lp: "lp = path @ ''.lock''"
  shows "(lp \<in> fs' \<longleftrightarrow> file_after (lp \<in> fs) lp es) \<and>
    snd (snd (air_lock_acquire can fs' l path)) = (\<not> file_after (lp \<in> fs) lp es \<and> can lp) \<and>
    card (holders L' lp) \<le> count_list es (Refused lp) + 1 \<and>
    (Refused lp \<notin> set es \<longrightarrow> (\<forall>p \<in> holders L' lp. lp \<in> fs' \<and> holders L' lp = {p}))"
proof -
  note f = run_file [OF assms(1), of lp, simplified]
  note h = run_holders [OF assms(1,2), of lp, simplified]
  have "lp \<in> fs' \<and> holders L' lp = {p}" if "Refused lp \<notin> set es" "p \<in> holders L' lp" for p
  proof -
    have "card (holders L' lp) \<noteq> 0" using h that(2) by (metis card_0_eq empty_iff)
    moreover have "card (holders L' lp) \<le> of_bool (lp \<in> fs')" using h count_notin [OF that(1)] by simp
    ultimately have "lp \<in> fs' \<and> card (holders L' lp) = 1" by (cases "lp \<in> fs'") simp_all
    then show ?thesis using that(2) by (auto simp: card_1_singleton_iff)
  qed
  moreover have "snd (snd (air_lock_acquire can fs' l path)) = (lp \<notin> fs' \<and> can lp)" by (simp add: air_lock_acquire_def lp Let_def)
  ultimately show ?thesis using f h by (auto split: if_splits)
qed

text \<open>A refused acquisition removes the lock file of the process that holds it: the next process to try gets
  the same lock while the first still holds it.\<close>

lemma refusal_unlocks:
  assumes run: "lock_run can s es (fs, L)"
    and p: "p \<in> holders L (path @ ''.lock'')" "path @ ''.lock'' \<in> fs" "can (path @ ''.lock'')"
    and qr: "\<not> held (L q)" "\<not> held (L r)" "r \<noteq> q"
  shows "\<exists>fs' L'. lock_run can s (es @ [Refused (path @ ''.lock''), Granted (path @ ''.lock'')]) (fs', L') \<and>
    {p, r} \<subseteq> holders L' (path @ ''.lock'')"
proof -
  let ?lp = "path @ ''.lock''"
  let ?q = "(L q)\<lparr>lpath := Some ?lp\<rparr>" and ?r = "(L r)\<lparr>lpath := Some ?lp, held := True\<rparr>"
  have "lock_run can s (es @ [Refused ?lp]) (fs - {?lp}, L(q := ?q))"
    using p qr by (intro lock_refuse [OF run]) (simp_all add: air_lock_acquire_def Let_def)
  then have "lock_run can s ((es @ [Refused ?lp]) @ [Granted ?lp]) (insert ?lp (fs - {?lp}), (L(q := ?q))(r := ?r))"
    using p qr by (elim lock_grant) (simp_all add: air_lock_acquire_def Let_def)
  moreover have "{p, r} \<subseteq> holders ((L(q := ?q))(r := ?r)) ?lp" using p(1) qr by (auto simp: holders_def)
  ultimately show ?thesis by auto
qed

text \<open>Three processes: the first is granted a lock, the second another, the third is refused the second, which
  then has a holder without a file, and the first lock still excludes.\<close>

theorem lock_excludes_witness:
  "\<exists>fs L. lock_run (\<lambda>p. True) ({}, \<lambda>p. AIR_LOCK_INIT) [Granted ''a.lock'', Granted ''b.lock'', Refused ''b.lock''] (fs, L) \<and>
     holders L ''a.lock'' = {1} \<and> ''a.lock'' \<in> fs \<and> card (holders L ''b.lock'') \<le> 2 \<and> ''b.lock'' \<notin> fs"
proof -
  let ?can = "\<lambda>p :: string. True" and ?I = "\<lambda>p :: nat. AIR_LOCK_INIT"
  let ?a = "AIR_LOCK_INIT\<lparr>lpath := Some ''a.lock'', held := True\<rparr>" and ?b = "AIR_LOCK_INIT\<lparr>lpath := Some ''b.lock'', held := True\<rparr>"
  let ?c = "AIR_LOCK_INIT\<lparr>lpath := Some ''b.lock''\<rparr>" and ?es = "[Granted ''a.lock'', Granted ''b.lock'', Refused ''b.lock'']"
  let ?L = "((?I(1 := ?a))(2 := ?b))(3 := ?c)"
  note step = AIR_LOCK_INIT_def air_lock_acquire_def Let_def
  have "lock_run ?can ({}, ?I) [Granted ''a.lock''] ({''a.lock''}, ?I(1 := ?a))"
    using lock_grant [OF lock_start, of "?I" 1 ?can "{}" "''a''" "{''a.lock''}" ?a] by (simp add: step)
  from lock_grant [OF this, of 2 "''b''" "{''b.lock'', ''a.lock''}" ?b]
  have "lock_run ?can ({}, ?I) [Granted ''a.lock'', Granted ''b.lock''] ({''b.lock'', ''a.lock''}, (?I(1 := ?a))(2 := ?b))"
    by (simp add: step)
  from lock_refuse [OF this, of 3 "''b''" "{''a.lock''}" ?c]
  have run: "lock_run ?can ({}, ?I) ?es ({''a.lock''}, ?L)" by (simp add: step)
  have none: "\<forall>p. \<not> held (?I p)" by (simp add: AIR_LOCK_INIT_def)
  have "1 \<in> holders ?L ''a.lock''" by (simp add: holders_def)
  with lock_excludes [OF run none, of "''a.lock''" "''a''"] have "holders ?L ''a.lock'' = {1}" by simp
  moreover have "card (holders ?L ''b.lock'') \<le> 2" using lock_excludes [OF run none, of "''b.lock''" "''b''"] by (simp add: numeral_2_eq_2)
  ultimately show ?thesis using run by (intro exI [of _ "{''a.lock''}"] exI [of _ ?L]) simp
qed

end
