(* ===== verification/Config.thy ===== *)
theory Config
  imports Output
begin

unbundle bit_operations_syntax

text \<open>
  The configuration of the meter (\<open>src/qofconfig.c\<close>): the YAML document, the elements of the export template with
  the features they need, and the defaults.

  The YAML library delivers events; a parser is the list of those it will still deliver before it fails. A
  function that returns \<open>gboolean\<close> with a \<open>GError\<close> has four outcomes: true with the values it stored (\<open>Val\<close>),
  false without an error (\<open>Done\<close>, the end of a mapping or sequence), false with an error (\<open>Fail\<close>), and \<open>Abort\<close> where
  the C code is undefined: a scalar of eighty or more characters leaves its buffer without a terminator, which
  \<open>sscanf\<close> and \<open>strcmp\<close> then run past, and the lookup structures have their own such cases. After \<open>Fail\<close> the
  program ends, so what was stored before it is not kept.

  Parameters (record \<open>cfg_env\<close>): \<open>inet_pton\<close> for the two families, \<open>sscanf\<close> of a \<open>double\<close>, \<open>memcpy\<close> on overlapping cells (as in theory
  \<open>IfMap\<close>) and the contents of the local variables the interface map reads before it stores to them. The
  host is little-endian. The offsets of the key tables are the constructors of \<open>cfg_off\<close>.
\<close>

subsection \<open>The configuration\<close>

record qfConfig =
  enable_biflow :: bool
  enable_ipv4 :: bool
  enable_ipv6 :: bool
  enable_seq :: bool
  enable_ack :: bool
  enable_rtt :: bool
  enable_rwin :: bool
  enable_ts :: bool
  enable_iat :: bool
  enable_tcpopt :: bool
  enable_iface :: bool
  enable_mac :: bool
  enable_silk :: bool
  enable_gre :: bool
  enable_biforce :: bool
  ato_s :: u32
  ito_s :: u32
  max_flowtab :: u32
  max_fragtab :: u32
  max_flow_pkt :: u64
  max_flow_oct :: u64
  ato_rtts :: u32
  ifmap :: qfIfMap
  srcnets :: qfNetList
  srcmacs :: qfMacList

definition VALBUF_SIZE :: nat where "VALBUF_SIZE = 80"

datatype qfConfigKeyType = QF_CONFIG_NOTYPE | QF_CONFIG_STRING | QF_CONFIG_U32 | QF_CONFIG_U64 | QF_CONFIG_DOUBLE | QF_CONFIG_BOOL

datatype cfg_off = OFF_ato_s | OFF_ito_s | OFF_max_flowtab | OFF_max_fragtab | OFF_max_flow_oct | OFF_max_flow_pkt | OFF_ato_rtts
  | OFF_enable_biforce | OFF_enable_gre | OFF_enable_silk | OFF_enable_ipv4 | OFF_enable_ipv6 | OFF_enable_mac | OFF_enable_seq
  | OFF_enable_ack | OFF_enable_rtt | OFF_enable_rwin | OFF_enable_ts | OFF_enable_iat | OFF_enable_tcpopt

fun set_u32 :: "cfg_off \<Rightarrow> u32 \<Rightarrow> qfConfig \<Rightarrow> qfConfig" where
  "set_u32 OFF_ato_s v cfg = cfg\<lparr>ato_s := v\<rparr>"
| "set_u32 OFF_ito_s v cfg = cfg\<lparr>ito_s := v\<rparr>"
| "set_u32 OFF_max_flowtab v cfg = cfg\<lparr>max_flowtab := v\<rparr>"
| "set_u32 OFF_max_fragtab v cfg = cfg\<lparr>max_fragtab := v\<rparr>"
| "set_u32 OFF_ato_rtts v cfg = cfg\<lparr>ato_rtts := v\<rparr>"
| "set_u32 off v cfg = cfg"

fun set_u64 :: "cfg_off \<Rightarrow> u64 \<Rightarrow> qfConfig \<Rightarrow> qfConfig" where
  "set_u64 OFF_max_flow_oct v cfg = cfg\<lparr>max_flow_oct := v\<rparr>"
| "set_u64 OFF_max_flow_pkt v cfg = cfg\<lparr>max_flow_pkt := v\<rparr>"
| "set_u64 off v cfg = cfg"

fun set_bool :: "cfg_off \<Rightarrow> bool \<Rightarrow> qfConfig \<Rightarrow> qfConfig" where
  "set_bool OFF_enable_biforce v cfg = cfg\<lparr>enable_biforce := v\<rparr>"
| "set_bool OFF_enable_gre v cfg = cfg\<lparr>enable_gre := v\<rparr>"
| "set_bool OFF_enable_silk v cfg = cfg\<lparr>enable_silk := v\<rparr>"
| "set_bool OFF_enable_ipv4 v cfg = cfg\<lparr>enable_ipv4 := v\<rparr>"
| "set_bool OFF_enable_ipv6 v cfg = cfg\<lparr>enable_ipv6 := v\<rparr>"
| "set_bool OFF_enable_mac v cfg = cfg\<lparr>enable_mac := v\<rparr>"
| "set_bool OFF_enable_seq v cfg = cfg\<lparr>enable_seq := v\<rparr>"
| "set_bool OFF_enable_ack v cfg = cfg\<lparr>enable_ack := v\<rparr>"
| "set_bool OFF_enable_rtt v cfg = cfg\<lparr>enable_rtt := v\<rparr>"
| "set_bool OFF_enable_rwin v cfg = cfg\<lparr>enable_rwin := v\<rparr>"
| "set_bool OFF_enable_ts v cfg = cfg\<lparr>enable_ts := v\<rparr>"
| "set_bool OFF_enable_iat v cfg = cfg\<lparr>enable_iat := v\<rparr>"
| "set_bool OFF_enable_tcpopt v cfg = cfg\<lparr>enable_tcpopt := v\<rparr>"
| "set_bool off v cfg = cfg"

definition cfg_key_actions :: "(string \<times> cfg_off \<times> qfConfigKeyType) list" where
  "cfg_key_actions = [
     (''active-timeout'', OFF_ato_s, QF_CONFIG_U32),
     (''idle-timeout'', OFF_ito_s, QF_CONFIG_U32),
     (''max-flows'', OFF_max_flowtab, QF_CONFIG_U32),
     (''max-frags'', OFF_max_fragtab, QF_CONFIG_U32),
     (''active-timeout-octets'', OFF_max_flow_oct, QF_CONFIG_U64),
     (''active-timeout-packets'', OFF_max_flow_pkt, QF_CONFIG_U64),
     (''active-timeout-rtts'', OFF_ato_rtts, QF_CONFIG_U32),
     (''force-biflow'', OFF_enable_biforce, QF_CONFIG_BOOL),
     (''gre-decap'', OFF_enable_gre, QF_CONFIG_BOOL),
     (''silk-compatible'', OFF_enable_silk, QF_CONFIG_BOOL)]"

definition cfg_ie_features :: "(string \<times> cfg_off) list" where
  "cfg_ie_features = [
     (''sourceIPv4Address'', OFF_enable_ipv4), (''destinationIPv4Address'', OFF_enable_ipv4),
     (''sourceIPv6Address'', OFF_enable_ipv6), (''destinationIPv6Address'', OFF_enable_ipv6),
     (''sourceMacAddress'', OFF_enable_mac), (''destinationMacAddress'', OFF_enable_mac), (''vlanId'', OFF_enable_mac),
     (''tcpSequenceCount'', OFF_enable_seq), (''maxTcpSequenceJump'', OFF_enable_seq),
     (''tcpSequenceLossCount'', OFF_enable_seq), (''tcpRetransmitCount'', OFF_enable_seq),
     (''tcpSequenceJumpCount'', OFF_enable_seq), (''tcpLossEventCount'', OFF_enable_seq),
     (''tcpDupAckCount'', OFF_enable_ack), (''tcpSelAckCount'', OFF_enable_ack),
     (''minTcpRttMilliseconds'', OFF_enable_rtt), (''tcpRttMilliseconds'', OFF_enable_rtt),
     (''tcpLossEventCount'', OFF_enable_rtt),
     (''minTcpRwin'', OFF_enable_rwin), (''meanTcpRwin'', OFF_enable_rwin), (''maxTcpRwin'', OFF_enable_rwin),
     (''tcpTimestampFrequency'', OFF_enable_ts), (''minTcpChirpMilliseconds'', OFF_enable_ts),
     (''maxTcpChirpMilliseconds'', OFF_enable_ts),
     (''minTcpIOTMilliseconds'', OFF_enable_iat), (''maxTcpIOTMilliseconds'', OFF_enable_iat),
     (''minTcpChirpMilliseconds'', OFF_enable_iat), (''maxTcpChirpMilliseconds'', OFF_enable_iat),
     (''meanTcpChirpMilliseconds'', OFF_enable_iat),
     (''minTcpRttMilliseconds'', OFF_enable_tcpopt), (''tcpRttMilliseconds'', OFF_enable_tcpopt),
     (''qofTcpCharacteristics'', OFF_enable_tcpopt), (''declaredTcpMss'', OFF_enable_tcpopt),
     (''minTcpRwin'', OFF_enable_tcpopt), (''meanTcpRwin'', OFF_enable_tcpopt), (''maxTcpRwin'', OFF_enable_tcpopt),
     (''tcpSelAckCount'', OFF_enable_tcpopt), (''tcpTimestampFrequency'', OFF_enable_tcpopt),
     (''minTcpChirpMilliseconds'', OFF_enable_tcpopt), (''maxTcpChirpMilliseconds'', OFF_enable_tcpopt),
     (''meanTcpChirpMilliseconds'', OFF_enable_tcpopt)]"

definition cfg_default_ies :: "string list" where
  "cfg_default_ies = [
     ''flowStartMilliseconds'', ''flowEndMilliseconds'', ''octetDeltaCount'', ''reverseOctetDeltaCount'',
     ''packetDeltaCount'', ''reversePacketDeltaCount'', ''sourceIPv4Address'', ''destinationIPv4Address'',
     ''sourceIPv6Address'', ''destinationIPv6Address'', ''sourceTransportPort'', ''destinationTransportPort'',
     ''protocolIdentifier'', ''flowEndReason'']"

text \<open>\<open>strncmp\<close> with a bound, as an equality of C strings.\<close>

definition strncmp_eq :: "string \<Rightarrow> string \<Rightarrow> nat \<Rightarrow> bool" where
  "strncmp_eq a b n \<longleftrightarrow> take n a = take n b"

definition enable_features :: "string \<Rightarrow> qfConfig \<Rightarrow> qfConfig" where
  "enable_features iename cfg =
     foldl (\<lambda>cfg (key, off). if strncmp_eq key iename VALBUF_SIZE then set_bool off True cfg else cfg) cfg cfg_ie_features"

definition qfConfigIE :: "qfConfig \<Rightarrow> qfWriter \<Rightarrow> string \<Rightarrow> (qfConfig \<times> qfWriter) option" where
  "qfConfigIE cfg w iename =
     (case yfWriterExportIE w iename of
        (w, False) \<Rightarrow> None
      | (w, True) \<Rightarrow>
          let cfg = (if strncmp_eq ''reverse'' iename 7 then cfg\<lparr>enable_biflow := True\<rparr> else cfg)
          in Some (enable_features iename cfg, w))"

subsection \<open>Scalars\<close>

datatype yaml_event = YAML_NO_EVENT | YAML_STREAM_START_EVENT | YAML_STREAM_END_EVENT | YAML_DOCUMENT_START_EVENT
  | YAML_DOCUMENT_END_EVENT | YAML_ALIAS_EVENT | YAML_SCALAR_EVENT string | YAML_SEQUENCE_START_EVENT
  | YAML_SEQUENCE_END_EVENT | YAML_MAPPING_START_EVENT | YAML_MAPPING_END_EVENT

type_synonym yaml_parser = "yaml_event list"

datatype config_error = YamlProblem | ConfigError string | CannotExport string | CannotOpen

datatype 'a outcome = Val 'a | Done | Fail config_error | Abort

definition yaml_parser_parse :: "yaml_parser \<Rightarrow> (yaml_event \<times> yaml_parser) option" where
  "yaml_parser_parse p = (case p of [] \<Rightarrow> None | e # p \<Rightarrow> Some (e, p))"

text \<open>Going on with the value of a call that returned true, and returning false otherwise.\<close>

fun on_val :: "'a outcome \<times> yaml_parser \<Rightarrow> ('a \<Rightarrow> yaml_parser \<Rightarrow> 'b outcome \<times> yaml_parser) \<Rightarrow> 'b outcome \<times> yaml_parser" where
  "on_val (Val v, p) f = f v p"
| "on_val (Done, p) f = (Done, p)"
| "on_val (Fail e, p) f = (Fail e, p)"
| "on_val (Abort, p) f = (Abort, p)"

lemma on_val_cong [fundef_cong]:
  "\<lbrakk>x = y; \<And>v p. y = (Val v, p) \<Longrightarrow> f v p = g v p\<rbrakk> \<Longrightarrow> on_val x f = on_val y g"
  by (cases "(x, f)" rule: on_val.cases) auto

text \<open>A loop that goes on while a call returns true; when it returns false without an error, the loop ends with
  what it has stored.\<close>

fun while_val :: "'a outcome \<times> yaml_parser \<Rightarrow> 'b \<Rightarrow> ('a \<Rightarrow> yaml_parser \<Rightarrow> 'b outcome \<times> yaml_parser) \<Rightarrow> 'b outcome \<times> yaml_parser" where
  "while_val (Val v, p) s f = f v p"
| "while_val (Done, p) s f = (Val s, p)"
| "while_val (Fail e, p) s f = (Fail e, p)"
| "while_val (Abort, p) s f = (Abort, p)"

lemma while_val_cong [fundef_cong]:
  "\<lbrakk>x = y; s = t; \<And>v p. y = (Val v, p) \<Longrightarrow> f v p = g v p\<rbrakk> \<Longrightarrow> while_val x s f = while_val y t g"
  by (cases "(x, s, f)" rule: while_val.cases) auto

text \<open>\<open>strncpy\<close> into a buffer of the size of the value buffer: the characters there, up to a terminator if there is
  room for one.\<close>

definition strncpy_buf :: "string \<Rightarrow> string" where
  "strncpy_buf s = take VALBUF_SIZE (takeWhile (\<lambda>c. c \<noteq> CHR 0x00) s)"

definition qfYamlParseKey :: "yaml_parser \<Rightarrow> string outcome \<times> yaml_parser" where
  "qfYamlParseKey p =
     (case yaml_parser_parse p of
        None \<Rightarrow> (Fail YamlProblem, p)
      | Some (YAML_MAPPING_END_EVENT, p) \<Rightarrow> (Done, p)
      | Some (YAML_SCALAR_EVENT s, p) \<Rightarrow> (Val (strncpy_buf s), p)
      | Some (_, p) \<Rightarrow> (Fail (ConfigError ''expected key''), p))"

definition qfYamlParseValue :: "yaml_parser \<Rightarrow> string outcome \<times> yaml_parser" where
  "qfYamlParseValue p =
     (case yaml_parser_parse p of
        None \<Rightarrow> (Fail YamlProblem, p)
      | Some (YAML_SEQUENCE_END_EVENT, p) \<Rightarrow> (Done, p)
      | Some (YAML_SCALAR_EVENT s, p) \<Rightarrow> (Val (strncpy_buf s), p)
      | Some (_, p) \<Rightarrow> (Fail (ConfigError ''expected scalar value''), p))"

text \<open>A value read as a C string.\<close>

definition parse_text :: "yaml_parser \<Rightarrow> string outcome \<times> yaml_parser" where
  "parse_text p = on_val (qfYamlParseValue p) (\<lambda>v p. (if length v < VALBUF_SIZE then Val v else Abort, p))"

text \<open>\<open>sscanf\<close>: unsigned numbers as \<open>strtoul\<close> reads them (white space, a sign, digits; what does not fit is the
  largest number), and scan sets with a field width.\<close>

definition is_space :: "char \<Rightarrow> bool" where
  "is_space c \<longleftrightarrow> c \<in> {CHR 0x20, CHR 0x09, CHR 0x0A, CHR 0x0B, CHR 0x0C, CHR 0x0D}"

definition char_in :: "int \<Rightarrow> int \<Rightarrow> char \<Rightarrow> bool" where
  "char_in a b c \<longleftrightarrow> a \<le> of_char c \<and> of_char c \<le> b"

definition is_digit :: "char \<Rightarrow> bool" where
  "is_digit c \<longleftrightarrow> char_in 0x30 0x39 c"

definition is_xdigit :: "char \<Rightarrow> bool" where
  "is_xdigit c \<longleftrightarrow> is_digit c \<or> char_in 0x61 0x66 c \<or> char_in 0x41 0x46 c"

definition xdigit_value :: "char \<Rightarrow> nat" where
  "xdigit_value c = (if is_digit c then of_char c - 0x30 else if char_in 0x61 0x66 c then of_char c - 0x57 else of_char c - 0x37)"

definition hex_value :: "string \<Rightarrow> nat" where
  "hex_value s = foldl (\<lambda>v c. 16 * v + xdigit_value c) 0 s"

definition scan_sign :: "string \<Rightarrow> bool \<times> string" where
  "scan_sign s = (case dropWhile is_space s of
      [] \<Rightarrow> (False, [])
    | c # t \<Rightarrow> if c = CHR ''-'' then (True, t) else if c = CHR ''+'' then (False, t) else (False, c # t))"

definition strtoul_value :: "bool \<Rightarrow> nat \<Rightarrow> int" where
  "strtoul_value neg n = (if 2 ^ 64 \<le> int n then 2 ^ 64 - 1 else if neg then - int n else int n)"

definition scan_u :: "string \<Rightarrow> (int \<times> string) option" where
  "scan_u s = (case scan_sign s of (neg, t) \<Rightarrow>
     let ds = takeWhile is_digit t in if ds = [] then None else Some (strtoul_value neg (decimal_value ds), dropWhile is_digit t))"

definition scan_x :: "string \<Rightarrow> (int \<times> string) option" where
  "scan_x s = (case scan_sign s of (neg, t) \<Rightarrow>
     let t = (if 2 < length t \<and> t ! 0 = CHR ''0'' \<and> t ! 1 \<in> {CHR ''x'', CHR ''X''} \<and> is_xdigit (t ! 2) then drop 2 t else t);
         ds = takeWhile is_xdigit t
     in if ds = [] then None else Some (strtoul_value neg (hex_value ds), dropWhile is_xdigit t))"

definition scan_set :: "nat \<Rightarrow> (char \<Rightarrow> bool) \<Rightarrow> string \<Rightarrow> (string \<times> string) option" where
  "scan_set n P s = (let a = take n (takeWhile P s) in if a = [] then None else Some (a, drop (length a) s))"

text \<open>An address and a prefix length behind a slash, with the length it has when there is none.\<close>

definition scan_prefixed :: "nat \<Rightarrow> (char \<Rightarrow> bool) \<Rightarrow> u8 \<Rightarrow> string \<Rightarrow> (string \<times> u8) option" where
  "scan_prefixed n P implicit s =
     map_option (\<lambda>(a, r). (a, case r of
        CHR ''/'' # t \<Rightarrow> (case scan_u t of Some (m, _) \<Rightarrow> word_of_int m | None \<Rightarrow> implicit)
      | _ \<Rightarrow> implicit)) (scan_set n P s)"

definition is_addr4 :: "char \<Rightarrow> bool" where
  "is_addr4 c \<longleftrightarrow> is_digit c \<or> c = CHR ''.''"

definition is_addr6 :: "char \<Rightarrow> bool" where
  "is_addr6 c \<longleftrightarrow> is_xdigit c \<or> c = CHR '':'' \<or> c = CHR ''.''"

definition qfYamlParseU32 :: "yaml_parser \<Rightarrow> u32 outcome \<times> yaml_parser" where
  "qfYamlParseU32 p = on_val (parse_text p) (\<lambda>v p.
     (case scan_u v of None \<Rightarrow> Fail (ConfigError ''expected integer value'') | Some (n, _) \<Rightarrow> Val (word_of_int n), p))"

definition qfYamlParseU64 :: "yaml_parser \<Rightarrow> u64 outcome \<times> yaml_parser" where
  "qfYamlParseU64 p = on_val (parse_text p) (\<lambda>v p.
     (case scan_u v of None \<Rightarrow> Fail (ConfigError ''expected integer value'') | Some (n, _) \<Rightarrow> Val (word_of_int n), p))"

definition qfYamlParseBool :: "yaml_parser \<Rightarrow> bool outcome \<times> yaml_parser" where
  "qfYamlParseBool p = on_val (qfYamlParseValue p) (\<lambda>v p. (Val (\<not> (v \<noteq> [] \<and> hd v = CHR ''0'')), p))"

record map_vars =
  mv_v4addr :: u32
  mv_v4mask :: u8
  mv_v6addr :: "u8 list"
  mv_v6mask :: u8
  mv_ingress :: u32
  mv_egress :: u32

record cfg_env =
  ce_pton4 :: "string \<Rightarrow> u32 option"
  ce_pton6 :: "string \<Rightarrow> u8 list option"
  ce_strtod :: "string \<Rightarrow> real option"
  ce_mc4 :: "qfIfMapEntry4 mover"
  ce_mc6 :: "qfIfMapEntry6 mover"
  ce_vars :: map_vars

text \<open>\<open>inet_pton\<close> leaves the address in network order: the parameter gives its value, and the number read from
  memory has its octets swapped. \<open>qfYamlParsePrefixedV4\<close> swaps the result of the call instead of the address.\<close>

definition qfYamlParseDouble :: "cfg_env \<Rightarrow> yaml_parser \<Rightarrow> real outcome \<times> yaml_parser" where
  "qfYamlParseDouble ce p = on_val (parse_text p) (\<lambda>v p.
     (case ce_strtod ce v of None \<Rightarrow> Fail (ConfigError ''expected float value'') | Some x \<Rightarrow> Val x, p))"

definition ntohl :: "u32 \<Rightarrow> u32" where
  "ntohl a = push_bit 24 (a AND 0xFF) OR push_bit 8 (a AND 0xFF00) OR drop_bit 8 (a AND 0xFF0000) OR drop_bit 24 a"

definition qfYamlParsePrefixedV4 :: "cfg_env \<Rightarrow> yaml_parser \<Rightarrow> (u32 \<times> u8) outcome \<times> yaml_parser" where
  "qfYamlParsePrefixedV4 ce p = on_val (parse_text p) (\<lambda>v p.
     (case scan_prefixed 15 is_addr4 32 v of
        None \<Rightarrow> Fail (ConfigError ''expected IPv4 address'')
      | Some (a, m) \<Rightarrow> (case ce_pton4 ce a of
            None \<Rightarrow> Fail (ConfigError ''invalid IPv4 address'')
          | Some addr \<Rightarrow> Val (ntohl addr, m)), p))"

definition qfYamlParsePrefixedV6 :: "cfg_env \<Rightarrow> yaml_parser \<Rightarrow> (u8 list \<times> u8) outcome \<times> yaml_parser" where
  "qfYamlParsePrefixedV6 ce p = on_val (parse_text p) (\<lambda>v p.
     (case scan_prefixed 39 is_addr6 128 v of
        None \<Rightarrow> Fail (ConfigError ''expected IPv6 address'')
      | Some (a, m) \<Rightarrow> (case ce_pton6 ce a of
            None \<Rightarrow> Fail (ConfigError ''invalid IPv6 address'')
          | Some addr \<Rightarrow> Val (addr, m)), p))"

definition qfYamlParsePrefixedV4Or6 :: "cfg_env \<Rightarrow> yaml_parser \<Rightarrow> (u32 \<times> u8 list \<times> u8) outcome \<times> yaml_parser" where
  "qfYamlParsePrefixedV4Or6 ce p = on_val (parse_text p) (\<lambda>v p.
     (case scan_prefixed 15 is_addr4 32 v of
        None \<Rightarrow> (case scan_prefixed 39 is_addr6 128 v of
            None \<Rightarrow> Fail (ConfigError ''expected IPv6 address'')
          | Some (a, m) \<Rightarrow> (case ce_pton6 ce a of
                None \<Rightarrow> Fail (ConfigError ''invalid IPv6 address'')
              | Some addr \<Rightarrow> Val (0, addr, m)))
      | Some (a, m) \<Rightarrow> (case ce_pton4 ce a of
            None \<Rightarrow> Fail (ConfigError ''invalid IPv4 address'')
          | Some addr \<Rightarrow> Val (ntohl (ntohl addr), replicate 16 0, m)), p))"

text \<open>Six hexadecimal octets with colons between them.\<close>

fun scan_mac :: "nat \<Rightarrow> string \<Rightarrow> u8 list option" where
  "scan_mac 0 s = Some []"
| "scan_mac (Suc k) s = (case scan_x s of None \<Rightarrow> None
     | Some (n, r) \<Rightarrow>
         if k = 0 then Some [word_of_int n]
         else (case r of CHR '':'' # t \<Rightarrow> map_option ((#) (word_of_int n)) (scan_mac k t) | _ \<Rightarrow> None))"

definition qfYamlParseMac48 :: "yaml_parser \<Rightarrow> u8 list outcome \<times> yaml_parser" where
  "qfYamlParseMac48 p = on_val (parse_text p) (\<lambda>v p.
     (case scan_mac 6 v of Some m \<Rightarrow> Val m | None \<Rightarrow> Fail (ConfigError ''expected MAC address''), p))"

definition qfYamlRequireEvent :: "yaml_event \<Rightarrow> yaml_parser \<Rightarrow> unit outcome \<times> yaml_parser" where
  "qfYamlRequireEvent et p =
     (case yaml_parser_parse p of
        None \<Rightarrow> (Fail YamlProblem, p)
      | Some (e, p) \<Rightarrow> (if e \<noteq> et then Fail (ConfigError ''malformed configuration'') else Val (), p))"

subsection \<open>The document\<close>

text \<open>Every call of the parser takes an event, so the loops end.\<close>

definition shrinks :: "(yaml_parser \<Rightarrow> 'a outcome \<times> yaml_parser) \<Rightarrow> bool" where
  "shrinks f \<longleftrightarrow> (\<forall>p r p'. f p = (r, p') \<longrightarrow> length p' \<le> length p \<and> (\<forall>v. r = Val v \<longrightarrow> length p' < length p))"

lemma shrinks_on_val: "shrinks f \<Longrightarrow> (\<And>v q. snd (g v q) = q) \<Longrightarrow> shrinks (\<lambda>p. on_val (f p) g)"
  unfolding shrinks_def
proof (intro allI impI)
  fix p r p' assume f: "\<forall>p r p'. f p = (r, p') \<longrightarrow> length p' \<le> length p \<and> (\<forall>v. r = Val v \<longrightarrow> length p' < length p)"
    and g: "\<And>v q. snd (g v q) = q" and e: "on_val (f p) g = (r, p')"
  obtain r1 p1 where p1: "f p = (r1, p1)" by fastforce
  show "length p' \<le> length p \<and> (\<forall>v. r = Val v \<longrightarrow> length p' < length p)"
    using f [rule_format, OF p1] e p1 g by (cases r1) (auto, (metis snd_conv less_imp_le_nat)+)
qed

lemma shrinks_parsers: "shrinks qfYamlParseKey" "shrinks qfYamlParseValue"
  by (auto simp: shrinks_def qfYamlParseKey_def qfYamlParseValue_def yaml_parser_parse_def split: list.splits yaml_event.splits)

lemma shrinks_scalars:
  "shrinks parse_text" "shrinks qfYamlParseU32" "shrinks qfYamlParseU64" "shrinks qfYamlParseBool"
  "shrinks (qfYamlParsePrefixedV4 ce)" "shrinks (qfYamlParsePrefixedV6 ce)" "shrinks (qfYamlParsePrefixedV4Or6 ce)"
  "shrinks qfYamlParseMac48" "shrinks (qfYamlParseDouble ce)"
proof -
  show t: "shrinks parse_text" unfolding parse_text_def by (rule shrinks_on_val) (simp_all add: shrinks_parsers)
  show "shrinks qfYamlParseU32" "shrinks qfYamlParseU64" "shrinks (qfYamlParsePrefixedV4 ce)" "shrinks (qfYamlParsePrefixedV6 ce)"
    "shrinks (qfYamlParsePrefixedV4Or6 ce)" "shrinks qfYamlParseMac48" "shrinks (qfYamlParseDouble ce)"
    unfolding qfYamlParseU32_def qfYamlParseU64_def qfYamlParsePrefixedV4_def qfYamlParsePrefixedV6_def
      qfYamlParsePrefixedV4Or6_def qfYamlParseMac48_def qfYamlParseDouble_def
    by (rule shrinks_on_val; simp add: t)+
  show "shrinks qfYamlParseBool" unfolding qfYamlParseBool_def by (rule shrinks_on_val) (simp_all add: shrinks_parsers)
qed

lemma shrinksD: "shrinks f \<Longrightarrow> f p = (Val v, p') \<Longrightarrow> length p' < length p"
  by (auto simp: shrinks_def)

lemma shrinks_le: "shrinks f \<Longrightarrow> f p = (r, p') \<Longrightarrow> length p' \<le> length p"
  by (auto simp: shrinks_def)

lemmas parse_shrinks = shrinks_scalars [THEN shrinksD] shrinks_parsers [THEN shrinksD]
lemmas parse_le = shrinks_scalars [THEN shrinks_le] shrinks_parsers [THEN shrinks_le]

text \<open>Loops leave no more events than they found.\<close>

definition leaves :: "nat \<Rightarrow> 'a outcome \<times> yaml_parser \<Rightarrow> bool" where
  "leaves n x \<longleftrightarrow> length (snd x) \<le> n"

lemma leaves_on_val:
  "\<lbrakk>shrinks g; length q \<le> n; \<And>v r. g q = (Val v, r) \<Longrightarrow> leaves (length r) (f v r)\<rbrakk> \<Longrightarrow> leaves n (on_val (g q) f)"
proof -
  assume g: "shrinks g" "length q \<le> n" and f: "\<And>v r. g q = (Val v, r) \<Longrightarrow> leaves (length r) (f v r)"
  obtain x r where x: "g q = (x, r)" by fastforce
  then have "length r \<le> n" using shrinks_le [OF g(1)] g(2) le_trans by blast
  then show ?thesis using x f by (cases x) (auto simp: leaves_def intro: order_trans)
qed

lemma leaves_while_val:
  "\<lbrakk>shrinks g; length q \<le> n; \<And>v r. g q = (Val v, r) \<Longrightarrow> leaves (length r) (f v r)\<rbrakk> \<Longrightarrow> leaves n (while_val (g q) s f)"
proof -
  assume g: "shrinks g" "length q \<le> n" and f: "\<And>v r. g q = (Val v, r) \<Longrightarrow> leaves (length r) (f v r)"
  obtain x r where x: "g q = (x, r)" by fastforce
  then have "length r \<le> n" using shrinks_le [OF g(1)] g(2) le_trans by blast
  then show ?thesis using x f by (cases x) (auto simp: leaves_def intro: order_trans)
qed

lemma leaves_if: "(c \<Longrightarrow> leaves n x) \<Longrightarrow> (\<not> c \<Longrightarrow> leaves n y) \<Longrightarrow> leaves n (if c then x else y)"
  by simp

function template_loop :: "qfConfig \<Rightarrow> qfWriter \<Rightarrow> yaml_parser \<Rightarrow> (qfConfig \<times> qfWriter) outcome \<times> yaml_parser" where
  "template_loop cfg w p = while_val (parse_text p) (cfg, w) (\<lambda>v p.
     (case qfConfigIE cfg w v of None \<Rightarrow> (Fail (CannotExport v), p) | Some (cfg, w) \<Rightarrow> template_loop cfg w p))"
  by pat_completeness auto

termination template_loop
  by (relation "measure (\<lambda>(cfg, w, p). length p)") (auto dest!: parse_shrinks)

definition qfYamlTemplate :: "qfConfig \<Rightarrow> qfWriter \<Rightarrow> yaml_parser \<Rightarrow> (qfConfig \<times> qfWriter) outcome \<times> yaml_parser" where
  "qfYamlTemplate cfg w p =
     on_val (qfYamlRequireEvent YAML_SEQUENCE_START_EVENT p) (\<lambda>u p. template_loop cfg (yfWriterExportReset w) p)"

text \<open>An entry of the interface map. The conditions are the code's: \<open>strncmp\<close> without a comparison with zero.\<close>

function map_entry_loop :: "cfg_env \<Rightarrow> map_vars \<Rightarrow> yaml_parser \<Rightarrow> map_vars outcome \<times> yaml_parser" where
  "map_entry_loop ce vs p = while_val (qfYamlParseKey p) vs (\<lambda>k p.
     if \<not> strncmp_eq ''ip4-net'' k VALBUF_SIZE then
       on_val (qfYamlParsePrefixedV4 ce p) (\<lambda>a p. map_entry_loop ce (vs\<lparr>mv_v4addr := fst a, mv_v4mask := snd a\<rparr>) p)
     else if \<not> strncmp_eq ''ip6-net'' k VALBUF_SIZE then
       on_val (qfYamlParsePrefixedV6 ce p) (\<lambda>a p. map_entry_loop ce (vs\<lparr>mv_v6addr := fst a, mv_v6mask := snd a\<rparr>) p)
     else if \<not> strncmp_eq ''ingress'' k VALBUF_SIZE then
       on_val (qfYamlParseU32 p) (\<lambda>n p. map_entry_loop ce (vs\<lparr>mv_ingress := n\<rparr>) p)
     else if \<not> strncmp_eq ''egress'' k VALBUF_SIZE then
       on_val (qfYamlParseU32 p) (\<lambda>n p. map_entry_loop ce (vs\<lparr>mv_egress := n\<rparr>) p)
     else (Fail (ConfigError ''unknown interface map parameter''), p))"
  by pat_completeness auto

termination map_entry_loop
  by (relation "measure (\<lambda>(ce, vs, p). length p)") (auto dest!: parse_shrinks)

declare template_loop.simps [simp del] map_entry_loop.simps [simp del]

text \<open>\<open>err\<close> is the error set by an earlier entry.\<close>

definition qfYamlParseMapEntry ::
  "cfg_env \<Rightarrow> config_error option \<Rightarrow> map_vars \<Rightarrow> yaml_parser \<Rightarrow> map_vars outcome \<times> yaml_parser" where
  "qfYamlParseMapEntry ce err vs p =
     (case yaml_parser_parse p of
        None \<Rightarrow> (Fail YamlProblem, p)
      | Some (YAML_SEQUENCE_END_EVENT, p) \<Rightarrow> (Done, p)
      | Some (YAML_MAPPING_START_EVENT, p) \<Rightarrow>
          on_val (map_entry_loop ce vs p) (\<lambda>vs p. (case err of None \<Rightarrow> Val vs | Some e \<Rightarrow> Fail e, p))
      | Some (_, p) \<Rightarrow> (Fail (ConfigError ''malformed configuration''), p))"

lemma template_loop_leaves: "leaves (length p) (template_loop cfg w p)"
proof (induction cfg w p rule: template_loop.induct)
  case (1 cfg w p)
  show ?case
  proof (subst template_loop.simps, rule leaves_while_val [OF shrinks_scalars(1) order_refl], goal_cases)
    case (1 v q)
    then show ?case using "1.IH" [OF 1] by (auto simp: leaves_def split: option.splits)
  qed
qed

lemma map_entry_loop_leaves: "leaves (length p) (map_entry_loop ce vs p)"
proof (induction ce vs p rule: map_entry_loop.induct)
  case (1 ce vs p)
  show ?case
  proof (subst map_entry_loop.simps, rule leaves_while_val [OF shrinks_parsers(1) order_refl], goal_cases)
    case (1 k q)
    note ih = "1.IH" [OF 1]
    show ?case by (intro leaves_if leaves_on_val shrinks_scalars order_refl) (use ih in \<open>simp_all add: leaves_def\<close>)
  qed
qed

lemma map_entry_shrinks: "shrinks (qfYamlParseMapEntry ce err vs)"
  unfolding shrinks_def
proof (intro allI impI)
  fix p r p' assume e: "qfYamlParseMapEntry ce err vs p = (r, p')"
  show "length p' \<le> length p \<and> (\<forall>v. r = Val v \<longrightarrow> length p' < length p)"
  proof (cases p)
    case (Cons ev q)
    have "length p' \<le> length q" if "ev = YAML_MAPPING_START_EVENT"
      using e that Cons map_entry_loop_leaves [of q ce vs]
      by (cases "map_entry_loop ce vs q", cases "fst (map_entry_loop ce vs q)")
        (auto simp: qfYamlParseMapEntry_def yaml_parser_parse_def leaves_def)
    then show ?thesis using e Cons
      by (cases ev) (auto simp: qfYamlParseMapEntry_def yaml_parser_parse_def)
  qed (use e in \<open>auto simp: qfYamlParseMapEntry_def yaml_parser_parse_def\<close>)
qed

lemmas entry_shrinks = map_entry_shrinks [THEN shrinksD]

text \<open>What the entry adds to the map.\<close>

definition ifmap_entry :: "cfg_env \<Rightarrow> qfConfig \<Rightarrow> map_vars \<Rightarrow> (qfConfig \<times> map_vars) option" where
  "ifmap_entry ce cfg vs =
     (let i = ucast (mv_ingress vs); e = ucast (mv_egress vs);
          (cfg, vs) = (if mv_v4addr vs \<noteq> 0
            then (cfg\<lparr>ifmap := qfIfMapAddIPv4Mapping (ce_mc4 ce) (ifmap cfg) (mv_v4addr vs) (mv_v4mask vs) i e\<rparr>, vs\<lparr>mv_v4addr := 0\<rparr>)
            else (cfg, vs))
      in if mv_v6addr vs ! 0 \<noteq> 0
         then map_option (\<lambda>mp. (cfg\<lparr>ifmap := mp\<rparr>, vs\<lparr>mv_v6addr := replicate 16 0\<rparr>))
                (qfIfMapAddIPv6Mapping (ce_mc6 ce) (ifmap cfg) (mv_v6addr vs) (mv_v6mask vs) i e)
         else Some (cfg, vs))"

function ifmap_loop ::
  "cfg_env \<Rightarrow> qfConfig \<Rightarrow> config_error option \<Rightarrow> map_vars \<Rightarrow> yaml_parser \<Rightarrow> (qfConfig \<times> config_error option) outcome \<times> yaml_parser" where
  "ifmap_loop ce cfg err vs p = while_val (qfYamlParseMapEntry ce err vs p) (cfg, err) (\<lambda>vs p.
     let err = (if 255 < mv_ingress vs \<or> 255 < mv_egress vs then Some (ConfigError ''interface too large'') else err)
     in case ifmap_entry ce cfg vs of None \<Rightarrow> (Abort, p) | Some (cfg, vs) \<Rightarrow> ifmap_loop ce cfg err vs p)"
  by pat_completeness auto

termination ifmap_loop
  by (relation "measure (\<lambda>(ce, cfg, err, vs, p). length p)") (auto dest!: entry_shrinks)

definition qfYamlInterfaceMap ::
  "cfg_env \<Rightarrow> qfConfig \<Rightarrow> qfWriter \<Rightarrow> yaml_parser \<Rightarrow> (qfConfig \<times> qfWriter) outcome \<times> yaml_parser" where
  "qfYamlInterfaceMap ce cfg w p =
     on_val (qfYamlRequireEvent YAML_SEQUENCE_START_EVENT p) (\<lambda>u p.
     on_val (ifmap_loop ce cfg None ((ce_vars ce)\<lparr>mv_v4addr := 0, mv_v6addr := replicate 16 0\<rparr>) p) (\<lambda>(cfg, err) p.
       (case err of Some e \<Rightarrow> Fail e | None \<Rightarrow> Val (cfg, yfWriterUseInterfaceMap w (Some (ifmap cfg))), p)))"

definition net_entry :: "cfg_env \<Rightarrow> qfConfig \<Rightarrow> u32 \<times> u8 list \<times> u8 \<Rightarrow> qfConfig option" where
  "net_entry ce cfg a = (case a of (v4addr, v6addr, pfx) \<Rightarrow>
     let cfg = (if v4addr \<noteq> 0 then cfg\<lparr>srcnets := qfNetListAddIPv4 (ce_mc4 ce) (srcnets cfg) v4addr pfx\<rparr> else cfg)
     in if v6addr ! 0 \<noteq> 0 then map_option (\<lambda>l. cfg\<lparr>srcnets := l\<rparr>) (qfNetListAddIPv6 (ce_mc6 ce) (srcnets cfg) v6addr pfx)
        else Some cfg)"

function net_loop :: "cfg_env \<Rightarrow> qfConfig \<Rightarrow> yaml_parser \<Rightarrow> qfConfig outcome \<times> yaml_parser" where
  "net_loop ce cfg p = while_val (qfYamlParsePrefixedV4Or6 ce p) cfg (\<lambda>a p.
     (case net_entry ce cfg a of None \<Rightarrow> (Abort, p) | Some cfg \<Rightarrow> net_loop ce cfg p))"
  by pat_completeness auto

termination net_loop
  by (relation "measure (\<lambda>(ce, cfg, p). length p)") (auto dest!: parse_shrinks)

definition qfYamlSourceNets ::
  "cfg_env \<Rightarrow> qfConfig \<Rightarrow> qfWriter \<Rightarrow> yaml_parser \<Rightarrow> (qfConfig \<times> qfWriter) outcome \<times> yaml_parser" where
  "qfYamlSourceNets ce cfg w p =
     on_val (qfYamlRequireEvent YAML_SEQUENCE_START_EVENT p) (\<lambda>u p.
     on_val (net_loop ce cfg p) (\<lambda>cfg p. (Val (cfg, yfWriterUseSourceNets w (Some (srcnets cfg))), p)))"

function mac_loop :: "qfConfig \<Rightarrow> yaml_parser \<Rightarrow> qfConfig outcome \<times> yaml_parser" where
  "mac_loop cfg p = while_val (qfYamlParseMac48 p) cfg (\<lambda>m p.
     (case qfMacListAdd (srcmacs cfg) m of None \<Rightarrow> (Abort, p) | Some l \<Rightarrow> mac_loop (cfg\<lparr>srcmacs := l\<rparr>) p))"
  by pat_completeness auto

termination mac_loop
  by (relation "measure (\<lambda>(cfg, p). length p)") (auto dest!: parse_shrinks)

definition qfYamlSourceMacs :: "qfConfig \<Rightarrow> qfWriter \<Rightarrow> yaml_parser \<Rightarrow> (qfConfig \<times> qfWriter) outcome \<times> yaml_parser" where
  "qfYamlSourceMacs cfg w p =
     on_val (qfYamlRequireEvent YAML_SEQUENCE_START_EVENT p) (\<lambda>u p.
     on_val (mac_loop cfg p) (\<lambda>cfg p.
       (Val (cfg\<lparr>enable_mac := True\<rparr>, yfWriterUseSourceMacs w (Some (srcmacs cfg))), p)))"

declare ifmap_loop.simps [simp del] net_loop.simps [simp del] mac_loop.simps [simp del]

lemma loops_leave:
  "leaves (length p) (ifmap_loop ce cfg err vs p)" "leaves (length p) (net_loop ce cfg p)" "leaves (length p) (mac_loop cfg p)"
proof -
  show "leaves (length p) (ifmap_loop ce cfg err vs p)"
  proof (induction ce cfg err vs p rule: ifmap_loop.induct)
    case (1 ce cfg err vs p)
    show ?case
    proof (subst ifmap_loop.simps, rule leaves_while_val [OF map_entry_shrinks order_refl], goal_cases)
      case (1 v q)
      then show ?case using "1.IH" [OF 1] by (auto simp: leaves_def Let_def split: option.splits)
    qed
  qed
  show "leaves (length p) (net_loop ce cfg p)"
  proof (induction ce cfg p rule: net_loop.induct)
    case (1 ce cfg p)
    show ?case
    proof (subst net_loop.simps, rule leaves_while_val [OF shrinks_scalars(7) order_refl], goal_cases)
      case (1 v q)
      then show ?case using "1.IH" [OF 1] by (auto simp: leaves_def split: option.splits)
    qed
  qed
  show "leaves (length p) (mac_loop cfg p)"
  proof (induction cfg p rule: mac_loop.induct)
    case (1 cfg p)
    show ?case
    proof (subst mac_loop.simps, rule leaves_while_val [OF shrinks_scalars(8) order_refl], goal_cases)
      case (1 v q)
      then show ?case using "1.IH" [OF 1] by (auto simp: leaves_def split: option.splits)
    qed
  qed
qed

text \<open>The action of a key of the document. No entry of the table has the type \<open>QF_CONFIG_DOUBLE\<close>: there is no field
  to store such a value to.\<close>

definition doc_action ::
  "cfg_env \<Rightarrow> string \<Rightarrow> qfConfig \<Rightarrow> qfWriter \<Rightarrow> yaml_parser \<Rightarrow> (qfConfig \<times> qfWriter) outcome \<times> yaml_parser" where
  "doc_action ce k cfg w p =
     (case find (\<lambda>(key, off, vt). strncmp_eq key k VALBUF_SIZE) cfg_key_actions of
        None \<Rightarrow> (Fail (ConfigError ''unknown configuration parameter''), p)
      | Some (key, off, vt) \<Rightarrow>
          (case vt of
             QF_CONFIG_U32 \<Rightarrow> on_val (qfYamlParseU32 p) (\<lambda>v p. (Val (set_u32 off v cfg, w), p))
           | QF_CONFIG_U64 \<Rightarrow> on_val (qfYamlParseU64 p) (\<lambda>v p. (Val (set_u64 off v cfg, w), p))
           | QF_CONFIG_DOUBLE \<Rightarrow> on_val (qfYamlParseDouble ce p) (\<lambda>v p. (Val (cfg, w), p))
           | QF_CONFIG_BOOL \<Rightarrow> on_val (qfYamlParseBool p) (\<lambda>v p. (Val (set_bool off v cfg, w), p))
           | _ \<Rightarrow> (Fail (ConfigError ''internal error in map dispatch''), p)))"

definition doc_key ::
  "cfg_env \<Rightarrow> string \<Rightarrow> qfConfig \<Rightarrow> qfWriter \<Rightarrow> yaml_parser \<Rightarrow> (qfConfig \<times> qfWriter) outcome \<times> yaml_parser" where
  "doc_key ce k cfg w p =
     (if strncmp_eq ''template'' k VALBUF_SIZE then qfYamlTemplate cfg w p
      else if strncmp_eq ''interface-map'' k VALBUF_SIZE then qfYamlInterfaceMap ce cfg w p
      else if strncmp_eq ''source-net'' k VALBUF_SIZE then qfYamlSourceNets ce cfg w p
      else if strncmp_eq ''source-mac'' k VALBUF_SIZE then qfYamlSourceMacs cfg w p
      else doc_action ce k cfg w p)"

lemma leaves_require:
  "(\<And>r. leaves (length r) (f () r)) \<Longrightarrow> leaves (length p) (on_val (qfYamlRequireEvent et p) f)"
  by (cases p) (auto simp: qfYamlRequireEvent_def yaml_parser_parse_def leaves_def intro: le_SucI)

lemma leaves_then:
  "leaves n x \<Longrightarrow> (\<And>v r. leaves (length r) (f v r)) \<Longrightarrow> leaves n (on_val x f)"
  by (cases "(x, f)" rule: on_val.cases) (auto simp: leaves_def intro: le_trans)

lemma doc_key_leaves: "leaves (length p) (doc_key ce k cfg w p)"
proof -
  have r: "leaves (length r) (x, r)" for r and x :: "'a outcome" by (simp add: leaves_def)
  have "leaves (length p) (doc_action ce k cfg w p)"
    unfolding doc_action_def
    by (auto intro!: leaves_on_val shrinks_scalars r split: option.splits qfConfigKeyType.splits)
  moreover have "leaves (length p) (qfYamlTemplate cfg w p)" "leaves (length p) (qfYamlInterfaceMap ce cfg w p)"
    "leaves (length p) (qfYamlSourceNets ce cfg w p)" "leaves (length p) (qfYamlSourceMacs cfg w p)"
    unfolding qfYamlTemplate_def qfYamlInterfaceMap_def qfYamlSourceNets_def qfYamlSourceMacs_def
    by (auto intro!: leaves_require leaves_then template_loop_leaves loops_leave r)
  ultimately show ?thesis by (simp add: doc_key_def)
qed

function document_loop ::
  "cfg_env \<Rightarrow> qfConfig \<Rightarrow> qfWriter \<Rightarrow> yaml_parser \<Rightarrow> (qfConfig \<times> qfWriter) outcome \<times> yaml_parser" where
  "document_loop ce cfg w p = while_val (qfYamlParseKey p) (cfg, w) (\<lambda>k p.
     on_val (doc_key ce k cfg w p) (\<lambda>cw p. document_loop ce (fst cw) (snd cw) p))"
  by pat_completeness auto

lemma doc_key_shorter: "doc_key ce k cfg w q = (x, p') \<Longrightarrow> length p' \<le> length q"
  using doc_key_leaves [of q ce k cfg w] by (simp add: leaves_def)

termination document_loop
  by (relation "measure (\<lambda>(ce, cfg, w, p). length p)") (auto dest!: parse_shrinks doc_key_shorter)

declare document_loop.simps [simp del]

definition qfYamlDocument ::
  "cfg_env \<Rightarrow> qfConfig \<Rightarrow> qfWriter \<Rightarrow> yaml_parser \<Rightarrow> (qfConfig \<times> qfWriter) outcome \<times> yaml_parser" where
  "qfYamlDocument ce cfg w p =
     on_val (qfYamlRequireEvent YAML_STREAM_START_EVENT p) (\<lambda>u p.
     on_val (qfYamlRequireEvent YAML_DOCUMENT_START_EVENT p) (\<lambda>u p.
     on_val (qfYamlRequireEvent YAML_MAPPING_START_EVENT p) (\<lambda>u p.
     on_val (document_loop ce cfg w p) (\<lambda>cw p.
     on_val (qfYamlRequireEvent YAML_DOCUMENT_END_EVENT p) (\<lambda>u p.
     on_val (qfYamlRequireEvent YAML_STREAM_END_EVENT p) (\<lambda>u p. (Val cw, p)))))))"

text \<open>The configuration file: \<open>None\<close> when it or the parser cannot be opened.\<close>

definition qfConfigParseYaml ::
  "cfg_env \<Rightarrow> (string \<Rightarrow> yaml_parser option) \<Rightarrow> qfConfig \<Rightarrow> qfWriter \<Rightarrow> string option \<Rightarrow> (qfConfig \<times> qfWriter) outcome" where
  "qfConfigParseYaml ce fopen cfg w filename =
     (case filename of None \<Rightarrow> Val (cfg, w)
      | Some n \<Rightarrow> (case fopen n of None \<Rightarrow> Fail CannotOpen | Some p \<Rightarrow> fst (qfYamlDocument ce cfg w p)))"

definition qfConfigDotfile ::
  "cfg_env \<Rightarrow> (string \<Rightarrow> yaml_parser option) \<Rightarrow> qfConfig \<Rightarrow> qfWriter \<Rightarrow> string option \<Rightarrow> (qfConfig \<times> qfWriter) outcome" where
  "qfConfigDotfile ce fopen cfg w filename =
     (if filename \<noteq> None then qfConfigParseYaml ce fopen cfg w filename else Val (cfg, w))"

subsection \<open>Defaults\<close>

text \<open>The configuration filled with zeros, as the program starts with.\<close>

definition zero_config :: qfConfig where
  "zero_config = \<lparr>enable_biflow = False, enable_ipv4 = False, enable_ipv6 = False, enable_seq = False, enable_ack = False,
     enable_rtt = False, enable_rwin = False, enable_ts = False, enable_iat = False, enable_tcpopt = False, enable_iface = False,
     enable_mac = False, enable_silk = False, enable_gre = False, enable_biforce = False, ato_s = 0, ito_s = 0, max_flowtab = 0,
     max_fragtab = 0, max_flow_pkt = 0, max_flow_oct = 0, ato_rtts = 0, ifmap = qfIfMapInit,
     srcnets = \<lparr>ip4map = [], ip6map = []\<rparr>, srcmacs = qfMacListInit\<rparr>"

definition qfConfigDefaults :: "qfConfig \<Rightarrow> qfOutputContext \<Rightarrow> qfConfig \<times> qfOutputContext" where
  "qfConfigDefaults cfg octx =
     (cfg\<lparr>ato_s := 300, ito_s := 30, max_flowtab := 1024 * 1024, max_fragtab := 256 * 1024,
        max_flow_pkt := 0, max_flow_oct := 0, ato_rtts := 0\<rparr>,
      octx\<lparr>rotate_period := 0, template_rtx_period := 0, stats_period := 0\<rparr>)"

fun config_ies :: "qfConfig \<Rightarrow> qfWriter \<Rightarrow> string list \<Rightarrow> (qfConfig \<times> qfWriter) option" where
  "config_ies cfg w [] = Some (cfg, w)"
| "config_ies cfg w (n # ns) = Option.bind (qfConfigIE cfg w n) (\<lambda>(cfg, w). config_ies cfg w ns)"

text \<open>\<open>None\<close> is the program's exit on an internal error.\<close>

definition qfConfigDefaultTemplate :: "qfConfig \<Rightarrow> qfWriter \<Rightarrow> (qfConfig \<times> qfWriter) option" where
  "qfConfigDefaultTemplate cfg w = (if yfWriterExportIECount w = 0 then config_ies cfg w cfg_default_ies else Some (cfg, w))"

end
