(* ===== verification/ConfigSpec.thy ===== *)
theory ConfigSpec
  imports Config
begin

unbundle bit_operations_syntax

text \<open>
  What the configuration of theory \<open>Config\<close> guarantees of templates: which features a template enables, and that the default
  template is always accepted.
\<close>

subsection \<open>Templates and features\<close>

lemma strncmp_key: "length k < n \<Longrightarrow> strncmp_eq k s n \<longleftrightarrow> k = s"
  by (cases "length s \<le> n") (auto simp: strncmp_eq_def dest: arg_cong [where f = length])

text \<open>Whether a feature is on.\<close>

fun enabled :: "cfg_off \<Rightarrow> qfConfig \<Rightarrow> bool" where
  "enabled OFF_enable_ipv4 cfg = enable_ipv4 cfg"
| "enabled OFF_enable_ipv6 cfg = enable_ipv6 cfg"
| "enabled OFF_enable_mac cfg = enable_mac cfg"
| "enabled OFF_enable_seq cfg = enable_seq cfg"
| "enabled OFF_enable_ack cfg = enable_ack cfg"
| "enabled OFF_enable_rtt cfg = enable_rtt cfg"
| "enabled OFF_enable_rwin cfg = enable_rwin cfg"
| "enabled OFF_enable_ts cfg = enable_ts cfg"
| "enabled OFF_enable_iat cfg = enable_iat cfg"
| "enabled OFF_enable_tcpopt cfg = enable_tcpopt cfg"
| "enabled off cfg = False"

definition features :: "cfg_off set" where
  "features = {OFF_enable_ipv4, OFF_enable_ipv6, OFF_enable_mac, OFF_enable_seq, OFF_enable_ack, OFF_enable_rtt, OFF_enable_rwin,
     OFF_enable_ts, OFF_enable_iat, OFF_enable_tcpopt}"

lemma enabled_set_bool: "\<lbrakk>off \<in> features; off' \<in> features\<rbrakk> \<Longrightarrow> enabled off (set_bool off' True cfg) = (enabled off cfg \<or> off = off')"
  by (auto simp: features_def)

text \<open>The part of the configuration that templates leave alone.\<close>

definition plain_part where
  "plain_part cfg = (enable_silk cfg, enable_gre cfg, enable_biforce cfg, ato_s cfg, ito_s cfg, max_flowtab cfg, max_fragtab cfg,
     max_flow_pkt cfg, max_flow_oct cfg, ato_rtts cfg, ifmap cfg, srcnets cfg, srcmacs cfg)"

lemma set_bool_feature:
  "off \<in> features \<Longrightarrow> plain_part (set_bool off True cfg) = plain_part cfg \<and> enable_biflow (set_bool off True cfg) = enable_biflow cfg"
  by (auto simp: features_def plain_part_def)

lemma feature_table: "\<forall>(k, off) \<in> set cfg_ie_features. length k < VALBUF_SIZE \<and> off \<in> features"
  by (simp add: cfg_ie_features_def features_def VALBUF_SIZE_def)

lemma enable_fold:
  "\<forall>(k, off) \<in> set tab. length k < VALBUF_SIZE \<and> off \<in> features \<Longrightarrow>
   let cfg' = foldl (\<lambda>cfg (key, off). if strncmp_eq key n VALBUF_SIZE then set_bool off True cfg else cfg) cfg tab
   in (\<forall>off \<in> features. enabled off cfg' \<longleftrightarrow> enabled off cfg \<or> (n, off) \<in> set tab) \<and>
      plain_part cfg' = plain_part cfg \<and> enable_biflow cfg' = enable_biflow cfg"
proof (induction tab arbitrary: cfg)
  case (Cons t tab)
  obtain k off where t: "t = (k, off)" by fastforce
  then have k: "strncmp_eq k n VALBUF_SIZE \<longleftrightarrow> k = n" and f: "off \<in> features" using Cons.prems strncmp_key by auto
  show ?case using Cons.IH [of "if k = n then set_bool off True cfg else cfg"] Cons.prems t k f
    by (auto simp: Let_def enabled_set_bool set_bool_feature)
qed simp

lemma enable_features_result:
  "\<forall>off \<in> features. enabled off (enable_features n cfg) \<longleftrightarrow> enabled off cfg \<or> (n, off) \<in> set cfg_ie_features"
  "plain_part (enable_features n cfg) = plain_part cfg" "enable_biflow (enable_features n cfg) = enable_biflow cfg"
  using enable_fold [OF feature_table, of n cfg] by (simp_all add: enable_features_def Let_def)

definition is_reverse :: "string \<Rightarrow> bool" where
  "is_reverse n \<longleftrightarrow> take 7 n = ''reverse''"

lemma template_result:
  assumes "config_ies cfg w ns = Some (cfg', w')" and "length (qof_export_spec w) \<le> 95"
  shows "qof_export_spec w' = take 95 (qof_export_spec w @ concat (map matches ns)) \<and> (\<forall>n. n \<in> set ns \<longrightarrow> matches n \<noteq> []) \<and>
    (\<forall>off. off \<in> features \<longrightarrow> enabled off cfg' = (enabled off cfg \<or> (\<exists>n. n \<in> set ns \<and> (n, off) \<in> set cfg_ie_features))) \<and>
    enable_biflow cfg' = (enable_biflow cfg \<or> (\<exists>n. n \<in> set ns \<and> is_reverse n)) \<and> plain_part cfg' = plain_part cfg"
  using assms
proof (induction ns arbitrary: cfg w)
  case (Cons n ns)
  have q: "QOF_EXPORT_SPEC_SZ - 1 = 95" by (simp add: QOF_EXPORT_SPEC_SZ_def)
  note r = export_ie_result [of w n, unfolded q, OF Cons.prems(2)]
  let ?w = "w\<lparr>qof_export_spec := take 95 (qof_export_spec w @ matches n)\<rparr>"
  let ?b = "if strncmp_eq ''reverse'' n 7 then cfg\<lparr>enable_biflow := True\<rparr> else cfg"
  have m: "matches n \<noteq> []" and c: "config_ies (enable_features n ?b) ?w ns = Some (cfg', w')"
    using Cons.prems(1) r by (auto simp: qfConfigIE_def Let_def split: bool.splits)
  have b: "enable_biflow ?b = (enable_biflow cfg \<or> is_reverse n)" "plain_part ?b = plain_part cfg" "\<And>off. enabled off ?b = enabled off cfg"
  proof -
    show "enable_biflow ?b = (enable_biflow cfg \<or> is_reverse n)" "plain_part ?b = plain_part cfg"
      by (auto simp: strncmp_eq_def is_reverse_def plain_part_def)
    show "enabled off ?b = enabled off cfg" for off by (cases off) simp_all
  qed
  have t: "take 95 (take 95 (qof_export_spec w @ matches n) @ xs) = take 95 (qof_export_spec w @ matches n @ xs)" for xs
    using take_snoc_take [of 95 "qof_export_spec w @ matches n" xs] by simp
  have ih: "qof_export_spec w' = take 95 (qof_export_spec ?w @ concat (map matches ns))" "\<forall>n. n \<in> set ns \<longrightarrow> matches n \<noteq> []"
    "\<forall>off. off \<in> features \<longrightarrow> enabled off cfg' =
       (enabled off (enable_features n ?b) \<or> (\<exists>n. n \<in> set ns \<and> (n, off) \<in> set cfg_ie_features))"
    "enable_biflow cfg' = (enable_biflow (enable_features n ?b) \<or> (\<exists>n. n \<in> set ns \<and> is_reverse n))"
    "plain_part cfg' = plain_part (enable_features n ?b)"
    using Cons.IH [OF c] by simp_all
  have "enabled off cfg' = (enabled off cfg \<or> (\<exists>m. m \<in> set (n # ns) \<and> (m, off) \<in> set cfg_ie_features))" if "off \<in> features" for off
  proof -
    have "enabled off (enable_features n ?b) = (enabled off cfg \<or> (n, off) \<in> set cfg_ie_features)"
      using enable_features_result(1) that b(3) by blast
    then show ?thesis using ih(3) that by (auto simp del: enabled.simps)
  qed
  moreover have "enable_biflow cfg' = (enable_biflow cfg \<or> (\<exists>m. m \<in> set (n # ns) \<and> is_reverse m))"
    unfolding ih(4) enable_features_result(3) b(1) by auto
  moreover have "plain_part cfg' = plain_part cfg" unfolding ih(5) enable_features_result(2) b(2) ..
  moreover have "qof_export_spec w' = take 95 (qof_export_spec w @ concat (map matches (n # ns)))" 
    using ih(1) t [of "concat (map matches ns)"] by (simp del: take_append)
  moreover have "\<forall>m. m \<in> set (n # ns) \<longrightarrow> matches m \<noteq> []" using ih(2) m by simp
  ultimately show ?case by blast
qed (simp add: take_all)

text \<open>What the manual \<open>src/qof.pod.in\<close> says, element by element: the features an element of the template enables (the
  addresses enable their version of IP).\<close>

definition manual_features :: "(string \<times> cfg_off) list" where
  "manual_features = [
     (''sourceIPv4Address'', OFF_enable_ipv4), (''destinationIPv4Address'', OFF_enable_ipv4),
     (''sourceIPv6Address'', OFF_enable_ipv6), (''destinationIPv6Address'', OFF_enable_ipv6),
     (''sourceMacAddress'', OFF_enable_mac), (''vlanId'', OFF_enable_mac),
     (''destinationMacAddress'', OFF_enable_mac), (''tcpSequenceCount'', OFF_enable_seq),
     (''reverseTcpSequenceCount'', OFF_enable_seq), (''tcpRetransmitCount'', OFF_enable_seq),
     (''reverseTcpRetransmitCount'', OFF_enable_seq), (''maxTcpSequenceJump'', OFF_enable_seq),
     (''reverseMaxTcpSequenceJump'', OFF_enable_seq), (''minTcpRttMilliseconds'', OFF_enable_rtt),
     (''minTcpRttMilliseconds'', OFF_enable_tcpopt), (''lastTcpRttMilliseconds'', OFF_enable_rtt),
     (''lastTcpRttMilliseconds'', OFF_enable_tcpopt), (''declaredTcpMss'', OFF_enable_tcpopt),
     (''reverseDeclaredTcpMss'', OFF_enable_tcpopt), (''observedTcpMss'', OFF_enable_tcpopt),
     (''reverseObservedTcpMss'', OFF_enable_tcpopt), (''tcpSequenceLossCount'', OFF_enable_seq),
     (''reverseTcpSequenceLossCount'', OFF_enable_seq), (''tcpSequenceJumpCount'', OFF_enable_seq),
     (''reverseTcpSequenceJumpCount'', OFF_enable_seq), (''tcpLossEventCount'', OFF_enable_seq),
     (''tcpLossEventCount'', OFF_enable_rtt), (''tcpLossEventCount'', OFF_enable_tcpopt),
     (''reverseTcpLossEventCount'', OFF_enable_seq), (''reverseTcpLossEventCount'', OFF_enable_rtt),
     (''reverseTcpLossEventCount'', OFF_enable_tcpopt), (''qofTcpCharacteristics'', OFF_enable_tcpopt),
     (''reverseQofTcpCharacteristics'', OFF_enable_tcpopt), (''minTcpRwin'', OFF_enable_tcpopt),
     (''minTcpRwin'', OFF_enable_rwin), (''reverseMinTcpRwin'', OFF_enable_tcpopt),
     (''reverseMinTcpRwin'', OFF_enable_rwin), (''meanTcpRwin'', OFF_enable_tcpopt),
     (''meanTcpRwin'', OFF_enable_rwin), (''reverseMeanTcpRwin'', OFF_enable_tcpopt),
     (''reverseMeanTcpRwin'', OFF_enable_rwin), (''maxTcpRwin'', OFF_enable_tcpopt),
     (''maxTcpRwin'', OFF_enable_rwin), (''reverseMaxTcpRwin'', OFF_enable_tcpopt),
     (''reverseMaxTcpRwin'', OFF_enable_rwin), (''tcpReceiverStallCount'', OFF_enable_tcpopt),
     (''tcpReceiverStallCount'', OFF_enable_rwin), (''reverseTcpReceiverStallCount'', OFF_enable_tcpopt),
     (''reverseTcpReceiverStallCount'', OFF_enable_rwin), (''tcpRttSampleCount'', OFF_enable_tcpopt),
     (''tcpRttSampleCount'', OFF_enable_rtt), (''tcpTimestampFrequency'', OFF_enable_tcpopt),
     (''tcpTimestampFrequency'', OFF_enable_ts), (''reverseTcpTimestampFrequency'', OFF_enable_tcpopt),
     (''reverseTcpTimestampFrequency'', OFF_enable_ts)]"

text \<open>Where the table of the code departs from the manual: features the manual gives to an element and the table does
  not (all those of reverse elements among them), and features of elements that the manual does not describe.\<close>

definition manual_unmet :: "(string \<times> cfg_off) list" where
  "manual_unmet = [
     (''reverseTcpSequenceCount'', OFF_enable_seq), (''reverseTcpRetransmitCount'', OFF_enable_seq),
     (''reverseMaxTcpSequenceJump'', OFF_enable_seq), (''lastTcpRttMilliseconds'', OFF_enable_rtt),
     (''lastTcpRttMilliseconds'', OFF_enable_tcpopt), (''reverseDeclaredTcpMss'', OFF_enable_tcpopt),
     (''observedTcpMss'', OFF_enable_tcpopt), (''reverseObservedTcpMss'', OFF_enable_tcpopt),
     (''reverseTcpSequenceLossCount'', OFF_enable_seq), (''reverseTcpSequenceJumpCount'', OFF_enable_seq),
     (''tcpLossEventCount'', OFF_enable_tcpopt), (''reverseTcpLossEventCount'', OFF_enable_seq),
     (''reverseTcpLossEventCount'', OFF_enable_rtt), (''reverseTcpLossEventCount'', OFF_enable_tcpopt),
     (''reverseQofTcpCharacteristics'', OFF_enable_tcpopt), (''reverseMinTcpRwin'', OFF_enable_tcpopt),
     (''reverseMinTcpRwin'', OFF_enable_rwin), (''reverseMeanTcpRwin'', OFF_enable_tcpopt),
     (''reverseMeanTcpRwin'', OFF_enable_rwin), (''reverseMaxTcpRwin'', OFF_enable_tcpopt),
     (''reverseMaxTcpRwin'', OFF_enable_rwin), (''tcpReceiverStallCount'', OFF_enable_tcpopt),
     (''tcpReceiverStallCount'', OFF_enable_rwin), (''reverseTcpReceiverStallCount'', OFF_enable_tcpopt),
     (''reverseTcpReceiverStallCount'', OFF_enable_rwin), (''tcpRttSampleCount'', OFF_enable_tcpopt),
     (''tcpRttSampleCount'', OFF_enable_rtt), (''reverseTcpTimestampFrequency'', OFF_enable_tcpopt),
     (''reverseTcpTimestampFrequency'', OFF_enable_ts)]"

definition undescribed :: "(string \<times> cfg_off) list" where
  "undescribed = [
     (''tcpDupAckCount'', OFF_enable_ack), (''tcpSelAckCount'', OFF_enable_ack),
     (''tcpRttMilliseconds'', OFF_enable_rtt), (''minTcpChirpMilliseconds'', OFF_enable_ts),
     (''maxTcpChirpMilliseconds'', OFF_enable_ts), (''minTcpIOTMilliseconds'', OFF_enable_iat),
     (''maxTcpIOTMilliseconds'', OFF_enable_iat), (''minTcpChirpMilliseconds'', OFF_enable_iat),
     (''maxTcpChirpMilliseconds'', OFF_enable_iat), (''meanTcpChirpMilliseconds'', OFF_enable_iat),
     (''tcpRttMilliseconds'', OFF_enable_tcpopt), (''tcpSelAckCount'', OFF_enable_tcpopt),
     (''minTcpChirpMilliseconds'', OFF_enable_tcpopt), (''maxTcpChirpMilliseconds'', OFF_enable_tcpopt),
     (''meanTcpChirpMilliseconds'', OFF_enable_tcpopt)]"

lemma table_against_manual:
  "(n, off) \<in> set cfg_ie_features \<longleftrightarrow> (n, off) \<in> set manual_features \<and> (n, off) \<notin> set manual_unmet \<or> (n, off) \<in> set undescribed"
proof -
  have "list_all (\<lambda>x. x \<in> set cfg_ie_features \<or> x \<in> set manual_unmet) manual_features"
    "list_all (\<lambda>x. x \<notin> set cfg_ie_features) manual_unmet" "list_all (\<lambda>x. x \<in> set cfg_ie_features) undescribed"
    "list_all (\<lambda>x. x \<in> set manual_features \<or> x \<in> set undescribed) cfg_ie_features"
    by code_simp+
  then show ?thesis unfolding list_all_iff by blast
qed

text \<open>C12: What a template enables. When every element of a template is accepted, the export list holds the elements
  in their order; a feature of the meter is on exactly when it was on before, or the manual says that some element
  of the template enables it, except for the elements the manual gives features that the code does not
  (\<open>manual_unmet\<close>: the reverse elements, the last round trip time, the sample and stall counts, the observed segment
  size and the loss events), or some element is one of those the manual leaves out (\<open>undescribed\<close>); biflows are on exactly when they were or
  some element is a reverse one; and the other settings are as before.\<close>

theorem template_enables_features:
  assumes "config_ies cfg w ns = Some (cfg', w')" and "length (qof_export_spec w) \<le> 95"
  shows "qof_export_spec w' = take 95 (qof_export_spec w @ concat (map matches ns)) \<and> (\<forall>n. n \<in> set ns \<longrightarrow> matches n \<noteq> []) \<and>
    (\<forall>off. off \<in> features \<longrightarrow> enabled off cfg' = (enabled off cfg \<or> (\<exists>n. n \<in> set ns \<and>
       ((n, off) \<in> set manual_features \<and> (n, off) \<notin> set manual_unmet \<or> (n, off) \<in> set undescribed)))) \<and>
    enable_biflow cfg' = (enable_biflow cfg \<or> (\<exists>n. n \<in> set ns \<and> is_reverse n)) \<and> plain_part cfg' = plain_part cfg"
  by (rule template_result [OF assms, unfolded table_against_manual])

theorem template_enables_features_witness:
  "\<exists>cfg' w'. config_ies zero_config (yfWriterExportReset ex_writer) [''octetDeltaCount'', ''minTcpRwin''] = Some (cfg', w') \<and>
     enable_rwin cfg' \<and> enable_tcpopt cfg' \<and> \<not> enable_rtt cfg' \<and> \<not> enable_biflow cfg'"
proof -
  have l: "length (qof_export_spec (yfWriterExportReset ex_writer)) \<le> 95" by (simp add: yfWriterExportReset_def)
  have "config_ies zero_config (yfWriterExportReset ex_writer) [''octetDeltaCount'', ''minTcpRwin''] \<noteq> None" by code_simp
  then obtain cfg' w' where c: "config_ies zero_config (yfWriterExportReset ex_writer) [''octetDeltaCount'', ''minTcpRwin''] = Some (cfg', w')" by auto
  note t = template_enables_features [OF c l]
  note tables = manual_features_def manual_unmet_def undescribed_def
  have n: "(''octetDeltaCount'', off) \<notin> set manual_features" "(''octetDeltaCount'', off) \<notin> set undescribed" for off
    by (simp_all add: tables)
  have z: "\<not> enabled off zero_config" for off by (cases off) (simp_all add: zero_config_def)
  have f: "enabled off cfg' \<longleftrightarrow> (''minTcpRwin'', off) \<in> set manual_features \<and>
      (''minTcpRwin'', off) \<notin> set manual_unmet \<or> (''minTcpRwin'', off) \<in> set undescribed" if "off \<in> features" for off
    using conjunct1 [OF conjunct2 [OF conjunct2 [OF t]]] that n z by (simp add: conj_disj_distribR ex_disj_distrib del: enabled.simps)
  have "enabled OFF_enable_rwin cfg'" "enabled OFF_enable_tcpopt cfg'" "\<not> enabled OFF_enable_rtt cfg'"
    by (simp_all add: f features_def tables del: enabled.simps)
  moreover have "\<not> enable_biflow cfg'"
    using conjunct1 [OF conjunct2 [OF conjunct2 [OF conjunct2 [OF t]]]] by (simp add: is_reverse_def zero_config_def conj_disj_distribR ex_disj_distrib)
  ultimately show ?thesis using c by simp
qed

text \<open>A template with the last round trip time alone measures none, against the manual.\<close>

lemma last_rtt_measures_none:
  "(''lastTcpRttMilliseconds'', OFF_enable_rtt) \<in> set manual_features"
  "case config_ies zero_config (yfWriterExportReset ex_writer) [''lastTcpRttMilliseconds''] of
     Some (cfg', w') \<Rightarrow> \<not> enable_rtt cfg' \<and> qof_export_spec w' \<noteq> [] | None \<Rightarrow> False"
  by code_simp+

subsection \<open>The default template\<close>

lemma config_ies_total:
  "\<lbrakk>\<forall>n \<in> set ns. matches n \<noteq> []; length (qof_export_spec w @ concat (map matches ns)) \<le> 95\<rbrakk> \<Longrightarrow> \<exists>r. config_ies cfg w ns = Some r"
proof (induction ns arbitrary: cfg w)
  case (Cons n ns)
  have "0 < length (matches n)" using Cons.prems(1) by simp
  moreover have "length (qof_export_spec w) + length (matches n) + length (concat (map matches ns)) \<le> 95" using Cons.prems(2) by simp
  ultimately have b: "length (qof_export_spec w) < 95" by linarith
  then have l: "length (qof_export_spec w) \<le> QOF_EXPORT_SPEC_SZ - 1" "length (qof_export_spec w) < 95"
    by (simp_all add: QOF_EXPORT_SPEC_SZ_def)
  let ?w = "w\<lparr>qof_export_spec := qof_export_spec w @ matches n\<rparr>"
  have "yfWriterExportIE w n = (?w, True)"
    using export_ie_result [OF l(1), of n] l(2) Cons.prems by (simp add: QOF_EXPORT_SPEC_SZ_def)
  then show ?case using Cons.IH [of ?w] Cons.prems by (simp add: qfConfigIE_def Let_def)
qed simp

lemma default_known: "list_all (\<lambda>n. matches n \<noteq> []) cfg_default_ies \<and> length (concat (map matches cfg_default_ies)) \<le> 95"
  by code_simp

text \<open>Without a template in the file the default one is set, and the program does not exit.\<close>

lemma default_template_total: "\<exists>r. qfConfigDefaultTemplate cfg w = Some r"
  using config_ies_total [of cfg_default_ies w cfg] default_known
  by (auto simp: qfConfigDefaultTemplate_def yfWriterExportIECount_def list_all_iff)

end
