(* ===== verification/MeterRun.thy ===== *)
theory MeterRun
  imports Meter
begin

text \<open>
  What the packet loop of theory \<open>Meter\<close> does with a whole trace. The locale \<open>meter_world\<close> is what
  the loop relies on: hash tables that behave as documented and an output that accepts every record.
  \<open>feed\<close> is the specification of the input side, the packets of the trace that are accepted, one after
  the other; the lemmas follow it through the ring, group by group, into the flow table.
\<close>

subsection \<open>The input side\<close>

text \<open>A packet the decoder accepts has an IPv4 or IPv6 key.\<close>

definition dst_key_ok :: "dec_res \<Rightarrow> bool" where
  "dst_key_ok r = (case r of Some (st, Some p) \<Rightarrow> key_ok (d_key st) | _ \<Rightarrow> True)"

lemma dst_key_ok_simps [simp]:
  "dst_key_ok (Some (st, Some p)) = key_ok (d_key st)" "dst_key_ok (Some (st, None))" "dst_key_ok None"
  "dst_key_ok (reject f st)" "dst_key_ok (reject_l4 st)"
  by (simp_all add: dst_key_ok_def reject_def reject_l4_def)

lemma dst_key_ok_bind: "(\<And>x. r = Some x \<Longrightarrow> dst_key_ok (f x)) \<Longrightarrow> dst_key_ok (Option.bind r f)"
  by (cases r) simp_all

lemma dst_key_ok_if:
  "(b \<Longrightarrow> dst_key_ok x) \<Longrightarrow> (\<not> b \<Longrightarrow> dst_key_ok y) \<Longrightarrow> dst_key_ok (if b then x else y)"
  by simp

lemmas dst_key_ok_steps = dst_key_ok_if dst_key_ok_bind

lemma key_ok_upd [simp]:
  "key_ok (k\<lparr>k_proto := p\<rparr>) = key_ok k" "key_ok (k\<lparr>k_sip4 := a\<rparr>) = key_ok k" "key_ok (k\<lparr>k_dip4 := a\<rparr>) = key_ok k"
  "key_ok (k\<lparr>k_version := 4\<rparr>)" "key_ok (k\<lparr>k_version := 6\<rparr>)"
  by (simp_all add: key_ok_def)

lemma key_ok_kept [simp]:
  "key_ok (d_key (set_ports a b st)) = key_ok (d_key st)" "key_ok (d_key (eat n st)) = key_ok (d_key st)"
  "key_ok (d_key (set_l4hlen l st)) = key_ok (d_key st)"
  by (simp_all add: set_ports_def eat_def set_l4hlen_def key_ok_def)

lemma ip6_ext_key: "key_ok (d_key st) \<Longrightarrow> dst_key_ok (ip6_ext buf st pkt l n)"
proof (induction buf st pkt l n rule: ip6_ext.induct)
  case (1 buf st pkt l n)
  show ?case
    by (subst ip6_ext.simps) (use 1 in \<open>simp add: Let_def dst_key_ok_bind\<close>)
qed

lemma layer3_key: "dst_key_ok (layer3 buf st type pkt)"
proof -
  have "dst_key_ok (yfDecodeIPv4 buf st pkt)"
    unfolding yfDecodeIPv4_def ip4_body_def Let_def
    by (intro dst_key_ok_steps) simp_all
  moreover have "dst_key_ok (yfDecodeIPv6 buf st pkt)"
    unfolding yfDecodeIPv6_def Let_def
    by (intro dst_key_ok_steps ip6_ext_key) simp_all
  ultimately show ?thesis by (simp add: layer3_def)
qed

lemma layer4_key:
  assumes "key_ok (d_key st)"
  shows "dst_key_ok (yfDecodeTCP buf st pkt)" "dst_key_ok (yfDecodeUDP buf st pkt)" "dst_key_ok (yfDecodeICMP buf st pkt)"
  unfolding yfDecodeTCP_def tcp_body_def yfDecodeUDP_def yfDecodeICMP_def Let_def
  by (intro dst_key_ok_steps; use assms in \<open>simp split: prod.splits option.splits\<close>)+

lemma yfDecodeIP_key: "dst_key_ok (yfDecodeIP buf st type pkt)"
proof (induction buf st type pkt rule: yfDecodeIP.induct)
  case (1 buf st type pkt)
  note l3 = layer3_key [of buf st type pkt]
  have ih: "dst_key_ok (yfDecodeIP buf st2 ty p2)"
    if "\<not> (dc_reqtype (d_ctx st) \<noteq> 0 \<and> dc_reqtype (d_ctx st) \<noteq> type)" "layer3 buf st type pkt = Some (st1, Some p1)"
      "\<not> (is_frag st1 \<and> (case d_frag st1 of Some fi \<Rightarrow> fi_offset fi \<noteq> 0 | None \<Rightarrow> False))"
      "k_proto (d_key st1) = YF_PROTO_GRE" "dc_gremode (d_ctx st1)" "gre_header buf st1 p1 = Some (st2, ty, Some p2)"
    for st1 p1 st2 ty p2
    by (rule 1) (use that in \<open>simp_all add: layer3_def\<close>)
  show ?case
  proof (cases "dc_reqtype (d_ctx st) \<noteq> 0 \<and> dc_reqtype (d_ctx st) \<noteq> type")
    case True
    then show ?thesis by (subst yfDecodeIP.simps) simp
  next
    case False
    show ?thesis
    proof (subst yfDecodeIP.simps, fold layer3_def, subst if_not_P [OF False], rule dst_key_ok_bind, goal_cases)
      case (1 r)
      obtain st1 o1 where r: "r = (st1, o1)" by fastforce
      show ?case
      proof (cases o1)
        case (Some p1)
        then have k: "key_ok (d_key st1)" using l3 1 r by simp
        have "dst_key_ok (Option.bind (gre_header buf st1 p1)
            (\<lambda>g. case g of (st, ty, None) \<Rightarrow> Some (st, None) | (st, ty, Some p) \<Rightarrow> yfDecodeIP buf st ty p))"
          if "\<not> (is_frag st1 \<and> (case d_frag st1 of Some fi \<Rightarrow> fi_offset fi \<noteq> 0 | None \<Rightarrow> False))"
            "k_proto (d_key st1) = YF_PROTO_GRE \<and> dc_gremode (d_ctx st1)"
          by (rule dst_key_ok_bind) (use ih [OF False 1 [unfolded r Some] that(1)] that(2) in \<open>auto split: option.splits\<close>)
        then show ?thesis using r Some k layer4_key [OF k] by simp
      qed (simp add: r)
    qed
  qed
qed

lemma decode_key_ok:
  assumes "yfDecodeToPBuf ctx link t caplen buf fi pbuf = Some (ctx', fi', pbuf', True)"
  shows "key_ok (pb_key pbuf')"
proof -
  obtain st ty o1 where r2: "yfDecodeL2 buf (dst_of ctx caplen fi (pbuf\<lparr>pb_ptime := 0\<rparr>)) link 0 0 = Some (st, ty, o1)"
    using assms by (cases "yfDecodeL2 buf (dst_of ctx caplen fi (pbuf\<lparr>pb_ptime := 0\<rparr>)) link 0 0")
      (auto simp: yfDecodeToPBuf_def Let_def)
  note eq = assms [unfolded yfDecodeToPBuf_eq [OF r2]]
  obtain p where o1: "o1 = Some p" using eq by (cases o1) auto
  obtain st' o2 where r3: "yfDecodeIP buf (to_l3 caplen st) ty p = Some (st', o2)"
    using eq o1 by (cases "yfDecodeIP buf (to_l3 caplen st) ty p") auto
  obtain q where o2: "o2 = Some q" using eq o1 r3 by (cases o2) auto
  have "key_ok (d_key st')" using yfDecodeIP_key [of buf "to_l3 caplen st" ty p] r3 o2 by simp
  then show ?thesis using eq o1 r3 o2 by (auto simp: pbuf_of_def)
qed

text \<open>Reassembly keeps it so.\<close>

context frag_index_ops
begin

lemma defrag_step:
  assumes ok: "frag_ok ops ft as []" and key: "key_ok (pb_key pbuf)" and fr: "fi_frag fi \<noteq> 0"
  shows "\<exists>ft' as' fi' pbuf' b. yfDefragPBuf ops srt ft (Some fi) pbuf = Some (ft', fi', pbuf', b) \<and>
    frag_ok ops ft' as' [] \<and> key_ok (pb_key pbuf')"
proof (cases "pb_ptime pbuf < gt_ctime ft")
  case True
  then show ?thesis
    using fr key stats_ok [OF ok, of "\<lambda>s. s\<lparr>gs_seqrej := gs_seqrej s + 1\<rparr>"] by (auto simp: yfDefragPBuf_def)
next
  case False
  then have t: "gt_ctime ft \<le> pb_ptime pbuf" by simp
  from defrag_ok [OF ok key fr t, of srt] obtain ft' as' n pbuf' b where
    d: "yfDefragPBuf ops srt ft (Some fi) pbuf = Some (ft', Some fi, pbuf', b)" "frag_ok ops ft' as' []"
    and k: "yfFragKeyEqual (fg_key n) (frag_key_of fi pbuf)"
    and p: "pbuf' = (if b then delivered srt fi n pbuf else pbuf\<lparr>pb_ptime := 0\<rparr>)"
    by (elim exE conjE) (rule that)
  have "key_ok (fk_f (fg_key n))" using k by (simp add: yfFragKeyEqual_iff fkey_ok_def)
  then have "key_ok (pb_key pbuf')" using p key by (simp add: delivered_def)
  then show ?thesis using d by blast
qed

end

text \<open>A frame that the decoder reads without leaving the capture, whatever state it is in.\<close>

definition frame_in_bounds :: "trace_packet \<Rightarrow> bool" where
  "frame_in_bounds p \<longleftrightarrow>
     (\<forall>ctx t fi pbuf. yfDecodeToPBuf ctx (tp_link p) t (tp_caplen p) (tp_buf p) fi pbuf \<noteq> None)"

definition front_ok :: "('t, 'g, 'r, 'w, 's) qf_env \<Rightarrow> ('g, 'r) qf_front \<Rightarrow> bool" where
  "front_ok env fr \<longleftrightarrow> (\<forall>ft. fr_fragtab fr = Some ft \<longrightarrow> (\<exists>as. frag_ok (e_frag env) ft as []))"

definition valid_ok :: "yfPBuf \<Rightarrow> bool" where
  "valid_ok p \<longleftrightarrow> (pb_ptime p \<noteq> 0 \<longrightarrow> key_ok (pb_key p))"

lemma trace_detune_fields:
  assumes "trace_detune env fr a = (fr', ok)"
  shows "fr_fragtab fr' = fr_fragtab fr" "pb_key (fr_pbufs fr' a) = pb_key (fr_pbufs fr a)"
    "b \<noteq> a \<Longrightarrow> fr_pbufs fr' b = fr_pbufs fr b"
  using assms by (auto simp: trace_detune_def Let_def split: option.splits prod.splits)

lemma handle_ok:
  assumes f: "front_ok env fr" and b: "frame_in_bounds tp" and g: "ghash_table (e_frag env) yfFragKeyEqual"
  shows "\<exists>fr' ok. qfTraceHandlePacket env fr tp a = Some (fr', ok) \<and> front_ok env fr' \<and>
    (\<forall>c. c \<noteq> a \<longrightarrow> fr_pbufs fr' c = fr_pbufs fr c) \<and> (ok \<longrightarrow> valid_ok (fr_pbufs fr' a))"
proof -
  define fi0 where "fi0 = (if fr_fragtab fr = None then None else Some (e_fraginfo env))"
  let ?D = "yfDecodeToPBuf (fr_dectx fr) (tp_link tp) (yfDecodeTimeval (tp_sec tp) (tp_usec tp)) (tp_caplen tp)
      (tp_buf tp) fi0 (fr_pbufs fr a)"
  from b obtain ctx fi pbuf ok1 where d: "?D = Some (ctx, fi, pbuf, ok1)"
    unfolding frame_in_bounds_def by (metis not_None_eq prod_cases4)
  define fr1 where "fr1 = fr\<lparr>fr_dectx := ctx, fr_pbufs := (fr_pbufs fr)(a := pbuf)\<rparr>"
  have f1: "front_ok env fr1" using f by (simp add: fr1_def front_ok_def)
  obtain fr2 ok2 where t: "trace_detune env fr1 a = (fr2, ok2)" by fastforce
  note t2 = trace_detune_fields [OF t]
  have f2: "front_ok env fr2" using f1 t2(1) by (simp add: front_ok_def)
  have o2: "fr_pbufs fr2 c = fr_pbufs fr c" if "c \<noteq> a" for c using t2(3) [OF that] that by (simp add: fr1_def)
  show ?thesis
  proof (cases "ok1 \<and> ok2")
    case False
    then have "qfTraceHandlePacket env fr tp a = Some (if ok1 then fr2 else fr1, False)"
      using d t by (auto simp: qfTraceHandlePacket_def Let_def fi0_def [symmetric] fr1_def [symmetric])
    then show ?thesis using f1 f2 o2 by (auto simp: fr1_def)
  next
    case True
    then have k: "key_ok (pb_key (fr_pbufs fr2 a))" using decode_key_ok d t2(2) by (auto simp: fr1_def)
    show ?thesis
    proof (cases "\<exists>i ft. fi = Some i \<and> fr_fragtab fr2 = Some ft \<and> fi_frag i \<noteq> 0")
      case False
      then have "qfTraceHandlePacket env fr tp a = Some (fr2, True)"
        using d t True
        by (auto simp: qfTraceHandlePacket_def Let_def fi0_def [symmetric] fr1_def [symmetric] split: option.splits)
      then show ?thesis using f2 o2 k by (auto simp: valid_ok_def)
    next
      case fr: True
      then obtain i ft where i: "fi = Some i" "fr_fragtab fr2 = Some ft" "fi_frag i \<noteq> 0" by blast
      then obtain as where "frag_ok (e_frag env) ft as []" using f2 by (auto simp: front_ok_def)
      from frag_index_ops.defrag_step [OF frag_index_ops.intro [OF g] this k i(3), of "e_sort env"]
      obtain ft' as' fi' pbuf' c where
        e: "yfDefragPBuf (e_frag env) (e_sort env) ft (Some i) (fr_pbufs fr2 a) = Some (ft', fi', pbuf', c)"
        "frag_ok (e_frag env) ft' as' []" "key_ok (pb_key pbuf')" by blast
      have "qfTraceHandlePacket env fr tp a =
          Some (fr2\<lparr>fr_fragtab := Some ft', fr_pbufs := (fr_pbufs fr2)(a := pbuf')\<rparr>, True)"
        using d t True i e(1)
        by (simp add: qfTraceHandlePacket_def Let_def fi0_def [symmetric] fr1_def [symmetric])
      then show ?thesis using e(2,3) o2 by (auto simp: front_ok_def valid_ok_def)
    qed
  qed
qed

text \<open>The buffers of the accepted packets of a trace, the first one at an address, each following one
  at the next slot.\<close>

fun feed :: "('t, 'g, 'r, 'w, 's) qf_env \<Rightarrow> (addr \<Rightarrow> addr) \<Rightarrow> ('g, 'r) qf_front \<Rightarrow> addr \<Rightarrow> trace_packet list \<Rightarrow>
    (('g, 'r) qf_front \<times> yfPBuf list) option" where
  "feed env nxt fr a [] = Some (fr, [])"
| "feed env nxt fr a (p # ps) = do {
     (fr, ok) \<leftarrow> qfTraceHandlePacket env fr p a;
     if ok then map_option (\<lambda>(fr', outs). (fr', fr_pbufs fr a # outs)) (feed env nxt fr (nxt a) ps)
     else feed env nxt fr a ps
   }"

lemma feed_total:
  assumes g: "ghash_table (e_frag env) yfFragKeyEqual"
  shows "\<lbrakk>front_ok env fr; list_all frame_in_bounds ps\<rbrakk> \<Longrightarrow>
    \<exists>fr' outs. feed env nxt fr a ps = Some (fr', outs) \<and> list_all valid_ok outs \<and> length outs \<le> length ps"
proof (induction ps arbitrary: fr a)
  case (Cons p ps)
  from Cons.prems handle_ok [OF _ _ g, of fr p a] obtain fr1 ok where
    h: "qfTraceHandlePacket env fr p a = Some (fr1, ok)" "front_ok env fr1" "ok \<longrightarrow> valid_ok (fr_pbufs fr1 a)" by auto
  from Cons.IH [OF h(2)] Cons.prems(2) h(1,3) show ?case by (cases ok) fastforce+
qed simp

subsection \<open>Reading a trace\<close>

text \<open>A trace that delivers given packets and then ends.\<close>

fun delivers :: "'s trace_ops \<Rightarrow> 's \<Rightarrow> trace_packet list \<Rightarrow> bool" where
  "delivers tr s [] \<longleftrightarrow> snd (trace_read_packet tr s) = 0 \<and> \<not> trace_is_err tr (fst (trace_read_packet tr s))"
| "delivers tr s (p # ps) \<longleftrightarrow> 0 < snd (trace_read_packet tr s) \<and> trace_packet_of tr (fst (trace_read_packet tr s)) = p \<and>
     \<not> trace_is_err tr (fst (trace_read_packet tr s)) \<and> delivers tr (fst (trace_read_packet tr s)) ps"

lemma fill_end:
  assumes "delivers (e_trace env) (cx_trace cx) ps" and "feed env nxt (cx_front cx) a ps = Some (fr', [])"
  shows "\<exists>s. trace_fill env a cx = Some (cx\<lparr>cx_trace := s, cx_front := fr'\<rparr>, 0) \<and> \<not> trace_is_err (e_trace env) s"
  using assms
proof (induction ps arbitrary: cx)
  case Nil
  then show ?case by (subst trace_fill.simps) (auto simp: split_beta Let_def)
next
  case (Cons p ps)
  let ?s = "fst (trace_read_packet (e_trace env) (cx_trace cx))"
  obtain fr1 ok where h: "qfTraceHandlePacket env (cx_front cx) p a = Some (fr1, ok)"
    using Cons.prems(2) by (cases "qfTraceHandlePacket env (cx_front cx) p a") auto
  have no: "\<not> ok" "feed env nxt fr1 a ps = Some (fr', [])"
    using Cons.prems(2) h by (auto split: if_splits)
  let ?c = "cx\<lparr>cx_trace := ?s, cx_front := fr1\<rparr>"
  from Cons.IH [of ?c] Cons.prems(1) no(2) obtain s where
    s: "trace_fill env a ?c = Some (?c\<lparr>cx_trace := s, cx_front := fr'\<rparr>, 0)" "\<not> trace_is_err (e_trace env) s" by auto
  have "trace_fill env a cx = trace_fill env a ?c"
    by (subst trace_fill.simps) (use Cons.prems(1) h no in \<open>simp add: split_beta Let_def\<close>)
  then show ?case using s by auto
qed

lemma fill_next:
  assumes "delivers (e_trace env) (cx_trace cx) ps" and "feed env nxt (cx_front cx) a ps = Some (fr', pb # outs)"
    and g: "ghash_table (e_frag env) yfFragKeyEqual" and "front_ok env (cx_front cx)" and "list_all frame_in_bounds ps"
  shows "\<exists>s fr trv ps'. trace_fill env a cx = Some (cx\<lparr>cx_trace := s, cx_front := fr\<rparr>, trv) \<and> 0 < trv \<and>
    delivers (e_trace env) s ps' \<and> feed env nxt fr (nxt a) ps' = Some (fr', outs) \<and> fr_pbufs fr a = pb \<and>
    (\<forall>c. c \<noteq> a \<longrightarrow> fr_pbufs fr c = fr_pbufs (cx_front cx) c) \<and> front_ok env fr \<and> list_all frame_in_bounds ps' \<and>
    \<not> trace_is_err (e_trace env) s"
  using assms(1,2,4,5)
proof (induction ps arbitrary: cx)
  case (Cons p ps)
  let ?s = "fst (trace_read_packet (e_trace env) (cx_trace cx))"
  from Cons.prems handle_ok [OF _ _ g, of "cx_front cx" p a] obtain fr1 ok where
    h: "qfTraceHandlePacket env (cx_front cx) p a = Some (fr1, ok)" "front_ok env fr1"
    "\<And>c. c \<noteq> a \<Longrightarrow> fr_pbufs fr1 c = fr_pbufs (cx_front cx) c" by auto
  let ?c = "cx\<lparr>cx_trace := ?s, cx_front := fr1\<rparr>"
  show ?case
  proof (cases ok)
    case True
    have "trace_fill env a cx = Some (?c, snd (trace_read_packet (e_trace env) (cx_trace cx)))"
      by (subst trace_fill.simps) (use Cons.prems(1) h True in \<open>simp add: split_beta Let_def\<close>)
    moreover have "feed env nxt fr1 (nxt a) ps = Some (fr', outs)" "fr_pbufs fr1 a = pb"
      using Cons.prems(2) h(1) True by auto
    ultimately show ?thesis using Cons.prems h by fastforce
  next
    case False
    have e: "trace_fill env a cx = trace_fill env a ?c"
      by (subst trace_fill.simps) (use Cons.prems(1) h False in \<open>simp add: split_beta Let_def\<close>)
    have "feed env nxt (cx_front ?c) a ps = Some (fr', pb # outs)" "delivers (e_trace env) (cx_trace ?c) ps"
      "front_ok env (cx_front ?c)" "list_all frame_in_bounds ps" using Cons.prems h(1,2) False by simp_all
    from Cons.IH [OF this(2,1,3,4)] obtain s fr trv ps' where
      r: "trace_fill env a ?c = Some (?c\<lparr>cx_trace := s, cx_front := fr\<rparr>, trv)" "0 < trv"
      "delivers (e_trace env) s ps'" "feed env nxt fr (nxt a) ps' = Some (fr', outs)" "fr_pbufs fr a = pb"
      "\<forall>c. c \<noteq> a \<longrightarrow> fr_pbufs fr c = fr_pbufs (cx_front ?c) c" "front_ok env fr" "list_all frame_in_bounds ps'"
      "\<not> trace_is_err (e_trace env) s" by (elim exE conjE) (rule that)
    then show ?thesis using h(3)
      by (intro exI [of _ s] exI [of _ fr] exI [of _ trv] exI [of _ ps']) (simp add: e)
  qed
qed simp

subsection \<open>Groups of packets\<close>

text \<open>A ring without reservations, with the buffers that wait in it.\<close>

definition ring_has :: "rgaRing \<Rightarrow> (nat \<Rightarrow> yfPBuf) \<Rightarrow> yfPBuf list \<Rightarrow> bool" where
  "ring_has r m ps \<longleftrightarrow> rga_inv r \<and> rg_hrsv r = 0 \<and> rg_trsv r = 0 \<and> map m (rga_list r) = ps"

definition same_shape :: "rgaRing \<Rightarrow> rgaRing \<Rightarrow> bool" where
  "same_shape r r' \<longleftrightarrow> rg_cap r' = rg_cap r \<and> rga_advance r' = rga_advance r"

lemma ring_has_length: "ring_has r m ps \<Longrightarrow> length ps = unat (rg_count r)"
  by (auto simp: ring_has_def)

lemma ring_put:
  assumes "ring_has r m ps" and "length ps < unat (rg_cap r)" and "\<And>c. c \<noteq> rg_head r \<Longrightarrow> m' c = m c"
  shows "\<exists>r'. rgaNextHead r = (r', Some (rg_head r)) \<and> ring_has r' m' (ps @ [m' (rg_head r)]) \<and>
    same_shape r r' \<and> rg_head r' = rga_advance r (rg_head r)"
proof -
  have inv: "rga_inv r" "rg_hrsv r = 0" "rg_trsv r = 0" and l: "map m (rga_list r) = ps"
    using assms(1) by (auto simp: ring_has_def)
  have room: "rg_count r < rg_cap r - rg_trsv r"
    using assms(2) ring_has_length [OF assms(1)] inv(3) by (simp add: word_less_nat_alt)
  from rgaNextHead_ok [OF inv(1) room] obtain r' where
    n: "rgaNextHead r = (r', Some (rg_head r))" "rga_inv r'" "rga_list r' = rga_list r @ [rg_head r]"
    "rg_head r \<notin> set (rga_list r)" "rg_trsv r' = rg_trsv r" "rg_hrsv r' = rg_hrsv r" by blast
  have sh: "same_shape r r'" "rg_head r' = rga_advance r (rg_head r)"
    using n(1) room by (auto simp: rgaNextHead_def Let_def same_shape_def rga_advance_def fun_eq_iff split: if_splits)
  have "map m' (rga_list r) = map m (rga_list r)" using n(4) assms(3) by (intro map_cong refl) metis
  then have "ring_has r' m' (ps @ [m' (rg_head r)])" using n inv l by (simp add: ring_has_def)
  then show ?thesis using n(1) sh by blast
qed

lemma ring_get:
  assumes "ring_has r m (p # ps)"
  shows "\<exists>r' a. rgaNextTail r = (r', Some a) \<and> m a = p \<and> ring_has r' m ps \<and> same_shape r r' \<and> rg_head r' = rg_head r"
proof -
  have inv: "rga_inv r" "rg_hrsv r = 0" "rg_trsv r = 0" and l: "map m (rga_list r) = p # ps"
    using assms by (auto simp: ring_has_def)
  have some: "rg_hrsv r < rg_count r" using ring_has_length [OF assms] inv by (simp add: word_less_nat_alt)
  from rgaNextTail_ok [OF inv(1) some] obtain r' where
    n: "rgaNextTail r = (r', Some (rg_tail r))" "rga_inv r'" "rga_list r = rg_tail r # rga_list r'"
    "rg_trsv r' = rg_trsv r" "rg_hrsv r' = rg_hrsv r" by blast
  have "same_shape r r'" "rg_head r' = rg_head r"
    using n(1) some by (auto simp: rgaNextTail_def Let_def same_shape_def rga_advance_def fun_eq_iff split: if_splits)
  then show ?thesis using n inv l by (simp add: ring_has_def)
qed

lemma ring_empty: "ring_has r m [] \<Longrightarrow> rgaNextTail r = (r, None)"
  using ring_has_length [of r m "[]"] rgaNextTail_empty [of r] by (simp add: ring_has_def unat_eq_0)

lemma same_shape_trans: "same_shape a b \<Longrightarrow> same_shape b c \<Longrightarrow> same_shape a c"
  by (simp add: same_shape_def)

text \<open>The context as the loop over a group changes it.\<close>

definition moved :: "('t, 'g, 'r, 'w, 's) qfContext \<Rightarrow> ('t, 'g, 'r, 'w, 's) qfContext \<Rightarrow> bool" where
  "moved cx cx' \<longleftrightarrow> same_shape (cx_pbufring cx) (cx_pbufring cx') \<and>
     cx' = cx\<lparr>cx_front := cx_front cx', cx_pbufring := cx_pbufring cx', cx_trace := cx_trace cx', cx_polls := cx_polls cx'\<rparr>"

lemma moved_refl: "moved cx cx"
  by (simp add: moved_def same_shape_def)

lemma moved_trans: "moved a b \<Longrightarrow> moved b c \<Longrightarrow> moved a c"
  by (cases a; cases b; cases c) (simp add: moved_def same_shape_def)

text \<open>What is left to read, and the buffers of the packets that will be accepted.\<close>

definition ahead :: "('t, 'g, 'r, 'w, 's) qf_env \<Rightarrow> ('t, 'g, 'r, 'w, 's) qfContext \<Rightarrow> ('g, 'r) qf_front \<Rightarrow> yfPBuf list \<Rightarrow> bool" where
  "ahead env cx fr' outs \<longleftrightarrow> front_ok env (cx_front cx) \<and>
     (\<exists>ps. delivers (e_trace env) (cx_trace cx) ps \<and> list_all frame_in_bounds ps \<and>
       feed env (rga_advance (cx_pbufring cx)) (cx_front cx) (rg_head (cx_pbufring cx)) ps = Some (fr', outs))"

lemma group_step:
  assumes g: "ghash_table (e_frag env) yfFragKeyEqual" and q: "\<And>n. \<not> e_quit env n"
    and a: "ahead env cx fr' (pb # outs)" and r: "ring_has (cx_pbufring cx) (fr_pbufs (cx_front cx)) ws"
    and len: "length ws < unat (rg_cap (cx_pbufring cx))"
  shows "\<exists>c t. (\<forall>k trv. trace_group env (Suc k) cx trv = trace_group env k c t) \<and> 0 < t \<and> moved cx c \<and>
    \<not> trace_is_err (e_trace env) (cx_trace c) \<and> ahead env c fr' outs \<and>
    ring_has (cx_pbufring c) (fr_pbufs (cx_front c)) (ws @ [pb])"
proof -
  let ?r = "cx_pbufring cx" and ?c0 = "cx\<lparr>cx_polls := cx_polls cx + 1\<rparr>"
  from a obtain ps where ps: "delivers (e_trace env) (cx_trace cx) ps" "list_all frame_in_bounds ps"
    "feed env (rga_advance ?r) (cx_front cx) (rg_head ?r) ps = Some (fr', pb # outs)" "front_ok env (cx_front cx)"
    unfolding ahead_def by blast
  obtain r' where r': "rgaNextHead ?r = (r', Some (rg_head ?r))"
    using ring_put [OF r len, of "fr_pbufs (cx_front cx)"] by blast
  let ?c = "?c0\<lparr>cx_pbufring := r'\<rparr>"
  from fill_next [of env ?c ps "rga_advance ?r" "rg_head ?r" fr' pb outs] ps g obtain s fr t ps' where
    f: "trace_fill env (rg_head ?r) ?c = Some (?c\<lparr>cx_trace := s, cx_front := fr\<rparr>, t)" "0 < t"
    "delivers (e_trace env) s ps'" "feed env (rga_advance ?r) fr (rga_advance ?r (rg_head ?r)) ps' = Some (fr', outs)"
    "fr_pbufs fr (rg_head ?r) = pb" "\<forall>c. c \<noteq> rg_head ?r \<longrightarrow> fr_pbufs fr c = fr_pbufs (cx_front cx) c" "front_ok env fr"
    "list_all frame_in_bounds ps'" "\<not> trace_is_err (e_trace env) s" by auto
  let ?c' = "?c\<lparr>cx_trace := s, cx_front := fr\<rparr>"
  from ring_put [OF r len, of "fr_pbufs fr"] f(5,6) r' have
    rp: "ring_has r' (fr_pbufs fr) (ws @ [pb])" "same_shape ?r r'" "rg_head r' = rga_advance ?r (rg_head ?r)" by auto
  have "trace_group env (Suc k) cx trv = trace_group env k ?c' t" for k trv
    using q r' f(1,2) by (simp add: yaf_quit_def Let_def)
  moreover have "moved cx ?c'" using rp(2) by (simp add: moved_def)
  moreover have "ahead env ?c' fr' outs" using f rp by (auto simp: ahead_def same_shape_def)
  ultimately show ?thesis using f(2,9) rp(1) by (intro exI [of _ ?c'] exI [of _ t]) simp
qed

lemma group_full:
  assumes g: "ghash_table (e_frag env) yfFragKeyEqual" and q: "\<And>n. \<not> e_quit env n"
  shows "\<lbrakk>ahead env cx fr' outs; k \<le> length outs; ring_has (cx_pbufring cx) (fr_pbufs (cx_front cx)) ws;
    length ws + k \<le> unat (rg_cap (cx_pbufring cx)); 0 < k \<or> 0 < trv \<and> \<not> trace_is_err (e_trace env) (cx_trace cx)\<rbrakk> \<Longrightarrow>
    \<exists>cx' trv'. trace_group env k cx trv = Some (cx', trv') \<and> 0 < trv' \<and> moved cx cx' \<and>
      \<not> trace_is_err (e_trace env) (cx_trace cx') \<and> ahead env cx' fr' (drop k outs) \<and>
      ring_has (cx_pbufring cx') (fr_pbufs (cx_front cx')) (ws @ take k outs)"
proof (induction k arbitrary: cx outs ws trv)
  case 0
  then show ?case by (simp add: moved_refl)
next
  case (Suc k)
  obtain pb outs' where o: "outs = pb # outs'" using Suc.prems(2) by (cases outs) auto
  have len: "length ws < unat (rg_cap (cx_pbufring cx))" using Suc.prems(4) by simp
  from group_step [OF g q Suc.prems(1) [unfolded o] Suc.prems(3) len] obtain c t where
    s: "\<And>k trv. trace_group env (Suc k) cx trv = trace_group env k c t" "0 < t" "moved cx c"
    "\<not> trace_is_err (e_trace env) (cx_trace c)" "ahead env c fr' outs'"
    "ring_has (cx_pbufring c) (fr_pbufs (cx_front c)) (ws @ [pb])" by blast
  have "rg_cap (cx_pbufring c) = rg_cap (cx_pbufring cx)" using s(3) by (simp add: moved_def same_shape_def)
  with Suc.IH [OF s(5) _ s(6), of t] Suc.prems(2,4) o s(2,4) obtain cx' trv' where
    i: "trace_group env k c t = Some (cx', trv')" "0 < trv'" "moved c cx'" "\<not> trace_is_err (e_trace env) (cx_trace cx')"
    "ahead env cx' fr' (drop k outs')" "ring_has (cx_pbufring cx') (fr_pbufs (cx_front cx')) ((ws @ [pb]) @ take k outs')"
    by auto
  show ?case unfolding s(1) using i moved_trans [OF s(3) i(3)] o by auto
qed

lemma group_short:
  assumes g: "ghash_table (e_frag env) yfFragKeyEqual" and q: "\<And>n. \<not> e_quit env n"
  shows "\<lbrakk>ahead env cx fr' outs; length outs < k; ring_has (cx_pbufring cx) (fr_pbufs (cx_front cx)) ws;
    length ws + k \<le> unat (rg_cap (cx_pbufring cx))\<rbrakk> \<Longrightarrow>
    \<exists>cx'. trace_group env k cx trv = Some (cx', 0) \<and> moved cx cx' \<and> \<not> trace_is_err (e_trace env) (cx_trace cx') \<and>
      cx_front cx' = fr'"
proof (induction k arbitrary: cx outs ws trv)
  case (Suc k)
  have len: "length ws < unat (rg_cap (cx_pbufring cx))" using Suc.prems(4) by simp
  show ?case
  proof (cases outs)
    case Nil
    let ?r = "cx_pbufring cx"
    from Suc.prems(1) obtain ps where ps: "delivers (e_trace env) (cx_trace cx) ps"
      "feed env (rga_advance ?r) (cx_front cx) (rg_head ?r) ps = Some (fr', [])" unfolding ahead_def Nil by blast
    obtain r' where r': "rgaNextHead ?r = (r', Some (rg_head ?r))" "same_shape ?r r'"
      using ring_put [OF Suc.prems(3) len, of "fr_pbufs (cx_front cx)"] by blast
    let ?c = "cx\<lparr>cx_polls := cx_polls cx + 1, cx_pbufring := r'\<rparr>"
    from fill_end [of env ?c ps _ "rg_head ?r" fr'] ps obtain s where
      s: "trace_fill env (rg_head ?r) ?c = Some (?c\<lparr>cx_trace := s, cx_front := fr'\<rparr>, 0)" "\<not> trace_is_err (e_trace env) s"
      by auto
    have "trace_group env (Suc k) cx trv = Some (?c\<lparr>cx_trace := s, cx_front := fr'\<rparr>, 0)"
      using q r'(1) s(1) by (simp add: yaf_quit_def Let_def)
    then show ?thesis using s(2) r'(2) by (simp add: moved_def)
  next
    case (Cons pb outs')
    from group_step [OF g q Suc.prems(1) [unfolded Cons] Suc.prems(3) len] obtain c t where
      s: "\<And>k trv. trace_group env (Suc k) cx trv = trace_group env k c t" "moved cx c" "ahead env c fr' outs'"
      "ring_has (cx_pbufring c) (fr_pbufs (cx_front c)) (ws @ [pb])" by blast
    have "rg_cap (cx_pbufring c) = rg_cap (cx_pbufring cx)" using s(2) by (simp add: moved_def same_shape_def)
    with Suc.IH [OF s(3) _ s(4), of t] Suc.prems(2,4) Cons show ?thesis
      unfolding s(1) using moved_trans [OF s(2)] by fastforce
  qed
qed simp

subsection \<open>From the ring to the flow table\<close>

lemma process_ring_ok:
  "\<lbrakk>ring_has r m ps; ft_run ops wr (ft, w) (map Packet (filter (\<lambda>p. pb_ptime p \<noteq> 0) ps)) = Some (ft', w')\<rbrakk> \<Longrightarrow>
   \<exists>r'. process_ring ops m r ft = Some (r', ft') \<and> w' = w \<and> ring_has r' m [] \<and> same_shape r r' \<and> rg_head r' = rg_head r"
proof (induction ps arbitrary: r ft)
  case Nil
  then show ?case by (subst process_ring.simps) (simp add: ring_empty same_shape_def)
next
  case (Cons p ps)
  from ring_get [OF Cons.prems(1)] obtain r1 a where
    g: "rgaNextTail r = (r1, Some a)" "m a = p" "ring_has r1 m ps" "same_shape r r1" "rg_head r1 = rg_head r" by blast
  show ?case
  proof (cases "pb_ptime p = 0")
    case True
    then have "process_ring ops m r ft = process_ring ops m r1 ft" by (subst process_ring.simps) (simp add: g(1,2))
    then show ?thesis using Cons.IH [OF g(3), of ft] Cons.prems(2) True same_shape_trans [OF g(4)] g(5) by auto
  next
    case False
    then obtain ft1 where f: "yfFlowPBuf ops ft p = Some ft1" using Cons.prems(2) by (cases "yfFlowPBuf ops ft p") auto
    then have "process_ring ops m r ft = process_ring ops m r1 ft1"
      using False by (subst process_ring.simps) (simp add: g(1,2))
    moreover have "ft_run ops wr (ft1, w) (map Packet (filter (\<lambda>p. pb_ptime p \<noteq> 0) ps)) = Some (ft', w')"
      using Cons.prems(2) False f by simp
    ultimately show ?thesis using Cons.IH [OF g(3), of ft1] same_shape_trans [OF g(4)] g(5) by auto
  qed
qed

text \<open>The account after a number of packets were offered to the flow table: those it accepted are in the
  records written or in the flows it holds.\<close>

definition accounted :: "'t flow_ops \<Rightarrow> 't yfFlowTab \<Rightarrow> yfFlow list \<Rightarrow> nat \<Rightarrow> bool" where
  "accounted ops ft recs n \<longleftrightarrow> (\<exists>as cs. ft_ok ops ft as cs (set as) \<and> seen ft = of_nat n \<and>
     exported flow_pkts recs + held flow_pkts ft (set as \<union> set cs) = stat_packets (ft_stats ft))"

locale meter_world =
  fixes env :: "('t, 'g, 'r, 'w, 's) qf_env" and I :: "bool \<Rightarrow> 'w \<Rightarrow> bool" and lg :: "'w \<Rightarrow> yfFlow list"
  assumes flow_hash: "ghash_table (e_flow env) yfFlowKeyEqual"
    and frag_hash: "ghash_table (e_frag env) yfFragKeyEqual"
    and opens: "I False w \<Longrightarrow> I True (fst (out_open (e_out env) w)) \<and> snd (out_open (e_out env) w) \<and>
      lg (fst (out_open (e_out env) w)) = lg w"
    and closes: "I True w \<Longrightarrow> I False (out_close (e_out env) w b) \<and> lg (out_close (e_out env) w b) = lg w"
    and flows: "logs (I True) (out_flow (e_out env)) lg"
    and stats: "I True w \<Longrightarrow> I True (fst (out_stats (e_out env) w rec)) \<and> snd (out_stats (e_out env) w rec) \<and>
      lg (fst (out_stats (e_out env) w rec)) = lg w"
    and templates: "I True w \<Longrightarrow> I True (fst (out_templates (e_out env) w)) \<and>
      lg (fst (out_templates (e_out env) w)) = lg w"
    and no_quit: "\<not> e_quit env n"
begin

lemma accounted_run:
  assumes "accounted (e_flow env) ft (lg w) n" and "list_all valid_ok ps" and "I True w"
  defines "es \<equiv> map Packet (filter (\<lambda>p. pb_ptime p \<noteq> 0) ps)"
  shows "\<exists>ft'. ft_run (e_flow env) (out_flow (e_out env)) (ft, w) es = Some (ft', w) \<and>
    accounted (e_flow env) ft' (lg w) (n + length es)"
proof -
  from assms(1) obtain as cs where a: "ft_ok (e_flow env) ft as cs (set as)" "seen ft = of_nat n"
    "exported flow_pkts (lg w) + held flow_pkts ft (set as \<union> set cs) = stat_packets (ft_stats ft)"
    by (auto simp: accounted_def)
  have es: "list_all packet_ok es" "filter is_packet es = es"
    using assms(2) by (auto simp: es_def list_all_iff valid_ok_def)
  have wr: "ft_run (e_flow env) (out_flow (e_out env)) (ft, w) es = Some (ft', w') \<Longrightarrow> w' = w" for ft' w'
    unfolding es_def by (induction ps arbitrary: ft) (auto split: bind_splits if_splits)
  from flow_index.run_ok [OF flow_index.intro [OF flow_hash] a(1) es(1), of "out_flow (e_out env)" w "I True" lg]
  obtain ft' w' as' cs' where
    r: "ft_run (e_flow env) (out_flow (e_out env)) (ft, w) es = Some (ft', w')" "ft_ok (e_flow env) ft' as' cs' (set as')"
    "seen ft' = seen ft + of_nat (length (filter is_packet es))"
    "exported flow_pkts (lg w') + held flow_pkts ft' (set as' \<union> set cs') - stat_packets (ft_stats ft') =
       exported flow_pkts (lg w) + held flow_pkts ft (set as \<union> set cs) - stat_packets (ft_stats ft)"
    using flows assms(3) by blast
  have "accounted (e_flow env) ft' (lg w) (n + length es)"
    unfolding accounted_def using r a es(2) wr [OF r(1)]
    by (intro exI [of _ as'] exI [of _ cs']) simp
  then show ?thesis using r(1) wr [OF r(1)] by auto
qed

lemma accounted_flush:
  assumes "accounted (e_flow env) (cx_flowtab cx) (lg (cx_out cx)) n" and i: "I True (cx_out cx)"
  shows "\<exists>ft w. flush_table env close cx = Some (cx\<lparr>cx_flowtab := ft, cx_out := w\<rparr>, True) \<and> I True w \<and>
    accounted (e_flow env) ft (lg w) n \<and>
    (close \<longrightarrow> exported flow_pkts (lg w) = stat_packets (ft_stats ft))"
proof -
  let ?ft = "cx_flowtab cx" and ?w = "cx_out cx"
  from assms(1) obtain as cs where a: "ft_ok (e_flow env) ?ft as cs (set as)" "seen ?ft = of_nat n"
    "exported flow_pkts (lg ?w) + held flow_pkts ?ft (set as \<union> set cs) = stat_packets (ft_stats ?ft)"
    by (auto simp: accounted_def)
  note fi = flow_index.intro [OF flow_hash]
  show ?thesis
  proof (cases "flush_due ?ft close")
    case True
    from flow_index.flush_due_ok [OF fi a(1) True, of "out_flow (e_out env)" ?w "I True" lg] flows i obtain ft w b as' cs' where
      f: "yfFlowTabFlush (e_flow env) (out_flow (e_out env)) ?ft ?w close = Some (ft, w, b)"
      "ft_ok (e_flow env) ft as' cs' (set as')" "same_env ?ft ft" "flushed ft as' close" "b \<longrightarrow> cs' = []" "b" "I True w"
      "exported flow_pkts (lg w) + held flow_pkts ft (set as') =
       exported flow_pkts (lg ?w) + held flow_pkts ?ft (set as \<union> set cs)" by blast
    have s: "seen ft = seen ?ft" "stat_packets (ft_stats ft) = stat_packets (ft_stats ?ft)"
      using f(3) by (simp_all add: same_env_def seen_def)
    have "accounted (e_flow env) ft (lg w) n"
      unfolding accounted_def using f a s by (intro exI [of _ as'] exI [of _ cs']) simp
    moreover have "close \<longrightarrow> as' = []" using f(4) by (simp add: flushed_def)
    ultimately show ?thesis using f(1,5-8) a(3) s by (intro exI [of _ ft] exI [of _ w]) (auto simp: flush_table_def held_def)
  next
    case False
    then have "\<not> close" by (auto simp: flush_due_def)
    moreover from flow_index.flush_ok [OF fi a(1), of "out_flow (e_out env)" ?w close "I True" lg] flows i obtain ft w b as' cs' where
      f: "yfFlowTabFlush (e_flow env) (out_flow (e_out env)) ?ft ?w close = Some (ft, w, b)"
      "ft_ok (e_flow env) ft as' cs' (set as')" "same_env ?ft ft" "b" "I True w"
      "exported flow_pkts (lg w) + held flow_pkts ft (set as' \<union> set cs') =
       exported flow_pkts (lg ?w) + held flow_pkts ?ft (set as \<union> set cs)" by blast
    moreover have "accounted (e_flow env) ft (lg w) n"
      unfolding accounted_def using f a by (intro exI [of _ as'] exI [of _ cs']) (simp add: same_env_def seen_def)
    ultimately show ?thesis by (auto simp: flush_table_def)
  qed
qed

text \<open>What opening, rotating and exporting leave alone.\<close>

definition kept :: "('t, 'g, 'r, 'w, 's) qfContext \<Rightarrow> ('t, 'g, 'r, 'w, 's) qfContext \<Rightarrow> bool" where
  "kept cx cx' \<longleftrightarrow> cx_front cx' = cx_front cx \<and> cx_flowtab cx' = cx_flowtab cx \<and> cx_pbufring cx' = cx_pbufring cx \<and>
     cx_trace cx' = cx_trace cx \<and> lg (cx_out cx') = lg (cx_out cx)"

lemma open_kept: "I (cx_fbuf cx) (cx_out cx) \<Longrightarrow>
    kept cx (open_output env cx) \<and> cx_fbuf (open_output env cx) \<and> I True (cx_out (open_output env cx))"
  using opens by (cases "cx_fbuf cx") (auto simp: kept_def open_output_def split_beta Let_def)

lemma rotate_kept: "\<lbrakk>cx_fbuf cx; I True (cx_out cx)\<rbrakk> \<Longrightarrow> kept cx (fst (rotate_output env True cx)) \<and>
    snd (rotate_output env True cx) \<and> cx_fbuf (fst (rotate_output env True cx)) \<and> I True (cx_out (fst (rotate_output env True cx)))"
  using opens closes
  by (auto simp: rotate_output_def open_output_def close_output_def kept_def split_beta Let_def)

lemma stats_kept: "\<lbrakk>cx_fbuf cx; I True (cx_out cx)\<rbrakk> \<Longrightarrow> kept cx (fst (yfWriteStatsRec env cx)) \<and>
    snd (yfWriteStatsRec env cx) \<and> cx_fbuf (fst (yfWriteStatsRec env cx)) \<and> I True (cx_out (fst (yfWriteStatsRec env cx)))"
  using stats by (auto simp: yfWriteStatsRec_def kept_def split_beta Let_def)

lemma periodic_kept: "\<lbrakk>cx_fbuf cx; I True (cx_out cx)\<rbrakk> \<Longrightarrow> kept cx (fst (qfTracePeriodicExport env cx t)) \<and>
    cx_fbuf (fst (qfTracePeriodicExport env cx t)) \<and> I True (cx_out (fst (qfTracePeriodicExport env cx t)))"
  using stats_kept [of cx] templates
  by (auto simp: qfTracePeriodicExport_def kept_def split_beta Let_def)

lemma process_step:
  assumes r: "ring_has (cx_pbufring cx) (fr_pbufs (cx_front cx)) ws" and v: "list_all valid_ok ws"
    and a: "accounted (e_flow env) (cx_flowtab cx) (lg (cx_out cx)) n" and i: "I (cx_fbuf cx) (cx_out cx)"
  shows "\<exists>cx'. yfProcessPBufRing env cx = Some (cx', True) \<and> cx_front cx' = cx_front cx \<and> cx_trace cx' = cx_trace cx \<and>
    ring_has (cx_pbufring cx') (fr_pbufs (cx_front cx)) [] \<and> same_shape (cx_pbufring cx) (cx_pbufring cx') \<and>
    rg_head (cx_pbufring cx') = rg_head (cx_pbufring cx) \<and> cx_fbuf cx' \<and> I True (cx_out cx') \<and>
    accounted (e_flow env) (cx_flowtab cx') (lg (cx_out cx')) (n + length (filter (\<lambda>p. pb_ptime p \<noteq> 0) ws))"
proof -
  let ?c = "open_output env cx" and ?es = "map Packet (filter (\<lambda>p. pb_ptime p \<noteq> 0) ws)"
  have o: "kept cx ?c" "cx_fbuf ?c" "I True (cx_out ?c)" using open_kept [OF i] by auto
  from accounted_run [of "cx_flowtab ?c" "cx_out ?c" n ws] a v o(1,3) obtain ft where
    f: "ft_run (e_flow env) (out_flow (e_out env)) (cx_flowtab ?c, cx_out ?c) ?es = Some (ft, cx_out ?c)"
    "accounted (e_flow env) ft (lg (cx_out ?c)) (n + length ?es)" by (auto simp: kept_def)
  from process_ring_ok [OF _ f(1)] r o(1) obtain ring where
    p: "process_ring (e_flow env) (fr_pbufs (cx_front ?c)) (cx_pbufring ?c) (cx_flowtab ?c) = Some (ring, ft)"
    "ring_has ring (fr_pbufs (cx_front cx)) []" "same_shape (cx_pbufring cx) ring" "rg_head ring = rg_head (cx_pbufring cx)"
    by (auto simp: kept_def)
  let ?c1 = "?c\<lparr>cx_pbufring := ring, cx_flowtab := ft\<rparr>"
  from accounted_flush [of ?c1 "n + length ?es" False] f(2) o(3) obtain ft2 w2 where
    l: "flush_table env False ?c1 = Some (?c1\<lparr>cx_flowtab := ft2, cx_out := w2\<rparr>, True)" "I True w2"
    "accounted (e_flow env) ft2 (lg w2) (n + length ?es)" by auto
  let ?c2 = "?c1\<lparr>cx_flowtab := ft2, cx_out := w2\<rparr>"
  have k: "kept ?c2 (fst (rotate_output env True ?c2))" "snd (rotate_output env True ?c2)" "cx_fbuf (fst (rotate_output env True ?c2))"
    "I True (cx_out (fst (rotate_output env True ?c2)))"
    using rotate_kept [of ?c2] o(2) l(2) by simp_all
  have "yfProcessPBufRing env cx = Some (rotate_output env True ?c2)"
    using o(2) p(1) l(1) by (simp add: yfProcessPBufRing_def Let_def)
  then have "yfProcessPBufRing env cx = Some (fst (rotate_output env True ?c2), True)" using k(2) by (metis prod.collapse)
  then show ?thesis using k p(2-4) l(3) o(1)
    by (intro exI [of _ "fst (rotate_output env True ?c2)"]) (simp add: kept_def)
qed

lemma loop_ok:
  "\<lbrakk>ahead env cx fr' outs; list_all valid_ok outs; ring_has (cx_pbufring cx) (fr_pbufs (cx_front cx)) [];
    TRACE_PACKET_GROUP \<le> unat (rg_cap (cx_pbufring cx)); accounted (e_flow env) (cx_flowtab cx) (lg (cx_out cx)) n;
    I (cx_fbuf cx) (cx_out cx)\<rbrakk> \<Longrightarrow>
   \<exists>cx'. trace_loop env cx trv = Some (cx', True) \<and> cx_front cx' = fr' \<and>
     cx_fbuf cx' = (cx_fbuf cx \<or> TRACE_PACKET_GROUP \<le> length outs) \<and> I (cx_fbuf cx') (cx_out cx') \<and>
     accounted (e_flow env) (cx_flowtab cx') (lg (cx_out cx'))
       (n + length (filter (\<lambda>p. pb_ptime p \<noteq> 0) (take (TRACE_PACKET_GROUP * (length outs div TRACE_PACKET_GROUP)) outs))) \<and>
     (length outs < TRACE_PACKET_GROUP \<longrightarrow> cx_out cx' = cx_out cx \<and> cx_flowtab cx' = cx_flowtab cx)"
proof (induction "length outs" arbitrary: cx outs n trv rule: less_induct)
  case less
  let ?G = TRACE_PACKET_GROUP and ?c0 = "cx\<lparr>cx_polls := cx_polls cx + 1\<rparr>"
  have a0: "ahead env ?c0 fr' outs" using less.prems(1) by (simp add: ahead_def)
  have G: "0 < ?G" by (simp add: TRACE_PACKET_GROUP_def)
  show ?case
  proof (cases "?G \<le> length outs")
    case False
    from group_short [OF frag_hash no_quit a0, of ?G "[]" trv] False less.prems(3,4) obtain c where
      c: "trace_group env ?G ?c0 trv = Some (c, 0)" "moved ?c0 c" "\<not> trace_is_err (e_trace env) (cx_trace c)" "cx_front c = fr'"
      by auto
    have f: "cx_flowtab c = cx_flowtab cx" "cx_out c = cx_out cx" "cx_fbuf c = cx_fbuf cx"
      using c(2) unfolding moved_def by (cases c, simp)+
    have "trace_loop env cx trv = Some (c\<lparr>cx_polls := cx_polls c + 1\<rparr>, True)"
      by (subst trace_loop.simps) (use no_quit c(1,3) in \<open>simp add: yaf_quit_def Let_def\<close>)
    then show ?thesis using c(4) f less.prems(5,6) False
      by (intro exI [of _ "c\<lparr>cx_polls := cx_polls c + 1\<rparr>"]) simp
  next
    case True
    from group_full [OF frag_hash no_quit a0 True, of "[]" trv] less.prems(3,4) G obtain c t where
      c: "trace_group env ?G ?c0 trv = Some (c, t)" "0 < t" "moved ?c0 c" "\<not> trace_is_err (e_trace env) (cx_trace c)"
      "ahead env c fr' (drop ?G outs)" "ring_has (cx_pbufring c) (fr_pbufs (cx_front c)) (take ?G outs)" by auto
    let ?c1 = "c\<lparr>cx_polls := cx_polls c + 1\<rparr>"
    have f: "cx_flowtab c = cx_flowtab cx" "cx_out c = cx_out cx" "cx_fbuf c = cx_fbuf cx" "same_shape (cx_pbufring cx) (cx_pbufring c)"
      using c(3) unfolding moved_def by (cases c, simp)+
    have v: "list_all valid_ok (take ?G outs)" "list_all valid_ok (drop ?G outs)"
      using less.prems(2) by (metis append_take_drop_id list_all_append)+
    from process_step [of ?c1 "take ?G outs" n] c(6) v(1) less.prems(5,6) f(1-3) obtain d where
      d: "yfProcessPBufRing env ?c1 = Some (d, True)" "cx_front d = cx_front c" "cx_trace d = cx_trace c"
      "ring_has (cx_pbufring d) (fr_pbufs (cx_front c)) []" "same_shape (cx_pbufring c) (cx_pbufring d)"
      "rg_head (cx_pbufring d) = rg_head (cx_pbufring c)" "cx_fbuf d" "I True (cx_out d)"
      "accounted (e_flow env) (cx_flowtab d) (lg (cx_out d)) (n + length (filter (\<lambda>p. pb_ptime p \<noteq> 0) (take ?G outs)))"
      by auto
    let ?p = "qfTracePeriodicExport env d (yfFlowTabCurrentTime (cx_flowtab d))"
    let ?e = "note_error (snd ?p) (fst ?p)"
    have k: "kept d ?e" "cx_fbuf ?e" "I True (cx_out ?e)" using periodic_kept [OF d(7,8)] by (auto simp: kept_def)
    have e: "trace_loop env cx trv = trace_loop env ?e t"
      by (subst trace_loop.simps) (use no_quit c(1,2,4) d(1) in \<open>simp add: yaf_quit_def Let_def split_beta\<close>)
    have a1: "ahead env ?e fr' (drop ?G outs)"
      using c(5) k(1) d(2,3,5,6) by (simp add: ahead_def kept_def same_shape_def)
    have lt: "length (drop ?G outs) < length outs" using True G by simp
    from less.hyps [OF lt a1 v(2), of "n + length (filter (\<lambda>p. pb_ptime p \<noteq> 0) (take ?G outs))" t] k d(2,4,5,9) f(4) less.prems(4) obtain cx' where
      i: "trace_loop env ?e t = Some (cx', True)" "cx_front cx' = fr'" "cx_fbuf cx'" "I True (cx_out cx')"
      "accounted (e_flow env) (cx_flowtab cx') (lg (cx_out cx'))
        (n + length (filter (\<lambda>p. pb_ptime p \<noteq> 0) (take ?G outs)) +
         length (filter (\<lambda>p. pb_ptime p \<noteq> 0) (take (?G * (length (drop ?G outs) div ?G)) (drop ?G outs))))"
      by (auto simp: kept_def same_shape_def)
    have "length outs div ?G = Suc (length (drop ?G outs) div ?G)" using True G by (simp add: le_div_geq)
    then have "take (?G * (length outs div ?G)) outs = take ?G outs @ take (?G * (length (drop ?G outs) div ?G)) (drop ?G outs)"
      by (simp add: take_add)
    then show ?thesis using i e True by (intro exI [of _ cx']) (simp add: add.assoc)
  qed
qed

lemma final_ok:
  assumes a: "accounted (e_flow env) (cx_flowtab cx) (lg (cx_out cx)) n" and i: "I (cx_fbuf cx) (cx_out cx)"
    and z: "cx_fbuf cx \<or> exported flow_pkts (lg (cx_out cx)) = stat_packets (ft_stats (cx_flowtab cx))"
  shows "\<exists>cx'. yfFinalFlush env cx True = Some (cx', True) \<and> cx_front cx' = cx_front cx \<and> I False (cx_out cx') \<and>
    accounted (e_flow env) (cx_flowtab cx') (lg (cx_out cx')) n \<and>
    exported flow_pkts (lg (cx_out cx')) = stat_packets (ft_stats (cx_flowtab cx'))"
proof (cases "cx_fbuf cx")
  case False
  then show ?thesis using a i z by (simp add: yfFinalFlush_def)
next
  case True
  from accounted_flush [OF a, of True] True i obtain ft w where
    f: "flush_table env True cx = Some (cx\<lparr>cx_flowtab := ft, cx_out := w\<rparr>, True)" "accounted (e_flow env) ft (lg w) n" "I True w"
    "exported flow_pkts (lg w) = stat_packets (ft_stats ft)" by auto
  let ?c = "cx\<lparr>cx_flowtab := ft, cx_out := w\<rparr>"
  have k: "kept ?c (fst (yfWriteStatsRec env ?c))" "snd (yfWriteStatsRec env ?c)"
    "I True (cx_out (fst (yfWriteStatsRec env ?c)))" using stats_kept [of ?c] True f(3) by auto
  show ?thesis
    using True f k closes [of w True] closes [OF k(3)]
    by (intro exI [of _ "close_output env True (if cx_stats_period cx \<noteq> 0 then fst (yfWriteStatsRec env ?c) else ?c)"])
      (simp add: yfFinalFlush_def close_output_def split_beta kept_def)
qed

end

subsection \<open>Properties\<close>

text \<open>The whole run, for any output.\<close>

lemma meter_run:
  assumes "meter_world env I lg" and "delivers (e_trace env) (cx_trace cx) ps" and "list_all frame_in_bounds ps"
    and "cx_flowtab cx = yfFlowTabAlloc (e_flow env) conf"
    and "fr_fragtab (cx_front cx) = None \<or> fr_fragtab (cx_front cx) = Some (yfFragTabAlloc (e_frag env) idle mx)"
    and "cx_pbufring cx = rgaAlloc False buf sz cap" and "0 < sz" and "32 \<le> unat cap" and "unat sz * unat cap < 2 ^ 64"
    and "\<not> cx_fbuf cx" and "I False (cx_out cx)" and "lg (cx_out cx) = []"
  shows "\<exists>cx' outs n.
    feed env (rga_advance (cx_pbufring cx)) (cx_front cx) buf ps = Some (cx_front cx', outs) \<and>
    qfTraceMain env cx = Some (cx', True) \<and>
    n = length (filter (\<lambda>p. pb_ptime p \<noteq> 0) (take (32 * (length outs div 32)) outs)) \<and>
    stat_packets (ft_stats (cx_flowtab cx')) + stat_seqrej (ft_stats (cx_flowtab cx')) = of_nat n \<and>
    exported flow_pkts (lg (cx_out cx')) = stat_packets (ft_stats (cx_flowtab cx')) \<and> I False (cx_out cx')"
proof -
  note w = meter_world.frag_hash [OF assms(1)] meter_world.flow_hash [OF assms(1)]
  have fo: "front_ok env (cx_front cx)"
    using assms(5) frag_index_ops.alloc_ok [OF frag_index_ops.intro [OF w(1)], of idle mx] by (auto simp: front_ok_def)
  from feed_total [OF w(1) fo assms(3), of "rga_advance (cx_pbufring cx)" buf] obtain fr' outs where
    f: "feed env (rga_advance (cx_pbufring cx)) (cx_front cx) buf ps = Some (fr', outs)" "list_all valid_ok outs" by blast
  have hd: "rg_head (cx_pbufring cx) = buf" "rg_cap (cx_pbufring cx) = cap" using assms(6) by (simp_all add: rgaAlloc_def Let_def)
  have ah: "ahead env cx fr' outs" using fo f(1) assms(2,3) hd by (auto simp: ahead_def)
  have c0: "0 < cap" using assms(8) by (simp add: word_less_nat_alt)
  have rh: "ring_has (cx_pbufring cx) m []" for m
    using rgaAlloc_inv [OF assms(7) c0 assms(9), of buf] by (simp add: ring_has_def assms(6)) (simp add: rgaAlloc_def Let_def)
  have ac: "accounted (e_flow env) (cx_flowtab cx) (lg (cx_out cx)) 0"
    using tab_alloc_ok [OF w(2), of conf] assms(4,12)
    by (auto simp: accounted_def exported_def held_def seen_def yfFlowTabAlloc_def zero_stats_def
        intro!: exI [of _ "[]"])
  from meter_world.loop_ok [OF assms(1) ah f(2) rh _ ac, of "e_trv env"] assms(8,10,11) hd(2) obtain c where
    l: "trace_loop env cx (e_trv env) = Some (c, True)" "cx_front c = fr'" "cx_fbuf c = (cx_fbuf cx \<or> 32 \<le> length outs)" "I (cx_fbuf c) (cx_out c)"
    "accounted (e_flow env) (cx_flowtab c) (lg (cx_out c))
       (length (filter (\<lambda>p. pb_ptime p \<noteq> 0) (take (32 * (length outs div 32)) outs)))"
    "length outs < 32 \<longrightarrow> cx_out c = cx_out cx \<and> cx_flowtab c = cx_flowtab cx"
    by (auto simp: TRACE_PACKET_GROUP_def)
  from meter_world.final_ok [OF assms(1) l(5,4)] l(3,6) assms(4,10,12) obtain c' where
    e: "yfFinalFlush env c True = Some (c', True)" "cx_front c' = cx_front c" "I False (cx_out c')"
    "accounted (e_flow env) (cx_flowtab c') (lg (cx_out c'))
       (length (filter (\<lambda>p. pb_ptime p \<noteq> 0) (take (32 * (length outs div 32)) outs)))"
    "exported flow_pkts (lg (cx_out c')) = stat_packets (ft_stats (cx_flowtab c'))"
    by (fastforce simp: exported_def yfFlowTabAlloc_def zero_stats_def)
  have "qfTraceMain env cx = Some (c', True)" using l(1) e(1) by (simp add: qfTraceMain_def)
  then show ?thesis using f(1) e(2-5) l(2) by (auto simp: accounted_def seen_def)
qed

text \<open>C3: The whole meter loses no packet of a complete group. For a trace whose frames the decoder
  reads within the capture, with or without a fragment table and a detuner, hash tables that behave as
  documented and an output that accepts every record: the main loop returns successfully, the ring
  never runs full, and of the packets the input side accepts, exactly those in complete groups of
  thirty-two reach the flow table (a buffer marked by time zero, a fragment still waiting, is skipped).
  Each of them is counted once, as a packet in the records written or as out of sequence; nothing is
  left behind in the flow table.\<close>

theorem meter_conserves:
  assumes "meter_world env I lg" and "delivers (e_trace env) (cx_trace cx) ps" and "list_all frame_in_bounds ps"
    and "cx_flowtab cx = yfFlowTabAlloc (e_flow env) conf"
    and "fr_fragtab (cx_front cx) = None \<or> fr_fragtab (cx_front cx) = Some (yfFragTabAlloc (e_frag env) idle mx)"
    and "cx_pbufring cx = rgaAlloc False buf sz cap" and "0 < sz" and "32 \<le> unat cap" and "unat sz * unat cap < 2 ^ 64"
    and "\<not> cx_fbuf cx" and "I False (cx_out cx)" and "lg (cx_out cx) = []"
  shows "\<exists>cx' outs n.
    feed env (rga_advance (cx_pbufring cx)) (cx_front cx) buf ps = Some (cx_front cx', outs) \<and>
    qfTraceMain env cx = Some (cx', True) \<and>
    n = length (filter (\<lambda>p. pb_ptime p \<noteq> 0) (take (32 * (length outs div 32)) outs)) \<and>
    stat_packets (ft_stats (cx_flowtab cx')) + stat_seqrej (ft_stats (cx_flowtab cx')) = of_nat n \<and>
    exported flow_pkts (lg (cx_out cx')) = stat_packets (ft_stats (cx_flowtab cx'))"
  using meter_run [OF assms] by blast

text \<open>A world to run the meter in: bucket hash tables, insertion sort, an output that keeps the flows,
  and a trace that is a list of packets.\<close>

definition list_trace :: "(trace_packet \<times> trace_packet list) trace_ops" where
  "list_trace = \<lparr>trace_read_packet = (\<lambda>(c, ps). case ps of [] \<Rightarrow> ((c, []), 0) | p # ps \<Rightarrow> ((p, ps), 1)),
     trace_packet_of = fst, trace_is_err = (\<lambda>s. False)\<rparr>"

definition log_out :: "yfFlow list out_ops" where
  "log_out = \<lparr>out_open = (\<lambda>w. (w, True)), out_close = (\<lambda>w b. w), out_flow = log_writer, out_stats = (\<lambda>w r. (w, True)),
     out_templates = (\<lambda>w. (w, True)), out_emit = (\<lambda>w. (w, True))\<rparr>"

definition log_env where
  "log_env = \<lparr>e_flow = bucket_ops yfFlowKeyHash yfFlowKeyEqual, e_frag = bucket_ops yfFragKeyHash yfFragKeyEqual,
     e_sort = c_sort, e_random = (\<lambda>r :: u64. (r, r + 1)), e_out = log_out, e_trace = list_trace, e_quit = (\<lambda>n. False),
     e_fraginfo = \<lparr>fi_ipid = 0, fi_offset = 0, fi_iphlen = 0, fi_l4hlen = 0, fi_frag = 0, fi_more = 0\<rparr>, e_trv = 0,
     e_start_time = 0, e_dropped = 0, e_host_ip = 0, e_odid = 0\<rparr>"

interpretation logmeter: meter_world log_env "\<lambda>b w. True" "\<lambda>w. w"
  by (rule meter_world.intro)
    (simp_all add: log_env_def log_out_def log_writer_logs flowkey.bucket_table fragkey.bucket_table)

lemma list_delivers: "delivers list_trace (c, ps) ps"
  by (induction ps arbitrary: c) (simp_all add: list_trace_def)

definition udp_packet :: trace_packet where
  "udp_packet = \<lparr>tp_sec = 1000, tp_usec = 0, tp_link = TRACE_TYPE_NONE, tp_caplen = 28, tp_buf = udp_frame\<rparr>"

lemma udp_rd:
  "rd8 udp_frame 0 = Some 0x45" "rd8 udp_frame (Suc 0) = Some 0" "rd8 udp_frame 8 = Some 64" "rd8 udp_frame 9 = Some 17"
  "rd16 udp_frame (Suc (Suc 0)) = Some 28" "rd16 udp_frame 6 = Some 0x4000" "rd32 udp_frame 12 = Some 0x0A000001"
  "rd32 udp_frame 16 = Some 0x0A000002" "rd16 udp_frame 20 = Some 0x3039" "rd16 udp_frame 22 = Some 53"
  by code_simp+

lemma udp_packet_in_bounds: "frame_in_bounds udp_packet"
  unfolding frame_in_bounds_def udp_packet_def trace_packet.simps
proof (intro allI)
  fix ctx t fi pbuf
  show "yfDecodeToPBuf ctx TRACE_TYPE_NONE t 28 udp_frame fi pbuf \<noteq> None"
    by (cases fi) (simp_all add: yfDecodeToPBuf_def Let_def dst_of_def yfDecodeL2_def ip_version_to_type_def udp_rd
        yfDecodeIP.simps yfDecodeIPv4_def ip4_body_def ip4_frag_def eat_def is_frag_def yfDecodeUDP_def set_ports_def
        set_l4hlen_def reject_def ex_bool_eq)
qed

definition log_context where
  "log_context ps =
     \<lparr>cx_front = \<lparr>fr_dectx = plain_ctx, fr_fragtab = Some (yfFragTabAlloc (e_frag log_env) 0 0), fr_detune = None,
                  fr_rng = 0 :: u64, fr_pbufs = (\<lambda>a. zero_pbuf)\<rparr>,
      cx_flowtab = yfFlowTabAlloc (e_flow log_env) ex_conf, cx_pbufring = rgaAlloc False 4096 256 128, cx_fbuf = False,
      cx_template_rtx_period = 0, cx_template_rtx_last = 0, cx_rotate_period = 60000, cx_rotate_last = 0,
      cx_stats_period = 300, cx_stats_last = 0, cx_out = [] :: yfFlow list, cx_trace = (udp_packet, ps), cx_polls = 0, cx_err = False\<rparr>"

theorem meter_conserves_witness:
  "\<exists>cx' outs n.
    feed log_env (rga_advance (cx_pbufring (log_context (replicate 40 udp_packet)))) (cx_front (log_context (replicate 40 udp_packet)))
      4096 (replicate 40 udp_packet) = Some (cx_front cx', outs) \<and>
    qfTraceMain log_env (log_context (replicate 40 udp_packet)) = Some (cx', True) \<and>
    n = length (filter (\<lambda>p. pb_ptime p \<noteq> 0) (take (32 * (length outs div 32)) outs)) \<and>
    stat_packets (ft_stats (cx_flowtab cx')) + stat_seqrej (ft_stats (cx_flowtab cx')) = of_nat n \<and>
    exported flow_pkts (cx_out cx') = stat_packets (ft_stats (cx_flowtab cx'))"
proof (rule meter_conserves [OF logmeter.meter_world_axioms])
  let ?cx = "log_context (replicate 40 udp_packet)"
  show "delivers (e_trace log_env) (cx_trace ?cx) (replicate 40 udp_packet)"
    using list_delivers by (simp add: log_env_def log_context_def)
  show "list_all frame_in_bounds (replicate 40 udp_packet)" using udp_packet_in_bounds by (simp add: list_all_iff)
  show "cx_flowtab ?cx = yfFlowTabAlloc (e_flow log_env) ex_conf" by (simp add: log_context_def)
  show "fr_fragtab (cx_front ?cx) = None \<or> fr_fragtab (cx_front ?cx) = Some (yfFragTabAlloc (e_frag log_env) 0 0)"
    by (simp add: log_context_def)
  show "cx_pbufring ?cx = rgaAlloc False 4096 256 128" by (simp add: log_context_def)
qed (simp_all add: log_context_def)

subsection \<open>The end of the trace\<close>

text \<open>The packets of the last, incomplete group are dropped: the loop ends before the ring is
  processed. In particular a trace of fewer than thirty-two packets leaves no output at all, not even
  an output file, and the meter reports success.\<close>

lemma short_trace_lost:
  assumes "meter_world env I lg" and "ahead env cx fr' outs" and "list_all valid_ok outs" and "length outs < 32"
    and "ring_has (cx_pbufring cx) (fr_pbufs (cx_front cx)) []" and "32 \<le> unat (rg_cap (cx_pbufring cx))"
    and "accounted (e_flow env) (cx_flowtab cx) (lg (cx_out cx)) n" and "\<not> cx_fbuf cx" and "I False (cx_out cx)"
  shows "\<exists>cx'. qfTraceMain env cx = Some (cx', True) \<and> cx_out cx' = cx_out cx \<and> cx_flowtab cx' = cx_flowtab cx"
proof -
  from meter_world.loop_ok [OF assms(1-3,5) _ assms(7), of "e_trv env"] assms(4,6,8,9) obtain c where
    "trace_loop env cx (e_trv env) = Some (c, True)" "\<not> cx_fbuf c" "cx_out c = cx_out cx" "cx_flowtab c = cx_flowtab cx"
    by (auto simp: TRACE_PACKET_GROUP_def)
  then show ?thesis by (simp add: qfTraceMain_def yfFinalFlush_def)
qed

end
