(* ===== verification/ExportMeter.thy ===== *)
theory ExportMeter
  imports MeterRun Output
begin

unbundle bit_operations_syntax

text \<open>
  The meter with its real output: the packet loop of theory \<open>Meter\<close> run with the output operations it calls,
  that is \<open>yfOutputOpen\<close> and \<open>yfOutputClose\<close> of theory \<open>Output\<close> and \<open>yfWriteFlow\<close> and the statistics record of
  theory \<open>Export\<close>, over any IPFIX library that meets the locale \<open>fixbuf\<close>. The output keeps an invariant
  between these calls, which discharges the contract \<open>meter_world\<close> of the loop.
\<close>

subsection \<open>A record for every flow\<close>

lemma bisect_total: "\<lbrakk>0 \<le> x; y < int (length m)\<rbrakk> \<Longrightarrow> \<exists>r. bisect hit below m x y = Some r"
proof (induction hit below m x y rule: bisect.induct)
  case (1 hit below m x y)
  define i where "i = (x + y) div 2"
  show ?case
  proof (cases "y < x")
    case False
    then have i: "0 \<le> i" "i < int (length m)" "i \<le> y" "x \<le> i" using "1.prems" by (auto simp: i_def)
    have "\<exists>r. bisect hit below m (i + 1) y = Some r" if "\<not> hit (m ! nat i)" "below (m ! nat i)"
      using 1(1) [OF False i_def] i that "1.prems" by simp
    moreover have "\<exists>r. bisect hit below m x (i - 1) = Some r" if "\<not> hit (m ! nat i)" "\<not> below (m ! nat i)"
      using 1(2) [OF False i_def] i that "1.prems" by simp
    ultimately show ?thesis using False i by (subst bisect.simps) (simp add: i_def [symmetric] Let_def)
  qed (simp add: bisect.simps)
qed

text \<open>The bisections stay within their arrays, whatever these hold.\<close>

lemma search_total:
  "\<exists>n. qfMapSearch4 m4 a4 = Some n" "\<exists>n. qfMapSearch6 m6 a6 = Some n" "\<exists>b. qfMacListContains ml a = Some b"
  by (auto simp: qfMapSearch4_def qfMapSearch6_def qfMacListContains_def intro!: bisect_total)

lemma reversed_total: "\<exists>b. flow_reversed w f = Some b"
proof -
  have d: "\<exists>d. qfFlowDirection nl k = Some d" for nl k
  proof -
    obtain a b c d where "qfMapSearch4 (ip4map nl) (k_sip4 k) = Some a" "qfMapSearch4 (ip4map nl) (k_dip4 k) = Some b"
      "qfMapSearch6 (ip6map nl) (k_sip6 k) = Some c" "qfMapSearch6 (ip6map nl) (k_dip6 k) = Some d"
      using search_total by meson
    then show ?thesis by (simp add: qfFlowDirection_def)
  qed
  have "\<exists>b. (case yaf_source_netlist w of None \<Rightarrow> Some False
      | Some nl \<Rightarrow> map_option (\<lambda>d. d = QF_DIR_OUT) (qfFlowDirection nl (f_key f))) = Some b"
    using d by (cases "yaf_source_netlist w") auto
  then obtain b where "(case yaf_source_netlist w of None \<Rightarrow> Some False
      | Some nl \<Rightarrow> map_option (\<lambda>d. d = QF_DIR_OUT) (qfFlowDirection nl (f_key f))) = Some b" by blast
  then show ?thesis using search_total(3)
    by (cases b; cases "yaf_source_maclist w") (simp_all add: flow_reversed_def ex_bool_eq)
qed

lemma interfaces_total: "\<exists>r. map_interfaces w k v rv = Some r"
proof -
  have "\<exists>r. qfIfMapAddresses mp k = Some r" for mp
  proof -
    obtain a b c d where "qfMapSearch4 (src4map mp) (k_sip4 k) = Some a" "qfMapSearch4 (dst4map mp) (k_dip4 k) = Some b"
      "qfMapSearch6 (src6map mp) (k_sip6 k) = Some c" "qfMapSearch6 (dst6map mp) (k_dip6 k) = Some d"
      using search_total by meson
    then show ?thesis by (simp add: qfIfMapAddresses_def)
  qed
  then show ?thesis by (force simp: map_interfaces_def split: option.splits)
qed

text \<open>The packets a record tells of.\<close>

definition rec_count :: "frec \<Rightarrow> string \<Rightarrow> u64" where
  "rec_count r n = (case map_of r n of Some (V64 x) \<Rightarrow> x | _ \<Rightarrow> 0)"

definition rec_pkts :: "frec \<Rightarrow> u64" where
  "rec_pkts r = rec_count r ''packetCount'' + rec_count r ''reversePacketCount''"

lemma record_total:
  assumes "key_ok (f_key f)"
  shows "\<exists>f' rec flags. flow_record w f = Some (f', rec, flags, None) \<and> rec_pkts rec = flow_pkts f"
proof -
  obtain rvd where r: "flow_reversed w f = Some rvd" using reversed_total by blast
  obtain key v rv where o: "orient rvd f = (key, v, rv)" by (rule prod_cases3)
  obtain vr where "map_interfaces w (f_key f) v rv = Some vr" using interfaces_total by blast
  then obtain f' rec flags err where fr: "flow_record w f = Some (f', rec, flags, err)"
    using r o by (cases vr) (simp add: flow_record_def split_beta Let_def)
  from fr obtain rvd' key' v' rv' i e where p: "flow_reversed w f = Some rvd'" "orient rvd' f = (key', v', rv')"
    "rec = base_fields f v' rv' @ port_fields key' @ fst (addr_fields w key') @ tcp_recs f key' v' rv' @
       mac_fields f key' (with_if i v') (with_if e rv')"
    "err = (if snd (addr_fields w key') = 0 then Some (IllegalVersion (k_version key')) else None)"
    by (rule flow_record_parts)
  have "k_version key' = 4 \<or> k_version key' = 6" using p(1,2) assms
    by (auto simp: orient_def key_ok_def yfFlowKeyReverse_def Let_def split: if_splits)
  then have "snd (addr_fields w key') \<noteq> 0" by (auto simp: addr_fields_def YTF_defs)
  then have "err = None" using p(4) by simp
  moreover have "rec_pkts rec = fv_pkt v' + fv_pkt rv'" unfolding p(3) by (simp add: rec_pkts_def rec_count_def base_fields_def)
  moreover have "fv_pkt v' + fv_pkt rv' = flow_pkts f" using p(2) by (auto simp: orient_def flow_pkts_def add.commute split: if_splits)
  ultimately show ?thesis using fr by auto
qed

subsection \<open>The output of the program\<close>

text \<open>The state of the output: the part the open and close functions work on, the buffer of the open output
  (the pointer \<open>octx->fbuf\<close>), the buffers closed so far and the number of openings, which selects the time the
  clock shows. Writing without a buffer fails.\<close>

record 'b live =
  lv_out :: outputs
  lv_buf :: "'b option"
  lv_past :: "'b list"
  lv_opens :: nat

definition live_open ::
  "('b, 'm) fbuf_ops \<Rightarrow> (string \<Rightarrow> bool) \<Rightarrow> (nat \<Rightarrow> nat) \<Rightarrow> qfOutputContext \<Rightarrow> 'b live \<Rightarrow> 'b live \<times> bool" where
  "live_open ops can clock octx w =
     (case yfOutputOpen ops can (clock (lv_opens w)) octx (lv_out w) of
        (st, Inl e) \<Rightarrow> (w\<lparr>lv_out := st, lv_opens := lv_opens w + 1\<rparr>, False)
      | (st, Inr b) \<Rightarrow> (w\<lparr>lv_out := st, lv_opens := lv_opens w + 1, lv_buf := Some b\<rparr>, True))"

definition live_close :: "('b, 'm) fbuf_ops \<Rightarrow> 'b live \<Rightarrow> bool \<Rightarrow> 'b live" where
  "live_close ops w flush =
     (case lv_buf w of None \<Rightarrow> w
      | Some b \<Rightarrow> (case yfOutputClose ops (lv_out w) b flush of
          (st, b, ok) \<Rightarrow> w\<lparr>lv_out := st, lv_buf := None, lv_past := lv_past w @ [b]\<rparr>))"

definition live_flow :: "('b, 'm) fbuf_ops \<Rightarrow> 'b live writer" where
  "live_flow ops w f =
     (case lv_buf w of None \<Rightarrow> (w, False)
      | Some b \<Rightarrow> (case yfWriteFlow ops (os_writer (lv_out w)) b f of
          None \<Rightarrow> (w, False)
        | Some (f, b, ok, err) \<Rightarrow> (w\<lparr>lv_buf := Some b\<rparr>, ok)))"

definition live_stats :: "('b, 'm) fbuf_ops \<Rightarrow> 'b live \<Rightarrow> yfIpfixStats \<Rightarrow> 'b live \<times> bool" where
  "live_stats ops w r =
     (case lv_buf w of None \<Rightarrow> (w, False)
      | Some b \<Rightarrow> (case write_stats ops (os_writer (lv_out w)) b r of
          (wr, b, ok, err) \<Rightarrow> (w\<lparr>lv_out := (lv_out w)\<lparr>os_writer := wr\<rparr>, lv_buf := Some b\<rparr>, ok)))"

definition live_call :: "('b \<Rightarrow> 'b \<times> fb_error option) \<Rightarrow> 'b live \<Rightarrow> 'b live \<times> bool" where
  "live_call f w =
     (case lv_buf w of None \<Rightarrow> (w, False) | Some b \<Rightarrow> (case f b of (b, e) \<Rightarrow> (w\<lparr>lv_buf := Some b\<rparr>, e = None)))"

definition live_ops ::
  "('b, 'm) fbuf_ops \<Rightarrow> (string \<Rightarrow> bool) \<Rightarrow> (nat \<Rightarrow> nat) \<Rightarrow> qfOutputContext \<Rightarrow> 'b live out_ops" where
  "live_ops ops can clock octx =
     \<lparr>out_open = live_open ops can clock octx, out_close = live_close ops, out_flow = live_flow ops,
      out_stats = live_stats ops, out_templates = live_call (fbSessionExportTemplates ops),
      out_emit = live_call (fBufEmit ops)\<rparr>"

text \<open>Everything handed to the library, output after output, and the flow records among it.\<close>

definition all_recs :: "('b \<Rightarrow> 'm fbview) \<Rightarrow> 'b live \<Rightarrow> (u16 \<times> u16 \<times> frec) list" where
  "all_recs view w = concat (map (\<lambda>b. vw_recs (view b)) (lv_past w)) @ (case lv_buf w of None \<Rightarrow> [] | Some b \<Rightarrow> vw_recs (view b))"

definition flow_recs :: "(u16 \<times> u16 \<times> frec) list \<Rightarrow> frec list" where
  "flow_recs rs = map (\<lambda>(i, t, r). r) (filter (\<lambda>(i, t, r). t \<noteq> YAF_OPTIONS_TID) rs)"

lemma flow_recs_append [simp]: "flow_recs (xs @ ys) = flow_recs xs @ flow_recs ys"
  by (simp add: flow_recs_def)

text \<open>A flow that stands for a record in the log of the meter: it has the record's packets.\<close>

definition rec_flow :: "frec \<Rightarrow> yfFlow" where
  "rec_flow r = zero_flow\<lparr>f_val := zero_val\<lparr>fv_pkt := rec_pkts r\<rparr>, f_rval := zero_val\<rparr>"

lemma rec_flow_pkts [simp]: "flow_pkts (rec_flow r) = rec_pkts r"
  by (simp add: rec_flow_def flow_pkts_def zero_val_def)

lemma exported_rec_flows: "exported flow_pkts (map rec_flow rs) = sum_list (map rec_pkts rs)"
  by (simp add: exported_def comp_def)

text \<open>The invariant of the output. An open buffer has its internal templates and the exported template of the
  statistics, with the full flow template selected as internal one; every record was appended under the internal
  template that describes it; a lock file exists at most for the lock that is held.\<close>

definition buf_ready :: "'m fbview \<Rightarrow> bool" where
  "buf_ready v \<longleftrightarrow> vw_int v YAF_FLOW_FULL_TID \<noteq> None \<and> vw_int v YAF_OPTIONS_TID \<noteq> None \<and>
     vw_ext v YAF_OPTIONS_TID \<noteq> None \<and> vw_icur v = Some YAF_FLOW_FULL_TID"

definition recs_described :: "(u16 \<times> u16 \<times> frec) list \<Rightarrow> bool" where
  "recs_described rs \<longleftrightarrow> (\<forall>(i, t, r) \<in> set rs. i = (if t = YAF_OPTIONS_TID then YAF_OPTIONS_TID else YAF_FLOW_FULL_TID))"

definition lock_fine :: "bool \<Rightarrow> outputs \<Rightarrow> bool" where
  "lock_fine opened st \<longleftrightarrow> (case os_lock st of None \<Rightarrow> True
     | Some l \<Rightarrow> (held l \<longrightarrow> opened) \<and> (\<forall>p. p @ ''.lock'' \<in> os_fs st \<longrightarrow> held l \<and> lpath l = Some (p @ ''.lock'')))"

definition live_ok :: "('b \<Rightarrow> 'm fbview) \<Rightarrow> bool \<Rightarrow> 'b live \<Rightarrow> bool" where
  "live_ok view opened w \<longleftrightarrow> lock_fine opened (lv_out w) \<and> recs_described (all_recs view w) \<and>
     (if opened then \<exists>b. lv_buf w = Some b \<and> buf_ready (view b) else lv_buf w = None)"

lemma flow_tid_not_options: "fl < 0x100 \<Longrightarrow> flow_tid fl \<noteq> YAF_OPTIONS_TID"
proof
  assume fl: "fl < 0x100" and e: "flow_tid fl = YAF_OPTIONS_TID"
  have "(YAF_OPTIONS_TID AND NOT YAF_FLOW_BASE_TID :: u16) = 0x4000" by simp
  then have "fl = 0x4000" using flow_tid_flags [OF fl] unfolding e by simp
  then show False using fl by simp
qed

context fixbuf
begin

lemma add_stats:
  "\<exists>b' m. add_stats_template ops b = (b', None) \<and>
    view b' = (view b)\<lparr>vw_int := (vw_int (view b))(YAF_OPTIONS_TID \<mapsto> m), vw_ext := (vw_ext (view b))(YAF_OPTIONS_TID \<mapsto> m)\<rparr>"
proof -
  obtain m where m: "fbTemplateAppendSpecArray ops yaf_stats_option_spec 0 = Inr m" using build by blast
  let ?m = "fbTemplateSetOptionsScope ops m 2"
  obtain b1 where b1: "fbSessionAddTemplate ops b True YAF_OPTIONS_TID ?m = (b1, None)"
    "view b1 = (view b)\<lparr>vw_int := (vw_int (view b))(YAF_OPTIONS_TID \<mapsto> ?m)\<rparr>" using add_int by blast
  obtain b2 where b2: "fbSessionAddTemplate ops b1 False YAF_OPTIONS_TID ?m = (b2, None)"
    "view b2 = (view b1)\<lparr>vw_ext := (vw_ext (view b1))(YAF_OPTIONS_TID \<mapsto> ?m)\<rparr>" using add_ext by blast
  show ?thesis using m b1 b2 by (intro exI [of _ b2] exI [of _ ?m]) (simp add: add_stats_template_def Let_def)
qed

lemma init_session:
  "\<exists>b. yfInitExporterSession ops w d t = (w\<lparr>yaf_start_time := t * 1000\<rparr>, Inr b) \<and> vw_recs (view b) = [] \<and>
    vw_int (view b) YAF_FLOW_FULL_TID \<noteq> None \<and> vw_int (view b) YAF_OPTIONS_TID \<noteq> None \<and> vw_ext (view b) YAF_OPTIONS_TID \<noteq> None"
proof -
  let ?b = "fbSessionSetDomain ops (fbSessionAlloc ops) d"
  obtain m where m: "yfAllocInternalTemplate ops = Inr m" using build unfolding yfAllocInternalTemplate_def by blast
  obtain b1 where b1: "fbSessionAddTemplate ops ?b True YAF_FLOW_FULL_TID m = (b1, None)"
    "view b1 = (view ?b)\<lparr>vw_int := (vw_int (view ?b))(YAF_FLOW_FULL_TID \<mapsto> m)\<rparr>" using add_int by blast
  obtain b2 m2 where b2: "add_stats_template ops b1 = (b2, None)"
    "view b2 = (view b1)\<lparr>vw_int := (vw_int (view b1))(YAF_OPTIONS_TID \<mapsto> m2), vw_ext := (vw_ext (view b1))(YAF_OPTIONS_TID \<mapsto> m2)\<rparr>"
    using add_stats by blast
  show ?thesis using m b1 b2 by (intro exI [of _ b2]) (simp add: yfInitExporterSession_def Let_def domain new_session)
qed

lemma start_writer:
  assumes "vw_int (view b) YAF_FLOW_FULL_TID \<noteq> None" and "vw_int (view b) YAF_OPTIONS_TID \<noteq> None"
    and "vw_ext (view b) YAF_OPTIONS_TID \<noteq> None"
  shows "\<exists>b'. writer_start ops b = Inr b' \<and> buf_ready (view b') \<and> vw_recs (view b') = vw_recs (view b)"
proof -
  obtain b1 where b1: "fbSessionExportTemplates ops b = (b1, None)" "view b1 = view b" using send_templates by blast
  obtain b2 where b2: "fBufSetInternalTemplate ops b1 YAF_FLOW_FULL_TID = (b2, None)"
    "view b2 = (view b)\<lparr>vw_icur := Some YAF_FLOW_FULL_TID\<rparr>"
    using set_int [of b1 YAF_FLOW_FULL_TID] assms(1) b1(2) by auto
  show ?thesis using b1 b2 assms by (intro exI [of _ b2]) (simp add: writer_start_def buf_ready_def)
qed

text \<open>A new writer is ready, to a file or over the network.\<close>

lemma new_writer:
  "\<exists>w' b. yfWriterForFile ops w path d t = (w', Inr b) \<and> buf_ready (view b) \<and> vw_recs (view b) = []"
  "\<exists>w' b. yfWriterForSpec ops w spec d t = (w', Inr b) \<and> buf_ready (view b) \<and> vw_recs (view b) = []"
proof -
  obtain b where b: "yfInitExporterSession ops w d t = (w\<lparr>yaf_start_time := t * 1000\<rparr>, Inr b)" "vw_recs (view b) = []"
    "vw_int (view b) YAF_FLOW_FULL_TID \<noteq> None" "vw_int (view b) YAF_OPTIONS_TID \<noteq> None" "vw_ext (view b) YAF_OPTIONS_TID \<noteq> None"
    using init_session by blast
  show "\<exists>w' b. yfWriterForFile ops w path d t = (w', Inr b) \<and> buf_ready (view b) \<and> vw_recs (view b) = []"
    using start_writer [of "fBufAllocForExport ops b (ExporterFile path)"] b by (auto simp: yfWriterForFile_def new_buffer)
  show "\<exists>w' b. yfWriterForSpec ops w spec d t = (w', Inr b) \<and> buf_ready (view b) \<and> vw_recs (view b) = []"
    using start_writer [of "fbSessionSetDomain ops (fBufAllocForExport ops b (ExporterNet spec)) d"] b
    by (auto simp: yfWriterForSpec_def new_buffer domain)
qed

text \<open>The statistics record is appended under its own templates, and the internal template of the flows is
  selected again behind it.\<close>

lemma stats_written:
  assumes "buf_ready (view b)"
  shows "\<exists>w' b'. write_stats ops w b r = (w', b', True, None) \<and> buf_ready (view b') \<and>
    vw_recs (view b') = vw_recs (view b) @ [(YAF_OPTIONS_TID, YAF_OPTIONS_TID, stats_fields r)]"
proof -
  obtain b1 where b1: "(if stats_template_initialized w then (b, None) else add_stats_template ops b) = (b1, None)"
    "buf_ready (view b1)" "vw_recs (view b1) = vw_recs (view b)"
  proof (cases "stats_template_initialized w")
    case False
    obtain b1 m where "add_stats_template ops b = (b1, None)" "view b1 = (view b)\<lparr>vw_int := (vw_int (view b))(YAF_OPTIONS_TID \<mapsto> m),
        vw_ext := (vw_ext (view b))(YAF_OPTIONS_TID \<mapsto> m)\<rparr>" using add_stats by blast
    then show ?thesis using assms False that by (simp add: buf_ready_def)
  qed (use assms that in simp)
  note rd = b1(2) [unfolded buf_ready_def]
  obtain b2 where b2: "fBufSetInternalTemplate ops b1 YAF_OPTIONS_TID = (b2, None)" "view b2 = (view b1)\<lparr>vw_icur := Some YAF_OPTIONS_TID\<rparr>"
    using set_int [of b1 YAF_OPTIONS_TID] rd by auto
  obtain b3 where b3: "fBufSetExportTemplate ops b2 YAF_OPTIONS_TID = (b3, None)" "view b3 = (view b2)\<lparr>vw_cur := Some YAF_OPTIONS_TID\<rparr>"
    using set_ext [of b2 YAF_OPTIONS_TID] rd b2(2) by auto
  obtain b4 where b4: "fBufAppend ops b3 (stats_fields r) = (b4, None)"
    "view b4 = (view b3)\<lparr>vw_recs := vw_recs (view b3) @ [(YAF_OPTIONS_TID, YAF_OPTIONS_TID, stats_fields r)]\<rparr>"
    using append [of b3 YAF_OPTIONS_TID YAF_OPTIONS_TID "stats_fields r"] b2(2) b3(2) by auto
  obtain b5 where b5: "fBufSetInternalTemplate ops b4 YAF_FLOW_FULL_TID = (b5, None)" "view b5 = (view b4)\<lparr>vw_icur := Some YAF_FLOW_FULL_TID\<rparr>"
    using set_int [of b4 YAF_FLOW_FULL_TID] rd b2(2) b3(2) b4(2) by auto
  have "yfEnsureStatsTemplate ops w b = (w\<lparr>stats_template_initialized := True\<rparr>, b3, True, None)"
    using b1(1) b2(1) b3(1) unfolding yfEnsureStatsTemplate_def by (simp add: yfSetExportTemplate_def Let_def)
  then show ?thesis using b4(1) b5(1) rd b1(3) b2(2) b3(2) b4(2) b5(2) by (simp add: write_stats_def buf_ready_def)
qed

lemma output_opened:
  assumes "lock_fine False st" and "\<And>p. can p"
  shows "\<exists>st' b. yfOutputOpen ops can t octx st = (st', Inr b) \<and> lock_fine True st' \<and> buf_ready (view b) \<and> vw_recs (view b) = []"
proof (cases "transport octx = None")
  case False
  then show ?thesis using new_writer(2) [of "os_writer st" "connspec octx" "odid octx" "of_nat t"] assms(1)
    by (fastforce simp: yfOutputOpen_def lock_fine_def split: option.splits)
next
  case True
  let ?n = "output_name octx t (os_serial st)"
  let ?st = "if rotate_period octx \<noteq> 0 then st\<lparr>os_serial := os_serial st + 1\<rparr> else st"
  obtain w' b where w: "yfWriterForFile ops (os_writer st) ?n (odid octx) (of_nat t) = (w', Inr b)" "buf_ready (view b)" "vw_recs (view b) = []"
    using new_writer(1) by blast
  show ?thesis
  proof (cases "os_lock st")
    case None
    then show ?thesis using w True by (simp add: yfOutputOpen_def Let_def lock_fine_def)
  next
    case (Some l)
    then have l: "\<not> held l" "\<And>p. p @ ''.lock'' \<notin> os_fs st" using assms(1) by (auto simp: lock_fine_def)
    then have "air_lock_acquire can (os_fs st) l ?n =
        (insert (?n @ ''.lock'') (os_fs st), l\<lparr>lpath := Some (?n @ ''.lock''), held := True\<rparr>, True)"
      using assms(2) by (simp add: air_lock_acquire_def Let_def)
    then show ?thesis using w True Some l
      by (cases "length (out_path octx) = 1 \<and> out_path octx \<noteq> ''-''") (simp_all add: yfOutputOpen_def Let_def lock_fine_def)
  qed
qed

lemma output_closed:
  assumes "lock_fine True st"
  shows "\<exists>st' b'. yfOutputClose ops st b fl = (st', b', True) \<and> lock_fine False st' \<and> vw_recs (view b') = vw_recs (view b)"
proof -
  obtain b1 where "fBufEmit ops b = (b1, None)" "view b1 = view b" using emit by blast
  then obtain b2 where b: "yfWriterClose ops b fl = (b2, None)" "vw_recs (view b2) = vw_recs (view b)"
    using free by (cases fl) (simp_all add: yfWriterClose_def)
  show ?thesis
  proof (cases "os_lock st")
    case None
    then show ?thesis using b by (simp add: yfOutputClose_def lock_fine_def)
  next
    case (Some l)
    then show ?thesis using b assms
      by (cases "held l"; cases "lpath l") (auto simp: yfOutputClose_def lock_fine_def air_lock_release_def)
  qed
qed

text \<open>What the output promises the meter: its operations succeed and keep the invariant, writing a flow adds a
  record with the packets of the flow, and nothing else touches the flow records.\<close>

lemma live_flow_logs: "logs (live_ok view True) (live_flow ops) (\<lambda>w. map rec_flow (flow_recs (all_recs view w)))"
  unfolding logs_def
proof (intro allI impI)
  fix w and f :: yfFlow assume a: "live_ok view True w \<and> key_ok (f_key f)"
  then obtain b where b: "lv_buf w = Some b" "buf_ready (view b)" by (auto simp: live_ok_def)
  obtain f' rec flags where r: "flow_record (os_writer (lv_out w)) f = Some (f', rec, flags, None)" "rec_pkts rec = flow_pkts f"
    using a record_total by blast
  have i: "vw_icur (view b) = Some YAF_FLOW_FULL_TID" using b(2) by (simp add: buf_ready_def)
  from write_flow [OF r(1) i] obtain b' tm where
    f: "yfWriteFlow ops (os_writer (lv_out w)) b f = Some (f', b', True, None)"
    "view b' = (view b)\<lparr>vw_ext := tm, vw_cur := Some (flow_tid flags),
       vw_recs := vw_recs (view b) @ [(YAF_FLOW_FULL_TID, flow_tid flags, rec)]\<rparr>"
    "\<forall>t. t \<noteq> flow_tid flags \<longrightarrow> tm t = vw_ext (view b) t" by blast
  have t: "flow_tid flags \<noteq> YAF_OPTIONS_TID" using flow_tid_not_options [OF record_flags_small [OF r(1)]] .
  have l: "live_flow ops w f = (w\<lparr>lv_buf := Some b'\<rparr>, True)" using b(1) f(1) by (simp add: live_flow_def)
  have rs: "all_recs view (w\<lparr>lv_buf := Some b'\<rparr>) = all_recs view w @ [(YAF_FLOW_FULL_TID, flow_tid flags, rec)]"
    using b(1) f(2) by (simp add: all_recs_def)
  have "buf_ready (view b')" using b(2) f(2,3) t by (simp add: buf_ready_def)
  then have "live_ok view True (w\<lparr>lv_buf := Some b'\<rparr>)"
    using a rs t by (simp add: live_ok_def recs_described_def)
  then show "live_ok view True (fst (live_flow ops w f)) \<and> snd (live_flow ops w f) \<and>
      (\<exists>x. map rec_flow (flow_recs (all_recs view (fst (live_flow ops w f)))) =
        map rec_flow (flow_recs (all_recs view w)) @ [x] \<and> flow_pkts x = flow_pkts f)"
    using l rs r(2) t by (simp add: flow_recs_def)
qed

lemma live_open_ok:
  assumes "live_ok view False w" and "\<And>p. can p"
  shows "live_ok view True (fst (live_open ops can clock octx w))" "snd (live_open ops can clock octx w)"
    "all_recs view (fst (live_open ops can clock octx w)) = all_recs view w"
proof -
  from output_opened [of "lv_out w" can "clock (lv_opens w)" octx] assms obtain st b where
    o: "yfOutputOpen ops can (clock (lv_opens w)) octx (lv_out w) = (st, Inr b)" "lock_fine True st" "buf_ready (view b)" "vw_recs (view b) = []"
    by (auto simp: live_ok_def)
  show s: "snd (live_open ops can clock octx w)"
    and r: "all_recs view (fst (live_open ops can clock octx w)) = all_recs view w"
    using o assms(1) by (simp_all add: live_open_def all_recs_def live_ok_def)
  then show "live_ok view True (fst (live_open ops can clock octx w))"
    using o assms(1) unfolding live_ok_def r by (simp add: live_open_def)
qed

lemma live_close_ok:
  assumes "live_ok view True w"
  shows "live_ok view False (live_close ops w fl)" "all_recs view (live_close ops w fl) = all_recs view w"
proof -
  obtain b where b: "lv_buf w = Some b" "lock_fine True (lv_out w)" using assms by (auto simp: live_ok_def)
  from output_closed [OF b(2), of b fl] obtain st b' where
    c: "yfOutputClose ops (lv_out w) b fl = (st, b', True)" "lock_fine False st" "vw_recs (view b') = vw_recs (view b)" by blast
  show r: "all_recs view (live_close ops w fl) = all_recs view w" using b c by (simp add: live_close_def all_recs_def)
  show "live_ok view False (live_close ops w fl)" using assms b c unfolding live_ok_def r by (simp add: live_close_def)
qed

lemma live_stats_ok:
  assumes "live_ok view True w"
  shows "live_ok view True (fst (live_stats ops w r))" "snd (live_stats ops w r)"
    "flow_recs (all_recs view (fst (live_stats ops w r))) = flow_recs (all_recs view w)"
proof -
  obtain b where b: "lv_buf w = Some b" "buf_ready (view b)" using assms by (auto simp: live_ok_def)
  from stats_written [OF b(2), of "os_writer (lv_out w)" r] obtain w' b' where
    s: "write_stats ops (os_writer (lv_out w)) b r = (w', b', True, None)" "buf_ready (view b')"
    "vw_recs (view b') = vw_recs (view b) @ [(YAF_OPTIONS_TID, YAF_OPTIONS_TID, stats_fields r)]" by blast
  have l: "live_stats ops w r = (w\<lparr>lv_out := (lv_out w)\<lparr>os_writer := w'\<rparr>, lv_buf := Some b'\<rparr>, True)"
    using b(1) s(1) by (simp add: live_stats_def)
  have rs: "all_recs view (w\<lparr>lv_out := (lv_out w)\<lparr>os_writer := w'\<rparr>, lv_buf := Some b'\<rparr>) =
      all_recs view w @ [(YAF_OPTIONS_TID, YAF_OPTIONS_TID, stats_fields r)]"
    using b(1) s(3) by (simp add: all_recs_def)
  show "snd (live_stats ops w r)" using l by simp
  show "flow_recs (all_recs view (fst (live_stats ops w r))) = flow_recs (all_recs view w)"
    using l rs by (simp add: flow_recs_def)
  have "lock_fine True ((lv_out w)\<lparr>os_writer := w'\<rparr>)"
    using assms by (auto simp: live_ok_def lock_fine_def split: option.splits)
  then show "live_ok view True (fst (live_stats ops w r))"
    using assms l rs s(2) by (simp add: live_ok_def recs_described_def)
qed

lemma live_call_ok:
  assumes "live_ok view True w" and "\<And>b. \<exists>b'. f b = (b', None) \<and> view b' = view b"
  shows "live_ok view True (fst (live_call f w))" "all_recs view (fst (live_call f w)) = all_recs view w"
proof -
  obtain b where b: "lv_buf w = Some b" using assms(1) by (auto simp: live_ok_def)
  obtain b' where c: "f b = (b', None)" "view b' = view b" using assms(2) by blast
  show r: "all_recs view (fst (live_call f w)) = all_recs view w" using b c by (simp add: live_call_def all_recs_def)
  show "live_ok view True (fst (live_call f w))" using assms(1) b c unfolding live_ok_def r by (simp add: live_call_def)
qed

end

text \<open>So the meter can run on it.\<close>

lemma live_meter:
  assumes "fixbuf ops view elems" and "\<And>p. can p" and "e_out env = live_ops ops can clock octx"
    and "ghash_table (e_flow env) yfFlowKeyEqual" and "ghash_table (e_frag env) yfFragKeyEqual" and "\<And>n. \<not> e_quit env n"
  shows "meter_world env (live_ok view) (\<lambda>w. map rec_flow (flow_recs (all_recs view w)))"
proof (rule meter_world.intro)
  show "logs (live_ok view True) (out_flow (e_out env)) (\<lambda>w. map rec_flow (flow_recs (all_recs view w)))"
    using fixbuf.live_flow_logs [OF assms(1)] by (simp add: assms(3) live_ops_def)
qed (use assms fixbuf.live_open_ok [OF assms(1)] fixbuf.live_close_ok [OF assms(1)] fixbuf.live_stats_ok [OF assms(1)]
    fixbuf.live_call_ok [OF assms(1)] fixbuf.send_templates [OF assms(1)] in \<open>simp_all add: live_ops_def\<close>)

text \<open>The whole run on it: the packet counters of the records handed over are the packets of the complete groups.\<close>

lemma export_run:
  assumes "fixbuf ops view elems" and "\<And>p. can p" and "e_out env = live_ops ops can clock octx"
    and "ghash_table (e_flow env) yfFlowKeyEqual" and "ghash_table (e_frag env) yfFragKeyEqual" and "\<And>n. \<not> e_quit env n"
    and "delivers (e_trace env) (cx_trace cx) ps" and "list_all frame_in_bounds ps"
    and "cx_flowtab cx = yfFlowTabAlloc (e_flow env) conf"
    and "fr_fragtab (cx_front cx) = None \<or> fr_fragtab (cx_front cx) = Some (yfFragTabAlloc (e_frag env) idle mx)"
    and "cx_pbufring cx = rgaAlloc False buf sz cap" and "0 < sz" and "32 \<le> unat cap" and "unat sz * unat cap < 2 ^ 64"
    and "\<not> cx_fbuf cx" and "lv_buf (cx_out cx) = None" and "lv_past (cx_out cx) = []" and "lock_fine False (lv_out (cx_out cx))"
  shows "\<exists>cx' outs n.
    feed env (rga_advance (cx_pbufring cx)) (cx_front cx) buf ps = Some (cx_front cx', outs) \<and>
    qfTraceMain env cx = Some (cx', True) \<and>
    n = length (filter (\<lambda>p. pb_ptime p \<noteq> 0) (take (32 * (length outs div 32)) outs)) \<and>
    sum_list (map rec_pkts (flow_recs (all_recs view (cx_out cx')))) + stat_seqrej (ft_stats (cx_flowtab cx')) = of_nat n \<and>
    recs_described (all_recs view (cx_out cx'))"
proof -
  have z: "all_recs view (cx_out cx) = []" using assms(16,17) by (simp add: all_recs_def)
  then have "live_ok view False (cx_out cx)" using assms(16,18) by (simp add: live_ok_def recs_described_def)
  from meter_run [OF live_meter [OF assms(1-6)] assms(7-15) this] z obtain cx' outs n where
    "feed env (rga_advance (cx_pbufring cx)) (cx_front cx) buf ps = Some (cx_front cx', outs)"
    "qfTraceMain env cx = Some (cx', True)"
    "n = length (filter (\<lambda>p. pb_ptime p \<noteq> 0) (take (32 * (length outs div 32)) outs))"
    "stat_packets (ft_stats (cx_flowtab cx')) + stat_seqrej (ft_stats (cx_flowtab cx')) = of_nat n"
    "exported flow_pkts (map rec_flow (flow_recs (all_recs view (cx_out cx')))) = stat_packets (ft_stats (cx_flowtab cx'))"
    "live_ok view False (cx_out cx')" by (auto simp: flow_recs_def)
  then show ?thesis unfolding exported_rec_flows live_ok_def by (intro exI [of _ cx'] exI [of _ outs] exI [of _ n]) simp
qed

text \<open>The world of theory \<open>MeterRun\<close> with the real output on the buffer that keeps what it is given, under a lock
  and rotating every minute.\<close>

definition live_env where
  "live_env = \<lparr>e_flow = bucket_ops yfFlowKeyHash yfFlowKeyEqual, e_frag = bucket_ops yfFragKeyHash yfFragKeyEqual,
     e_sort = c_sort, e_random = (\<lambda>r :: u64. (r, r + 1)), e_out = live_ops log_fbuf (\<lambda>p. True) (\<lambda>n. 1000 + n) ex_octx,
     e_trace = list_trace, e_quit = (\<lambda>n. False), e_fraginfo = e_fraginfo log_env, e_trv = 0,
     e_start_time = 0, e_dropped = 0, e_host_ip = 0, e_odid = 0\<rparr>"

definition live_context where
  "live_context ps =
     \<lparr>cx_front = cx_front (log_context ps), cx_flowtab = yfFlowTabAlloc (e_flow live_env) ex_conf,
      cx_pbufring = rgaAlloc False 4096 256 128, cx_fbuf = False,
      cx_template_rtx_period = 600, cx_template_rtx_last = 0, cx_rotate_period = 60000, cx_rotate_last = 0,
      cx_stats_period = 300, cx_stats_last = 0,
      cx_out = \<lparr>lv_out = \<lparr>os_writer = ex_writer, os_fs = {}, os_lock = Some AIR_LOCK_INIT, os_serial = 0\<rparr>,
        lv_buf = None :: log_buf option, lv_past = [], lv_opens = 0\<rparr>, cx_trace = (udp_packet, ps), cx_polls = 0, cx_err = False\<rparr>"

end
