(* ===== verification/Setup.thy ===== *)
theory Setup
  imports ConfigSpec ExportMeter
begin

unbundle bit_operations_syntax

text \<open>
  The start of the program: what \<open>src/qof.c\<close> makes of its command line, the set-up of the input, the output and
  the parts between them (\<open>src/qofconfig.c\<close>), opening a trace (\<open>src/qofltrace.c\<close>), and \<open>main\<close> around the packet
  loop of theory \<open>Meter\<close>.

  The option library has stored the command line: \<open>qof_options\<close> holds the variables it fills. A start either
  gives a context or stops, with the reason (\<open>air_opterr\<close> and \<open>qfContextTerminate\<close> exit); \<open>Crash\<close> is undefined
  behaviour, such as \<open>qfContextTerminate\<close> reading the message of an error that was never set.

  Parameters (record \<open>start_env\<close>): those of the configuration, the file system, terminals, the environment, the
  privilege library, the trace library, whether the program was built with detuning, and where the ring and the
  packet buffers are. An \<open>int\<close> multiplication that overflows is undefined in C; here it wraps.
\<close>

subsection \<open>Command line\<close>

record detune_options =
  do_bucket_max :: i32
  do_bucket_rate :: i32
  do_bucket_delay :: i32
  do_drop_p :: real
  do_delay_max :: i32
  do_alpha :: i32

record qof_options =
  opt_in :: "string option"
  opt_out :: "string option"
  opt_filter :: "string option"
  opt_rotate :: i32
  opt_lock :: bool
  opt_stats :: i32
  opt_ipfix :: "string option"
  opt_yaml :: "string option"
  opt_template_refresh :: i32
  opt_observation_domain :: i32
  opt_ipfix_port :: "string option"
  opt_tls :: bool
  opt_tls_ca :: "string option"
  opt_tls_cert :: "string option"
  opt_tls_key :: "string option"
  opt_detune :: detune_options

text \<open>The variables before the command line is read.\<close>

definition no_options :: qof_options where
  "no_options = \<lparr>opt_in = None, opt_out = None, opt_filter = None, opt_rotate = 0, opt_lock = False, opt_stats = 0,
     opt_ipfix = None, opt_yaml = None, opt_template_refresh = 0, opt_observation_domain = 0, opt_ipfix_port = None,
     opt_tls = False, opt_tls_ca = None, opt_tls_cert = None, opt_tls_key = None,
     opt_detune = \<lparr>do_bucket_max = 0, do_bucket_rate = 0, do_bucket_delay = 0, do_drop_p = 0, do_delay_max = 0, do_alpha = 4\<rparr>\<rparr>"

record 's qfInputContext =
  inuri :: "string option"
  bpf_expr :: "string option"
  pktsrc :: "'s option"
  detune :: "qofDetune option"

definition zero_ictx :: "'s qfInputContext" where
  "zero_ictx = \<lparr>inuri = None, bpf_expr = None, pktsrc = None, detune = None\<rparr>"

definition zero_octx :: qfOutputContext where
  "zero_octx = \<lparr>outspec = None, transport = None, enable_tls = False, connspec = no_connspec, odid = 0,
     template_rtx_period = 0, rotate_period = 0, stats_period = 0, enable_lock = False\<rparr>"

text \<open>What the option library writes straight into the context.\<close>

definition store_options :: "qof_options \<Rightarrow> 's qfInputContext \<times> qfOutputContext \<Rightarrow> 's qfInputContext \<times> qfOutputContext" where
  "store_options o' c = (case c of (ictx, octx) \<Rightarrow>
     (ictx\<lparr>inuri := opt_in o', bpf_expr := opt_filter o'\<rparr>,
      octx\<lparr>outspec := opt_out o', enable_lock := opt_lock o', transport := opt_ipfix o',
        odid := opt_observation_domain o', enable_tls := opt_tls o',
        connspec := (connspec octx)\<lparr>cs_svc := opt_ipfix_port o', cs_ssl_ca_file := opt_tls_ca o',
          cs_ssl_cert_file := opt_tls_cert o', cs_ssl_key_file := opt_tls_key o'\<rparr>\<rparr>))"

definition parse_detune :: "detune_options \<Rightarrow> qofDetune option" where
  "parse_detune d =
     (if do_bucket_max d \<noteq> 0 \<or> do_bucket_rate d \<noteq> 0 \<or> do_delay_max d \<noteq> 0 \<or> do_drop_p d \<noteq> 0 then
        let d = (if \<not> (do_bucket_max d \<noteq> 0 \<and> do_bucket_rate d \<noteq> 0) then d\<lparr>do_bucket_max := 0, do_bucket_rate := 0\<rparr> else d)
        in Some (qfDetuneAlloc (do_bucket_max d) (do_bucket_rate d) (do_bucket_delay d) (do_drop_p d) (do_delay_max d) (do_alpha d))
      else None)"

text \<open>Periods are given in seconds and kept in milliseconds. \<open>built\<close> is \<open>QOF_ENABLE_DETUNE\<close>.\<close>

definition yfParseOptions ::
  "bool \<Rightarrow> qof_options \<Rightarrow> 's qfInputContext \<times> qfOutputContext \<Rightarrow> 's qfInputContext \<times> qfOutputContext" where
  "yfParseOptions built o' c =
     (let (ictx, octx) = store_options o' c;
          octx = (if opt_rotate o' \<noteq> 0 then octx\<lparr>rotate_period := opt_rotate o' * 1000\<rparr> else octx);
          octx = (if opt_stats o' \<noteq> 0 then octx\<lparr>stats_period := opt_stats o' * 1000\<rparr> else octx);
          octx = (if opt_template_refresh o' \<noteq> 0 then octx\<lparr>template_rtx_period := opt_template_refresh o' * 1000\<rparr> else octx);
          ictx = (if built then (case parse_detune (opt_detune o') of Some d \<Rightarrow> ictx\<lparr>detune := Some d\<rparr> | None \<Rightarrow> ictx) else ictx)
      in (ictx, octx))"

subsection \<open>Input and output\<close>

datatype stop = OptError string | ConfigStop config_error | TraceStop | PrivStop | TemplateStop | Crash

text \<open>The calls of the trace library, with their results; a filter is what the library compiles it to.\<close>

record ('s, 'f) libtrace =
  lt_create_packet :: bool
  lt_create :: "string \<Rightarrow> 's"
  lt_is_err :: "'s \<Rightarrow> bool"
  lt_snaplen :: "'s \<Rightarrow> nat \<Rightarrow> 's \<times> int"
  lt_create_filter :: "string \<Rightarrow> 'f option"
  lt_set_filter :: "'s \<Rightarrow> 'f \<Rightarrow> 's \<times> int"
  lt_start :: "'s \<Rightarrow> 's \<times> int"

text \<open>Without a trace the flag tells whether the error was set.\<close>

definition qfTraceOpen :: "('s, 'f) libtrace \<Rightarrow> string \<Rightarrow> string option \<Rightarrow> nat \<Rightarrow> bool + 's" where
  "qfTraceOpen lt uri bpf snaplen =
     (let s = lt_create lt uri; (s', r) = lt_snaplen lt s snaplen
      in if \<not> lt_create_packet lt \<or> lt_is_err lt s \<or> r = -1 then Inl True
         else
           let filtered = (case bpf of None \<Rightarrow> Some s'
               | Some b \<Rightarrow> (case lt_create_filter lt b of None \<Rightarrow> None
                   | Some f \<Rightarrow> (case lt_set_filter lt s' f of (s'', r) \<Rightarrow> if r = -1 then None else Some s'')))
           in case filtered of None \<Rightarrow> Inl False
              | Some s'' \<Rightarrow> (case lt_start lt s'' of (t, r) \<Rightarrow> if r = -1 then Inl False else Inr t))"

datatype privc = PrivDropped | PrivNoDrop | PrivError

record ('s, 'f) start_env =
  se_cfg :: cfg_env
  se_fopen :: "string \<Rightarrow> yaml_parser option"
  se_fs :: "string set"
  se_stdin_tty :: bool
  se_stdout_tty :: bool
  se_getenv :: "string \<Rightarrow> string option"
  se_priv :: privc
  se_trace :: "('s, 'f) libtrace"
  se_detune :: bool
  se_aligned :: bool
  se_ring :: nat
  se_pbuf_size :: u64
  se_pbufs :: "nat \<Rightarrow> yfPBuf"

definition kQfSnaplen :: nat where "kQfSnaplen = 96"

definition qfContextTerminate :: "bool \<Rightarrow> stop \<Rightarrow> stop" where
  "qfContextTerminate err reason = (if err then reason else Crash)"

definition qfContextSetupInput :: "('s, 'f) start_env \<Rightarrow> 's qfInputContext \<Rightarrow> stop + 's qfInputContext" where
  "qfContextSetupInput se ictx =
     (let uri = (case inuri ictx of Some s \<Rightarrow> if s \<noteq> [] then s else ''pcapfile:-'' | None \<Rightarrow> ''pcapfile:-'');
          ictx = ictx\<lparr>inuri := Some uri\<rparr>
      in if last uri = CHR ''-'' \<and> se_stdin_tty se then Inl (OptError ''Refusing to read from terminal on stdin'')
         else (case qfTraceOpen (se_trace se) uri (bpf_expr ictx) kQfSnaplen of
             Inl err \<Rightarrow> Inl (qfContextTerminate err TraceStop)
           | Inr s \<Rightarrow> Inr (ictx\<lparr>pktsrc := Some s\<rparr>)))"

text \<open>The specification of the transport, with the period of the templates for datagrams.\<close>

definition setup_transport :: "string \<Rightarrow> qfOutputContext \<Rightarrow> stop + qfOutputContext" where
  "setup_transport tp octx =
     (if tp = [] \<or> tp = ''sctp'' then
        Inr (octx\<lparr>connspec := (connspec octx)\<lparr>cs_transport := if enable_tls octx then FB_DTLS_SCTP else FB_SCTP\<rparr>\<rparr>)
      else if tp = ''tcp'' then
        Inr (octx\<lparr>connspec := (connspec octx)\<lparr>cs_transport := if enable_tls octx then FB_TLS_TCP else FB_TCP\<rparr>\<rparr>)
      else if tp = ''udp'' then
        Inr (octx\<lparr>connspec := (connspec octx)\<lparr>cs_transport := if enable_tls octx then FB_DTLS_UDP else FB_UDP\<rparr>,
               template_rtx_period := if template_rtx_period octx = 0 then 60000 else template_rtx_period octx * 1000\<rparr>)
      else Inl (OptError ''Unsupported IPFIX transport protocol''))"

definition setup_network :: "('s, 'f) start_env \<Rightarrow> string \<Rightarrow> qfOutputContext \<Rightarrow> stop + qfOutputContext" where
  "setup_network se tp octx =
     (let octx = (if cs_svc (connspec octx) = None
            then octx\<lparr>connspec := (connspec octx)\<lparr>cs_svc := Some (if enable_tls octx then ''4740'' else ''4739'')\<rparr>\<rparr> else octx)
      in if outspec octx = None then Inl (OptError ''--ipfix requires hostname in --out'')
         else case setup_transport tp (octx\<lparr>connspec := (connspec octx)\<lparr>cs_host := outspec octx\<rparr>\<rparr>) of
             Inl e \<Rightarrow> Inl e
           | Inr octx \<Rightarrow> Inr (if enable_tls octx
               then octx\<lparr>connspec := (connspec octx)\<lparr>cs_ssl_key_pass := se_getenv se ''QOF_TLS_PASS''\<rparr>\<rparr> else octx))"

definition setup_file :: "qfOutputContext \<Rightarrow> stop + qfOutputContext" where
  "setup_file octx =
     (if outspec octx = None \<or> outspec octx = Some [] then
        if rotate_period octx \<noteq> 0 then Inl (OptError ''--rotate requires prefix in --out'')
        else Inr (octx\<lparr>outspec := Some ''-''\<rparr>)
      else Inr octx)"

definition qfContextSetupOutput ::
  "('s, 'f) start_env \<Rightarrow> qfConfig \<Rightarrow> qfOutputContext \<Rightarrow> qfWriter \<Rightarrow> stop + (qfOutputContext \<times> qfWriter)" where
  "qfContextSetupOutput se cfg octx w =
     (let w = (if enable_ipv6 cfg \<and> \<not> enable_ipv4 cfg then yfWriterExportMappedV6 w True else w);
          w = (if enable_biforce cfg then yfWriterForceBiflowExport w True else w)
      in case (case transport octx of Some tp \<Rightarrow> setup_network se tp octx | None \<Rightarrow> setup_file octx) of
           Inl e \<Rightarrow> Inl e
         | Inr octx \<Rightarrow>
             if outspec octx = Some ''-'' \<and> se_stdout_tty se then Inl (OptError ''Refusing to write to terminal on stdout'')
             else Inr (octx, w))"

subsection \<open>The context\<close>

definition YF_TYPE_IPANY :: u16 where "YF_TYPE_IPANY = 0"

text \<open>The configuration of the flow table. Flows are kept apart by direction unless an element for the reverse
  direction was asked for; the timeouts are multiplied at the width of their type.\<close>

definition flow_conf_of :: "qfConfig \<Rightarrow> flow_conf" where
  "flow_conf_of cfg = \<lparr>idle_ms = ucast (ito_s cfg * 1000), active_ms = ucast (ato_s cfg * 1000), max_flows = max_flowtab cfg,
     uniflow = \<not> enable_biflow cfg, silkmode = enable_silk cfg, macmode = enable_mac cfg, tcp_seq_enable = enable_seq cfg,
     tcp_ack_enable = enable_ack cfg, tcp_rtt_enable = enable_rtt cfg, tcp_rwin_enable = enable_rwin cfg,
     tcp_opt_enable = enable_tcpopt cfg, tcp_ts_enable = enable_ts cfg, tcp_iat_enable = enable_iat cfg\<rparr>"

definition qfContextSetup ::
  "('s, 'f) start_env \<Rightarrow> 't flow_ops \<Rightarrow> 'g frag_ops \<Rightarrow> 'r \<Rightarrow> qfConfig \<Rightarrow> 's qfInputContext \<Rightarrow> qfOutputContext \<Rightarrow> qfWriter \<Rightarrow>
   stop + (qfOutputContext \<times> ('t, 'g, 'r, 'b live, 's) qfContext)" where
  "qfContextSetup se flow frag rng cfg ictx octx w =
     (case qfContextSetupInput se ictx of
        Inl e \<Rightarrow> Inl e
      | Inr ictx \<Rightarrow>
          if se_priv se = PrivError then Inl PrivStop
          else (case qfContextSetupOutput se cfg octx w of
             Inl e \<Rightarrow> Inl e
           | Inr (octx, w) \<Rightarrow> Inr (octx,
               \<lparr>cx_front =
                  \<lparr>fr_dectx = yfDecodeCtxAlloc (if \<not> enable_ipv6 cfg then YF_TYPE_IPv4 else YF_TYPE_IPANY) (enable_tcpopt cfg) (enable_gre cfg),
                   fr_fragtab = (if max_fragtab cfg \<noteq> 0 then Some (yfFragTabAlloc frag 30000 (max_fragtab cfg)) else None),
                   fr_detune = detune ictx, fr_rng = rng, fr_pbufs = se_pbufs se\<rparr>,
                cx_flowtab = yfFlowTabAlloc flow (flow_conf_of cfg),
                cx_pbufring = rgaAlloc (se_aligned se) (se_ring se) (se_pbuf_size se) 128,
                cx_fbuf = False, cx_template_rtx_period = template_rtx_period octx, cx_template_rtx_last = 0,
                cx_rotate_period = rotate_period octx, cx_rotate_last = 0,
                cx_stats_period = stats_period octx, cx_stats_last = 0,
                cx_out = \<lparr>lv_out = \<lparr>os_writer = w, os_fs = se_fs se,
                    os_lock = (if enable_lock octx then Some AIR_LOCK_INIT else None), os_serial = 0\<rparr>,
                  lv_buf = None, lv_past = [], lv_opens = 0\<rparr>,
                cx_trace = the (pktsrc ictx), cx_polls = 0, cx_err = False\<rparr>)))"

definition zero_writer :: qfWriter where
  "zero_writer = \<lparr>yaf_core_force_biflow = False, yaf_core_map_ipv6 = False, yaf_core_ifmap = None, yaf_source_netlist = None,
     yaf_source_maclist = None, qof_export_spec = [], stats_template_initialized = False, yaf_start_time = 0\<rparr>"

text \<open>\<open>main\<close> up to the packet loop.\<close>

definition qof_configure :: "('s, 'f) start_env \<Rightarrow> qof_options \<Rightarrow> stop + (qfConfig \<times> 's qfInputContext \<times> qfOutputContext \<times> qfWriter)" where
  "qof_configure se opts =
     (let (cfg, octx) = qfConfigDefaults zero_config zero_octx;
          (ictx, octx) = yfParseOptions (se_detune se) opts (zero_ictx, octx)
      in case qfConfigDotfile (se_cfg se) (se_fopen se) cfg zero_writer (opt_yaml opts) of
           Val (cfg, w) \<Rightarrow>
             (case qfConfigDefaultTemplate cfg w of None \<Rightarrow> Inl TemplateStop | Some (cfg, w) \<Rightarrow> Inr (cfg, ictx, octx, w))
         | Fail e \<Rightarrow> Inl (qfContextTerminate True (ConfigStop e))
         | Done \<Rightarrow> Inl (qfContextTerminate False (ConfigStop YamlProblem))
         | Abort \<Rightarrow> Inl Crash)"

definition qof_start ::
  "('s, 'f) start_env \<Rightarrow> 't flow_ops \<Rightarrow> 'g frag_ops \<Rightarrow> 'r \<Rightarrow> qof_options \<Rightarrow>
   stop + (qfOutputContext \<times> ('t, 'g, 'r, 'b live, 's) qfContext)" where
  "qof_start se flow frag rng opts =
     (if qfInternalTemplateCheck \<noteq> Some True then Inl Crash
      else case qof_configure se opts of
          Inl e \<Rightarrow> Inl e
        | Inr (cfg, ictx, octx, w) \<Rightarrow> qfContextSetup se flow frag rng cfg ictx octx w)"

text \<open>Both tables are freed at the end, the fragment table first.\<close>

definition qfContextTeardown ::
  "'g frag_ops \<Rightarrow> ('t, 'g, 'r, 'w, 's) qfContext \<Rightarrow> ('t yfFlowTab \<times> 'g yfFragTab option) option" where
  "qfContextTeardown frag cx =
     Option.bind (case fr_fragtab (cx_front cx) of None \<Rightarrow> Some None | Some ft \<Rightarrow> map_option Some (yfFragTabFree frag ft))
       (\<lambda>g. map_option (\<lambda>t. (t, g)) (yfFlowTabFree (cx_flowtab cx)))"

text \<open>The environment of the loop with the output the start has set up.\<close>

definition with_output ::
  "('b, 'm) fbuf_ops \<Rightarrow> (string \<Rightarrow> bool) \<Rightarrow> (nat \<Rightarrow> nat) \<Rightarrow> qfOutputContext \<Rightarrow>
   ('t, 'g, 'r, 'b live, 's) qf_env \<Rightarrow> ('t, 'g, 'r, 'b live, 's) qf_env" where
  "with_output ops can clock octx env = env\<lparr>e_out := live_ops ops can clock octx, e_odid := odid octx\<rparr>"

text \<open>\<open>main\<close>: \<open>None\<close> where a component aborts, otherwise why the program stopped, or what is left at the end and the
  exit code. A loop that fails ends in \<open>qfContextTerminate\<close>, which crashes where no call has set an error.\<close>

definition qof_main ::
  "('s, 'f) start_env \<Rightarrow> ('b, 'm) fbuf_ops \<Rightarrow> (string \<Rightarrow> bool) \<Rightarrow> (nat \<Rightarrow> nat) \<Rightarrow> 'r \<Rightarrow> ('t, 'g, 'r, 'b live, 's) qf_env \<Rightarrow> qof_options \<Rightarrow>
   (stop + (('t, 'g, 'r, 'b live, 's) qfContext \<times> ('t yfFlowTab \<times> 'g yfFragTab option) \<times> nat)) option" where
  "qof_main se ops can clock rng env opts =
     (case qof_start se (e_flow env) (e_frag env) rng opts of
        Inl e \<Rightarrow> Some (Inl e)
      | Inr (octx, cx) \<Rightarrow> do {
          (cx, loop_ok) \<leftarrow> qfTraceMain (with_output ops can clock octx env) cx;
          tabs \<leftarrow> qfContextTeardown (e_frag env) cx;
          Some (if loop_ok then Inr (cx, tabs, 0)
                else if cx_err cx then Inr (cx, tabs, 1)
                else Inl Crash)
        })"

end
