(* ===== verification/ConfigTrip.thy ===== *)
theory ConfigTrip
  imports ConfigSpec
begin

unbundle bit_operations_syntax

text \<open>
  Configuration documents (\<open>src/qofconfig.c\<close>): a document that lists settings is read as it was meant, and what the readers of the
  interface map and of the source networks do with input that is legal.
\<close>

subsection \<open>Documents\<close>

text \<open>Settings as they are meant: numbers, flags, a template, source networks.\<close>

datatype setting = SetNum string nat | SetFlag string bool | SetTemplate "string list" | SetNets "(u32 \<times> u8) list"

definition scalar_of :: "nat \<Rightarrow> yaml_event" where
  "scalar_of n = YAML_SCALAR_EVENT (fmt_u 1 n)"

definition net_text :: "u32 \<times> u8 \<Rightarrow> string" where
  "net_text n = air_ipaddr_buf_print (fst n) @ ''/'' @ fmt_u 1 (unat (snd n))"

fun setting_events :: "setting \<Rightarrow> yaml_event list" where
  "setting_events (SetNum k n) = [YAML_SCALAR_EVENT k, scalar_of n]"
| "setting_events (SetFlag k b) = [YAML_SCALAR_EVENT k, scalar_of (of_bool b)]"
| "setting_events (SetTemplate ns) =
     YAML_SCALAR_EVENT ''template'' # YAML_SEQUENCE_START_EVENT # map YAML_SCALAR_EVENT ns @ [YAML_SEQUENCE_END_EVENT]"
| "setting_events (SetNets ns) =
     YAML_SCALAR_EVENT ''source-net'' # YAML_SEQUENCE_START_EVENT # map (\<lambda>n. YAML_SCALAR_EVENT (net_text n)) ns @ [YAML_SEQUENCE_END_EVENT]"

definition document_events :: "setting list \<Rightarrow> yaml_event list" where
  "document_events ss = [YAML_STREAM_START_EVENT, YAML_DOCUMENT_START_EVENT, YAML_MAPPING_START_EVENT] @
     concat (map setting_events ss) @ [YAML_MAPPING_END_EVENT, YAML_DOCUMENT_END_EVENT, YAML_STREAM_END_EVENT]"

text \<open>What they mean.\<close>

fun apply_setting :: "cfg_env \<Rightarrow> setting \<Rightarrow> qfConfig \<times> qfWriter \<Rightarrow> (qfConfig \<times> qfWriter) option" where
  "apply_setting ce (SetNum k n) (cfg, w) = (case map_of cfg_key_actions k of
      Some (off, QF_CONFIG_U32) \<Rightarrow> if n < 2 ^ 32 then Some (set_u32 off (of_nat n) cfg, w) else None
    | Some (off, QF_CONFIG_U64) \<Rightarrow> if n < 2 ^ 64 then Some (set_u64 off (of_nat n) cfg, w) else None
    | _ \<Rightarrow> None)"
| "apply_setting ce (SetFlag k b) (cfg, w) = (case map_of cfg_key_actions k of
      Some (off, QF_CONFIG_BOOL) \<Rightarrow> Some (set_bool off b cfg, w) | _ \<Rightarrow> None)"
| "apply_setting ce (SetTemplate ns) (cfg, w) = config_ies cfg (yfWriterExportReset w) ns"
| "apply_setting ce (SetNets ns) (cfg, w) =
     (let l = foldl (\<lambda>l (a, p). qfNetListAddIPv4 (ce_mc4 ce) l a p) (srcnets cfg) ns
      in if \<forall>(a, p) \<in> set ns. a \<noteq> 0 then Some (cfg\<lparr>srcnets := l\<rparr>, yfWriterUseSourceNets w (Some l)) else None)"

fun apply_settings :: "cfg_env \<Rightarrow> setting list \<Rightarrow> qfConfig \<times> qfWriter \<Rightarrow> (qfConfig \<times> qfWriter) option" where
  "apply_settings ce [] s = Some s"
| "apply_settings ce (x # xs) s = Option.bind (apply_setting ce x s) (apply_settings ce xs)"

text \<open>Texts that fit the buffers.\<close>

definition text_ok :: "string \<Rightarrow> bool" where
  "text_ok s \<longleftrightarrow> length s < VALBUF_SIZE \<and> CHR 0x00 \<notin> set s"

lemma strncpy_text: "text_ok s \<Longrightarrow> strncpy_buf s = s"
  unfolding text_ok_def strncpy_buf_def by (subst takeWhile_eq_all_conv [THEN iffD2]) auto

lemma parse_scalar:
  "qfYamlParseKey (YAML_SCALAR_EVENT s # p) = (Val (strncpy_buf s), p)" "qfYamlParseValue (YAML_SCALAR_EVENT s # p) = (Val (strncpy_buf s), p)"
  "text_ok s \<Longrightarrow> parse_text (YAML_SCALAR_EVENT s # p) = (Val s, p)" "parse_text (YAML_SEQUENCE_END_EVENT # p) = (Done, p)"
  "qfYamlParseKey (YAML_MAPPING_END_EVENT # p) = (Done, p)" "qfYamlRequireEvent e (e # p) = (Val (), p)"
  by (simp_all add: qfYamlParseKey_def qfYamlParseValue_def parse_text_def yaml_parser_parse_def qfYamlRequireEvent_def strncpy_text)
    (simp add: text_ok_def)

text \<open>Numerals are read as they are printed.\<close>

lemma digit_is_digit: "d < 10 \<Longrightarrow> is_digit (digit d) \<and> \<not> is_space (digit d) \<and> digit d \<noteq> CHR 0x00 \<and> digit d \<noteq> CHR ''-'' \<and> digit d \<noteq> CHR ''+''"
proof -
  have "list_all (\<lambda>d. is_digit (digit d) \<and> \<not> is_space (digit d) \<and> digit d \<noteq> CHR 0x00 \<and> digit d \<noteq> CHR ''-'' \<and> digit d \<noteq> CHR ''+'') [0..<10]"
    by code_simp
  then show "d < 10 \<Longrightarrow> ?thesis" unfolding list_all_iff by (auto simp del: upt_rec_numeral)
qed

lemma fmt_chars: "c \<in> set (fmt_u k n) \<Longrightarrow> \<exists>d < 10. c = digit d"
  using digits_plain [of n] by (force simp: fmt_u_def zero_pad_def)

lemma fmt_digits: "\<forall>c \<in> set (fmt_u k n). is_digit c \<and> \<not> is_space c \<and> c \<noteq> CHR 0x00 \<and> c \<noteq> CHR ''-'' \<and> c \<noteq> CHR ''+''"
proof
  fix c assume "c \<in> set (fmt_u k n)"
  then obtain d where "d < 10" "c = digit d" using fmt_chars by blast
  then show "is_digit c \<and> \<not> is_space c \<and> c \<noteq> CHR 0x00 \<and> c \<noteq> CHR ''-'' \<and> c \<noteq> CHR ''+''" using digit_is_digit [of d] by simp
qed

lemma numeral_nonempty: "numeral_in b n \<noteq> []"
  by (simp add: numeral_in.simps [of b n])

lemma fmt_nonempty [simp]: "fmt_u k n \<noteq> []"
  by (simp add: fmt_u_def zero_pad_def numeral_nonempty)

lemma length_numeral: "n < 10 ^ k \<Longrightarrow> 0 < k \<Longrightarrow> length (numeral_in 10 n) \<le> k"
proof (induction k arbitrary: n)
  case (Suc k)
  show ?case
  proof (cases "n < 10")
    case False
    then have "n div 10 < 10 ^ k" "0 < k" using Suc.prems(1) by (auto simp: less_mult_imp_div_less mult.commute intro: gr0I)
    then show ?thesis using Suc.IH [of "n div 10"] False by (simp add: numeral_in.simps [of 10 n])
  qed (simp add: numeral_in.simps [of 10 n])
qed simp

lemma length_fmt1: "n < 10 ^ k \<Longrightarrow> 0 < k \<Longrightarrow> length (fmt_u 1 n) \<le> k"
  using length_numeral [of n k] numeral_nonempty [of 10 n] by (cases "numeral_in 10 n") (simp_all add: fmt_u_def zero_pad_def)

lemma scan_fmt: "n < 2 ^ 64 \<Longrightarrow> scan_u (fmt_u k n) = Some (int n, [])"
proof -
  assume n: "n < 2 ^ 64"
  obtain c t where f: "fmt_u k n = c # t" using fmt_nonempty [of k n] by (cases "fmt_u k n") auto
  have c: "\<not> is_space c" "c \<noteq> CHR ''-''" "c \<noteq> CHR ''+''" using fmt_digits [of k n] f by auto
  have "scan_sign (fmt_u k n) = (False, fmt_u k n)" using c f by (simp add: scan_sign_def)
  moreover have "takeWhile is_digit (fmt_u k n) = fmt_u k n" "dropWhile is_digit (fmt_u k n) = []"
    unfolding takeWhile_eq_all_conv dropWhile_eq_Nil_conv using fmt_digits [of k n] by blast+
  moreover have "strtoul_value False n = int n"
  proof -
    have "int n < 2 ^ 64" using n by (metis of_nat_less_iff of_nat_numeral of_nat_power)
    then show ?thesis by (simp add: strtoul_value_def)
  qed
  ultimately show ?thesis unfolding scan_u_def by (simp del: takeWhile_eq_all_conv dropWhile_eq_Nil_conv)
qed

lemma number_ok: "n < 2 ^ 64 \<Longrightarrow> text_ok (fmt_u 1 n)"
proof -
  assume "n < 2 ^ 64"
  then have "length (fmt_u 1 n) \<le> 20" by (intro length_fmt1) simp_all
  then show ?thesis using fmt_digits [of 1 n] by (auto simp: text_ok_def VALBUF_SIZE_def)
qed

lemma parse_numbers:
  "n < 2 ^ 32 \<Longrightarrow> qfYamlParseU32 (scalar_of n # p) = (Val (of_nat n), p)"
  "n < 2 ^ 64 \<Longrightarrow> qfYamlParseU64 (scalar_of n # p) = (Val (of_nat n), p)"
  "qfYamlParseBool (scalar_of (of_bool b) # p) = (Val b, p)"
proof -
  have t: "n < 2 ^ 64 \<Longrightarrow> parse_text (scalar_of n # p) = (Val (fmt_u 1 n), p)" using number_ok parse_scalar(3) by (simp add: scalar_of_def)
  show "n < 2 ^ 64 \<Longrightarrow> qfYamlParseU64 (scalar_of n # p) = (Val (of_nat n), p)" by (simp add: qfYamlParseU64_def t scan_fmt)
  show "n < 2 ^ 32 \<Longrightarrow> qfYamlParseU32 (scalar_of n # p) = (Val (of_nat n), p)" by (simp add: qfYamlParseU32_def t scan_fmt)
  have "fmt_u 1 0 = ''0''" "fmt_u 1 1 = ''1''" by code_simp+
  then have "fmt_u 1 (of_bool b) = (if b then ''1'' else ''0'')" by simp
  then show "qfYamlParseBool (scalar_of (of_bool b) # p) = (Val b, p)"
    by (simp add: qfYamlParseBool_def scalar_of_def parse_scalar strncpy_text text_ok_def VALBUF_SIZE_def)
qed

text \<open>Networks are read as they are printed.\<close>

lemma bit_ntohl:
  "bit (ntohl a) n \<longleftrightarrow> (if n < 8 then bit a (24 + n) else if n < 16 then bit a (8 + n) else if n < 24 then bit a (n - 8)
     else n < 32 \<and> bit a (n - 24))"
proof -
  have m: "(0xFF :: u32) = mask 8" "(0xFF00 :: u32) = push_bit 8 (mask 8)" "(0xFF0000 :: u32) = push_bit 16 (mask 8)"
    by (simp_all add: mask_eq_exp_minus_1 push_bit_eq_mult)
  show ?thesis unfolding ntohl_def m by (auto simp: bit_simps add.commute dest: bit_imp_le_length)
qed

lemma ntohl_ntohl [simp]: "ntohl (ntohl a) = a"
proof (rule bit_word_eqI)
  fix n assume "n < LENGTH(32)"
  then consider "n < 8" | "8 \<le> n" "n < 16" | "16 \<le> n" "n < 24" | "24 \<le> n" "n < 32" by fastforce
  then show "bit (ntohl (ntohl a)) n \<longleftrightarrow> bit a n" by cases (auto simp: bit_ntohl)
qed

lemma is_addr4_fmt: "\<forall>c \<in> set (fmt_u k n). is_addr4 c"
  using fmt_digits by (auto simp: is_addr4_def)

lemma address_text:
  "length (air_ipaddr_buf_print a) \<le> 15" "\<forall>c \<in> set (air_ipaddr_buf_print a). is_addr4 c" "air_ipaddr_buf_print a \<noteq> []"
proof -
  show "length (air_ipaddr_buf_print a) \<le> 15" by (simp add: air_ipaddr_buf_print_def Let_def)
  show "\<forall>c \<in> set (air_ipaddr_buf_print a). is_addr4 c"
  proof
    fix c assume "c \<in> set (air_ipaddr_buf_print a)"
    then show "is_addr4 c" using is_addr4_fmt unfolding air_ipaddr_buf_print_def Let_def
      by (auto dest!: in_set_takeD simp: is_addr4_def [of "CHR ''.''"])
  qed
  show "air_ipaddr_buf_print a \<noteq> []" by (simp add: air_ipaddr_buf_print_def Let_def)
qed

lemma scan_net: "scan_prefixed 15 is_addr4 m (net_text (a, l)) = Some (air_ipaddr_buf_print a, l)"
proof -
  let ?a = "air_ipaddr_buf_print a" and ?r = "''/'' @ fmt_u 1 (unat l)"
  have sl: "\<not> is_addr4 (CHR ''/'')" by code_simp
  have "takeWhile is_addr4 (?a @ ?r) = ?a" using address_text(2) [of a] sl by (simp add: takeWhile_append2)
  then have "scan_set 15 is_addr4 (?a @ ?r) = Some (?a, ?r)" using address_text(1,3) [of a] by (simp add: scan_set_def Let_def)
  moreover have "scan_u (fmt_u 1 (unat l)) = Some (int (unat l), [])"
    using unsigned_less [of l, where ?'a = nat] by (intro scan_fmt) simp
  ultimately show ?thesis by (simp add: scan_prefixed_def net_text_def)
qed

lemma net_text_ok: "text_ok (net_text (a, l))"
proof -
  have "length (fmt_u 1 (unat l)) \<le> 3" using unsigned_less [of l, where ?'a = nat] by (intro length_fmt1) simp_all
  moreover have "\<not> is_addr4 CHR 0x00" by code_simp
  ultimately show ?thesis using address_text [of a] fmt_digits [of 1 "unat l"]
    by (auto simp: text_ok_def net_text_def VALBUF_SIZE_def)
qed

lemma parse_net:
  "ce_pton4 ce (air_ipaddr_buf_print a) = Some a \<Longrightarrow>
   qfYamlParsePrefixedV4Or6 ce (YAML_SCALAR_EVENT (net_text (a, l)) # p) = (Val (a, replicate 16 0, l), p)"
  by (simp add: qfYamlParsePrefixedV4Or6_def parse_scalar net_text_ok scan_net)

subsection \<open>The settings of a document\<close>

lemma find_key:
  "\<lbrakk>list_all (\<lambda>(key, a). length key < VALBUF_SIZE) tab; map_of tab k = Some v\<rbrakk> \<Longrightarrow>
   find (\<lambda>(key, off, vt). strncmp_eq key k VALBUF_SIZE) tab = Some (k, v)"
proof (induction tab)
  case (Cons x tab)
  obtain key off vt where x: "x = (key, off, vt)" by (cases x) auto
  show ?case using Cons x strncmp_key [of key VALBUF_SIZE k] by (auto split: if_splits)
qed simp

lemma action_keys:
  "list_all (\<lambda>(key, a). length key < VALBUF_SIZE \<and> text_ok key \<and>
     key \<notin> {''template'', ''interface-map'', ''source-net'', ''source-mac''}) cfg_key_actions"
  by (simp add: cfg_key_actions_def VALBUF_SIZE_def text_ok_def)

lemma action_key:
  assumes "map_of cfg_key_actions k = Some (off, vt)"
  shows "text_ok k \<and> doc_key ce k cfg w p = doc_action ce k cfg w p \<and>
    find (\<lambda>(key, off, vt). strncmp_eq key k VALBUF_SIZE) cfg_key_actions = Some (k, off, vt)"
proof -
  have k: "text_ok k \<and> k \<notin> {''template'', ''interface-map'', ''source-net'', ''source-mac''}"
    using action_keys map_of_SomeD [OF assms] by (auto simp: list_all_iff)
  have l: "list_all (\<lambda>(key, a). length key < VALBUF_SIZE) cfg_key_actions" using action_keys by (auto simp: list_all_iff)
  show ?thesis using k find_key [OF l assms] by (auto simp: doc_key_def strncmp_key VALBUF_SIZE_def)
qed

lemma template_read:
  "\<lbrakk>config_ies cfg w ns = Some r; \<forall>n \<in> set ns. text_ok n\<rbrakk> \<Longrightarrow>
   template_loop cfg w (map YAML_SCALAR_EVENT ns @ YAML_SEQUENCE_END_EVENT # p) = (Val r, p)"
  by (induction ns arbitrary: cfg w) (auto simp: template_loop.simps parse_scalar split: option.splits bind_splits)

lemma nets_read:
  "\<forall>(a, l) \<in> set ns. a \<noteq> 0 \<and> ce_pton4 ce (air_ipaddr_buf_print a) = Some a \<Longrightarrow>
   net_loop ce cfg (map (\<lambda>n. YAML_SCALAR_EVENT (net_text n)) ns @ YAML_SEQUENCE_END_EVENT # p) =
     (Val (cfg\<lparr>srcnets := foldl (\<lambda>l (a, p). qfNetListAddIPv4 (ce_mc4 ce) l a p) (srcnets cfg) ns\<rparr>), p)"
proof (induction ns arbitrary: cfg)
  case (Cons n ns)
  obtain a l where n: "n = (a, l)" by fastforce
  then show ?case using Cons by (simp add: net_loop.simps [of ce cfg] parse_net net_entry_def Let_def)
qed (simp add: net_loop.simps qfYamlParsePrefixedV4Or6_def parse_scalar)

text \<open>What a setting needs of the texts in it and of \<open>inet_pton\<close>.\<close>

fun setting_ok :: "cfg_env \<Rightarrow> setting \<Rightarrow> bool" where
  "setting_ok ce (SetTemplate ns) \<longleftrightarrow> list_all text_ok ns"
| "setting_ok ce (SetNets ns) \<longleftrightarrow> list_all (\<lambda>(a, l). ce_pton4 ce (air_ipaddr_buf_print a) = Some a) ns"
| "setting_ok ce s \<longleftrightarrow> True"

lemma setting_read:
  assumes "apply_setting ce s (cfg, w) = Some (cfg', w')" "setting_ok ce s"
  shows "document_loop ce cfg w (setting_events s @ p) = document_loop ce cfg' w' p"
proof (cases s)
  case (SetNum k n)
  obtain off vt where k: "map_of cfg_key_actions k = Some (off, vt)" and vt: "vt = QF_CONFIG_U32 \<or> vt = QF_CONFIG_U64"
    using assms(1) SetNum by (auto split: option.splits qfConfigKeyType.splits)
  show ?thesis using assms(1) SetNum vt k action_key [OF k]
    by (auto simp: document_loop.simps [of ce cfg] parse_scalar strncpy_text doc_action_def parse_numbers split: if_splits)
next
  case (SetFlag k b)
  obtain off where k: "map_of cfg_key_actions k = Some (off, QF_CONFIG_BOOL)"
    using assms(1) SetFlag by (auto split: option.splits qfConfigKeyType.splits)
  show ?thesis using assms(1) SetFlag k action_key [OF k]
    by (auto simp: document_loop.simps [of ce cfg] parse_scalar strncpy_text doc_action_def parse_numbers)
next
  case (SetTemplate ns)
  have k: "text_ok ''template''" by (simp add: text_ok_def VALBUF_SIZE_def)
  have "template_loop cfg (yfWriterExportReset w) (map YAML_SCALAR_EVENT ns @ YAML_SEQUENCE_END_EVENT # p) = (Val (cfg', w'), p)"
    using assms SetTemplate by (intro template_read) (auto simp: list_all_iff)
  then show ?thesis using SetTemplate k
    by (simp add: document_loop.simps [of ce cfg] parse_scalar strncpy_text doc_key_def qfYamlTemplate_def strncmp_eq_def VALBUF_SIZE_def)
next
  case (SetNets ns)
  have k: "text_ok ''source-net''" by (simp add: text_ok_def VALBUF_SIZE_def)
  let ?l = "foldl (\<lambda>l (a, p). qfNetListAddIPv4 (ce_mc4 ce) l a p) (srcnets cfg) ns"
  have r: "cfg' = cfg\<lparr>srcnets := ?l\<rparr>" "w' = yfWriterUseSourceNets w (Some ?l)"
    and ns: "\<forall>(a, l) \<in> set ns. a \<noteq> 0 \<and> ce_pton4 ce (air_ipaddr_buf_print a) = Some a"
    using assms SetNets by (auto simp: Let_def list_all_iff split: if_splits)
  show ?thesis using SetNets k nets_read [OF ns, of cfg p] r
    by (simp add: document_loop.simps [of ce cfg] parse_scalar strncpy_text doc_key_def qfYamlSourceNets_def strncmp_eq_def VALBUF_SIZE_def)
qed

lemma settings_read:
  "\<lbrakk>apply_settings ce ss (cfg, w) = Some r; list_all (setting_ok ce) ss\<rbrakk> \<Longrightarrow>
   document_loop ce cfg w (concat (map setting_events ss) @ YAML_MAPPING_END_EVENT # p) = (Val r, p)"
proof (induction ss arbitrary: cfg w)
  case Nil
  then show ?case by (simp add: document_loop.simps parse_scalar)
next
  case (Cons s ss)
  obtain cfg' w' where s: "apply_setting ce s (cfg, w) = Some (cfg', w')" and ss: "apply_settings ce ss (cfg', w') = Some r"
    using Cons.prems(1) by (auto simp: bind_eq_Some_conv)
  show ?case using setting_read [OF s] Cons.IH [OF ss] Cons.prems(2) by simp
qed

text \<open>C11: A configuration document is read as it was meant. Settings written out as a document, numbers in decimal, flags as
  0 and 1, networks as an address in dotted decimal, a slash and the length of the prefix, give when the document is
  read exactly the configuration and the state of the writer that the settings give one after another, and every event
  of the document is taken. The library function \<open>inet_pton\<close> is assumed to read the addresses of the settings back.\<close>

theorem config_document_roundtrip:
  assumes "apply_settings ce ss (cfg, w) = Some r" and "list_all (setting_ok ce) ss"
  shows "qfYamlDocument ce cfg w (document_events ss) = (Val r, [])"
  using settings_read [OF assms, of "[YAML_DOCUMENT_END_EVENT, YAML_STREAM_END_EVENT]"]
  by (simp add: qfYamlDocument_def document_events_def parse_scalar(6))

definition ex_cfg_env :: cfg_env where
  "ex_cfg_env = \<lparr>ce_pton4 = (\<lambda>s. if s = ''10.0.0.0'' then Some 0x0A000000 else None), ce_pton6 = (\<lambda>s. None), ce_strtod = (\<lambda>s. None),
     ce_mc4 = (\<lambda>i m. m), ce_mc6 = (\<lambda>i m. m),
     ce_vars = \<lparr>mv_v4addr = 0, mv_v4mask = 0, mv_v6addr = [], mv_v6mask = 0, mv_ingress = 0, mv_egress = 0\<rparr>\<rparr>"

theorem config_document_roundtrip_witness:
  "\<exists>cfg w. qfYamlDocument ex_cfg_env zero_config ex_writer
     (document_events [SetTemplate [''octetDeltaCount'', ''minTcpRwin''], SetNum ''idle-timeout'' 15, SetFlag ''gre-decap'' True,
        SetNets [(0x0A000000, 8)]]) = (Val (cfg, w), []) \<and> ito_s cfg = 15 \<and> enable_gre cfg"
proof -
  let ?ss = "[SetTemplate [''octetDeltaCount'', ''minTcpRwin''], SetNum ''idle-timeout'' 15, SetFlag ''gre-decap'' True, SetNets [(0x0A000000, 8)]]"
  have a: "air_ipaddr_buf_print 0x0A000000 = ''10.0.0.0''" by code_simp
  have ok: "list_all (setting_ok ex_cfg_env) ?ss" using a by (simp add: ex_cfg_env_def text_ok_def VALBUF_SIZE_def)
  have m: "list_all (\<lambda>n. matches n \<noteq> []) [''octetDeltaCount'', ''minTcpRwin''] \<and>
      length (concat (map matches [''octetDeltaCount'', ''minTcpRwin''])) \<le> 95"
    by code_simp
  have "qof_export_spec (yfWriterExportReset ex_writer) = []" by (simp add: yfWriterExportReset_def)
  then have "\<exists>r. config_ies zero_config (yfWriterExportReset ex_writer) [''octetDeltaCount'', ''minTcpRwin''] = Some r"
    using m by (intro config_ies_total) (simp_all add: list_all_iff)
  then obtain c v where t: "config_ies zero_config (yfWriterExportReset ex_writer) [''octetDeltaCount'', ''minTcpRwin''] = Some (c, v)" by auto
  have k: "map_of cfg_key_actions ''idle-timeout'' = Some (OFF_ito_s, QF_CONFIG_U32)"
    "map_of cfg_key_actions ''gre-decap'' = Some (OFF_enable_gre, QF_CONFIG_BOOL)"
    by (simp_all add: cfg_key_actions_def)
  obtain cfg w where r: "apply_settings ex_cfg_env ?ss (zero_config, ex_writer) = Some (cfg, w)" "ito_s cfg = 15" "enable_gre cfg"
    using t k by (simp add: Let_def del: config_ies.simps)
  show ?thesis using config_document_roundtrip [OF r(1) ok] r(2-) by blast
qed

subsection \<open>Input that is legal and not read as it was meant\<close>

text \<open>A mapping of the interface map never gets its interface numbers: the entry's key for them is read as an address.\<close>

lemma map_entry_interfaces:
  "map_entry_loop ce vs p = (Val vs', p') \<Longrightarrow> mv_ingress vs' = mv_ingress vs \<and> mv_egress vs' = mv_egress vs"
proof (induction ce vs p arbitrary: vs' p' rule: map_entry_loop.induct)
  case (1 ce vs p)
  obtain x q where x: "qfYamlParseKey p = (x, q)" by fastforce
  show ?case
  proof (cases x)
    case (Val k)
    have n: "strncmp_eq ''ip4-net'' k VALBUF_SIZE \<Longrightarrow> \<not> strncmp_eq ''ip6-net'' k VALBUF_SIZE"
      by (auto simp: strncmp_key VALBUF_SIZE_def)
    note ih = "1.IH" [OF x [unfolded Val]]
    obtain y4 q4 where y4: "qfYamlParsePrefixedV4 ce q = (y4, q4)" by fastforce
    obtain y6 q6 where y6: "qfYamlParsePrefixedV6 ce q = (y6, q6)" by fastforce
    show ?thesis
    proof (cases "strncmp_eq ''ip4-net'' k VALBUF_SIZE")
      case True
      then show ?thesis using ih(2) [OF _ n [OF True]] "1.prems" x Val n [OF True] y6
        by (cases y6) (auto simp: map_entry_loop.simps [of ce vs p])
    next
      case False
      then show ?thesis using ih(1) [OF False] "1.prems" x Val y4
        by (cases y4) (auto simp: map_entry_loop.simps [of ce vs p])
    qed
  qed (use "1.prems" x in \<open>auto simp: map_entry_loop.simps [of ce vs p]\<close>)
qed

text \<open>An IPv6 source network whose address starts with a digit is taken for an IPv4 one and refused.\<close>

lemma ip6_net_with_digit:
  assumes "text_ok (c # s)" "is_digit c" "ce_pton4 ce (takeWhile is_addr4 (c # s)) = None"
    and "length (takeWhile is_addr4 (c # s)) \<le> 15"
  shows "qfYamlParsePrefixedV4Or6 ce (YAML_SCALAR_EVENT (c # s) # p) = (Fail (ConfigError ''invalid IPv4 address''), p)"
proof -
  have "takeWhile is_addr4 (c # s) \<noteq> []" using assms(2) by (simp add: is_addr4_def)
  then show ?thesis using assms
    by (simp add: qfYamlParsePrefixedV4Or6_def parse_scalar scan_prefixed_def scan_set_def Let_def del: takeWhile.simps)
qed

end
