(* ===== verification/MeterStop.thy ===== *)
theory MeterStop
  imports MeterRun
begin

text \<open>
  The meter always comes back: whatever the output does (it may refuse to open, fail on any record and close at any
  time) and whenever the quit flag is set, the main loop ends on every trace that ends, and it leaves a flow table
  that can be freed.
\<close>

text \<open>A trace that ends after given packets, with or without an error.\<close>

fun ends :: "'s trace_ops \<Rightarrow> 's \<Rightarrow> trace_packet list \<Rightarrow> bool" where
  "ends tr s [] \<longleftrightarrow> snd (trace_read_packet tr s) \<le> 0 \<and>
     (snd (trace_read_packet tr s) < 0 \<longrightarrow> trace_is_err tr (fst (trace_read_packet tr s)))"
| "ends tr s (p # ps) \<longleftrightarrow> 0 < snd (trace_read_packet tr s) \<and> trace_packet_of tr (fst (trace_read_packet tr s)) = p \<and>
     ends tr (fst (trace_read_packet tr s)) ps"

locale meter_stops =
  fixes env :: "('t, 'g, 'r, 'w, 's) qf_env"
  assumes flow_hash: "ghash_table (e_flow env) yfFlowKeyEqual"
    and frag_hash: "ghash_table (e_frag env) yfFragKeyEqual"
    and quit_stays: "e_quit env n \<Longrightarrow> e_quit env (Suc n)"
begin

text \<open>At most \<open>n\<close> packets are left to read.\<close>

definition left :: "('t, 'g, 'r, 'w, 's) qfContext \<Rightarrow> nat \<Rightarrow> bool" where
  "left cx n \<longleftrightarrow> front_ok env (cx_front cx) \<and>
     (\<exists>ps. ends (e_trace env) (cx_trace cx) ps \<and> list_all frame_in_bounds ps \<and> length ps \<le> n)"

definition over :: "('t, 'g, 'r, 'w, 's) qfContext \<Rightarrow> int \<Rightarrow> bool" where
  "over cx trv \<longleftrightarrow> trv \<le> 0 \<and> (trv < 0 \<longrightarrow> trace_is_err (e_trace env) (cx_trace cx))"

lemma fill_total:
  assumes "left cx n"
  shows "\<exists>s fr trv. trace_fill env a cx = Some (cx\<lparr>cx_trace := s, cx_front := fr\<rparr>, trv) \<and>
    (\<forall>c. c \<noteq> a \<longrightarrow> fr_pbufs fr c = fr_pbufs (cx_front cx) c) \<and>
    (over (cx\<lparr>cx_trace := s, cx_front := fr\<rparr>) trv \<or>
     0 < trv \<and> valid_ok (fr_pbufs fr a) \<and> 0 < n \<and> left (cx\<lparr>cx_trace := s, cx_front := fr\<rparr>) (n - 1))"
proof -
  from assms obtain ps where "ends (e_trace env) (cx_trace cx) ps" "list_all frame_in_bounds ps" "length ps \<le> n" "front_ok env (cx_front cx)"
    by (auto simp: left_def)
  then show ?thesis
  proof (induction ps arbitrary: cx n)
    case Nil
    let ?r = "trace_read_packet (e_trace env) (cx_trace cx)"
    have "trace_fill env a cx = Some (cx\<lparr>cx_trace := fst ?r\<rparr>, snd ?r)"
      using Nil.prems(1) by (subst trace_fill.simps) (simp add: split_beta Let_def)
    then show ?case using Nil.prems(1)
      by (intro exI [of _ "fst ?r"] exI [of _ "cx_front cx"] exI [of _ "snd ?r"]) (simp add: over_def)
  next
    case (Cons p ps)
    let ?r = "trace_read_packet (e_trace env) (cx_trace cx)"
    from Cons.prems handle_ok [OF _ _ frag_hash, of "cx_front cx" p a] obtain fr ok where
      h: "qfTraceHandlePacket env (cx_front cx) p a = Some (fr, ok)" "front_ok env fr"
      "\<And>c. c \<noteq> a \<Longrightarrow> fr_pbufs fr c = fr_pbufs (cx_front cx) c" "ok \<longrightarrow> valid_ok (fr_pbufs fr a)" by auto
    let ?c = "cx\<lparr>cx_trace := fst ?r, cx_front := fr\<rparr>"
    have step: "trace_fill env a cx = (if ok then Some (?c, snd ?r) else trace_fill env a ?c)"
      by (subst trace_fill.simps) (use Cons.prems(1) h(1) in \<open>simp add: split_beta Let_def\<close>)
    have e: "ends (e_trace env) (cx_trace ?c) ps" "list_all frame_in_bounds ps" "length ps \<le> n - 1" "0 < n" "0 < snd ?r" "length ps \<le> n"
      using Cons.prems by auto
    show ?case
    proof (cases ok)
      case True
      have "left ?c (n - 1)" using e(1-3) h(2) by (auto simp: left_def)
      then show ?thesis using step True h(3,4) e(4,5)
        by (intro exI [of _ "fst ?r"] exI [of _ fr] exI [of _ "snd ?r"]) simp
    next
      case False
      from Cons.IH [OF e(1,2), of n] e(6) h(2) obtain s fr2 trv where
        i: "trace_fill env a ?c = Some (?c\<lparr>cx_trace := s, cx_front := fr2\<rparr>, trv)"
        "\<forall>c. c \<noteq> a \<longrightarrow> fr_pbufs fr2 c = fr_pbufs fr c"
        "over (?c\<lparr>cx_trace := s, cx_front := fr2\<rparr>) trv \<or>
         0 < trv \<and> valid_ok (fr_pbufs fr2 a) \<and> 0 < n \<and> left (?c\<lparr>cx_trace := s, cx_front := fr2\<rparr>) (n - 1)" by auto
      then show ?thesis using step False h(3)
        by (intro exI [of _ s] exI [of _ fr2] exI [of _ trv]) simp
    qed
  qed
qed

text \<open>A group is filled, or the loop is to end.\<close>

lemma group_total:
  "\<lbrakk>left cx n; ring_has (cx_pbufring cx) (fr_pbufs (cx_front cx)) ws; list_all valid_ok ws;
    length ws + k \<le> unat (rg_cap (cx_pbufring cx))\<rbrakk> \<Longrightarrow>
   \<exists>cx' trv'. trace_group env k cx trv = Some (cx', trv') \<and> moved cx cx' \<and>
     (e_quit env (cx_polls cx') \<or> over cx' trv' \<or>
      k \<le> n \<and> left cx' (n - k) \<and>
      (\<exists>ws. ring_has (cx_pbufring cx') (fr_pbufs (cx_front cx')) ws \<and> list_all valid_ok ws))"
proof (induction k arbitrary: cx n ws trv)
  case 0
  then show ?case by (auto intro: moved_refl)
next
  case (Suc k)
  let ?r = "cx_pbufring cx" and ?c0 = "cx\<lparr>cx_polls := cx_polls cx + 1\<rparr>"
  show ?case
  proof (cases "e_quit env (cx_polls cx)")
    case True
    then have "trace_group env (Suc k) cx trv = Some (?c0, trv)" by (simp add: yaf_quit_def)
    then show ?thesis using quit_stays [OF True] by (intro exI [of _ ?c0] exI [of _ trv]) (simp add: moved_def same_shape_def)
  next
    case False
    have len: "length ws < unat (rg_cap ?r)" using Suc.prems(4) by simp
    obtain r' where r': "rgaNextHead ?r = (r', Some (rg_head ?r))" "same_shape ?r r'"
      using ring_put [OF Suc.prems(2) len, of "fr_pbufs (cx_front cx)"] by blast
    let ?c = "?c0\<lparr>cx_pbufring := r'\<rparr>"
    have "left ?c n" using Suc.prems(1) by (simp add: left_def)
    from fill_total [OF this, of "rg_head ?r"] obtain s fr t where
      f: "trace_fill env (rg_head ?r) ?c = Some (?c\<lparr>cx_trace := s, cx_front := fr\<rparr>, t)"
      "\<forall>c. c \<noteq> rg_head ?r \<longrightarrow> fr_pbufs fr c = fr_pbufs (cx_front cx) c"
      "over (?c\<lparr>cx_trace := s, cx_front := fr\<rparr>) t \<or>
       0 < t \<and> valid_ok (fr_pbufs fr (rg_head ?r)) \<and> 0 < n \<and> left (?c\<lparr>cx_trace := s, cx_front := fr\<rparr>) (n - 1)" by auto
    let ?c' = "?c\<lparr>cx_trace := s, cx_front := fr\<rparr>"
    have m: "moved cx ?c'" using r'(2) by (simp add: moved_def)
    have g: "trace_group env (Suc k) cx trv = (if t \<le> 0 then Some (?c', t) else trace_group env k ?c' t)"
      using False r'(1) f(1) by (simp add: yaf_quit_def Let_def)
    show ?thesis
    proof (cases "t \<le> 0")
      case True
      then have "over ?c' t" using f(3) by auto
      then show ?thesis using g m True by (intro exI [of _ ?c'] exI [of _ t]) simp
    next
      case pos: False
      then have l: "valid_ok (fr_pbufs fr (rg_head ?r))" "0 < n" "left ?c' (n - 1)" using f(3) by (auto simp: over_def)
      have rh: "ring_has r' (fr_pbufs fr) (ws @ [fr_pbufs fr (rg_head ?r)])"
        using ring_put [OF Suc.prems(2) len, of "fr_pbufs fr"] f(2) r'(1) by auto
      from Suc.IH [OF l(3), of "ws @ [fr_pbufs fr (rg_head ?r)]" t] rh Suc.prems(3,4) l(1) r'(2) obtain cx' trv' where
        i: "trace_group env k ?c' t = Some (cx', trv')" "moved ?c' cx'"
        "e_quit env (cx_polls cx') \<or> over cx' trv' \<or> k \<le> n - 1 \<and> left cx' (n - 1 - k) \<and>
          (\<exists>ws. ring_has (cx_pbufring cx') (fr_pbufs (cx_front cx')) ws \<and> list_all valid_ok ws)"
        by (auto simp: same_shape_def)
      have "k \<le> n - 1 \<longleftrightarrow> Suc k \<le> n" "n - 1 - k = n - Suc k" using l(2) by auto
      then show ?thesis using g pos i(1,3) moved_trans [OF m i(2)]
        by (intro exI [of _ cx'] exI [of _ trv']) simp
    qed
  qed
qed

definition table_fine :: "'t yfFlowTab \<Rightarrow> bool" where
  "table_fine ft \<longleftrightarrow> (\<exists>as cs. ft_ok (e_flow env) ft as cs (set as))"

lemma flush_total:
  assumes "table_fine (cx_flowtab cx)"
  shows "\<exists>ft w ok. flush_table env close cx = Some (cx\<lparr>cx_flowtab := ft, cx_out := w\<rparr>, ok) \<and> table_fine ft"
proof -
  from assms obtain as cs where "ft_ok (e_flow env) (cx_flowtab cx) as cs (set as)" by (auto simp: table_fine_def)
  from flow_index.flush_ok [OF flow_index.intro [OF flow_hash] this, of "out_flow (e_out env)" "cx_out cx" close]
  obtain ft w b as' cs' where "yfFlowTabFlush (e_flow env) (out_flow (e_out env)) (cx_flowtab cx) (cx_out cx) close = Some (ft, w, b)"
    "ft_ok (e_flow env) ft as' cs' (set as')" by blast
  then show ?thesis by (auto simp: flush_table_def table_fine_def)
qed

definition same_input :: "('t, 'g, 'r, 'w, 's) qfContext \<Rightarrow> ('t, 'g, 'r, 'w, 's) qfContext \<Rightarrow> bool" where
  "same_input cx cx' \<longleftrightarrow> cx_front cx' = cx_front cx \<and> cx_trace cx' = cx_trace cx \<and> cx_flowtab cx' = cx_flowtab cx \<and>
     cx_pbufring cx' = cx_pbufring cx"

lemma output_keeps_input:
  "same_input cx (open_output env cx)" "same_input cx (fst (rotate_output env r cx))"
  "same_input cx (fst (qfTracePeriodicExport env cx t))" "same_input cx (fst (yfWriteStatsRec env cx))"
  by (auto simp: same_input_def open_output_def rotate_output_def close_output_def qfTracePeriodicExport_def yfWriteStatsRec_def
      split_beta Let_def)

lemma process_total:
  assumes r: "ring_has (cx_pbufring cx) (fr_pbufs (cx_front cx)) ws" and v: "list_all valid_ok ws" and f: "table_fine (cx_flowtab cx)"
  shows "\<exists>cx' ok. yfProcessPBufRing env cx = Some (cx', ok) \<and> table_fine (cx_flowtab cx') \<and>
    (ok \<longrightarrow> cx_front cx' = cx_front cx \<and> cx_trace cx' = cx_trace cx \<and>
      ring_has (cx_pbufring cx') (fr_pbufs (cx_front cx)) [] \<and> same_shape (cx_pbufring cx) (cx_pbufring cx'))"
proof -
  let ?c = "open_output env cx" and ?es = "map Packet (filter (\<lambda>p. pb_ptime p \<noteq> 0) ws)"
  have o: "cx_front ?c = cx_front cx" "cx_trace ?c = cx_trace cx" "cx_flowtab ?c = cx_flowtab cx" "cx_pbufring ?c = cx_pbufring cx"
    using output_keeps_input(1) [of cx] by (simp_all add: same_input_def)
  show ?thesis
  proof (cases "cx_fbuf ?c")
    case False
    then show ?thesis using f o(3) by (auto simp: yfProcessPBufRing_def)
  next
    case True
    obtain as cs where a: "ft_ok (e_flow env) (cx_flowtab cx) as cs (set as)" using f by (auto simp: table_fine_def)
    have es: "list_all packet_ok ?es" using v by (auto simp: list_all_iff valid_ok_def)
    from flow_index.run_ok [OF flow_index.intro [OF flow_hash] a es, of "out_flow (e_out env)" "cx_out cx"] obtain ft w' as' cs' where
      t: "ft_run (e_flow env) (out_flow (e_out env)) (cx_flowtab cx, cx_out cx) ?es = Some (ft, w')" "ft_ok (e_flow env) ft as' cs' (set as')"
      by blast
    from process_ring_ok [OF r t(1)] obtain ring where
      p: "process_ring (e_flow env) (fr_pbufs (cx_front cx)) (cx_pbufring cx) (cx_flowtab cx) = Some (ring, ft)"
      "ring_has ring (fr_pbufs (cx_front cx)) []" "same_shape (cx_pbufring cx) ring" by blast
    let ?c1 = "?c\<lparr>cx_pbufring := ring, cx_flowtab := ft\<rparr>"
    have "table_fine (cx_flowtab ?c1)" using t(2) by (auto simp: table_fine_def)
    from flush_total [OF this, of False] obtain ft2 w2 ok where
      l: "flush_table env False ?c1 = Some (?c1\<lparr>cx_flowtab := ft2, cx_out := w2\<rparr>, ok)" "table_fine ft2" by blast
    let ?c2 = "?c1\<lparr>cx_flowtab := ft2, cx_out := w2\<rparr>"
    have s: "same_input ?c2 (fst (rotate_output env True ?c2))" by (rule output_keeps_input(2))
    have "yfProcessPBufRing env cx = Some (if ok then rotate_output env True ?c2 else (?c2, False))"
      using True p(1) l(1) o by (simp add: yfProcessPBufRing_def Let_def)
    moreover have "(if ok then rotate_output env True ?c2 else (?c2, False)) =
        (if ok then fst (rotate_output env True ?c2) else ?c2, ok \<and> snd (rotate_output env True ?c2))" by simp
    ultimately show ?thesis using l(2) p(2,3) o s
      by (intro exI [of _ "if ok then fst (rotate_output env True ?c2) else ?c2"] exI [of _ "ok \<and> snd (rotate_output env True ?c2)"])
        (simp add: same_input_def)
  qed
qed

lemma loop_total:
  "\<lbrakk>left cx n; ring_has (cx_pbufring cx) (fr_pbufs (cx_front cx)) []; TRACE_PACKET_GROUP \<le> unat (rg_cap (cx_pbufring cx));
    table_fine (cx_flowtab cx)\<rbrakk> \<Longrightarrow> \<exists>cx' ok. trace_loop env cx trv = Some (cx', ok) \<and> table_fine (cx_flowtab cx')"
proof (induction n arbitrary: cx trv rule: less_induct)
  case (less n)
  let ?G = TRACE_PACKET_GROUP and ?c0 = "cx\<lparr>cx_polls := cx_polls cx + 1\<rparr>"
  show ?case
  proof (cases "e_quit env (cx_polls cx)")
    case True
    then show ?thesis using less.prems(4) by (subst trace_loop.simps) (auto simp: yaf_quit_def)
  next
    case False
    have "left ?c0 n" using less.prems(1) by (simp add: left_def)
    from group_total [OF this, of "[]" ?G trv] less.prems(2,3) obtain c t where
      c: "trace_group env ?G ?c0 trv = Some (c, t)" "moved ?c0 c"
      "e_quit env (cx_polls c) \<or> over c t \<or> ?G \<le> n \<and> left c (n - ?G) \<and>
        (\<exists>ws. ring_has (cx_pbufring c) (fr_pbufs (cx_front c)) ws \<and> list_all valid_ok ws)" by auto
    have f: "cx_flowtab c = cx_flowtab cx" "same_shape (cx_pbufring cx) (cx_pbufring c)"
      using c(2) unfolding moved_def by (cases c, simp)+
    let ?c1 = "c\<lparr>cx_polls := cx_polls c + 1\<rparr>"
    have l: "trace_loop env cx trv = (if trace_is_err (e_trace env) (cx_trace c) then Some (c, False)
        else if e_quit env (cx_polls c) \<or> t = 0 then Some (?c1, True)
        else Option.bind (yfProcessPBufRing env ?c1) (\<lambda>(cx, ok). if \<not> ok then Some (note_error False cx, False)
          else let (cx, ok) = qfTracePeriodicExport env cx (yfFlowTabCurrentTime (cx_flowtab cx))
            in trace_loop env (note_error ok cx) t))"
      by (subst trace_loop.simps) (use False c(1) in \<open>simp add: yaf_quit_def Let_def\<close>)
    show ?thesis
    proof (cases "trace_is_err (e_trace env) (cx_trace c) \<or> e_quit env (cx_polls c) \<or> t = 0")
      case True
      then show ?thesis using l f(1) less.prems(4) by (cases "trace_is_err (e_trace env) (cx_trace c)") (simp_all add: ex_bool_eq)
    next
      case go: False
      then have "\<not> over c t" by (auto simp: over_def)
      with c(3) go obtain ws where w: "?G \<le> n" "left c (n - ?G)" "ring_has (cx_pbufring c) (fr_pbufs (cx_front c)) ws" "list_all valid_ok ws"
        by blast
      from process_total [of ?c1 ws] w(3,4) f(1) less.prems(4) obtain d ok where
        d: "yfProcessPBufRing env ?c1 = Some (d, ok)" "table_fine (cx_flowtab d)"
        "ok \<longrightarrow> cx_front d = cx_front c \<and> cx_trace d = cx_trace c \<and> ring_has (cx_pbufring d) (fr_pbufs (cx_front c)) [] \<and>
           same_shape (cx_pbufring c) (cx_pbufring d)" by auto
      let ?p = "qfTracePeriodicExport env d (yfFlowTabCurrentTime (cx_flowtab d))"
      let ?e = "note_error (snd ?p) (fst ?p)"
      have k: "same_input d ?e" using output_keeps_input(3) [of d] by (simp add: same_input_def)
      have "\<exists>cx' ok. trace_loop env ?e t = Some (cx', ok) \<and> table_fine (cx_flowtab cx')" if "ok"
      proof (rule less.IH [of "n - ?G"])
        show "n - ?G < n" using w(1) by (simp add: TRACE_PACKET_GROUP_def)
        show "left ?e (n - ?G)" using w(2) d(3) k that by (simp add: left_def same_input_def)
        show "ring_has (cx_pbufring ?e) (fr_pbufs (cx_front ?e)) []" using d(3) k that by (simp add: same_input_def)
        show "?G \<le> unat (rg_cap (cx_pbufring ?e))" using d(3) k that f(2) less.prems(3) by (simp add: same_input_def same_shape_def)
        show "table_fine (cx_flowtab ?e)" using d(2) k by (simp add: same_input_def)
      qed
      then show ?thesis using l go d(1,2) by (cases ok) (auto simp: split_beta)
    qed
  qed
qed

lemma final_total:
  assumes "table_fine (cx_flowtab cx)"
  shows "\<exists>cx' ok'. yfFinalFlush env cx ok = Some (cx', ok') \<and> table_fine (cx_flowtab cx')"
proof (cases "cx_fbuf cx \<and> ok")
  case True
  from flush_total [OF assms, of True] obtain ft w b where
    f: "flush_table env True cx = Some (cx\<lparr>cx_flowtab := ft, cx_out := w\<rparr>, b)" "table_fine ft" by blast
  then show ?thesis using True output_keeps_input(4) [of "cx\<lparr>cx_flowtab := ft, cx_out := w\<rparr>"]
    by (auto simp: yfFinalFlush_def close_output_def split_beta same_input_def Let_def)
next
  case False
  then show ?thesis using assms by (auto simp: yfFinalFlush_def close_output_def)
qed

end

text \<open>Between the allocation of its parts and the end of the program the flow table stays in order.\<close>

lemma meter_returns:
  assumes "ghash_table (e_flow env) yfFlowKeyEqual" and "ghash_table (e_frag env) yfFragKeyEqual"
    and "\<forall>n. e_quit env n \<longrightarrow> e_quit env (Suc n)"
    and "ends (e_trace env) (cx_trace cx) ps" and "list_all frame_in_bounds ps"
    and "cx_flowtab cx = yfFlowTabAlloc (e_flow env) conf"
    and "fr_fragtab (cx_front cx) = None \<or> fr_fragtab (cx_front cx) = Some (yfFragTabAlloc (e_frag env) idle mx)"
    and "cx_pbufring cx = rgaAlloc False buf sz cap" and "0 < sz" and "32 \<le> unat cap" and "unat sz * unat cap < 2 ^ 64"
  shows "\<exists>cx' ok as cs. qfTraceMain env cx = Some (cx', ok) \<and> ft_ok (e_flow env) (cx_flowtab cx') as cs (set as)"
proof -
  have m: "meter_stops env" using assms(1-3) by (simp add: meter_stops.intro)
  have "front_ok env (cx_front cx)"
    using assms(7) frag_index_ops.alloc_ok [OF frag_index_ops.intro [OF assms(2)], of idle mx] by (auto simp: front_ok_def)
  then have l: "meter_stops.left env cx (length ps)" using assms(4,5) by (auto simp: meter_stops.left_def [OF m])
  have c0: "0 < cap" using assms(10) by (simp add: word_less_nat_alt)
  have r: "ring_has (cx_pbufring cx) (fr_pbufs (cx_front cx)) []"
    using rgaAlloc_inv [OF assms(9) c0 assms(11), of buf] by (simp add: ring_has_def assms(8)) (simp add: rgaAlloc_def Let_def)
  have cap: "TRACE_PACKET_GROUP \<le> unat (rg_cap (cx_pbufring cx))"
    using assms(8,10) by (simp add: TRACE_PACKET_GROUP_def rgaAlloc_def Let_def)
  have "meter_stops.table_fine env (cx_flowtab cx)"
    using tab_alloc_ok [OF assms(1), of conf] assms(6) by (auto simp: meter_stops.table_fine_def [OF m] intro!: exI [of _ "[]"])
  from meter_stops.loop_total [OF m l r cap this, of "e_trv env"] obtain c ok where
    t: "trace_loop env cx (e_trv env) = Some (c, ok)" "meter_stops.table_fine env (cx_flowtab c)" by blast
  from meter_stops.final_total [OF m t(2), of ok] obtain c' ok' where
    e: "yfFinalFlush env c ok = Some (c', ok')" "meter_stops.table_fine env (cx_flowtab c')" by blast
  then obtain as cs where f: "ft_ok (e_flow env) (cx_flowtab c') as cs (set as)" by (auto simp: meter_stops.table_fine_def [OF m])
  show ?thesis using t(1) e(1) f by (auto simp: qfTraceMain_def)
qed

text \<open>C2: The meter always ends. On every trace that ends, with an error or without, whose frames the decoder reads
  within the capture, and with hash tables that behave as documented, the main loop and the final flush return:
  whatever the output operations answer (an output that cannot be opened, records that cannot be written) and
  whenever the quit flag is set. Behind them the flow table frees every node exactly once.\<close>

theorem meter_ends:
  assumes "ghash_table (e_flow env) yfFlowKeyEqual" and "ghash_table (e_frag env) yfFragKeyEqual"
    and "\<forall>n. e_quit env n \<longrightarrow> e_quit env (Suc n)"
    and "ends (e_trace env) (cx_trace cx) ps" and "list_all frame_in_bounds ps"
    and "cx_flowtab cx = yfFlowTabAlloc (e_flow env) conf"
    and "fr_fragtab (cx_front cx) = None \<or> fr_fragtab (cx_front cx) = Some (yfFragTabAlloc (e_frag env) idle mx)"
    and "cx_pbufring cx = rgaAlloc False buf sz cap" and "0 < sz" and "32 \<le> unat cap" and "unat sz * unat cap < 2 ^ 64"
  shows "\<exists>cx' ok ft. qfTraceMain env cx = Some (cx', ok) \<and> yfFlowTabFree (cx_flowtab cx') = Some ft \<and>
    distinct (ft_freed ft) \<and> set (ft_freed ft) = {..<ft_brk ft}"
proof -
  from meter_returns [OF assms] obtain cx' ok as cs where
    r: "qfTraceMain env cx = Some (cx', ok)" and f: "ft_ok (e_flow env) (cx_flowtab cx') as cs (set as)" by blast
  show ?thesis using r tab_free_ok [OF f] by simp
qed

text \<open>An output that can never be opened: the meter gives up after the first group.\<close>

definition dead_env where
  "dead_env = log_env\<lparr>e_out := log_out\<lparr>out_open := (\<lambda>w. (w, False))\<rparr>\<rparr>"

interpretation dead: meter_stops dead_env
  by (rule meter_stops.intro) (simp_all add: dead_env_def log_env_def flowkey.bucket_table fragkey.bucket_table)

lemma list_ends: "ends list_trace (c, ps) ps"
  by (induction ps arbitrary: c) (simp_all add: list_trace_def)

theorem meter_ends_witness:
  "\<exists>cx' ok ft. qfTraceMain dead_env (log_context (replicate 40 udp_packet)) = Some (cx', ok) \<and>
    yfFlowTabFree (cx_flowtab cx') = Some ft \<and> distinct (ft_freed ft) \<and> set (ft_freed ft) = {..<ft_brk ft}"
proof (rule meter_ends)
  let ?cx = "log_context (replicate 40 udp_packet)"
  show "ghash_table (e_flow dead_env) yfFlowKeyEqual" by (rule dead.flow_hash)
  show "ghash_table (e_frag dead_env) yfFragKeyEqual" by (rule dead.frag_hash)
  show "\<forall>n. e_quit dead_env n \<longrightarrow> e_quit dead_env (Suc n)" by (simp add: dead_env_def log_env_def)
  show "ends (e_trace dead_env) (cx_trace ?cx) (replicate 40 udp_packet)"
    using list_ends by (simp add: dead_env_def log_env_def log_context_def)
  show "list_all frame_in_bounds (replicate 40 udp_packet)" using udp_packet_in_bounds by (simp add: list_all_iff)
  show "cx_flowtab ?cx = yfFlowTabAlloc (e_flow dead_env) ex_conf" by (simp add: log_context_def dead_env_def)
  show "fr_fragtab (cx_front ?cx) = None \<or> fr_fragtab (cx_front ?cx) = Some (yfFragTabAlloc (e_frag dead_env) 0 0)"
    by (simp add: log_context_def dead_env_def)
  show "cx_pbufring ?cx = rgaAlloc False 4096 256 128" by (simp add: log_context_def)
qed simp_all

end
