(* ===== verification/SetupRun.thy ===== *)
theory SetupRun
  imports Setup ConfigTrip MeterStop
begin

unbundle bit_operations_syntax

text \<open>
  The whole program: what a start without a configuration file sets up, what \<open>main\<close> does with a trace, and
  the period of the templates over UDP.
\<close>

subsection \<open>The default start\<close>

definition default_cfg :: qfConfig where
  "default_cfg = fst (qfConfigDefaults zero_config zero_octx)"

lemma default_template:
  "case config_ies default_cfg zero_writer cfg_default_ies of None \<Rightarrow> False
     | Some (cfg, w) \<Rightarrow> plain_part cfg = plain_part default_cfg \<and> enable_biflow cfg \<and> enable_ipv4 cfg \<and> enable_ipv6 cfg \<and>
         \<not> enable_mac cfg \<and> \<not> enable_seq cfg \<and> \<not> enable_ack cfg \<and> \<not> enable_rtt cfg \<and> \<not> enable_rwin cfg \<and> \<not> enable_tcpopt cfg \<and>
         \<not> enable_ts cfg \<and> \<not> enable_iat cfg \<and> yaf_core_ifmap w = None \<and> yaf_source_netlist w = None \<and> yaf_source_maclist w = None"
  by code_simp

lemma default_configured:
  assumes "opt_yaml opts = None" and "yfParseOptions (se_detune se) opts (zero_ictx, zero_octx) = (ictx, octx)"
  shows "\<exists>cfg w. qof_configure se opts = Inr (cfg, ictx, octx, w) \<and>
    plain_part cfg = plain_part default_cfg \<and> enable_biflow cfg \<and> enable_ipv4 cfg \<and> enable_ipv6 cfg \<and>
    \<not> enable_mac cfg \<and> \<not> enable_seq cfg \<and> \<not> enable_ack cfg \<and> \<not> enable_rtt cfg \<and> \<not> enable_rwin cfg \<and> \<not> enable_tcpopt cfg \<and>
    \<not> enable_ts cfg \<and> \<not> enable_iat cfg"
proof -
  obtain cfg w where c: "config_ies default_cfg zero_writer cfg_default_ies = Some (cfg, w)" and
    p: "plain_part cfg = plain_part default_cfg" "enable_biflow cfg" "enable_ipv4 cfg" "enable_ipv6 cfg" "\<not> enable_mac cfg"
      "\<not> enable_seq cfg" "\<not> enable_ack cfg" "\<not> enable_rtt cfg" "\<not> enable_rwin cfg" "\<not> enable_tcpopt cfg" "\<not> enable_ts cfg" "\<not> enable_iat cfg"
    using default_template by (auto split: option.splits)
  have d: "qfConfigDefaults zero_config zero_octx = (default_cfg, zero_octx)"
    by (simp add: default_cfg_def qfConfigDefaults_def zero_octx_def)
  have t: "qfConfigDefaultTemplate default_cfg zero_writer = Some (cfg, w)"
    using c by (simp add: qfConfigDefaultTemplate_def yfWriterExportIECount_def zero_writer_def)
  show ?thesis using assms d t p
    by (auto simp: qof_configure_def qfConfigDotfile_def Let_def split: prod.splits)
qed

lemma template_check: "qfInternalTemplateCheck = Some True"
  by code_simp

lemma default_started:
  assumes "opt_yaml opts = None" and "opt_ipfix opts = None" and "opt_out opts = Some f" and "f \<noteq> []" and "f \<noteq> ''-''"
    and "opt_in opts = Some uri" and "uri \<noteq> []" and "last uri \<noteq> CHR ''-'' \<or> \<not> se_stdin_tty se"
    and "qfTraceOpen (se_trace se) uri (opt_filter opts) kQfSnaplen = Inr s" and "se_priv se \<noteq> PrivError"
  shows "\<exists>octx cx. qof_start se flow frag rng opts = Inr (octx, cx) \<and> outspec octx = Some f \<and> transport octx = None \<and> cx_trace cx = s \<and>
    cx_flowtab cx = yfFlowTabAlloc flow \<lparr>idle_ms = 30000, active_ms = 300000, max_flows = 0x100000, uniflow = False, silkmode = False,
      macmode = False, tcp_seq_enable = False, tcp_ack_enable = False, tcp_rtt_enable = False, tcp_rwin_enable = False,
      tcp_opt_enable = False, tcp_ts_enable = False, tcp_iat_enable = False\<rparr> \<and>
    fr_dectx (cx_front cx) = yfDecodeCtxAlloc YF_TYPE_IPANY False False \<and>
    fr_fragtab (cx_front cx) = Some (yfFragTabAlloc frag 30000 0x40000) \<and>
    cx_rotate_period cx = opt_rotate opts * 1000 \<and> cx_stats_period cx = opt_stats opts * 1000 \<and>
    cx_template_rtx_period cx = opt_template_refresh opts * 1000"
proof -
  obtain ictx octx where po: "yfParseOptions (se_detune se) opts (zero_ictx, zero_octx) = (ictx :: 'a qfInputContext, octx)" by fastforce
  from default_configured [OF assms(1) po] obtain cfg w where
    c: "qof_configure se opts = Inr (cfg, ictx, octx, w)" and p: "plain_part cfg = plain_part default_cfg" "enable_biflow cfg"
    "enable_ipv4 cfg" "enable_ipv6 cfg" "\<not> enable_mac cfg" "\<not> enable_seq cfg" "\<not> enable_ack cfg" "\<not> enable_rtt cfg"
    "\<not> enable_rwin cfg" "\<not> enable_tcpopt cfg" "\<not> enable_ts cfg" "\<not> enable_iat cfg" by blast
  have q: "ato_s cfg = 300" "ito_s cfg = 30" "max_flowtab cfg = 0x100000" "max_fragtab cfg = 0x40000" "\<not> enable_silk cfg"
    "\<not> enable_gre cfg" "\<not> enable_biforce cfg"
    using p(1) by (simp_all add: plain_part_def default_cfg_def qfConfigDefaults_def zero_config_def)
  have i: "inuri ictx = Some uri" "bpf_expr ictx = opt_filter opts" "outspec octx = Some f" "transport octx = None"
    "rotate_period octx = opt_rotate opts * 1000" "stats_period octx = opt_stats opts * 1000"
    "template_rtx_period octx = opt_template_refresh opts * 1000"
    using po assms(2,3,6) by (auto simp: yfParseOptions_def store_options_def zero_octx_def zero_ictx_def Let_def split: option.splits if_splits)
  have n: "qfContextSetupInput se ictx = Inr (ictx\<lparr>inuri := Some uri, pktsrc := Some s\<rparr>)"
    using i(1,2) assms(7-9) by (auto simp: qfContextSetupInput_def Let_def)
  have o: "qfContextSetupOutput se cfg octx w = Inr (octx, w)"
    using i(3,4) p(3) q(7) assms(4,5) by (simp add: qfContextSetupOutput_def setup_file_def Let_def)
  have fc: "flow_conf_of cfg = \<lparr>idle_ms = 30000, active_ms = 300000, max_flows = 0x100000, uniflow = False, silkmode = False,
      macmode = False, tcp_seq_enable = False, tcp_ack_enable = False, tcp_rtt_enable = False, tcp_rwin_enable = False,
      tcp_opt_enable = False, tcp_ts_enable = False, tcp_iat_enable = False\<rparr>"
    using p q by (simp add: flow_conf_of_def)
  show ?thesis using c n o fc i p(4,10) q assms(10)
    by (simp add: qof_start_def template_check qfContextSetup_def)
qed

text \<open>C13: What a start without a configuration file sets up. Given an output file other than standard output, no
  transport, an input that opens and is not a terminal, and a privilege library without errors, \<open>main\<close> reaches the
  packet loop: with the flows of both directions together, IPv4 and IPv6, none of the TCP observers, a timeout of 30 seconds for
  idle and 300 seconds for active flows, the rotation and statistics periods of the command
  line in milliseconds and no template sent again unless asked for, as the manual \<open>qof.pod.in\<close> has it; and with a flow
  table limited to \<open>0x100000\<close> flows and a fragment table limited to \<open>0x40000\<close> fragments of 30 seconds, where the manual
  says that there are no limits by default.\<close>

theorem default_start:
  assumes "opt_yaml opts = None" and "opt_ipfix opts = None" and "opt_out opts = Some f" and "f \<noteq> []" and "f \<noteq> ''-''"
    and "opt_in opts = Some uri" and "uri \<noteq> []" and "last uri \<noteq> CHR ''-'' \<or> \<not> se_stdin_tty se"
    and "qfTraceOpen (se_trace se) uri (opt_filter opts) kQfSnaplen = Inr s" and "se_priv se \<noteq> PrivError"
  shows "\<exists>octx cx. qof_start se flow frag rng opts = Inr (octx, cx) \<and> outspec octx = Some f \<and> transport octx = None \<and> cx_trace cx = s \<and>
    cx_flowtab cx = yfFlowTabAlloc flow \<lparr>idle_ms = 30000, active_ms = 300000, max_flows = 0x100000, uniflow = False, silkmode = False,
      macmode = False, tcp_seq_enable = False, tcp_ack_enable = False, tcp_rtt_enable = False, tcp_rwin_enable = False,
      tcp_opt_enable = False, tcp_ts_enable = False, tcp_iat_enable = False\<rparr> \<and>
    fr_dectx (cx_front cx) = yfDecodeCtxAlloc YF_TYPE_IPANY False False \<and>
    fr_fragtab (cx_front cx) = Some (yfFragTabAlloc frag 30000 0x40000) \<and>
    cx_rotate_period cx = opt_rotate opts * 1000 \<and> cx_stats_period cx = opt_stats opts * 1000 \<and>
    cx_template_rtx_period cx = opt_template_refresh opts * 1000"
  by (rule default_started [OF assms])

text \<open>A start on a list of packets.\<close>

definition ex_start_env :: "(trace_packet \<times> trace_packet list, unit) start_env" where
  "ex_start_env = \<lparr>se_cfg = ex_cfg_env, se_fopen = (\<lambda>n. None), se_fs = {}, se_stdin_tty = True, se_stdout_tty = True,
     se_getenv = (\<lambda>n. None), se_priv = PrivNoDrop,
     se_trace = \<lparr>lt_create_packet = True, lt_create = (\<lambda>uri. (udp_packet, replicate 40 udp_packet)), lt_is_err = (\<lambda>s. False),
       lt_snaplen = (\<lambda>s n. (s, 0)), lt_create_filter = (\<lambda>f. Some ()), lt_set_filter = (\<lambda>s f. (s, 0)), lt_start = (\<lambda>s. (s, 0))\<rparr>,
     se_detune = True, se_aligned = False, se_ring = 4096, se_pbuf_size = 256, se_pbufs = (\<lambda>a. zero_pbuf)\<rparr>"

definition ex_options :: qof_options where
  "ex_options = no_options\<lparr>opt_in := Some ''pcapfile:in'', opt_out := Some ''flows'', opt_filter := Some ''ip'', opt_rotate := 60,
     opt_stats := 300, opt_lock := True\<rparr>"

lemma ex_opens: "qfTraceOpen (se_trace ex_start_env) ''pcapfile:in'' (opt_filter ex_options) kQfSnaplen = Inr (udp_packet, replicate 40 udp_packet)"
  by (simp add: qfTraceOpen_def ex_start_env_def ex_options_def)

lemma ex_conditions:
  "opt_yaml ex_options = None" "opt_ipfix ex_options = None" "opt_out ex_options = Some ''flows''" "''flows'' \<noteq> []" "''flows'' \<noteq> ''-''"
  "opt_in ex_options = Some ''pcapfile:in''" "''pcapfile:in'' \<noteq> []" "last ''pcapfile:in'' \<noteq> CHR ''-'' \<or> \<not> se_stdin_tty ex_start_env"
  "se_priv ex_start_env \<noteq> PrivError"
  by (simp_all add: ex_options_def no_options_def ex_start_env_def)

theorem default_start_witness:
  "\<exists>octx cx. qof_start ex_start_env (e_flow live_env) (e_frag live_env) (7 :: u64) ex_options =
      Inr (octx, cx :: (_, _, u64, log_buf live, trace_packet \<times> trace_packet list) qfContext) \<and>
    outspec octx = Some ''flows'' \<and> cx_rotate_period cx = 60000 \<and> ft_count (cx_flowtab cx) = 0"
proof -
  obtain octx and cx :: "(_, _, u64, log_buf live, trace_packet \<times> trace_packet list) qfContext" where
    "qof_start ex_start_env (e_flow live_env) (e_frag live_env) (7 :: u64) ex_options = Inr (octx, cx)" "outspec octx = Some ''flows''"
    "cx_rotate_period cx = opt_rotate ex_options * 1000" "ft_count (cx_flowtab cx) = 0"
    using default_start [OF ex_conditions(1-8) ex_opens ex_conditions(9), of "e_flow live_env" "e_frag live_env" "7 :: u64"]
    by (force simp: yfFlowTabAlloc_def)
  then show ?thesis by (intro exI [of _ octx] exI [of _ cx]) (simp add: ex_options_def)
qed

subsection \<open>From the command line to the collector\<close>

lemma ends_delivers: "delivers tr s ps \<Longrightarrow> ends tr s ps"
  by (induction ps arbitrary: s) auto

lemma feed_front:
  assumes g: "ghash_table (e_frag env) yfFragKeyEqual"
  shows "\<lbrakk>front_ok env fr; list_all frame_in_bounds ps; feed env nxt fr a ps = Some (fr', outs)\<rbrakk> \<Longrightarrow> front_ok env fr'"
proof (induction ps arbitrary: fr a outs)
  case (Cons p ps)
  from Cons.prems handle_ok [OF _ _ g, of fr p a] obtain fr1 ok where
    h: "qfTraceHandlePacket env fr p a = Some (fr1, ok)" "front_ok env fr1" by auto
  then show ?case using Cons.IH [OF h(2)] Cons.prems(2,3) by (cases ok) auto
qed simp

text \<open>The input side does not depend on the output.\<close>

lemma handle_with_output: "qfTraceHandlePacket (with_output ops can clock octx env) = qfTraceHandlePacket env"
proof -
  let ?env = "with_output ops can clock octx env"
  have e: "e_frag ?env = e_frag env" "e_sort ?env = e_sort env" "e_fraginfo ?env = e_fraginfo env" "e_random ?env = e_random env"
    by (simp_all add: with_output_def)
  have d: "trace_detune ?env = trace_detune env" by (intro ext) (simp only: trace_detune_def e)
  show ?thesis by (intro ext) (simp only: qfTraceHandlePacket_def e d)
qed

lemma start_parts:
  assumes "qof_start se flow frag rng opts = Inr (octx, cx)"
  shows "\<exists>conf mx w. cx_flowtab cx = yfFlowTabAlloc flow conf \<and>
    (fr_fragtab (cx_front cx) = None \<or> fr_fragtab (cx_front cx) = Some (yfFragTabAlloc frag 30000 mx)) \<and>
    cx_pbufring cx = rgaAlloc (se_aligned se) (se_ring se) (se_pbuf_size se) 128 \<and> \<not> cx_fbuf cx \<and>
    cx_out cx = \<lparr>lv_out = \<lparr>os_writer = w, os_fs = se_fs se,
        os_lock = (if enable_lock octx then Some AIR_LOCK_INIT else None), os_serial = 0\<rparr>, lv_buf = None, lv_past = [], lv_opens = 0\<rparr>"
  using assms by (auto simp: qof_start_def qfContextSetup_def split: if_splits sum.splits prod.splits)

lemma feed_with_output: "feed (with_output ops can clock octx env) nxt fr a ps = feed env nxt fr a ps"
proof (induction ps arbitrary: fr a)
  case (Cons p ps)
  then show ?case by (simp add: handle_with_output cong: if_cong)
qed simp

text \<open>The teardown frees both tables.\<close>

lemma teardown_ok:
  assumes "ghash_table (e_frag env) yfFragKeyEqual" and "front_ok env (cx_front cx)"
    and "ft_ok (e_flow env) (cx_flowtab cx) as cs (set as)"
  shows "\<exists>ft gt. qfContextTeardown (e_frag env) cx = Some (ft, gt) \<and> distinct (ft_freed ft) \<and> set (ft_freed ft) = {..<ft_brk ft} \<and>
    (\<forall>g. gt = Some g \<longrightarrow> distinct (gt_freed g) \<and> set (gt_freed g) = {..<gt_brk g})"
proof (cases "fr_fragtab (cx_front cx)")
  case None
  then show ?thesis using tab_free_ok [OF assms(3)] by (auto simp: qfContextTeardown_def)
next
  case (Some g)
  then obtain as where "frag_ok (e_frag env) g as []" using assms(2) by (auto simp: front_ok_def)
  from frag_index_ops.free_ok [OF frag_index_ops.intro [OF assms(1)] this] obtain g' where
    "yfFragTabFree (e_frag env) g = Some g'" "frag_ok (e_frag env) g' [] []" by blast
  then show ?thesis using Some tab_free_ok [OF assms(3)]
    by (auto simp: qfContextTeardown_def frag_ok_def frag_queue_def frag_mem_def)
qed

text \<open>C1: From the command line to the collector no packet is lost or counted twice. Take any options and any
  configuration file with which the program starts, on a platform without aligned access, with packet buffers whose ring fits the
  address space, where no lock file is left over from before and every lock file can be created; an IPFIX library that behaves as documented and
  whose calls succeed; hash tables that behave as documented; no signal to quit; and a trace that is read to its end without an
  error, every frame of which the decoder reads within the capture. Then \<open>main\<close> ends with exit code 0, the forward and reverse packet counters of the flow
  records handed to the library, in all output files together, add up to the number of packets the flow table accepted,
  and with those it found out of sequence these are exactly the packets of the complete groups; every record was handed
  over under the internal template that describes it, and both tables free every node exactly once.\<close>

theorem main_conserves:
  fixes ops :: "('b, 'm) fbuf_ops" and cx :: "('t, 'g, 'r, 'b live, 's) qfContext"
  assumes "fixbuf ops view elems" and "\<And>p. can p" and "ghash_table (e_flow env) yfFlowKeyEqual"
    and "ghash_table (e_frag env) yfFragKeyEqual" and "\<And>n. \<not> e_quit env n"
    and "qof_start se (e_flow env) (e_frag env) rng opts = Inr (octx, cx)"
    and "delivers (e_trace env) (cx_trace cx) ps" and "list_all frame_in_bounds ps"
    and "\<not> se_aligned se" and "0 < se_pbuf_size se" and "unat (se_pbuf_size se) * 128 < 2 ^ 64"
    and "\<And>p. p @ ''.lock'' \<notin> se_fs se"
  shows "\<exists>cx' outs n ft gt.
    feed env (rga_advance (cx_pbufring cx)) (cx_front cx) (se_ring se) ps = Some (cx_front cx', outs) \<and>
    qof_main se ops can clock rng env opts = Some (Inr (cx', (ft, gt), 0)) \<and>
    n = length (filter (\<lambda>p. pb_ptime p \<noteq> 0) (take (32 * (length outs div 32)) outs)) \<and>
    sum_list (map rec_pkts (flow_recs (all_recs view (cx_out cx')))) + stat_seqrej (ft_stats (cx_flowtab cx')) = of_nat n \<and>
    recs_described (all_recs view (cx_out cx')) \<and>
    distinct (ft_freed ft) \<and> set (ft_freed ft) = {..<ft_brk ft} \<and>
    (\<forall>g. gt = Some g \<longrightarrow> distinct (gt_freed g) \<and> set (gt_freed g) = {..<gt_brk g})"
proof -
  let ?env = "with_output ops can clock octx env"
  have e: "e_flow ?env = e_flow env" "e_frag ?env = e_frag env" "e_trace ?env = e_trace env" "e_quit ?env = e_quit env"
    "e_out ?env = live_ops ops can clock octx" by (simp_all add: with_output_def)
  from start_parts [OF assms(6)] obtain conf mx w where
    t: "cx_flowtab cx = yfFlowTabAlloc (e_flow ?env) conf"
    "fr_fragtab (cx_front cx) = None \<or> fr_fragtab (cx_front cx) = Some (yfFragTabAlloc (e_frag ?env) 30000 mx)"
    "cx_pbufring cx = rgaAlloc False (se_ring se) (se_pbuf_size se) 128" "\<not> cx_fbuf cx" and
    out: "cx_out cx = \<lparr>lv_out = \<lparr>os_writer = w, os_fs = se_fs se,
        os_lock = (if enable_lock octx then Some AIR_LOCK_INIT else None), os_serial = 0\<rparr>, lv_buf = None, lv_past = [], lv_opens = 0\<rparr>"
    using assms(9) e by auto
  have lk: "lock_fine False (lv_out (cx_out cx))" using assms(12) by (simp add: out lock_fine_def AIR_LOCK_INIT_def)
  have h: "ghash_table (e_flow ?env) yfFlowKeyEqual" "ghash_table (e_frag ?env) yfFragKeyEqual" "\<And>n. \<not> e_quit ?env n"
    "delivers (e_trace ?env) (cx_trace cx) ps" using assms(3-5,7) e by simp_all
  have sz: "32 \<le> unat (128 :: u64)" "unat (se_pbuf_size se) * unat (128 :: u64) < 2 ^ 64" using assms(11) by simp_all
  from export_run [OF assms(1,2) e(5) h assms(8) t(1-3) assms(10) sz t(4) _ _ lk] out obtain cx' outs n where
    r: "feed ?env (rga_advance (cx_pbufring cx)) (cx_front cx) (se_ring se) ps = Some (cx_front cx', outs)"
    "qfTraceMain ?env cx = Some (cx', True)" "n = length (filter (\<lambda>p. pb_ptime p \<noteq> 0) (take (32 * (length outs div 32)) outs))"
    "sum_list (map rec_pkts (flow_recs (all_recs view (cx_out cx')))) + stat_seqrej (ft_stats (cx_flowtab cx')) = of_nat n"
    "recs_described (all_recs view (cx_out cx'))" by auto
  from meter_returns [OF h(1,2) _ ends_delivers [OF h(4)] assms(8) t(1-3) assms(10) sz] h(3) r(2) obtain as cs where
    ft: "ft_ok (e_flow ?env) (cx_flowtab cx') as cs (set as)" by auto
  have fo: "front_ok ?env (cx_front cx)"
    using t(2) frag_index_ops.alloc_ok [OF frag_index_ops.intro [OF h(2)], of 30000 mx] by (auto simp: front_ok_def)
  have "front_ok env (cx_front cx')" using feed_front [OF h(2) fo assms(8) r(1)] e(2) by (auto simp: front_ok_def)
  from teardown_ok [OF assms(4) this ft [unfolded e(1)]] obtain ftb gt where
    m: "qfContextTeardown (e_frag env) cx' = Some (ftb, gt)" "distinct (ft_freed ftb)" "set (ft_freed ftb) = {..<ft_brk ftb}"
    "\<forall>g. gt = Some g \<longrightarrow> distinct (gt_freed g) \<and> set (gt_freed g) = {..<gt_brk g}" by blast
  have "qof_main se ops can clock rng env opts = Some (Inr (cx', (ftb, gt), 0))"
    using assms(6) r(2) m(1) by (simp add: qof_main_def)
  then show ?thesis using r m(2-) by (intro exI [of _ cx'] exI [of _ outs] exI [of _ n]) (auto simp: feed_with_output)
qed

theorem main_conserves_witness:
  "\<exists>octx cx cx' outs n ft gt.
    qof_start ex_start_env (e_flow live_env) (e_frag live_env) 7 ex_options =
      Inr (octx, cx :: (_, _, u64, log_buf live, trace_packet \<times> trace_packet list) qfContext) \<and>
    feed live_env (rga_advance (cx_pbufring cx)) (cx_front cx) 4096 (replicate 40 udp_packet) = Some (cx_front cx', outs) \<and>
    qof_main ex_start_env log_fbuf (\<lambda>p. True) (\<lambda>n. 1000 + n) 7 live_env ex_options = Some (Inr (cx', (ft, gt), 0)) \<and>
    n = length (filter (\<lambda>p. pb_ptime p \<noteq> 0) (take (32 * (length outs div 32)) outs)) \<and>
    sum_list (map rec_pkts (flow_recs (all_recs (\<lambda>b. b) (cx_out cx')))) + stat_seqrej (ft_stats (cx_flowtab cx')) = of_nat n"
proof -
  have g: "ghash_table (e_flow live_env) yfFlowKeyEqual" "ghash_table (e_frag live_env) yfFragKeyEqual" "\<And>n. \<not> e_quit live_env n"
    by (simp_all add: live_env_def flowkey.bucket_table fragkey.bucket_table)
  obtain octx and cx :: "(_, _, u64, log_buf live, trace_packet \<times> trace_packet list) qfContext" where
    s: "qof_start ex_start_env (e_flow live_env) (e_frag live_env) 7 ex_options = Inr (octx, cx)" "cx_trace cx = (udp_packet, replicate 40 udp_packet)"
    using default_started [OF ex_conditions(1-8) ex_opens ex_conditions(9), of "e_flow live_env" "e_frag live_env" 7] by blast
  have d: "delivers (e_trace live_env) (cx_trace cx) (replicate 40 udp_packet)"
    unfolding s(2) using list_delivers by (simp add: live_env_def)
  have b: "list_all frame_in_bounds (replicate 40 udp_packet)" using udp_packet_in_bounds by (simp add: list_all_iff)
  have e: "\<not> se_aligned ex_start_env" "0 < se_pbuf_size ex_start_env" "unat (se_pbuf_size ex_start_env) * 128 < 2 ^ 64"
    "p @ ''.lock'' \<notin> se_fs ex_start_env" "se_ring ex_start_env = 4096" for p
    by (simp_all add: ex_start_env_def)
  from main_conserves [OF logbuf.fixbuf_axioms TrueI g s(1) d b e(1-4), of "\<lambda>n. 1000 + n"] show ?thesis
    unfolding e(5) using s(1) by blast
qed

subsection \<open>Options that do not do what they say\<close>

text \<open>Over UDP the period of the templates, already in milliseconds, is multiplied by a thousand again.\<close>

lemma udp_refresh_scaled_twice:
  assumes "yfParseOptions built opts (zero_ictx, zero_octx) = (ictx, octx)" and "opt_template_refresh opts * 1000 \<noteq> 0"
    and "opt_template_refresh opts \<noteq> 0" and "setup_network se ''udp'' octx = Inr octx'"
  shows "template_rtx_period octx' = opt_template_refresh opts * 1000000"
proof -
  have "template_rtx_period octx = opt_template_refresh opts * 1000"
    using assms(1,3) by (auto simp: yfParseOptions_def store_options_def Let_def split: option.splits if_splits)
  then show ?thesis using assms(2,4) by (auto simp: setup_network_def setup_transport_def Let_def split: if_splits)
qed

text \<open>A trace that fails while it is read leaves the error unset: \<open>main\<close> reads the message of a null pointer.\<close>

lemma trace_error_crashes:
  fixes ops :: "('b, 'm) fbuf_ops" and cx :: "('t, 'g, 'r, 'b live, 's) qfContext"
  assumes start: "qof_start se (e_flow env) (e_frag env) rng opts = Inr (octx, cx)"
    and ring: "rgaNextHead (cx_pbufring cx) = (ring, Some a)" and quit: "\<And>n. \<not> e_quit env n"
    and read: "trace_read_packet (e_trace env) (cx_trace cx) = (s, t)" "t \<le> 0" "trace_is_err (e_trace env) s"
    and tabs: "qfContextTeardown (e_frag env) cx = Some tabs"
  shows "qof_main se ops can clock rng env opts = Some (Inl Crash)"
proof -
  let ?env = "with_output ops can clock octx env"
  have e: "e_trace ?env = e_trace env" "\<And>n. \<not> e_quit ?env n" using quit by (simp_all add: with_output_def)
  have c: "\<not> cx_fbuf cx" "\<not> cx_err cx"
    using start by (auto simp: qof_start_def qfContextSetup_def split: if_splits sum.splits prod.splits)
  let ?c = "cx\<lparr>cx_polls := cx_polls cx + 2, cx_pbufring := ring, cx_trace := s\<rparr>"
  have "trace_fill ?env a (cx\<lparr>cx_polls := cx_polls cx + 2, cx_pbufring := ring\<rparr>) = Some (?c, t)"
    by (subst trace_fill.simps) (use read e in \<open>simp add: Let_def\<close>)
  moreover have G: "TRACE_PACKET_GROUP = Suc 31" by (simp add: TRACE_PACKET_GROUP_def)
  ultimately have "trace_group ?env TRACE_PACKET_GROUP (cx\<lparr>cx_polls := cx_polls cx + 1\<rparr>) (e_trv ?env) = Some (?c, t)"
    using e ring read unfolding G trace_group.simps(2) by (simp add: yaf_quit_def Let_def)
  then have "trace_loop ?env cx (e_trv ?env) = Some (?c, False)"
    by (subst trace_loop.simps) (use e read in \<open>simp add: yaf_quit_def Let_def\<close>)
  then have "qfTraceMain ?env cx = Some (?c, False)" using c by (simp add: qfTraceMain_def yfFinalFlush_def)
  moreover have "qfContextTeardown (e_frag env) ?c = Some tabs" using tabs by (simp add: qfContextTeardown_def)
  ultimately show ?thesis using start c by (simp add: qof_main_def)
qed

text \<open>A filter expression that does not compile ends in the message of an error that was never set.\<close>

lemma bad_filter_crashes:
  assumes "opt_in opts = Some uri" "uri \<noteq> []" "last uri \<noteq> CHR ''-''" "opt_filter opts = Some f" "lt_create_filter (se_trace se) f = None"
    and "lt_create_packet (se_trace se)" "\<not> lt_is_err (se_trace se) (lt_create (se_trace se) uri)"
    and "snd (lt_snaplen (se_trace se) (lt_create (se_trace se) uri) kQfSnaplen) = 0"
    and "yfParseOptions built opts (zero_ictx, octx) = (ictx, octx')"
  shows "qfContextSetupInput se ictx = Inl Crash"
proof -
  have i: "inuri ictx = Some uri" "bpf_expr ictx = Some f"
    using assms(1,4,9) by (auto simp: yfParseOptions_def store_options_def Let_def zero_ictx_def split: option.splits if_splits)
  have "qfTraceOpen (se_trace se) uri (Some f) kQfSnaplen = Inl False"
    using assms(5-8) by (simp add: qfTraceOpen_def Let_def split_beta)
  then show ?thesis using i assms(2,3) by (simp add: qfContextSetupInput_def qfContextTerminate_def Let_def)
qed

end
