(* ===== verification/DecodeTrip.thy ===== *)
theory DecodeTrip
  imports DecodeSafe TcpDyn
begin

text \<open>
  The decoder against an encoder of frames: TCP options, the TCP header, the IPv4 header and the
  Ethernet header with its 802.1q tags are written octet by octet, as their standards lay them
  out, and decoding the frame gives back the fields. The option observer of \<open>qofopt.c\<close> (theory \<open>TcpDyn\<close>) is
  related to the options on the wire.
\<close>

definition enc16 :: "u16 \<Rightarrow> bytes" where
  "enc16 w = [ucast (drop_bit 8 w), ucast w]"

definition enc32 :: "u32 \<Rightarrow> bytes" where
  "enc32 w = [ucast (drop_bit 24 w), ucast (drop_bit 16 w), ucast (drop_bit 8 w), ucast w]"

lemma length_enc [simp]: "length (enc16 w) = 2" "length (enc32 v) = 4"
  by (simp_all add: enc16_def enc32_def)

lemma be16_enc [simp]: "be16 (ucast (drop_bit 8 w)) (ucast w) = w"
  by (rule bit_word_eqI) (auto simp: be16_def bit_simps)

lemma be32_enc [simp]:
  "be32 (ucast (drop_bit 24 w)) (ucast (drop_bit 16 w)) (ucast (drop_bit 8 w)) (ucast w) = w"
proof (rule bit_word_eqI)
  fix n assume "n < LENGTH(32)"
  then consider "n < 8" | "8 \<le> n" "n < 16" | "16 \<le> n" "n < 24" | "24 \<le> n" "n < 32" by fastforce
  then show "bit (be32 (ucast (drop_bit 24 w)) (ucast (drop_bit 16 w)) (ucast (drop_bit 8 w)) (ucast w)) n = bit w n"
    by cases (auto simp: be32_def bit_simps)
qed

subsection \<open>Loads from the parts of a buffer\<close>

lemma rd8_simps [simp]:
  "rd8 (b # xs) 0 = Some b" "rd8 (b # xs) (Suc n) = rd8 xs n"
  "rd8 (b # xs) (numeral k) = rd8 xs (pred_numeral k)"
  by (simp_all add: rd8_def numeral_eq_Suc)

lemma rd8_skip: "length pre \<le> p \<Longrightarrow> rd8 (pre @ xs) p = rd8 xs (p - length pre)"
  by (auto simp: rd8_def nth_append)

lemma rd16_skip: "length pre \<le> p \<Longrightarrow> rd16 (pre @ xs) p = rd16 xs (p - length pre)"
  by (simp add: rd16_def rd8_skip Suc_diff_le)

lemma rd32_skip: "length pre \<le> p \<Longrightarrow> rd32 (pre @ xs) p = rd32 xs (p - length pre)"
  by (simp add: rd32_def rd8_skip Suc_diff_le)

lemma rdn_skip: "length pre \<le> p \<Longrightarrow> rdn (pre @ xs) p n = rdn xs (p - length pre) n"
  by (auto simp: rdn_def)

lemmas rd_skip = rd8_skip rd16_skip rd32_skip rdn_skip

lemma rd16_enc [simp]: "rd16 (enc16 w @ xs) 0 = Some w"
  by (simp add: rd16_def enc16_def)

lemma rd32_enc [simp]: "rd32 (enc32 w @ xs) 0 = Some w"
  by (simp add: rd32_def enc32_def)

lemma rd16_Cons [simp]:
  "rd16 (b # xs) (Suc n) = rd16 xs n" "rd16 (b # xs) (numeral k) = rd16 xs (pred_numeral k)"
  by (simp_all add: rd16_def numeral_eq_Suc)

lemma rd32_Cons [simp]:
  "rd32 (b # xs) (Suc n) = rd32 xs n" "rd32 (b # xs) (numeral k) = rd32 xs (pred_numeral k)"
  by (simp_all add: rd32_def numeral_eq_Suc)

lemma rd32_at: "p = length pre \<Longrightarrow> rd32 (pre @ enc32 w @ xs) p = Some w"
  by (simp add: rd_skip)

lemma rdn_prefix: "length a = n \<Longrightarrow> rdn (a @ xs) 0 n = Some a"
  by (simp add: rdn_def)

subsection \<open>TCP options\<close>

datatype tcpopt = ONop | OMss u16 | OWs u8 | OTs u32 u32 | OSack "(u32 \<times> u32) list" | OOther u8 bytes

fun enc_opt :: "tcpopt \<Rightarrow> bytes" where
  "enc_opt ONop = [YF_TOK_NOP]"
| "enc_opt (OMss m) = [YF_TOK_MSS, 4] @ enc16 m"
| "enc_opt (OWs s) = [YF_TOK_WS, 3, s]"
| "enc_opt (OTs v e) = [YF_TOK_TS, 10] @ enc32 v @ enc32 e"
| "enc_opt (OSack bs) = [YF_TOK_SACK, of_nat (2 + 8 * length bs)] @ concat (map (\<lambda>(l, r). enc32 l @ enc32 r) bs)"
| "enc_opt (OOther k d) = [k, of_nat (2 + length d)] @ d"

fun opt_ok :: "tcpopt \<Rightarrow> bool" where
  "opt_ok (OSack bs) = (bs \<noteq> [] \<and> length bs \<le> 31)"
| "opt_ok (OOther k d) = (k \<notin> {YF_TOK_EOL, YF_TOK_NOP, YF_TOK_MSS, YF_TOK_WS, YF_TOK_SACK, YF_TOK_TS} \<and> length d \<le> 253)"
| "opt_ok _ = True"

text \<open>What an option contributes: of the selective acknowledgements, the right edge of the last block.\<close>

fun apply_opt :: "yfTCPInfo \<Rightarrow> tcpopt \<Rightarrow> yfTCPInfo" where
  "apply_opt ti ONop = ti"
| "apply_opt ti (OMss m) = ti\<lparr>ti_mss := m\<rparr>"
| "apply_opt ti (OWs s) = ti\<lparr>ti_ws := s\<rparr>"
| "apply_opt ti (OTs v e) = ti\<lparr>ti_tsval := v, ti_tsecr := e\<rparr>"
| "apply_opt ti (OSack bs) = ti\<lparr>ti_sack := snd (last bs)\<rparr>"
| "apply_opt ti (OOther k d) = ti"

definition enc_opts :: "tcpopt list \<Rightarrow> bytes" where
  "enc_opts os = concat (map enc_opt os)"

lemma length_blocks: "length (concat (map (\<lambda>(l, r). enc32 l @ enc32 r) bs)) = 8 * length bs"
  by (induction bs) auto

lemma blocks_last:
  "bs \<noteq> [] \<Longrightarrow> \<exists>ys. length ys = 8 * length bs - 4 \<and>
     concat (map (\<lambda>(l, r). enc32 l @ enc32 r) bs) = ys @ enc32 (snd (last bs))"
proof (induction bs rule: rev_induct)
  case (snoc b bs)
  obtain l r where b: "b = (l, r)" by fastforce
  show ?case
    by (intro exI [of _ "concat (map (\<lambda>(l, r). enc32 l @ enc32 r) bs) @ enc32 l"]) (simp add: b length_blocks)
qed simp

lemma unat_u8: "n < 256 \<Longrightarrow> unat (of_nat n :: u8) = n"
  by (simp add: unat_of_nat)

text \<open>The kind and length octets of an option with a length.\<close>

lemma enc_opt_cases:
  assumes "opt_ok oo" "oo \<noteq> ONop"
  obtains k d where "enc_opt oo = k # of_nat (2 + length d) # d" "length d \<le> 253"
    "k \<noteq> YF_TOK_EOL" "k \<noteq> YF_TOK_NOP"
    "\<And>pre xs ti tlen. int (2 + length d) \<le> tlen \<Longrightarrow>
       tcp_option (pre @ (k # of_nat (2 + length d) # d) @ xs) ti (length pre) tlen k (2 + length d) =
       Some (Some (apply_opt ti oo))"
proof (cases oo)
  case (OSack bs)
  then obtain ys where ys: "length ys = 8 * length bs - 4" "concat (map (\<lambda>(l, r). enc32 l @ enc32 r) bs) = ys @ enc32 (snd (last bs))"
    using blocks_last assms by auto
  have l: "length bs \<ge> 1" "length bs \<le> 31" using assms OSack by (auto simp: Suc_le_eq)
  show ?thesis
  proof (rule that [of YF_TOK_SACK "ys @ enc32 (snd (last bs))"], goal_cases)
    case 1 then show ?case using OSack ys l by (simp add: length_blocks)
  next
    case (5 pre xs ti tlen)
    have "rd32 ((pre @ YF_TOK_SACK # of_nat (2 + 8 * length bs) # ys) @ enc32 (snd (last bs)) @ xs)
        (length pre + (2 + 8 * length bs) - 4) = Some (snd (last bs))"
      using ys l by (intro rd32_at) simp
    then show ?case using OSack ys l 5
      by (auto simp: tcp_option_def)
  qed (use OSack ys l in simp_all)
next
  case (OMss m)
  then show ?thesis by (intro that [of YF_TOK_MSS "enc16 m"]) (simp_all add: tcp_option_def rd_skip)
next
  case (OWs w)
  then show ?thesis by (intro that [of YF_TOK_WS "[w]"]) (simp_all add: tcp_option_def rd_skip)
next
  case (OTs v e)
  then show ?thesis by (intro that [of YF_TOK_TS "enc32 v @ enc32 e"]) (simp_all add: tcp_option_def rd_skip)
next
  case (OOther k d)
  then show ?thesis using assms by (intro that [of k d]) (simp_all add: tcp_option_def)
qed (use assms in simp_all)

lemma tcp_options_end:
  assumes "tlen = int n"
  shows "tcp_options (pre @ replicate n 0 @ xs) ti (length pre) tlen = Some (ti, Some (length pre + n))"
proof (cases n)
  case (Suc m)
  then show ?thesis using assms by (subst tcp_options.simps) (simp add: rd_skip nat_add_distrib)
qed (use assms in \<open>subst tcp_options.simps, simp\<close>)

lemma tcp_options_one:
  assumes "opt_ok oo" "int (length (enc_opt oo)) \<le> tlen"
  shows "tcp_options (pre @ enc_opt oo @ xs) ti (length pre) tlen =
    tcp_options (pre @ enc_opt oo @ xs) (apply_opt ti oo) (length pre + length (enc_opt oo))
      (tlen - int (length (enc_opt oo)))"
proof (cases "oo = ONop")
  case True
  then show ?thesis using assms by (subst tcp_options.simps) (simp add: rd_skip)
next
  case False
  from enc_opt_cases [OF assms(1) False] obtain k d where
    e: "enc_opt oo = k # of_nat (2 + length d) # d" and d: "length d \<le> 253" "k \<noteq> YF_TOK_EOL" "k \<noteq> YF_TOK_NOP"
    and o: "\<And>pre xs ti tlen. int (2 + length d) \<le> tlen \<Longrightarrow>
       tcp_option (pre @ (k # of_nat (2 + length d) # d) @ xs) ti (length pre) tlen k (2 + length d) =
       Some (Some (apply_opt ti oo))" by blast
  define w :: u8 where "w = of_nat (2 + length d)"
  have w: "unat w = 2 + length d" unfolding w_def using d by (intro unat_u8) simp
  then have w2: "\<not> w < 2" by (simp add: word_less_nat_alt)
  have t: "int (2 + length d) \<le> tlen" using assms(2) e by simp
  have op: "tcp_option (pre @ k # w # d @ xs) ti (length pre) tlen k (unat w) = Some (Some (apply_opt ti oo))"
    using o [OF t, of pre xs ti] unfolding w by (simp add: w_def)
  have iw: "int (unat w) = 2 + int (length d)" by (simp only: w)
  have e': "enc_opt oo @ xs = k # w # d @ xs" "length (enc_opt oo) = unat w" using e w by (simp_all add: w_def)
  show ?thesis unfolding e'
    by (subst tcp_options.simps) (use d w2 t op iw in \<open>simp add: rd_skip\<close>)
qed

lemma tcp_options_enc:
  "\<forall>oo\<in>set os. opt_ok oo \<Longrightarrow>
   tcp_options (pre @ enc_opts os @ replicate n 0 @ xs) ti (length pre) (int (length (enc_opts os) + n)) =
   Some (foldl apply_opt ti os, Some (length pre + length (enc_opts os) + n))"
proof (induction os arbitrary: pre ti)
  case Nil
  then show ?case by (simp add: enc_opts_def tcp_options_end)
next
  case (Cons oo os)
  have "tcp_options (pre @ enc_opts (oo # os) @ replicate n 0 @ xs) ti (length pre)
      (int (length (enc_opts (oo # os)) + n)) =
    tcp_options ((pre @ enc_opt oo) @ enc_opts os @ replicate n 0 @ xs) (apply_opt ti oo) (length (pre @ enc_opt oo))
      (int (length (enc_opts os) + n))"
    using tcp_options_one [of oo "int (length (enc_opts (oo # os)) + n)" pre "enc_opts os @ replicate n 0 @ xs" ti] Cons.prems
    by (simp add: enc_opts_def)
  also have "\<dots> = Some (foldl apply_opt (apply_opt ti oo) os, Some (length (pre @ enc_opt oo) + length (enc_opts os) + n))"
    by (rule Cons.IH) (use Cons.prems in simp)
  finally show ?case by (simp add: enc_opts_def add.assoc)
qed

text \<open>C28: Round trip of the TCP options. Writing any list of well-formed options (no-operation, segment
  size, window scale, timestamps, selective acknowledgements, and options of other kinds), padded
  with end-of-list octets, and parsing them where they stand in a packet gives each option's value
  (the last one of each kind, and the last right edge of the selective acknowledgements), leaves the
  other fields alone and ends exactly behind the padding.\<close>

theorem tcp_options_roundtrip:
  assumes "\<forall>oo\<in>set os. opt_ok oo"
  shows "tcp_options (pre @ enc_opts os @ replicate n 0 @ xs) ti (length pre) (int (length (enc_opts os) + n)) =
   Some (foldl apply_opt ti os, Some (length pre + length (enc_opts os) + n))"
  using assms by (rule tcp_options_enc)

theorem tcp_options_roundtrip_witness:
  "tcp_options ([0, 0] @ enc_opts [OMss 1460, ONop, OWs 7, OSack [(1, 2), (5, 9)]] @ replicate 1 0 @ []) zero_tcpinfo
     (length [0 :: u8, 0]) (int (length (enc_opts [OMss 1460, ONop, OWs 7, OSack [(1, 2), (5, 9)]]) + 1)) =
   Some (zero_tcpinfo\<lparr>ti_mss := 1460, ti_ws := 7, ti_sack := 9\<rparr>,
         Some (length [0 :: u8, 0] + length (enc_opts [OMss 1460, ONop, OWs 7, OSack [(1, 2), (5, 9)]]) + 1))"
  using tcp_options_roundtrip [of "[OMss 1460, ONop, OWs 7, OSack [(1, 2), (5, 9)]]" "[0, 0]" 1 "[]" zero_tcpinfo]
  by simp

subsection \<open>From the options on the wire to the option observer\<close>

text \<open>What the decoder makes of a list of options, and the options and congestion codepoints a segment carries, by
  the bit of \<open>qofTcpCharacteristics\<close> that stands for them.\<close>

definition parsed_opts :: "tcpopt list \<Rightarrow> yfTCPInfo" where
  "parsed_opts os = (case tcp_options (enc_opts os) zero_tcpinfo 0 (int (length (enc_opts os))) of
     Some (ti, _) \<Rightarrow> ti | None \<Rightarrow> zero_tcpinfo)"

type_synonym wire_segment = "tcpopt list \<times> yfIPInfo \<times> u16"

definition parsed :: "wire_segment \<Rightarrow> yfTCPInfo \<times> yfIPInfo \<times> u16" where
  "parsed s = (parsed_opts (fst s), snd s)"

definition carries :: "nat \<Rightarrow> wire_segment \<Rightarrow> bool" where
  "carries n s \<longleftrightarrow> (case s of (os, ip, oct) \<Rightarrow>
     n = 0 \<and> ip_ecn ip AND 3 = 2 \<or> n = 1 \<and> ip_ecn ip AND 3 = 1 \<or> n = 2 \<and> ip_ecn ip AND 3 = 3 \<or>
     n = 4 \<and> (\<exists>v e. OTs v e \<in> set os) \<or> n = 5 \<and> (\<exists>bs. OSack bs \<in> set os) \<or> n = 6 \<and> (\<exists>w. OWs w \<in> set os))"

fun opt_nonzero :: "tcpopt \<Rightarrow> bool" where
  "opt_nonzero (OWs w) = (w \<noteq> 0)"
| "opt_nonzero (OTs v e) = (v \<noteq> 0)"
| "opt_nonzero (OSack bs) = (snd (last bs) \<noteq> 0)"
| "opt_nonzero _ = True"

text \<open>The value of a kind of option is that of the last one in the list.\<close>

definition scales where "scales os = concat (map (\<lambda>oo. case oo of OWs w \<Rightarrow> [w] | _ \<Rightarrow> []) os)"
definition stamps where "stamps os = concat (map (\<lambda>oo. case oo of OTs v e \<Rightarrow> [v] | _ \<Rightarrow> []) os)"
definition edges where "edges os = concat (map (\<lambda>oo. case oo of OSack bs \<Rightarrow> [snd (last bs)] | _ \<Rightarrow> []) os)"
definition sizes where "sizes os = concat (map (\<lambda>oo. case oo of OMss m \<Rightarrow> [m] | _ \<Rightarrow> []) os)"

lemma last_option:
  "ti_ws (foldl apply_opt ti os) = last (ti_ws ti # scales os)" "ti_tsval (foldl apply_opt ti os) = last (ti_tsval ti # stamps os)"
  "ti_sack (foldl apply_opt ti os) = last (ti_sack ti # edges os)" "ti_mss (foldl apply_opt ti os) = last (ti_mss ti # sizes os)"
proof (induction os rule: rev_induct)
  case (snoc oo os)
  { case 1 then show ?case using snoc.IH(1) by (cases oo) (auto simp: scales_def) }
  { case 2 then show ?case using snoc.IH(2) by (cases oo) (auto simp: stamps_def) }
  { case 3 then show ?case using snoc.IH(3) by (cases oo) (auto simp: edges_def) }
  { case 4 then show ?case using snoc.IH(4) by (cases oo) (auto simp: sizes_def) }
qed (simp_all add: scales_def stamps_def edges_def sizes_def)

lemma in_options:
  "w \<in> set (scales os) \<longleftrightarrow> OWs w \<in> set os" "v \<in> set (stamps os) \<longleftrightarrow> (\<exists>e. OTs v e \<in> set os)"
  "x \<in> set (edges os) \<longleftrightarrow> (\<exists>bs. OSack bs \<in> set os \<and> x = snd (last bs))"
  by (force simp: scales_def stamps_def edges_def split: tcpopt.splits)+

lemma some_option:
  "scales os \<noteq> [] \<longleftrightarrow> (\<exists>w. OWs w \<in> set os)" "stamps os \<noteq> [] \<longleftrightarrow> (\<exists>v e. OTs v e \<in> set os)"
  "edges os \<noteq> [] \<longleftrightarrow> (\<exists>bs. OSack bs \<in> set os)"
proof -
  have n: "xs \<noteq> [] \<longleftrightarrow> (\<exists>x. x \<in> set xs)" for xs :: "'a list" by (cases xs) auto
  show "scales os \<noteq> [] \<longleftrightarrow> (\<exists>w. OWs w \<in> set os)" unfolding n in_options ..
  show "stamps os \<noteq> [] \<longleftrightarrow> (\<exists>v e. OTs v e \<in> set os)" unfolding n in_options ..
  show "edges os \<noteq> [] \<longleftrightarrow> (\<exists>bs. OSack bs \<in> set os)" unfolding n in_options by blast
qed

lemma last_nonzero:
  "last (0 # xs) \<noteq> (0 :: 'a :: zero) \<Longrightarrow> xs \<noteq> []" "xs \<noteq> [] \<Longrightarrow> \<forall>x \<in> set xs. x \<noteq> 0 \<Longrightarrow> last (0 # xs) \<noteq> 0"
  using last_in_set by fastforce+

lemma parsed_opts_apply: "\<forall>oo \<in> set os. opt_ok oo \<Longrightarrow> parsed_opts os = foldl apply_opt zero_tcpinfo os"
  using tcp_options_enc [of os "[]" 0 "[]" zero_tcpinfo] by (simp add: parsed_opts_def)

lemma shows_carries:
  assumes "\<forall>oo \<in> set (fst s). opt_ok oo"
  shows "shows_opt n (parsed s) \<Longrightarrow> carries n s"
    and "\<forall>oo \<in> set (fst s). opt_nonzero oo \<Longrightarrow> carries n s \<Longrightarrow> shows_opt n (parsed s)"
proof -
  obtain os ip oct where s: "s = (os, ip, oct)" by (rule prod_cases3)
  have p: "parsed s = (foldl apply_opt zero_tcpinfo os, ip, oct)" using assms by (simp add: s parsed_def parsed_opts_apply)
  have z: "ti_ws zero_tcpinfo = 0" "ti_tsval zero_tcpinfo = 0" "ti_sack zero_tcpinfo = 0" by (simp_all add: zero_tcpinfo_def)
  have some: "scales os \<noteq> [] \<longleftrightarrow> (\<exists>w. OWs w \<in> set os)" "stamps os \<noteq> [] \<longleftrightarrow> (\<exists>v e. OTs v e \<in> set os)"
    "edges os \<noteq> [] \<longleftrightarrow> (\<exists>bs. OSack bs \<in> set os)"
    by (rule some_option)+
  have sh: "shows_opt n (parsed s) \<longleftrightarrow>
     n = 0 \<and> ip_ecn ip AND 3 = 2 \<or> n = 1 \<and> ip_ecn ip AND 3 = 1 \<or> n = 2 \<and> ip_ecn ip AND 3 = 3 \<or>
     n = 4 \<and> last (0 # stamps os) \<noteq> 0 \<or> n = 5 \<and> last (0 # edges os) \<noteq> 0 \<or> n = 6 \<and> last (0 # scales os) \<noteq> 0"
    unfolding p shows_opt_def prod.case last_option z ..
  have ca: "carries n s \<longleftrightarrow>
     n = 0 \<and> ip_ecn ip AND 3 = 2 \<or> n = 1 \<and> ip_ecn ip AND 3 = 1 \<or> n = 2 \<and> ip_ecn ip AND 3 = 3 \<or>
     n = 4 \<and> stamps os \<noteq> [] \<or> n = 5 \<and> edges os \<noteq> [] \<or> n = 6 \<and> scales os \<noteq> []"
    unfolding s carries_def prod.case some ..
  show "shows_opt n (parsed s) \<Longrightarrow> carries n s" unfolding sh ca by auto
  assume nz: "\<forall>oo \<in> set (fst s). opt_nonzero oo"
  have "\<forall>w \<in> set (scales os). w \<noteq> 0" "\<forall>v \<in> set (stamps os). v \<noteq> 0" "\<forall>x \<in> set (edges os). x \<noteq> 0"
    using nz by (force simp: in_options s)+
  then have "stamps os \<noteq> [] \<Longrightarrow> last (0 # stamps os) \<noteq> 0" "edges os \<noteq> [] \<Longrightarrow> last (0 # edges os) \<noteq> 0"
    "scales os \<noteq> [] \<Longrightarrow> last (0 # scales os) \<noteq> 0" by (simp_all only: last_nonzero not_False_eq_True)
  then show "carries n s \<Longrightarrow> shows_opt n (parsed s)" unfolding sh ca by blast
qed

text \<open>C32: The option observer against the options on the wire. Parse the options of any stream of segments and
  feed them to \<open>qfOptSegment\<close>: a bit of the characteristics is only set when some segment carried the option or
  congestion codepoint it stands for; when no window scale is zero, no timestamp is zero and no selective
  acknowledgement ends at zero, it is set exactly then (an option with such a value leaves no trace); and the observed
  segment size is the largest payload.\<close>

theorem opts_record_evidence:
  assumes "\<forall>s \<in> set ss. \<forall>oo \<in> set (fst s). opt_ok oo"
  shows "let qo = foldl opt_feed zero_opt (map parsed ss)
    in (bit (op_flags qo) n \<longrightarrow> (\<exists>s \<in> set ss. carries n s)) \<and>
       ((\<forall>s \<in> set ss. \<forall>oo \<in> set (fst s). opt_nonzero oo) \<longrightarrow> (bit (op_flags qo) n \<longleftrightarrow> (\<exists>s \<in> set ss. carries n s))) \<and>
       op_mss qo = fold max (map (snd \<circ> snd) ss) 0"
proof -
  have "map (snd \<circ> snd) (map parsed ss) = map (snd \<circ> snd) ss" by (simp add: parsed_def)
  moreover have "(\<exists>s \<in> set (map parsed ss). shows_opt n s) \<longleftrightarrow> (\<exists>s \<in> set ss. shows_opt n (parsed s))" by simp
  ultimately show ?thesis
    using opts_fed [of "map parsed ss" n] shows_carries [OF bspec [OF assms]] unfolding Let_def by metis
qed

definition ex_segments :: "wire_segment list" where
  "ex_segments = [([OMss 1460, OWs 7], \<lparr>ip_ttl = 64, ip_ecn = 0\<rparr>, 0), ([ONop, OTs 9 4], \<lparr>ip_ttl = 64, ip_ecn = 2\<rparr>, 1000)]"

theorem opts_record_evidence_witness:
  "bit (op_flags (foldl opt_feed zero_opt (map parsed ex_segments))) 6 \<and>
   \<not> bit (op_flags (foldl opt_feed zero_opt (map parsed ex_segments))) 5 \<and>
   op_mss (foldl opt_feed zero_opt (map parsed ex_segments)) = 1000"
  using opts_record_evidence [of ex_segments 6] opts_record_evidence [of ex_segments 5]
  by (simp add: ex_segments_def carries_def Let_def del: foldl_Cons)

text \<open>A window scale of zero is carried and leaves no trace.\<close>

lemma zero_scale_unseen:
  "carries 6 ([OWs 0], ip, oct)" "op_flags (opt_feed zero_opt (parsed ([OWs 0], \<lparr>ip_ttl = 64, ip_ecn = 0\<rparr>, 0))) = 0"
proof -
  show "carries 6 ([OWs 0], ip, oct)" by (simp add: carries_def)
  have "parsed_opts [OWs 0] = zero_tcpinfo" by (simp add: parsed_opts_apply) (simp add: zero_tcpinfo_def)
  then show "op_flags (opt_feed zero_opt (parsed ([OWs 0], \<lparr>ip_ttl = 64, ip_ecn = 0\<rparr>, 0))) = 0"
    by (simp add: parsed_def opt_feed_def qfOptSegment_def opt_set_def zero_opt_def zero_tcpinfo_def)
qed

subsection \<open>The TCP header\<close>

record tcp_hdr =
  t_sport :: u16
  t_dport :: u16
  t_seq :: u32
  t_ack :: u32
  t_flags :: u8
  t_win :: u16
  t_csum :: u16
  t_urp :: u16
  t_opts :: "tcpopt list"
  t_pad :: nat

definition tcp_hlen :: "tcp_hdr \<Rightarrow> nat" where
  "tcp_hlen h = 20 + length (enc_opts (t_opts h)) + t_pad h"

definition tcp_hdr_ok :: "tcp_hdr \<Rightarrow> bool" where
  "tcp_hdr_ok h = (tcp_hlen h mod 4 = 0 \<and> tcp_hlen h \<le> 60 \<and> (\<forall>oo\<in>set (t_opts h). opt_ok oo))"

definition enc_tcp :: "tcp_hdr \<Rightarrow> bytes" where
  "enc_tcp h = enc16 (t_sport h) @ enc16 (t_dport h) @ enc32 (t_seq h) @ enc32 (t_ack h) @
     [push_bit 4 (of_nat (tcp_hlen h div 4)), t_flags h] @ enc16 (t_win h) @ enc16 (t_csum h) @ enc16 (t_urp h) @
     enc_opts (t_opts h) @ replicate (t_pad h) 0"

definition tcp_info_of :: "tcp_hdr \<Rightarrow> yfTCPInfo" where
  "tcp_info_of h = foldl apply_opt
     (zero_tcpinfo\<lparr>ti_seq := t_seq h, ti_ack := t_ack h, ti_rwin := t_win h, ti_flags := t_flags h\<rparr>) (t_opts h)"

lemma length_enc_tcp [simp]: "length (enc_tcp h) = tcp_hlen h"
  by (simp add: enc_tcp_def tcp_hlen_def)

lemma nibble_enc: "k < 16 \<Longrightarrow> unat (drop_bit 4 (push_bit 4 (of_nat k :: u8))) = k"
proof -
  assume k: "k < 16"
  have "push_bit 4 (of_nat k :: u8) = of_nat (k * 16)" by (simp add: push_bit_eq_mult)
  moreover have "unat (of_nat (k * 16) :: u8) = k * 16" using k by (intro unat_u8) simp
  ultimately have "unat (push_bit 4 (of_nat k :: u8)) = k * 16" by simp
  then show ?thesis by (simp add: drop_bit_eq_div unat_div)
qed

lemma is_frag_simps [simp]:
  "is_frag (set_ports sp dp st) = is_frag st" "is_frag (st\<lparr>d_tcpinfo := ti\<rparr>) = is_frag st"
  by (simp_all add: is_frag_def set_ports_def)

lemma TCP_roundtrip:
  assumes h: "tcp_hdr_ok h" and c: "tcp_hlen h \<le> unat (d_caplen st)" and t: "dc_tomode (d_ctx st)" and f: "\<not> is_frag st"
  shows "yfDecodeTCP (pre @ enc_tcp h @ xs) st (length pre) =
    Some (eat (tcp_hlen h) (set_ports (t_sport h) (t_dport h) (st\<lparr>d_tcpinfo := tcp_info_of h\<rparr>)),
          Some (length pre + tcp_hlen h))"
proof -
  define buf where "buf = pre @ enc_tcp h @ xs"
  have b: "buf = pre @ enc16 (t_sport h) @ enc16 (t_dport h) @ enc32 (t_seq h) @ enc32 (t_ack h) @
     push_bit 4 (of_nat (tcp_hlen h div 4)) # t_flags h # enc16 (t_win h) @ enc16 (t_csum h) @ enc16 (t_urp h) @
     enc_opts (t_opts h) @ replicate (t_pad h) 0 @ xs" by (simp add: buf_def enc_tcp_def)
  have n: "unat (drop_bit 4 (push_bit 4 (of_nat (tcp_hlen h div 4) :: u8))) * 4 = tcp_hlen h"
    using h by (subst nibble_enc) (auto simp: tcp_hdr_ok_def)
  define hd where "hd = pre @ enc16 (t_sport h) @ enc16 (t_dport h) @ enc32 (t_seq h) @ enc32 (t_ack h) @
     push_bit 4 (of_nat (tcp_hlen h div 4)) # t_flags h # enc16 (t_win h) @ enc16 (t_csum h) @ enc16 (t_urp h)"
  have b2: "buf = hd @ enc_opts (t_opts h) @ replicate (t_pad h) 0 @ xs" "length hd = length pre + 20"
    by (simp_all add: b hd_def)
  have opt: "tcp_options buf ti (length pre + 20) (int (tcp_hlen h) - 20) =
      Some (foldl apply_opt ti (t_opts h), Some (length pre + tcp_hlen h))" for ti
    using tcp_options_enc [of "t_opts h" hd "t_pad h" xs ti] h
    by (simp add: b2 tcp_hdr_ok_def tcp_hlen_def algebra_simps)
  have rds: "rd8 buf (length pre + 12) = Some (push_bit 4 (of_nat (tcp_hlen h div 4)))"
    "rd16 buf (length pre) = Some (t_sport h)" "rd16 buf (Suc (Suc (length pre))) = Some (t_dport h)"
    "rd32 buf (length pre + 4) = Some (t_seq h)" "rd32 buf (length pre + 8) = Some (t_ack h)"
    "rd16 buf (length pre + 14) = Some (t_win h)" "rd8 buf (length pre + 13) = Some (t_flags h)"
    by (simp_all add: b rd_skip)
  have c20: "\<not> unat (d_caplen st) < 20" using c by (simp add: tcp_hlen_def)
  have hw: "unat (of_nat (tcp_hlen h) :: u64) = tcp_hlen h" using h by (intro small_u64) (simp add: tcp_hdr_ok_def)
  have body: "tcp_body buf (set_ports (t_sport h) (t_dport h) (st\<lparr>d_tcpinfo := ti\<rparr>)) (length pre) (tcp_hlen h) =
     Some (eat (tcp_hlen h) (set_ports (t_sport h) (t_dport h) (st\<lparr>d_tcpinfo := foldl apply_opt ti (t_opts h)\<rparr>)),
           Some (length pre + tcp_hlen h))" for ti
    using c hw t by (simp add: tcp_body_def eat_def set_ports_def opt Let_def)
  show ?thesis unfolding buf_def [symmetric] using c20 f
    by (simp add: yfDecodeTCP_def rds n Let_def set_l4hlen_def body tcp_info_of_def)
qed

subsection \<open>The IPv4 header\<close>

record ip4_hdr =
  i_tos :: u8
  i_id :: u16
  i_off :: u16
  i_ttl :: u8
  i_proto :: u8
  i_csum :: u16
  i_src :: u32
  i_dst :: u32
  i_opts :: bytes

definition ip4_hlen :: "ip4_hdr \<Rightarrow> nat" where
  "ip4_hlen h = 20 + length (i_opts h)"

text \<open>A header of an unfragmented datagram with \<open>n\<close> octets of payload.\<close>

definition ip4_hdr_ok :: "ip4_hdr \<Rightarrow> nat \<Rightarrow> bool" where
  "ip4_hdr_ok h n = (ip4_hlen h mod 4 = 0 \<and> ip4_hlen h \<le> 60 \<and> ip4_hlen h + n < 65536 \<and>
     i_off h AND (YF_IP4_OFFMASK OR YF_IP4_MF) = 0)"

definition enc_ip4 :: "ip4_hdr \<Rightarrow> nat \<Rightarrow> bytes" where
  "enc_ip4 h n = [0x40 OR of_nat (ip4_hlen h div 4), i_tos h] @ enc16 (of_nat (ip4_hlen h + n)) @ enc16 (i_id h) @
     enc16 (i_off h) @ [i_ttl h, i_proto h] @ enc16 (i_csum h) @ enc32 (i_src h) @ enc32 (i_dst h) @ i_opts h"

lemma length_enc_ip4 [simp]: "length (enc_ip4 h n) = ip4_hlen h"
  by (simp add: enc_ip4_def ip4_hlen_def)

lemma low_nibble_enc: "k < 16 \<Longrightarrow> unat ((0x40 OR of_nat k :: u8) AND 0x0F) = k"
proof -
  have "\<forall>k\<in>set [0..<16]. unat ((0x40 OR of_nat k :: u8) AND 0x0F) = k" by code_simp
  then show "k < 16 \<Longrightarrow> ?thesis" by simp
qed

lemma ucast_len: "m < 65536 \<Longrightarrow> (ucast (of_nat m :: u16) :: u64) = of_nat m"
  by (simp add: word_unat_eq_iff ucast_u64 unat_of_nat)

lemma cap_len: "\<lbrakk>m < 65536; m \<le> unat w\<rbrakk> \<Longrightarrow> (if of_nat m < w then of_nat m else w) = (of_nat m :: u64)"
  by (auto simp: word_less_nat_alt word_unat_eq_iff unat_of_nat)

definition ip4_result :: "ip4_hdr \<Rightarrow> nat \<Rightarrow> dst \<Rightarrow> dst" where
  "ip4_result h n st =
     st\<lparr>d_key := (d_key st)\<lparr>k_version := 4, k_sip4 := i_src h, k_dip4 := i_dst h, k_proto := i_proto h\<rparr>,
        d_iplen := of_nat (ip4_hlen h + n), d_caplen := of_nat n,
        d_ipinfo := (d_ipinfo st)\<lparr>ip_ttl := i_ttl h, ip_ecn := i_tos h AND 3\<rparr>,
        d_frag := map_option (\<lambda>fi. fi\<lparr>fi_offset := i_off h, fi_frag := 0\<rparr>) (d_frag st)\<rparr>"

lemma IPv4_roundtrip:
  assumes h: "ip4_hdr_ok h n" and c: "ip4_hlen h + n \<le> unat (d_caplen st)"
  shows "yfDecodeIPv4 (pre @ enc_ip4 h n @ xs) st (length pre) =
    Some (ip4_result h n st, Some (length pre + ip4_hlen h))"
proof -
  define buf where "buf = pre @ enc_ip4 h n @ xs"
  define len :: u16 where "len = of_nat (ip4_hlen h + n)"
  have b: "buf = pre @ (0x40 OR of_nat (ip4_hlen h div 4)) # i_tos h # enc16 len @ enc16 (i_id h) @
     enc16 (i_off h) @ i_ttl h # i_proto h # enc16 (i_csum h) @ enc32 (i_src h) @ enc32 (i_dst h) @ i_opts h @ xs"
    by (simp add: buf_def enc_ip4_def len_def)
  have rds: "rd32 buf (length pre + 12) = Some (i_src h)" "rd32 buf (length pre + 16) = Some (i_dst h)"
    "rd8 buf (length pre + 9) = Some (i_proto h)" "rd16 buf (Suc (Suc (length pre))) = Some len"
    "rd16 buf (length pre + 6) = Some (i_off h)" "rd8 buf (length pre + 8) = Some (i_ttl h)"
    "rd8 buf (Suc (length pre)) = Some (i_tos h)"
    by (simp_all add: b rd_skip)
  have rd0: "rd8 buf (length pre) = Some (0x40 OR of_nat (ip4_hlen h div 4))" by (simp add: b rd_skip)
  have hn: "unat ((0x40 OR of_nat (ip4_hlen h div 4) :: u8) AND 0x0F) * 4 = ip4_hlen h"
    using h by (subst low_nibble_enc) (auto simp: ip4_hdr_ok_def)
  have cl: "(if ucast len < d_caplen st then ucast len else d_caplen st) = (of_nat (ip4_hlen h + n) :: u64)"
    unfolding len_def using c h by (subst (1 2) ucast_len, simp_all only: ip4_hdr_ok_def cap_len simp_thms)
  have ls: "of_nat (ip4_hlen h) + of_nat n = len" by (simp add: len_def)
  have fr: "ip4_frag (i_off h) 0 w = (\<lambda>fi. fi\<lparr>fi_offset := i_off h, fi_frag := 0\<rparr>)" for w
    using h by (simp add: fun_eq_iff ip4_frag_def ip4_hdr_ok_def Let_def)
  have body: "ip4_body buf st (length pre) (ip4_hlen h) = Some (ip4_result h n st, Some (length pre + ip4_hlen h))"
    using h by (simp add: ip4_body_def rds Let_def cl fr ip4_hdr_ok_def ip4_result_def eat_def ls)
  have c0: "d_caplen st \<noteq> 0" using c by (auto simp: ip4_hlen_def)
  have hw: "unat (of_nat (ip4_hlen h) :: u64) = ip4_hlen h" using h by (intro small_u64) (simp add: ip4_hdr_ok_def)
  have "yfDecodeIPv4 buf st (length pre) =
     (if d_caplen st < of_nat (ip4_hlen h) then reject ip4hdr_inc st else ip4_body buf st (length pre) (ip4_hlen h))"
    using c0 unfolding yfDecodeIPv4_def rd0 Option.bind.bind_lunit Let_def hn by simp
  then show ?thesis using c hw body unfolding buf_def by simp
qed

subsection \<open>The Ethernet header and 802.1q tags\<close>

fun first_type :: "u16 list \<Rightarrow> u16 \<Rightarrow> u16" where
  "first_type [] ty = ty"
| "first_type (t # ts) ty = YF_TYPE_8021Q"

fun enc_tags :: "u16 list \<Rightarrow> u16 \<Rightarrow> bytes" where
  "enc_tags [] ty = []"
| "enc_tags (t # ts) ty = enc16 t @ enc16 (first_type ts ty) @ enc_tags ts ty"

definition enc_eth :: "bytes \<Rightarrow> bytes \<Rightarrow> u16 list \<Rightarrow> u16 \<Rightarrow> bytes" where
  "enc_eth dmac smac tags ty = dmac @ smac @ enc16 (first_type tags ty) @ enc_tags tags ty"

definition set_tag :: "yfL2Info \<Rightarrow> u16 \<Rightarrow> yfL2Info" where
  "set_tag l t = l\<lparr>l2_vlan_tag := 0x0FFF AND t\<rparr>"

lemma length_enc_tags [simp]: "length (enc_tags tags ty) = 4 * length tags"
  by (induction tags) auto

lemma eat_eat: "eat m (eat n st) = eat (n + m) st"
  by (simp add: eat_def)

lemma eat_l2: "eat n (st\<lparr>d_l2info := l\<rparr>) = (eat n st)\<lparr>d_l2info := l\<rparr>"
  by (simp add: eat_def)

lemma Shim_roundtrip:
  assumes "ty \<notin> {YF_TYPE_8021Q, YF_TYPE_MPLS, YF_TYPE_MPLSM, YF_TYPE_PPPOE}"
  shows "4 * length tags \<le> unat (d_caplen st) \<Longrightarrow>
    yfDecodeL2Shim (pre @ enc_tags tags ty @ xs) st (length pre) (first_type tags ty) =
    Some ((eat (4 * length tags) st)\<lparr>d_l2info := foldl set_tag (d_l2info st) tags\<rparr>, ty, Some (length pre + 4 * length tags))"
proof (induction tags arbitrary: pre st)
  case Nil
  then show ?case using assms by (subst yfDecodeL2Shim.simps) (simp add: eat_def)
next
  case (Cons t ts)
  let ?st = "eat 4 (st\<lparr>d_l2info := set_tag (d_l2info st) t\<rparr>)"
  let ?pre = "pre @ enc16 t @ enc16 (first_type ts ty)"
  have c: "4 * length ts \<le> unat (d_caplen ?st)" using Cons.prems by (simp add: eat_caplen)
  have "yfDecodeL2Shim (pre @ enc_tags (t # ts) ty @ xs) st (length pre) (first_type (t # ts) ty) =
    yfDecodeL2Shim (?pre @ enc_tags ts ty @ xs) ?st (length ?pre) (first_type ts ty)"
    using Cons.prems by (subst yfDecodeL2Shim.simps) (simp add: rd_skip set_tag_def)
  also note Cons.IH [OF c, of ?pre]
  finally show ?case by (simp add: eat_l2 eat_eat)
qed

subsection \<open>Whole frames\<close>

lemma eth_L2:
  assumes "length dmac = 6" "length smac = 6" "ty \<notin> {YF_TYPE_8021Q, YF_TYPE_MPLS, YF_TYPE_MPLSM, YF_TYPE_PPPOE}"
    and "14 + 4 * length tags \<le> unat (d_caplen st)"
  shows "yfDecodeL2 (enc_eth dmac smac tags ty @ xs) st TRACE_TYPE_ETH 0 t0 =
    Some ((eat (14 + 4 * length tags) st)
            \<lparr>d_l2info := foldl set_tag (zero_l2info\<lparr>l2_smac := smac, l2_dmac := dmac\<rparr>) tags\<rparr>,
          ty, Some (14 + 4 * length tags))"
proof -
  define st1 where "st1 = eat 14 (st\<lparr>d_l2info := zero_l2info\<lparr>l2_smac := smac, l2_dmac := dmac\<rparr>\<rparr>)"
  define buf where "buf = enc_eth dmac smac tags ty @ xs"
  let ?pre = "dmac @ smac @ enc16 (first_type tags ty)"
  have b: "buf = ?pre @ enc_tags tags ty @ xs" by (simp add: buf_def enc_eth_def)
  have rds: "rd16 buf 12 = Some (first_type tags ty)" "rdn buf 6 6 = Some smac" "rdn buf 0 6 = Some dmac"
    using assms(1,2) by (simp_all add: b rd_skip rdn_prefix)
  have c: "4 * length tags \<le> unat (d_caplen st1)" using assms(4) by (simp add: st1_def eat_caplen)
  have "yfDecodeL2 buf st TRACE_TYPE_ETH 0 t0 =
      yfDecodeL2Shim buf st1 (length ?pre) (first_type tags ty)"
    using assms by (simp add: yfDecodeL2_def Let_def rds st1_def)
  also have "\<dots> = Some ((eat (4 * length tags) st1)\<lparr>d_l2info := foldl set_tag (d_l2info st1) tags\<rparr>,
      ty, Some (length ?pre + 4 * length tags))"
    unfolding b by (rule Shim_roundtrip [OF assms(3) c])
  finally show ?thesis using assms(1,2)
    by (simp add: buf_def st1_def eat_l2 eat_eat)
qed

definition enc_frame :: "bytes \<Rightarrow> bytes \<Rightarrow> u16 list \<Rightarrow> ip4_hdr \<Rightarrow> tcp_hdr \<Rightarrow> bytes \<Rightarrow> bytes \<Rightarrow> bytes" where
  "enc_frame dmac smac tags ip tcp payload trailer =
     enc_eth dmac smac tags YF_TYPE_IPv4 @ enc_ip4 ip (tcp_hlen tcp + length payload) @ enc_tcp tcp @ payload @ trailer"

lemma unat_len: "n < 2 ^ 63 \<Longrightarrow> unat (of_nat n - of_nat m :: u64) = n - m" if "m \<le> n" for n m :: nat
  using that by (simp add: unat_sub word_le_nat_alt unat_of_nat)

lemma yfDecodeIP_tcp4:
  assumes "yfDecodeIPv4 buf st pkt = Some (st1, Some p1)" "dc_reqtype (d_ctx st) \<in> {0, YF_TYPE_IPv4}"
    and "\<not> is_frag st1" "k_proto (d_key st1) = YF_PROTO_TCP"
  shows "yfDecodeIP buf st YF_TYPE_IPv4 pkt = yfDecodeTCP buf st1 p1"
  using assms by (subst yfDecodeIP.simps) auto

text \<open>The packet buffer that the frame describes.\<close>

definition frame_pbuf :: "bytes \<Rightarrow> bytes \<Rightarrow> u16 list \<Rightarrow> ip4_hdr \<Rightarrow> tcp_hdr \<Rightarrow> nat \<Rightarrow> u64 \<Rightarrow> yfPBuf \<Rightarrow> yfPBuf" where
  "frame_pbuf dmac smac tags ip tcp n ptime pbuf =
     (let vlan = (if tags = [] then 0 else 0x0FFF AND last tags)
      in pbuf\<lparr>pb_ptime := ptime,
           pb_key := (pb_key pbuf)\<lparr>k_sp := t_sport tcp, k_dp := t_dport tcp, k_proto := YF_PROTO_TCP, k_version := 4,
             k_vlanId := vlan, k_sip4 := i_src ip, k_dip4 := i_dst ip\<rparr>,
           pb_allHeaderLen := of_nat (14 + 4 * length tags + ip4_hlen ip + tcp_hlen tcp),
           pb_iplen := of_nat (ip4_hlen ip + (tcp_hlen tcp + n)),
           pb_ipinfo := (pb_ipinfo pbuf)\<lparr>ip_ttl := i_ttl ip, ip_ecn := i_tos ip AND 3\<rparr>,
           pb_tcpinfo := tcp_info_of tcp,
           pb_l2info := zero_l2info\<lparr>l2_smac := smac, l2_dmac := dmac, l2_l2hlen := of_nat (14 + 4 * length tags),
             l2_vlan_tag := vlan\<rparr>\<rparr>)"

lemma foldl_set_tag: "foldl set_tag l tags = (if tags = [] then l else l\<lparr>l2_vlan_tag := 0x0FFF AND last tags\<rparr>)"
  by (induction tags rule: rev_induct) (auto simp: set_tag_def)

lemma ucast_down: "m < 2 ^ 63 \<Longrightarrow> (ucast (of_nat m :: u64) :: u16) = of_nat m"
proof -
  assume "m < 2 ^ 63"
  then have "take_bit 64 m = m" by (simp add: take_bit_nat_eq_self_iff)
  then show ?thesis by (simp add: unsigned_of_nat)
qed

text \<open>C10: Round trip of a whole frame. An Ethernet frame with any number of 802.1q tags around an
  unfragmented IPv4 datagram (with or without IP options) that carries a TCP segment with any
  well-formed options, followed by the payload and any Ethernet trailer, is accepted by
  \<open>yfDecodeToPBuf\<close>; the packet buffer then holds the addresses, ports and protocol, the last VLAN
  identifier, the MAC addresses, the time to live and the congestion bits, the TCP fields with the
  values of the options, the datagram length and the offset of the payload, and the counters of the
  context are as before.\<close>

theorem decode_frame_roundtrip:
  assumes mac: "length dmac = 6" "length smac = 6"
    and len: "length (enc_frame dmac smac tags ip tcp payload trailer) < 2 ^ 63"
    and ip: "ip4_hdr_ok ip (tcp_hlen tcp + length payload)" "i_proto ip = YF_PROTO_TCP" and tcp: "tcp_hdr_ok tcp"
    and ctx: "dc_reqtype ctx = 0 \<or> dc_reqtype ctx = YF_TYPE_IPv4" "dc_tomode ctx"
  shows "yfDecodeToPBuf ctx TRACE_TYPE_ETH ptime (of_nat (length (enc_frame dmac smac tags ip tcp payload trailer)))
      (enc_frame dmac smac tags ip tcp payload trailer) fi pbuf =
    Some (ctx, map_option (\<lambda>fi. fi\<lparr>fi_offset := i_off ip, fi_frag := 0\<rparr>) fi,
      frame_pbuf dmac smac tags ip tcp (length payload) ptime pbuf, True)"
proof -
  define buf where "buf = enc_frame dmac smac tags ip tcp payload trailer"
  define m where "m = 14 + 4 * length tags"
  define n where "n = tcp_hlen tcp + length payload"
  define eth where "eth = enc_eth dmac smac tags YF_TYPE_IPv4"
  define st0 where "st0 = start_state ctx buf fi pbuf"
  define l2 where "l2 = foldl set_tag (zero_l2info\<lparr>l2_smac := smac, l2_dmac := dmac\<rparr>) tags"
  define st2 where "st2 = (eat m st0)\<lparr>d_l2info := l2\<rparr>"
  define st3 where "st3 = to_l3 (of_nat (length buf)) st2"
  define st4 where "st4 = ip4_result ip n st3"
  have le: "length eth = m" using mac by (simp add: eth_def enc_eth_def m_def)
  have lb: "length buf = m + ip4_hlen ip + n + length trailer"
    using le by (simp add: buf_def enc_frame_def eth_def n_def)
  have l63: "length buf < 2 ^ 63" using len by (simp add: buf_def)
  have c0: "unat (d_caplen st0) = length buf" using l63 by (simp add: st0_def dst_of_def)
  have "yfDecodeL2 (eth @ enc_ip4 ip n @ enc_tcp tcp @ payload @ trailer) st0 TRACE_TYPE_ETH 0 0 = Some (st2, YF_TYPE_IPv4, Some m)"
    unfolding eth_def st2_def m_def l2_def by (rule eth_L2) (use mac c0 lb m_def in simp_all)
  then have r2: "yfDecodeL2 buf st0 TRACE_TYPE_ETH 0 0 = Some (st2, YF_TYPE_IPv4, Some m)"
    by (simp add: buf_def enc_frame_def eth_def n_def)
  have c3: "unat (d_caplen st3) = ip4_hlen ip + n + length trailer"
    using c0 lb by (simp add: st3_def st2_def to_l3_def Let_def eat_caplen)
  have "yfDecodeIPv4 (eth @ enc_ip4 ip n @ enc_tcp tcp @ payload @ trailer) st3 (length eth) = Some (st4, Some (length eth + ip4_hlen ip))"
    unfolding st4_def by (rule IPv4_roundtrip) (use ip c3 n_def in simp_all)
  then have r4: "yfDecodeIPv4 buf st3 m = Some (st4, Some (m + ip4_hlen ip))"
    unfolding le by (simp add: buf_def enc_frame_def eth_def n_def)
  have "n < 2 ^ 63" using ip by (simp add: ip4_hdr_ok_def n_def)
  then have c4: "unat (d_caplen st4) = n" by (simp add: st4_def ip4_result_def)
  have f4: "\<not> is_frag st4" by (simp add: st4_def ip4_result_def is_frag_def split: option.splits)
  have x4: "d_ctx st4 = ctx"
    by (simp add: st4_def ip4_result_def st3_def st2_def st0_def to_l3_def Let_def eat_def dst_of_def)
  have "yfDecodeTCP ((eth @ enc_ip4 ip n) @ enc_tcp tcp @ payload @ trailer) st4 (length (eth @ enc_ip4 ip n)) =
      Some (eat (tcp_hlen tcp) (set_ports (t_sport tcp) (t_dport tcp) (st4\<lparr>d_tcpinfo := tcp_info_of tcp\<rparr>)),
            Some (length (eth @ enc_ip4 ip n) + tcp_hlen tcp))"
    by (rule TCP_roundtrip) (use tcp c4 f4 x4 ctx n_def in simp_all)
  then have r5: "yfDecodeTCP buf st4 (m + ip4_hlen ip) =
      Some (eat (tcp_hlen tcp) (set_ports (t_sport tcp) (t_dport tcp) (st4\<lparr>d_tcpinfo := tcp_info_of tcp\<rparr>)),
            Some (m + ip4_hlen ip + tcp_hlen tcp))"
    using le by (simp add: buf_def enc_frame_def eth_def n_def)
  have x3: "d_ctx st3 = ctx" by (simp add: st3_def st2_def st0_def to_l3_def Let_def eat_def dst_of_def)
  have "yfDecodeIP buf st3 YF_TYPE_IPv4 m = yfDecodeTCP buf st4 (m + ip4_hlen ip)"
    by (rule yfDecodeIP_tcp4 [OF r4]) (use ctx x3 f4 ip in \<open>auto simp: st4_def ip4_result_def\<close>)
  note rip = this [unfolded r5]
  have ul: "ucast (of_nat (length buf) - (of_nat (length buf) - of_nat m) :: u64) = (of_nat m :: u16)"
    using l63 lb ucast_down [of m] by simp
  show ?thesis unfolding buf_def [symmetric]
    unfolding yfDecodeToPBuf_eq [OF r2 [unfolded st0_def]] st3_def [symmetric] option.case rip
    using ip(2) ul
    by (simp add: pbuf_of_def frame_pbuf_def eat_def set_ports_def st4_def ip4_result_def st3_def to_l3_def st2_def
        st0_def dst_of_def Let_def l2_def foldl_set_tag zero_l2info_def m_def n_def add.assoc)
qed


definition sample_ip4 :: ip4_hdr where
  "sample_ip4 = \<lparr>i_tos = 2, i_id = 7, i_off = 0x4000, i_ttl = 64, i_proto = 6, i_csum = 0,
     i_src = 0x0A000001, i_dst = 0x0A000002, i_opts = []\<rparr>"

definition sample_tcp :: tcp_hdr where
  "sample_tcp = \<lparr>t_sport = 40000, t_dport = 443, t_seq = 1000, t_ack = 0, t_flags = YF_TF_SYN, t_win = 65535,
     t_csum = 0, t_urp = 0, t_opts = [OMss 1460, OWs 7], t_pad = 1\<rparr>"

lemma sample_tcp_hlen: "tcp_hlen sample_tcp = 28"
  by (simp add: tcp_hlen_def sample_tcp_def enc_opts_def)

lemma sample_ok: "ip4_hdr_ok sample_ip4 (tcp_hlen sample_tcp + length [1 :: u8, 2])" "tcp_hdr_ok sample_tcp"
  by (simp_all add: ip4_hdr_ok_def tcp_hdr_ok_def ip4_hlen_def sample_tcp_hlen)
    (simp_all add: sample_ip4_def sample_tcp_def)

theorem decode_frame_roundtrip_witness:
  "yfDecodeToPBuf plain_ctx TRACE_TYPE_ETH 9
     (of_nat (length (enc_frame [1, 2, 3, 4, 5, 6] [7, 8, 9, 10, 11, 12] [0x2005] sample_ip4 sample_tcp [1, 2] [])))
     (enc_frame [1, 2, 3, 4, 5, 6] [7, 8, 9, 10, 11, 12] [0x2005] sample_ip4 sample_tcp [1, 2] []) None zero_pbuf =
   Some (plain_ctx, None,
     frame_pbuf [1, 2, 3, 4, 5, 6] [7, 8, 9, 10, 11, 12] [0x2005] sample_ip4 sample_tcp (length [1 :: u8, 2]) 9 zero_pbuf, True)"
  using decode_frame_roundtrip [of "[1, 2, 3, 4, 5, 6]" "[7, 8, 9, 10, 11, 12]" "[0x2005]" sample_ip4 sample_tcp "[1, 2]" "[]"
      plain_ctx 9 None zero_pbuf] sample_ok
  by (simp add: enc_frame_def enc_eth_def ip4_hlen_def sample_tcp_hlen plain_ctx_def yfDecodeCtxAlloc_def)
    (simp add: sample_ip4_def)

end
