(* ===== verification/FragOrder.thy ===== *)
theory FragOrder
  imports FragSpec
begin

text \<open>
  Reassembly of one datagram: its fragments may arrive in any order and are delivered as one packet
  with the last of them.
\<close>

type_synonym fragment = "yfIPFragInfo \<times> yfPBuf"

definition frag_rec :: "fragment \<Rightarrow> yfFragRec" where
  "frag_rec p = \<lparr>fr_off = fi_offset (fst p), fr_len = pb_iplen (snd p) - fi_iphlen (fst p)\<rparr>"

definition frag_end :: "fragment \<Rightarrow> nat" where
  "frag_end p = unat (fr_off (frag_rec p)) + unat (fr_len (frag_rec p))"

text \<open>The fragments of a datagram with key \<open>k\<close>, IP header length \<open>h\<close> and \<open>paylen\<close> octets of payload: they
  tile the payload, the one that ends it is the one without the flag for more, and the first one
  holds the transport header, if it is TCP.\<close>

definition datagram :: "yfFragKey \<Rightarrow> u16 \<Rightarrow> nat \<Rightarrow> fragment list \<Rightarrow> bool" where
  "datagram k h paylen fs \<longleftrightarrow>
     recs_disjoint (map frag_rec fs) \<and> covered (map frag_rec fs) = {0..<paylen} \<and> 0 < paylen \<and> paylen + unat h < 65536 \<and>
     (\<forall>p \<in> set fs. fi_frag (fst p) \<noteq> 0 \<and> yfFragKeyEqual (frag_key_of (fst p) (snd p)) k \<and> fi_iphlen (fst p) = h \<and>
        (fi_more (fst p) = 0 \<longleftrightarrow> frag_end p = paylen) \<and>
        (fi_offset (fst p) = 0 \<longrightarrow> fi_l4hlen (fst p) \<noteq> 0 \<or> k_proto (fk_f k) \<noteq> YF_PROTO_TCP))"

text \<open>A node that has taken the fragments \<open>ps\<close>.\<close>

definition ports_of :: "yfFragNode \<Rightarrow> fragment \<Rightarrow> bool" where
  "ports_of n p \<longleftrightarrow> fg_have_l4hdr n \<and> k_sp (fk_f (fg_key n)) = k_sp (pb_key (snd p)) \<and>
     k_dp (fk_f (fg_key n)) = k_dp (pb_key (snd p))"

definition took :: "yfFragNode \<Rightarrow> fragment list \<Rightarrow> bool" where
  "took n ps \<longleftrightarrow> mset (fg_records n) = mset (map frag_rec ps) \<and>
     fg_have_first n = (\<exists>p \<in> set ps. fi_offset (fst p) = 0) \<and> fg_have_last n = (\<exists>p \<in> set ps. fi_more (fst p) = 0) \<and>
     (\<forall>p \<in> set ps. fi_offset (fst p) = 0 \<and> fi_l4hlen (fst p) \<noteq> 0 \<longrightarrow> ports_of n p)"

lemma rec_range_frag: "rec_range (frag_rec p) = {unat (fi_offset (fst p))..<frag_end p}"
  by (simp add: rec_range_def frag_rec_def frag_end_def)

lemma recs_disjoint_app:
  "recs_disjoint (map frag_rec (ps @ p # qs)) \<Longrightarrow> q \<in> set ps \<Longrightarrow> rec_range (frag_rec q) \<inter> rec_range (frag_rec p) = {}"
  by (auto simp: recs_disjoint_def)

lemma rec_nonempty: "recs_disjoint (map frag_rec fs) \<Longrightarrow> p \<in> set fs \<Longrightarrow> unat (fi_offset (fst p)) < frag_end p"
  by (auto simp: recs_disjoint_def frag_end_def frag_rec_def unat_gt_0)

lemma stash_ports:
  "fi_offset fi \<noteq> 0 \<or> fi_l4hlen fi = 0 \<Longrightarrow> ports_of (with_frag fi pb n) p = ports_of n p"
  "fi_offset fi = 0 \<and> fi_l4hlen fi \<noteq> 0 \<Longrightarrow> ports_of (with_frag fi pb n) (fi, pb)"
  by (auto simp: ports_of_def with_frag_def stash_node_def Let_def)

lemma took_add:
  assumes t: "took n ps" and d: "recs_disjoint (map frag_rec (ps @ [p]))"
  shows "took (with_frag (fst p) (snd p) n) (ps @ [p])"
proof -
  have "ports_of (with_frag (fst p) (snd p) n) q"
    if q: "q \<in> set (ps @ [p])" "fi_offset (fst q) = 0" "fi_l4hlen (fst q) \<noteq> 0" for q
  proof (cases "q = p")
    case True
    then show ?thesis using that stash_ports(2) [of "fst p" "snd p" n] by simp
  next
    case False
    then have "q \<in> set ps" using q(1) by simp
    then have "rec_range (frag_rec q) \<inter> rec_range (frag_rec p) = {}" using d recs_disjoint_app [of ps p "[]" q] by simp
    moreover have "0 < frag_end q" "unat (fi_offset (fst p)) < frag_end p"
      using rec_nonempty [OF d, of q] rec_nonempty [OF d, of p] q by auto
    ultimately have "fi_offset (fst p) \<noteq> 0" using q(2) by (auto simp: rec_range_frag)
    then show ?thesis using t \<open>q \<in> set ps\<close> q by (simp add: stash_ports(1) took_def)
  qed
  then show ?thesis using t by (auto simp: took_def frag_rec_def)
qed

lemma covered_frag: "p \<in> set fs \<Longrightarrow> x \<in> rec_range (frag_rec p) \<Longrightarrow> x \<in> covered (map frag_rec fs)"
  by (auto simp: covered_def)

lemma took_fits:
  assumes srt: "garray_sort srt" and t: "took n ps" and d: "datagram k h paylen (ps @ qs)"
  shows "fits srt n = (if qs = [] then Some (of_nat paylen) else None)"
proof -
  have dis: "recs_disjoint (map frag_rec (ps @ qs))" and cov: "covered (map frag_rec (ps @ qs)) = {0..<paylen}"
    and tot: "0 < paylen" "paylen < 65536" using d by (auto simp: datagram_def)
  have m: "mset (fg_records n) = mset (map frag_rec ps)" using t by (simp add: took_def)
  have dps: "recs_disjoint (map frag_rec ps)" using dis by (simp add: recs_disjoint_def)
  have fit: "frag_fit (srt yfFragSortByOffset (fg_records n)) 0 = Some e \<longleftrightarrow> covered (map frag_rec ps) = {0..<unat e}" for e
    using frag_fit_gapless [OF srt, of "fg_records n" e] dps disjoint_perm [OF m] covered_perm [OF m] by simp
  have ends: "frag_end p \<le> paylen" if "p \<in> set (ps @ qs)" for p
  proof -
    have "frag_end p - 1 \<in> rec_range (frag_rec p)" using rec_nonempty [OF dis that] by (auto simp: rec_range_frag)
    then have "frag_end p - 1 < paylen" using covered_frag [OF that] cov by auto
    then show ?thesis using tot by linarith
  qed
  have ut: "unat (of_nat paylen :: u32) = paylen" using tot by (simp add: unat_of_nat)
  show ?thesis
  proof (cases "qs = []")
    case True
    have "0 \<in> covered (map frag_rec ps)" "paylen - 1 \<in> covered (map frag_rec ps)" using cov True tot by auto
    then obtain p q where p: "p \<in> set ps" "0 \<in> rec_range (frag_rec p)" and q: "q \<in> set ps" "paylen - 1 \<in> rec_range (frag_rec q)"
      by (auto simp: covered_def)
    have "fi_offset (fst p) = 0" using p(2) by (simp add: rec_range_frag unat_eq_0)
    moreover have "frag_end q = paylen" using q ends [of q] by (auto simp: rec_range_frag)
    then have "fi_more (fst q) = 0" using d q(1) by (auto simp: datagram_def)
    ultimately have "fg_have_first n" "fg_have_last n" using t p(1) q(1) by (auto simp: took_def)
    moreover have "frag_fit (srt yfFragSortByOffset (fg_records n)) 0 = Some (of_nat paylen)"
      using fit [of "of_nat paylen"] cov True ut by simp
    ultimately show ?thesis using True by (simp add: fits_def)
  next
    case False
    have "fits srt n = None"
    proof (rule ccontr)
      assume "fits srt n \<noteq> None"
      then obtain e where last: "fg_have_last n" and "frag_fit (srt yfFragSortByOffset (fg_records n)) 0 = Some e"
        by (auto simp: fits_def split: if_splits)
      then have ce: "covered (map frag_rec ps) = {0..<unat e}" using fit by simp
      obtain p where p: "p \<in> set ps" "frag_end p = paylen" using last t d by (auto simp: took_def datagram_def)
      have "paylen - 1 \<in> rec_range (frag_rec p)" using p rec_nonempty [OF dis, of p] by (auto simp: rec_range_frag)
      then have "paylen - 1 < unat e" using ce covered_frag [OF p(1)] by auto
      moreover obtain q where q: "q \<in> set qs" using False by (cases qs) auto
      have "unat (fi_offset (fst q)) \<in> rec_range (frag_rec q)" using rec_nonempty [OF dis, of q] q by (simp add: rec_range_frag)
      moreover from this have "unat (fi_offset (fst q)) < paylen" using cov covered_frag [of q "ps @ qs"] q by auto
      ultimately have "unat (fi_offset (fst q)) \<in> covered (map frag_rec ps) \<inter> rec_range (frag_rec q)" using ce by auto
      then obtain p' where p': "p' \<in> set ps" "rec_range (frag_rec p') \<inter> rec_range (frag_rec q) \<noteq> {}" by (auto simp: covered_def)
      obtain q1 q2 where "qs = q1 @ q # q2" using q by (meson split_list)
      then show False using recs_disjoint_app [of "ps @ q1" q q2 p'] dis p' by simp
    qed
    then show ?thesis using False by simp
  qed
qed

subsection \<open>The fragments in a row\<close>

text \<open>The table has taken the fragments \<open>ps\<close> of the datagram with key \<open>k\<close>.\<close>

definition in_progress :: "'t frag_ops \<Rightarrow> 't yfFragTab \<Rightarrow> addr list \<Rightarrow> yfFragKey \<Rightarrow> fragment list \<Rightarrow> bool" where
  "in_progress ops ft as k ps \<longleftrightarrow>
     (if ps = [] then gh_lookup ops (gt_table ft) k = None
      else \<exists>fn \<in> set as. yfFragKeyEqual (fg_key (gt_nodes ft fn)) k \<and> took (gt_nodes ft fn) ps)"

lemma took_cong:
  "\<lbrakk>mset (fg_records n') = mset (fg_records n); fg_have_first n' = fg_have_first n; fg_have_last n' = fg_have_last n;
    fg_have_l4hdr n' = fg_have_l4hdr n; fg_key n' = fg_key n\<rbrakk> \<Longrightarrow> took n' ps = took n ps"
  by (simp add: took_def ports_of_def)

context frag_index_ops
begin

lemma got_took:
  assumes ok: "frag_ok ops ft as []" and st: "in_progress ops ft as k ps" and e: "yfFragKeyEqual kk k"
    and g: "yfFragKeyEqual (fg_key (got ft0 as kk fn)) kk" and new: "fn \<notin> set as \<longrightarrow> gh_lookup ops (gt_table ft) kk = None"
    and n: "gt_nodes ft0 = gt_nodes ft"
  shows "took (got ft0 as kk fn) ps"
proof -
  note look = frag_okD(4) [OF ok]
  have same: "gh_lookup ops (gt_table ft) kk = Some a \<longleftrightarrow> gh_lookup ops (gt_table ft) k = Some a" for a
    using look [of kk a] look [of k a] e fragkey.eq_sym fragkey.eq_trans by blast
  show ?thesis
  proof (cases "ps = []")
    case True
    then have "gh_lookup ops (gt_table ft) kk = None" using st same by (auto simp: in_progress_def)
    then have "fn \<notin> set as" using g look [of kk fn] n by (auto simp: got_def)
    then show ?thesis using True by (simp add: got_def took_def zero_fnode_def)
  next
    case False
    then obtain f0 where f0: "f0 \<in> set as" "yfFragKeyEqual (fg_key (gt_nodes ft f0)) k" "took (gt_nodes ft f0) ps"
      using st by (auto simp: in_progress_def)
    then have l: "gh_lookup ops (gt_table ft) kk = Some f0" using same look by blast
    then have "fn \<in> set as" using new by auto
    then have "gh_lookup ops (gt_table ft) kk = Some fn" using g look [of kk fn] n by (simp add: got_def)
    then have "fn = f0" using l by simp
    then show ?thesis using f0 n by (simp add: got_def took_cong [of "(gt_nodes ft f0)\<lparr>fg_last_ctime := gt_ctime ft0\<rparr>" "gt_nodes ft f0"])
  qed
qed

lemma run_datagram:
  assumes srt: "garray_sort srt"
  shows "\<lbrakk>frag_ok ops ft as []; gt_max_frags ft \<noteq> 1; datagram k h paylen (ps @ qs); qs \<noteq> []; in_progress ops ft as k ps;
    sorted (gt_ctime ft # map (\<lambda>x. pb_ptime (snd x)) qs)\<rbrakk> \<Longrightarrow>
   \<exists>ft' as' outs out. frag_run ops srt ft (map (\<lambda>p. (Some (fst p), snd p)) qs) = Some (ft', outs @ [(out, True)]) \<and>
     frag_ok ops ft' as' [] \<and> length outs = length qs - 1 \<and> (\<forall>x \<in> set outs. \<not> snd x) \<and>
     pb_iplen out = of_nat paylen + h \<and>
     (\<forall>p \<in> set (ps @ qs). fi_offset (fst p) = 0 \<and> fi_l4hlen (fst p) \<noteq> 0 \<longrightarrow>
        k_sp (pb_key out) = k_sp (pb_key (snd p)) \<and> k_dp (pb_key out) = k_dp (pb_key (snd p)))"
proof (induction qs arbitrary: ft as ps)
  case (Cons p qs)
  obtain fi pb where p: "p = (fi, pb)" by fastforce
  let ?kk = "frag_key_of fi pb"
  have dg: "datagram k h paylen ((ps @ [p]) @ qs)" using Cons.prems(3) by simp
  have pe: "fi_frag fi \<noteq> 0" "yfFragKeyEqual ?kk k" "fi_iphlen fi = h"
    using Cons.prems(3) by (auto simp: datagram_def p)
  have key: "key_ok (pb_key pb)" using pe(2) by (simp add: yfFragKeyEqual_iff fkey_ok_def frag_key_of_def)
  have t: "gt_ctime ft \<le> pb_ptime pb" using Cons.prems(6) by (simp add: p)
  from defrag_ok [OF Cons.prems(1) key pe(1) t, of srt] obtain ft1 as1 fn n pb1 b where
    d: "yfDefragPBuf ops srt ft (Some fi) pb = Some (ft1, Some fi, pb1, b)" and ok1: "frag_ok ops ft1 as1 []"
    and c1: "gt_ctime ft1 = pb_ptime pb" "gt_max_frags ft1 = gt_max_frags ft"
    and n: "n = with_frag fi pb (got (ft\<lparr>gt_ctime := pb_ptime pb\<rparr>) as ?kk fn)"
    and ke: "yfFragKeyEqual (fg_key n) ?kk"
    and new: "fn \<notin> set as \<longrightarrow> gh_lookup ops (gt_table ft) ?kk = None"
    and b: "b \<longleftrightarrow> fits srt n \<noteq> None \<and> l4_known n"
    and pb1: "pb1 = (if b then delivered srt fi n pb else pb\<lparr>pb_ptime := 0\<rparr>)"
    and kp: "gt_max_frags ft \<noteq> 1 \<longrightarrow> (fn \<in> set as1 \<longleftrightarrow> fits srt n = None) \<and>
       (fits srt n = None \<longrightarrow>
          gt_nodes ft1 fn = n\<lparr>fg_records := (if fg_have_first n \<and> fg_have_last n
            then srt yfFragSortByOffset (fg_records n) else fg_records n)\<rparr>)"
    by (elim exE conjE) (rule that)
  let ?g = "got (ft\<lparr>gt_ctime := pb_ptime pb\<rparr>) as ?kk fn"
  have gk: "yfFragKeyEqual (fg_key ?g) ?kk" using ke n by (simp add: yfFragKeyEqual_iff)
  have "took ?g ps" by (rule got_took [OF Cons.prems(1,5) pe(2) gk new]) simp
  then have tn: "took n (ps @ [p])" using took_add [of ?g ps p] dg n by (simp add: datagram_def p recs_disjoint_def)
  have ft_iff: "fits srt n = (if qs = [] then Some (of_nat paylen) else None)" by (rule took_fits [OF srt tn dg])
  have nk: "yfFragKeyEqual (fg_key n) k" using ke pe(2) fragkey.eq_trans by blast
  show ?case
  proof (cases "qs = []")
    case True
    have "0 \<in> covered (map frag_rec (ps @ [p]))" using dg True by (simp add: datagram_def)
    then obtain q where q: "q \<in> set (ps @ [p])" "0 \<in> rec_range (frag_rec q)"
      unfolding covered_def set_map by blast
    have q0: "fi_offset (fst q) = 0" using q(2) by (simp add: rec_range_frag unat_eq_0)
    have "fi_l4hlen (fst q) \<noteq> 0 \<or> k_proto (fk_f k) \<noteq> YF_PROTO_TCP" using dg q(1) q0 by (auto simp: datagram_def)
    moreover have "k_proto (fk_f (fg_key n)) = k_proto (fk_f k)" using nk by (simp add: yfFragKeyEqual_iff fkey_tuple_def Let_def)
    ultimately have "l4_known n" using tn q(1) q0 by (auto simp: l4_known_def took_def ports_of_def)
    then have bt: "b" using b ft_iff True by simp
    have "ucast (of_nat paylen :: u32) = (of_nat paylen :: u16)"
    proof -
      have "take_bit 32 paylen = paylen" using dg by (simp add: datagram_def take_bit_nat_eq_self_iff)
      then show ?thesis by (simp add: unsigned_of_nat)
    qed
    then have il: "pb_iplen pb1 = of_nat paylen + h" using pb1 bt ft_iff True pe(3) by (simp add: delivered_def)
    have "\<forall>q \<in> set (ps @ [p]). fi_offset (fst q) = 0 \<and> fi_l4hlen (fst q) \<noteq> 0 \<longrightarrow>
        k_sp (pb_key pb1) = k_sp (pb_key (snd q)) \<and> k_dp (pb_key pb1) = k_dp (pb_key (snd q))"
      using tn pb1 bt by (simp add: took_def ports_of_def delivered_def)
    moreover have "frag_run ops srt ft (map (\<lambda>p. (Some (fst p), snd p)) (p # qs)) = Some (ft1, [] @ [(pb1, True)])"
      using d bt True by (simp add: p)
    ultimately show ?thesis using ok1 il True by (intro exI [of _ ft1] exI [of _ as1] exI [of _ "[]"] exI [of _ pb1]) simp
  next
    case False
    have bf: "\<not> b" using b ft_iff False by simp
    have fa: "fn \<in> set as1" and nd: "gt_nodes ft1 fn = n\<lparr>fg_records := (if fg_have_first n \<and> fg_have_last n
            then srt yfFragSortByOffset (fg_records n) else fg_records n)\<rparr>"
      using kp Cons.prems(2) ft_iff False by auto
    have "took (gt_nodes ft1 fn) (ps @ [p])"
      using tn took_cong [of "gt_nodes ft1 fn" n] nd garray_sort.sort_perm [OF srt] by simp
    moreover have "yfFragKeyEqual (fg_key (gt_nodes ft1 fn)) k" using nk nd by simp
    ultimately have ip: "in_progress ops ft1 as1 k (ps @ [p])" using fa unfolding in_progress_def by auto
    have so: "sorted (gt_ctime ft1 # map (\<lambda>x. pb_ptime (snd x)) qs)" using Cons.prems(6) c1 by (simp add: p)
    have mx: "gt_max_frags ft1 \<noteq> 1" using Cons.prems(2) c1 by simp
    from Cons.IH [OF ok1 mx dg False ip so] obtain ft' as' outs out where
      r: "frag_run ops srt ft1 (map (\<lambda>p. (Some (fst p), snd p)) qs) = Some (ft', outs @ [(out, True)])"
      and o: "frag_ok ops ft' as' []" "length outs = length qs - 1" "\<forall>x \<in> set outs. \<not> snd x" "pb_iplen out = of_nat paylen + h"
        "\<forall>p \<in> set ((ps @ [p]) @ qs). fi_offset (fst p) = 0 \<and> fi_l4hlen (fst p) \<noteq> 0 \<longrightarrow>
        k_sp (pb_key out) = k_sp (pb_key (snd p)) \<and> k_dp (pb_key out) = k_dp (pb_key (snd p))"
      by (elim exE conjE) (rule that)
    have r': "frag_run ops srt ft (map (\<lambda>p. (Some (fst p), snd p)) (p # qs)) = Some (ft', ((pb1, False) # outs) @ [(out, True)])"
      using d bf r by (simp add: p)
    have l': "length ((pb1, False) # outs) = length (p # qs) - 1" using o(2) False by (cases qs) auto
    have "set (ps @ p # qs) = set ((ps @ [p]) @ qs)" by auto
    then show ?thesis using o(1,3,4,5) r' l'
      by (intro exI [of _ ft'] exI [of _ as'] exI [of _ "(pb1, False) # outs"] exI [of _ out]) (simp del: append.simps)
  qed
qed simp

end

text \<open>C9: Reassembly in any order. Take a fragment table in any state it can reach, that does not hold the
  datagram and is not limited to a single one, and the fragments of a datagram: they tile its
  payload, and the first one holds the transport header or it is not TCP. Whatever the order in which
  they arrive, with timestamps that do not decrease, every fragment but the last is withheld, and
  with the last one a single packet is delivered, whose length is the IP header and the whole payload
  and whose ports are those of the first fragment.\<close>

theorem defrag_any_order:
  assumes ops: "ghash_table ops yfFragKeyEqual" and srt: "garray_sort srt"
    and ft: "frag_ok ops ft as []" "gt_max_frags ft \<noteq> 1" "gh_lookup ops (gt_table ft) k = None"
    and dg: "datagram k h paylen fs" and time: "sorted (gt_ctime ft # map (\<lambda>x. pb_ptime (snd x)) fs)"
  shows "\<exists>ft' as' outs out. frag_run ops srt ft (map (\<lambda>p. (Some (fst p), snd p)) fs) = Some (ft', outs @ [(out, True)]) \<and>
    frag_ok ops ft' as' [] \<and> length outs = length fs - 1 \<and> (\<forall>x \<in> set outs. \<not> snd x) \<and>
    pb_iplen out = of_nat paylen + h \<and>
    (\<forall>p \<in> set fs. fi_offset (fst p) = 0 \<and> fi_l4hlen (fst p) \<noteq> 0 \<longrightarrow>
       k_sp (pb_key out) = k_sp (pb_key (snd p)) \<and> k_dp (pb_key out) = k_dp (pb_key (snd p)))"
proof -
  have loc: "frag_index_ops ops" using ops by (simp add: frag_index_ops_def)
  have "fs \<noteq> []" using dg by (auto simp: datagram_def covered_def)
  then show ?thesis
    using frag_index_ops.run_datagram [OF loc srt ft(1,2), of k h paylen "[]" fs] dg ft(3) time
    by (simp add: in_progress_def)
qed

definition sample_fragment :: "u16 \<Rightarrow> u8 \<Rightarrow> u16 \<Rightarrow> u64 \<Rightarrow> fragment" where
  "sample_fragment off mf iplen t = (the (fst (sample_frag off mf iplen t)), snd (sample_frag off mf iplen t))"

lemma sample_datagram:
  "datagram (frag_key_of (fst (sample_fragment 0 1 28 11)) (snd (sample_fragment 0 1 28 11))) 20 48
     [sample_fragment 8 0 60 10, sample_fragment 0 1 28 11]"
  by (auto simp: datagram_def recs_disjoint_def covered_def rec_range_def frag_rec_def frag_end_def sample_fragment_def
      sample_frag_def zero_pbuf_def yfFragKeyEqual_def frag_key_of_def)

theorem defrag_any_order_witness:
  "\<exists>ft' as' outs out.
    frag_run (bucket_ops yfFragKeyHash yfFragKeyEqual) c_sort (yfFragTabAlloc (bucket_ops yfFragKeyHash yfFragKeyEqual) 0 0)
      (map (\<lambda>p. (Some (fst p), snd p)) [sample_fragment 8 0 60 10, sample_fragment 0 1 28 11]) =
      Some (ft', outs @ [(out, True)]) \<and>
    frag_ok (bucket_ops yfFragKeyHash yfFragKeyEqual) ft' as' [] \<and>
    length outs = length [sample_fragment 8 0 60 10, sample_fragment 0 1 28 11] - 1 \<and> (\<forall>x \<in> set outs. \<not> snd x) \<and>
    pb_iplen out = of_nat 48 + 20 \<and>
    (\<forall>p \<in> set [sample_fragment 8 0 60 10, sample_fragment 0 1 28 11].
       fi_offset (fst p) = 0 \<and> fi_l4hlen (fst p) \<noteq> 0 \<longrightarrow>
       k_sp (pb_key out) = k_sp (pb_key (snd p)) \<and> k_dp (pb_key out) = k_dp (pb_key (snd p)))"
  by (rule defrag_any_order [OF fragkey.bucket_table csort.garray_sort_axioms fragidx.alloc_ok [of 0 0] _ _ sample_datagram])
    (simp_all add: yfFragTabAlloc_def bucket_ops_def sample_fragment_def sample_frag_def zero_pbuf_def)

text \<open>A TCP datagram whose first fragment is too short for the TCP header is dropped when it is complete:
  the payload of the node is never filled, so the header cannot be decoded then.\<close>

lemma short_first_fragment_dropped:
  assumes "fg_paylen n = 0" "\<not> fg_have_l4hdr n" "k_proto (fk_f (fg_key n)) = YF_PROTO_TCP"
  shows "frag_l4 n fi = Some (False, n, fi)"
  using assms by (simp add: frag_l4_def yfDefragTCP_def)

text \<open>A fragment inside the range of an earlier one moves the end back, and the traversal then finds a gap
  where there is none.\<close>

lemma overlap_seen_as_gap:
  "frag_fit [\<lparr>fr_off = 0, fr_len = 100\<rparr>, \<lparr>fr_off = 8, fr_len = 8\<rparr>, \<lparr>fr_off = 100, fr_len = 8\<rparr>] 0 = None"
  by simp

end
