(* ===== verification/FlowPrint.thy ===== *)
theory FlowPrint
  imports AirUtil FlowTab
begin

text \<open>
  The text form of a flow (\<open>yfPrintFlags\<close> and \<open>yfPrintString\<close> of \<open>src/yafcore.c\<close>). The duration is
  printed from a \<open>double\<close> with three decimals; the model prints the milliseconds exactly, which is what
  the conversion gives below \<open>2\<^sup>5\<^sup>3\<close> of them.
\<close>

abbreviation YAF_END_UDPFORCE :: u8 where "YAF_END_UDPFORCE \<equiv> 0x1F"

definition yfPrintFlags :: "string \<Rightarrow> u8 \<Rightarrow> string" where
  "yfPrintFlags str flags =
     str @ (if has_flag flags YF_TF_ECE then ''E'' else []) @ (if has_flag flags YF_TF_CWR then ''C'' else []) @
     (if has_flag flags YF_TF_URG then ''U'' else []) @ (if has_flag flags YF_TF_ACK then ''A'' else []) @
     (if has_flag flags YF_TF_PSH then ''P'' else []) @ (if has_flag flags YF_TF_RST then ''R'' else []) @
     (if has_flag flags YF_TF_SYN then ''S'' else []) @ (if has_flag flags YF_TF_FIN then ''F'' else []) @
     (if flags = 0 then ''0'' else [])"

definition fmt_w :: "'a :: len word \<Rightarrow> string" where
  "fmt_w x = fmt_u 1 (unat x)"

definition print_times :: "string \<Rightarrow> yfFlow \<Rightarrow> string" where
  "print_times rstr f =
     (let rstr = air_mstime_g_string_append rstr (f_stime f) AIR_TIME_ISO8601
      in if f_stime f \<noteq> f_etime f then
           let rstr = air_mstime_g_string_append (rstr @ '' - '') (f_etime f) AIR_TIME_ISO8601_HMS; d = f_etime f - f_stime f
           in rstr @ '' ('' @ fmt_w (d div 1000) @ ''.'' @ fmt_u 3 (unat (d mod 1000)) @ '' sec)''
         else rstr)"

definition print_endpoints :: "string \<Rightarrow> yfFlow \<Rightarrow> string" where
  "print_endpoints rstr f =
     (let key = f_key f;
          sabuf = (if k_version key = 4 then air_ipaddr_buf_print (k_sip4 key)
                   else if k_version key = 6 then air_ip6addr_buf_print (k_sip6 key) else []);
          dabuf = (if k_version key = 4 then air_ipaddr_buf_print (k_dip4 key)
                   else if k_version key = 6 then air_ip6addr_buf_print (k_dip6 key) else []);
          ports = sabuf @ '':'' @ fmt_w (k_sp key) @ '' => '' @ dabuf @ '':'' @ fmt_w (k_dp key);
          icmp = ''['' @ fmt_w (drop_bit 8 (k_dp key)) @ '':'' @ fmt_w (k_dp key AND 0xFF) @ ''] '' @ sabuf @ '' => '' @ dabuf
      in if k_proto key = YF_PROTO_TCP then
           let rstr = yfPrintFlags (rstr @ '' tcp '' @ ports @ '' '') (fv_iflags (f_val f));
               rstr = yfPrintFlags (rstr @ ''/'') (fv_uflags (f_val f))
           in if fv_oct (f_rval f) \<noteq> 0
              then yfPrintFlags (yfPrintFlags (rstr @ '':'') (fv_iflags (f_rval f)) @ ''/'') (fv_uflags (f_rval f))
              else rstr
         else if k_proto key = YF_PROTO_UDP then rstr @ '' udp '' @ ports
         else if k_proto key = YF_PROTO_ICMP then rstr @ '' icmp '' @ icmp
         else if k_proto key = YF_PROTO_ICMP6 then rstr @ '' icmp6 '' @ icmp
         else rstr @ '' ip '' @ fmt_w (k_proto key) @ '' '' @ sabuf @ '' => '' @ dabuf)"

definition print_counts :: "string \<Rightarrow> yfFlow \<Rightarrow> string" where
  "print_counts rstr f =
     (let vlan = fmt_x 3 (unat (k_vlanId (f_key f)));
          rstr = (if k_vlanId (f_key f) \<noteq> 0
                  then rstr @ '' vlan '' @ vlan @ (if fv_oct (f_rval f) \<noteq> 0 then '':'' @ vlan else []) else rstr)
      in if fv_pkt (f_rval f) \<noteq> 0
         then rstr @ '' ('' @ fmt_w (fv_pkt (f_val f)) @ ''/'' @ fmt_w (fv_oct (f_val f)) @ '' <-> '' @
                fmt_w (fv_pkt (f_rval f)) @ ''/'' @ fmt_w (fv_oct (f_rval f)) @ '') rtt '' @ fmt_w (f_rdtime f) @ '' ms''
         else rstr @ '' ('' @ fmt_w (fv_pkt (f_val f)) @ ''/'' @ fmt_w (fv_oct (f_val f)) @ '' ->)'')"

definition print_reason :: "string \<Rightarrow> u8 \<Rightarrow> string" where
  "print_reason rstr reason =
     (let r = reason AND YAF_END_MASK
      in rstr @ (if r = YAF_END_IDLE then '' idle'' else if r = YAF_END_ACTIVE then '' active''
           else if r = YAF_END_FORCED then '' eof'' else if r = YAF_END_RESOURCE then '' rsrc''
           else if r = YAF_END_UDPFORCE then '' force'' else []))"

definition yfPrintString :: "string \<Rightarrow> yfFlow \<Rightarrow> string" where
  "yfPrintString rstr f = print_reason (print_counts (print_endpoints (print_times rstr f) f) f) (f_reason f) @ [CHR 0x0A]"

text \<open>\<open>fwrite\<close> of the text as one item is a parameter: the stream after it and the number of items written.\<close>

definition yfPrint :: "('o \<Rightarrow> string \<Rightarrow> 'o \<times> nat) \<Rightarrow> 'o \<Rightarrow> yfFlow \<Rightarrow> 'o \<times> bool" where
  "yfPrint fwrite out f = (case fwrite out (yfPrintString [] f) of (out, rc) \<Rightarrow> (out, rc = 1))"

text \<open>The printed flags tell the flags.\<close>

lemma print_flags_injective: "yfPrintFlags [] x = yfPrintFlags [] y \<Longrightarrow> x = y"
proof -
  assume e: "yfPrintFlags [] x = yfPrintFlags [] y"
  have c: "(CHR ''E'' \<in> set (yfPrintFlags [] z) \<longleftrightarrow> bit z 6) \<and> (CHR ''C'' \<in> set (yfPrintFlags [] z) \<longleftrightarrow> bit z 7) \<and>
      (CHR ''U'' \<in> set (yfPrintFlags [] z) \<longleftrightarrow> bit z 5) \<and> (CHR ''A'' \<in> set (yfPrintFlags [] z) \<longleftrightarrow> bit z 4) \<and>
      (CHR ''P'' \<in> set (yfPrintFlags [] z) \<longleftrightarrow> bit z 3) \<and> (CHR ''R'' \<in> set (yfPrintFlags [] z) \<longleftrightarrow> bit z 2) \<and>
      (CHR ''S'' \<in> set (yfPrintFlags [] z) \<longleftrightarrow> bit z 1) \<and> (CHR ''F'' \<in> set (yfPrintFlags [] z) \<longleftrightarrow> bit z 0)" for z
  proof -
    have b: "has_flag z YF_TF_ECE = bit z 6" "has_flag z YF_TF_CWR = bit z 7" "has_flag z YF_TF_URG = bit z 5"
      "has_flag z YF_TF_ACK = bit z 4" "has_flag z YF_TF_PSH = bit z 3" "has_flag z YF_TF_RST = bit z 2"
      "has_flag z YF_TF_SYN = bit z 1" "has_flag z YF_TF_FIN = bit z 0"
      using and_exp_eq_0_iff_not_bit [of z 6] and_exp_eq_0_iff_not_bit [of z 7] and_exp_eq_0_iff_not_bit [of z 5]
        and_exp_eq_0_iff_not_bit [of z 4] and_exp_eq_0_iff_not_bit [of z 3] and_exp_eq_0_iff_not_bit [of z 2]
        and_exp_eq_0_iff_not_bit [of z 1] and_exp_eq_0_iff_not_bit [of z 0]
      by (simp_all add: has_flag_def)
    show ?thesis unfolding yfPrintFlags_def b by simp
  qed
  show "x = y"
  proof (rule bit_word_eqI)
    fix n assume "n < LENGTH(8)"
    then have "n = 0 \<or> n = 1 \<or> n = 2 \<or> n = 3 \<or> n = 4 \<or> n = 5 \<or> n = 6 \<or> n = 7" by auto
    then show "bit x n = bit y n" using c [of x] c [of y] unfolding e by auto
  qed
qed

end
