(* ===== verification/Bitmap.thy ===== *)
theory Bitmap
  imports QofPrelude
begin

unbundle bit_operations_syntax

text \<open>
  Bit arrays that move (\<open>src/bitmap.c\<close>): counting and finding bits in a word, and an array of words used as a ring, in
  which ranges of bits are set and the part of the range that was set before is reported.

  The tables \<open>bimBit\<close>, \<open>bimMaskA\<close> and \<open>bimMaskB\<close> are functions of the index. An array of size zero, on which the C code
  divides by zero, gives \<open>None\<close>. Reserving and releasing the array is left out.
\<close>

subsection \<open>Words\<close>

definition bimBit :: "nat \<Rightarrow> u64" where
  "bimBit i = push_bit i 1"

definition bimMaskA :: "nat \<Rightarrow> u64" where
  "bimMaskA i = push_bit i (- 1)"

definition bimMaskB :: "nat \<Rightarrow> u64" where
  "bimMaskB i = drop_bit (63 - i) (- 1)"

definition bimCountSet :: "u64 \<Rightarrow> u32" where
  "bimCountSet v =
     (let c = v - (drop_bit 1 v AND 0x5555555555555555);
          c = (drop_bit 2 c AND 0x3333333333333333) + (c AND 0x3333333333333333);
          c = (drop_bit 4 c + c) AND 0x0F0F0F0F0F0F0F0F;
          c = (drop_bit 8 c + c) AND 0x00FF00FF00FF00FF;
          c = (drop_bit 16 c + c) AND 0x0000FFFF0000FFFF
      in ucast (ucast (ucast (drop_bit 32 c + c) :: u32) AND 0x00000000FFFFFFFF :: u64))"

function high_bit :: "u64 \<Rightarrow> u64 \<Rightarrow> nat \<Rightarrow> nat" where
  "high_bit v m n = (if v < m then high_bit v (drop_bit 1 m) (n - 1) else n)"
  by pat_completeness auto

termination high_bit
proof (relation "measure (\<lambda>(v, m, n). unat m)")
  fix v m :: u64 and n :: nat assume "v < m"
  then have "0 < unat m" by (simp add: word_less_nat_alt)
  then show "((v, drop_bit 1 m, n - 1), (v, m, n)) \<in> measure (\<lambda>(v, m, n). unat m)"
    by (simp add: drop_bit_Suc unat_div)
qed simp

declare high_bit.simps [simp del]

definition bimHighBitSet :: "u64 \<Rightarrow> nat" where
  "bimHighBitSet v = high_bit v 0x8000000000000000 64"

subsection \<open>Arrays\<close>

record bimBitmap =
  bm_v :: "u64 list"
  bm_sz :: u32
  bm_base :: u32

datatype bimIntersect = BIM_NONE | BIM_START | BIM_END | BIM_EDGE | BIM_FULL | BIM_PART

definition bimInit :: "u32 \<Rightarrow> bimBitmap" where
  "bimInit capacity =
     (let sz = capacity div 64; sz = (if capacity mod 64 \<noteq> 0 then sz + 1 else sz)
      in \<lparr>bm_v = replicate (unat sz) 0, bm_sz = sz, bm_base = 0\<rparr>)"

definition bimTSRCombine :: "bimIntersect \<Rightarrow> bimIntersect \<Rightarrow> bimIntersect" where
  "bimTSRCombine prev cur =
     (case prev of
        BIM_START \<Rightarrow> (case cur of BIM_END \<Rightarrow> BIM_EDGE | BIM_NONE \<Rightarrow> BIM_START | _ \<Rightarrow> BIM_PART)
      | BIM_NONE \<Rightarrow> (if cur = BIM_NONE then BIM_NONE else BIM_PART)
      | BIM_FULL \<Rightarrow> (if cur = BIM_FULL then BIM_FULL else BIM_PART)
      | _ \<Rightarrow> BIM_PART)"

definition bimTestAndSetInner :: "u64 \<Rightarrow> nat \<Rightarrow> nat \<Rightarrow> u64 \<times> bimIntersect" where
  "bimTestAndSetInner v a b =
     (let m = bimMaskA a AND bimMaskB b;
          res = (if v AND m = 0 then BIM_NONE else if v AND m = m then BIM_FULL
                 else if v AND m = bimBit a then BIM_START else if v AND m = bimBit b then BIM_END else BIM_PART)
      in (v OR m, res))"

text \<open>The index of a bit, and the whole words between the first and the last.\<close>

definition bim_word :: "bimBitmap \<Rightarrow> nat \<Rightarrow> nat" where
  "bim_word bm k = (unat (bm_base bm) + k div 64) mod unat (bm_sz bm)"

partial_function (option) set_words :: "nat \<Rightarrow> nat \<Rightarrow> u64 list \<Rightarrow> nat \<Rightarrow> bimIntersect \<Rightarrow> (u64 list \<times> bimIntersect) option" where
  "set_words sz j v i res =
     (if i = j then Some (v, res)
      else case bimTestAndSetInner (v ! i) 0 63 of
          (w, cur) \<Rightarrow> set_words sz j (v[i := w]) ((i + 1) mod sz) (bimTSRCombine res cur))"

definition bimTestAndSetRange :: "bimBitmap \<Rightarrow> u32 \<Rightarrow> u32 \<Rightarrow> (bimBitmap \<times> bimIntersect) option" where
  "bimTestAndSetRange bm a b =
     (if bm_sz bm = 0 then None
      else
        let i = bim_word bm (unat a); j = bim_word bm (unat b); x = unat a mod 64; y = unat b mod 64
        in if i = j then
             (case bimTestAndSetInner (bm_v bm ! i) x y of (w, res) \<Rightarrow> Some (bm\<lparr>bm_v := (bm_v bm)[i := w]\<rparr>, res))
           else
             (case bimTestAndSetInner (bm_v bm ! i) x 63 of (w, res) \<Rightarrow>
                map_option (\<lambda>(v, res). case bimTestAndSetInner (v ! j) 0 y of
                    (w, cur) \<Rightarrow> (bm\<lparr>bm_v := v[j := w]\<rparr>, bimTSRCombine res cur))
                  (set_words (unat (bm_sz bm)) j ((bm_v bm)[i := w]) ((i + 1) mod unat (bm_sz bm)) res)))"

definition bimTestBit :: "bimBitmap \<Rightarrow> u32 \<Rightarrow> nat option" where
  "bimTestBit bm a =
     (if bm_sz bm = 0 then None
      else Some (if bm_v bm ! bim_word bm (unat a) AND bimBit (unat a mod 64) \<noteq> 0 then 1 else 0))"

definition bimShiftDown :: "bimBitmap \<Rightarrow> (bimBitmap \<times> u64) option" where
  "bimShiftDown bm =
     (if bm_sz bm = 0 then None
      else Some (bm\<lparr>bm_v := (bm_v bm)[unat (bm_base bm) := 0], bm_base := (bm_base bm + 1) mod bm_sz bm\<rparr>,
                 bm_v bm ! unat (bm_base bm)))"

subsection \<open>Counting bits\<close>

text \<open>A number as a list of fields of \<open>s\<close> bits, the low one first.\<close>

primrec fld :: "nat \<Rightarrow> int list \<Rightarrow> int" where
  "fld s [] = 0"
| "fld s (x # xs) = x + 2 ^ s * fld s xs"

definition fld_ok :: "nat \<Rightarrow> int list \<Rightarrow> bool" where
  "fld_ok s xs \<longleftrightarrow> (\<forall>x \<in> set xs. 0 \<le> x \<and> x < 2 ^ s)"

lemma fld_ok_simps [simp]: "fld_ok s []" "fld_ok s (x # xs) \<longleftrightarrow> 0 \<le> x \<and> x < 2 ^ s \<and> fld_ok s xs"
  by (auto simp: fld_ok_def)

lemma fld_nonneg: "fld_ok s xs \<Longrightarrow> 0 \<le> fld s xs"
  by (induction xs) auto

lemma fld_bound: "fld_ok s xs \<Longrightarrow> fld s xs < 2 ^ (s * length xs)"
proof (induction xs)
  case (Cons x xs)
  then have "fld s xs + 1 \<le> 2 ^ (s * length xs)" by simp
  then have "2 ^ s * (fld s xs + 1) \<le> 2 ^ s * 2 ^ (s * length xs)" by (intro mult_left_mono) simp_all
  then have "2 ^ s * fld s xs + 2 ^ s \<le> 2 ^ (s + s * length xs)" by (simp add: power_add algebra_simps)
  then show ?case using Cons.prems by simp
qed simp

lemma fld_concat: "0 \<le> x \<Longrightarrow> x < 2 ^ s \<Longrightarrow> x + 2 ^ s * y = concat_bit s x y"
  by (simp add: concat_bit_eq take_bit_int_eq_self push_bit_eq_mult mult.commute)

lemma fld_and: "\<lbrakk>fld_ok s xs; fld_ok s ys; length xs = length ys\<rbrakk> \<Longrightarrow> fld s xs AND fld s ys = fld s (map2 (AND) xs ys)"
proof (induction xs arbitrary: ys)
  case (Cons x xs)
  then obtain y ys' where ys: "ys = y # ys'" by (cases ys) auto
  have m: "0 \<le> x AND y" "x AND y < 2 ^ s" using Cons.prems ys by (simp_all add: AND_upper1' order_le_less_trans)
  have "concat_bit s x (fld s xs) AND concat_bit s y (fld s ys') = concat_bit s (x AND y) (fld s xs AND fld s ys')"
    by (rule bit_eqI) (auto simp: bit_concat_bit_iff bit_and_iff)
  then show ?case using Cons ys m by (simp add: fld_concat)
qed simp

lemma fld_drop: "\<lbrakk>0 \<le> x; x < 2 ^ s\<rbrakk> \<Longrightarrow> drop_bit s (fld s (x # xs)) = fld s xs"
  by (simp add: drop_bit_eq_div)

lemma fld_zero [simp]: "fld s (xs @ [0]) = fld s xs"
  by (induction xs) simp_all

text \<open>Pairs of neighbouring fields: their sums, and the low and the high ones alone.\<close>

fun pair_sums :: "int list \<Rightarrow> int list" where
  "pair_sums (a # b # xs) = (a + b) # pair_sums xs"
| "pair_sums xs = []"

fun low_fields :: "int list \<Rightarrow> int list" where
  "low_fields (a # b # xs) = a # 0 # low_fields xs"
| "low_fields xs = []"

definition low_mask :: "nat \<Rightarrow> nat \<Rightarrow> int list" where
  "low_mask s n = concat (replicate n [2 ^ s - 1, 0])"

lemma low_mask_simps [simp]: "low_mask s 0 = []" "low_mask s (Suc n) = (2 ^ s - 1) # 0 # low_mask s n"
  by (simp_all add: low_mask_def)

lemma low_mask_ok: "fld_ok s (low_mask s n) \<and> length (low_mask s n) = 2 * n"
  by (induction n) simp_all

lemma fld_low:
  assumes "fld_ok s xs" "length xs = 2 * n"
  shows "fld s xs AND fld s (low_mask s n) = fld s (low_fields xs)"
proof -
  have "map2 (AND) xs (low_mask s n) = low_fields xs" using assms
  proof (induction n arbitrary: xs)
    case (Suc n)
    obtain a b ys where xs: "xs = a # b # ys" using Suc.prems(2) by (auto simp: length_Suc_conv)
    have "a AND (2 ^ s - 1) = a"
      using Suc.prems(1) xs by (simp add: mask_eq_exp_minus_1 [symmetric] take_bit_eq_mask [symmetric] take_bit_int_eq_self)
    then show ?case using Suc.IH [of ys] Suc.prems xs by simp
  qed simp
  then show ?thesis using fld_and [OF assms(1)] low_mask_ok [of s n] assms(2) by simp
qed

lemma double_power: "(2 :: int) ^ (2 * s) = 2 ^ s * 2 ^ s"
  by (simp add: power_add mult_2)

lemma pairs_low: "length xs = 2 * n \<Longrightarrow> fld (2 * s) (pair_sums xs) = fld s (low_fields xs) + fld s (low_fields (tl xs @ [0]))"
proof (induction n arbitrary: xs)
  case (Suc n)
  obtain a b ys where xs: "xs = a # b # ys" using Suc.prems by (auto simp: length_Suc_conv)
  have t: "low_fields (tl xs @ [0]) = b # 0 # low_fields (tl ys @ [0])"
    using Suc.prems by (cases ys) (simp_all add: xs)
  have ih: "fld (2 * s) (pair_sums ys) = fld s (low_fields ys) + fld s (low_fields (tl ys @ [0]))"
    using Suc.prems xs by (intro Suc.IH) simp
  show ?case unfolding t unfolding xs by (simp add: ih double_power distrib_left mult.assoc)
qed simp

definition neighbours :: "int list \<Rightarrow> int list" where
  "neighbours xs = map2 (+) xs (tl xs @ [0])"

lemma fld_add: "length xs = length ys \<Longrightarrow> fld s (map2 (+) xs ys) = fld s xs + fld s ys"
  by (induction xs ys rule: list_induct2) (simp_all add: algebra_simps)

lemma neighbours_low: "length xs = 2 * n \<Longrightarrow> fld (2 * s) (pair_sums xs) = fld s (low_fields (neighbours xs))"
proof (induction n arbitrary: xs)
  case (Suc n)
  obtain a b ys where xs: "xs = a # b # ys" using Suc.prems by (auto simp: length_Suc_conv)
  have t: "low_fields (neighbours xs) = (a + b) # 0 # low_fields (neighbours ys)"
    using Suc.prems by (cases ys) (simp_all add: xs neighbours_def)
  have ih: "fld (2 * s) (pair_sums ys) = fld s (low_fields (neighbours ys))" using Suc.prems xs by (intro Suc.IH) simp
  show ?case unfolding t unfolding xs by (simp add: ih double_power)
qed (simp add: neighbours_def)

lemma neighbours_range: "\<lbrakk>\<forall>x \<in> set xs. 0 \<le> x \<and> x \<le> B; 2 * B < 2 ^ s; 0 \<le> B\<rbrakk> \<Longrightarrow> fld_ok s (neighbours xs)"
  unfolding fld_ok_def neighbours_def
proof (intro ballI)
  fix x assume r: "\<forall>x \<in> set xs. 0 \<le> x \<and> x \<le> B" "2 * B < 2 ^ s" "0 \<le> B" and "x \<in> set (map2 (+) xs (tl xs @ [0]))"
  then obtain y z where yz: "(y, z) \<in> set (zip xs (tl xs @ [0]))" "x = y + z" by auto
  have "y \<in> set xs" "z \<in> set (tl xs @ [0])" using set_zip_leftD [OF yz(1)] set_zip_rightD [OF yz(1)] by simp_all
  moreover have "z \<in> set xs \<or> z = 0" using \<open>z \<in> set (tl xs @ [0])\<close> by (cases xs) auto
  ultimately have "0 \<le> y \<and> y \<le> B" "0 \<le> z \<and> z \<le> B" using r by auto
  then show "0 \<le> x \<and> x < 2 ^ s" using yz(2) r(2) by linarith
qed

lemma pair_sums_range:
  "\<lbrakk>\<forall>x \<in> set xs. 0 \<le> x \<and> x \<le> B; length xs = 2 * n\<rbrakk> \<Longrightarrow>
   (\<forall>x \<in> set (pair_sums xs). 0 \<le> x \<and> x \<le> 2 * B) \<and> length (pair_sums xs) = n \<and> sum_list (pair_sums xs) = sum_list xs"
proof (induction n arbitrary: xs)
  case (Suc n)
  obtain a b ys where xs: "xs = a # b # ys" using Suc.prems(2) by (auto simp: length_Suc_conv)
  show ?case using Suc.IH [of ys] Suc.prems xs by force
qed simp

text \<open>A word whose fields are counts of bits.\<close>

definition counts :: "u64 \<Rightarrow> nat \<Rightarrow> nat \<Rightarrow> int \<Rightarrow> int list \<Rightarrow> bool" where
  "counts c s n B xs \<longleftrightarrow> uint c = fld s xs \<and> length xs = 2 * n \<and> s * (2 * n) = 64 \<and> (\<forall>x \<in> set xs. 0 \<le> x \<and> x \<le> B) \<and> 0 \<le> B \<and> B < 2 ^ s"

lemma take_uint: "take_bit 64 (uint (w :: u64)) = uint w"
  using uint_bounded [of w] by (simp add: take_bit_int_eq_self)

lemma uint_drop: "uint (drop_bit s (w :: u64)) = drop_bit s (uint w)"
  by (simp add: unsigned_drop_bit_eq take_uint)

lemma countsD:
  assumes "counts c s n B xs"
  shows "fld_ok s xs" "uint (drop_bit s c) = fld s (tl xs @ [0])" "fld_ok s (tl xs @ [0])" "n \<noteq> 0" "length (tl xs @ [0]) = 2 * n"
proof -
  show o: "fld_ok s xs" using assms by (fastforce simp: counts_def fld_ok_def)
  show n: "n \<noteq> 0"
  proof
    assume "n = 0"
    then show False using assms by (simp add: counts_def)
  qed
  then obtain x ys where xs: "xs = x # ys" using assms by (cases xs) (auto simp: counts_def)
  then show "uint (drop_bit s c) = fld s (tl xs @ [0])" using assms o fld_drop [of x s ys]
    by (simp add: counts_def uint_drop)
  show "fld_ok s (tl xs @ [0])" using o xs by (auto simp: fld_ok_def)
  show "length (tl xs @ [0]) = 2 * n" using assms xs by (auto simp: counts_def)
qed

lemma uint_add_small: "uint a + uint b < 2 ^ 64 \<Longrightarrow> uint (a + b :: u64) = uint a + uint b"
  by (simp add: uint_word_ariths(1))

lemma count_step_and:
  assumes "counts c s n B xs" and "uint (M :: u64) = fld s (low_mask s n)" and "2 * B < 2 ^ (2 * s)"
  shows "uint ((drop_bit s c AND M) + (c AND M)) = fld (2 * s) (pair_sums xs)"
proof -
  note d = countsD [OF assms(1)]
  have a: "uint (drop_bit s c AND M) = fld s (low_fields (tl xs @ [0]))" "uint (c AND M) = fld s (low_fields xs)"
    using fld_low [OF d(3,5)] fld_low [OF d(1)] assms(1,2) d(2) by (simp_all add: counts_def unsigned_and_eq)
  have r: "\<forall>x \<in> set xs. 0 \<le> x \<and> x \<le> B" "length xs = 2 * n" "s * (2 * n) = 64" using assms(1) by (auto simp: counts_def)
  have p: "uint (c AND M) + uint (drop_bit s c AND M) = fld (2 * s) (pair_sums xs)" unfolding a by (rule pairs_low [OF r(2), symmetric])
  have "fld_ok (2 * s) (pair_sums xs)" using assms(3) pair_sums_range [OF r(1,2)] by (fastforce simp: fld_ok_def)
  then have "fld (2 * s) (pair_sums xs) < 2 ^ 64"
    using fld_bound [of "2 * s" "pair_sums xs"] pair_sums_range [OF r(1,2)] r(3) by (simp add: mult.assoc mult.left_commute)
  then show ?thesis using p uint_add_small [of "drop_bit s c AND M" "c AND M"] by (simp add: add.commute)
qed

lemma count_sum:
  assumes "counts c s n B xs" and "2 * B < 2 ^ s"
  shows "uint (drop_bit s c + c) = fld s (neighbours xs)" "fld_ok s (neighbours xs)" "length (neighbours xs) = 2 * n"
proof -
  note d = countsD [OF assms(1)]
  have r: "\<forall>x \<in> set xs. 0 \<le> x \<and> x \<le> B" "length xs = 2 * n" "s * (2 * n) = 64" "0 \<le> B" "uint c = fld s xs"
    using assms(1) by (auto simp: counts_def)
  show ok: "fld_ok s (neighbours xs)" using neighbours_range [OF r(1) assms(2) r(4)] .
  show l: "length (neighbours xs) = 2 * n" using d(5) r(2) by (simp add: neighbours_def)
  have "fld s xs + fld s (tl xs @ [0]) = fld s (neighbours xs)" unfolding neighbours_def using d(5) r(2) by (intro fld_add [symmetric]) simp
  moreover have "fld s (neighbours xs) < 2 ^ 64" using fld_bound [OF ok] l r(3) by simp
  ultimately show "uint (drop_bit s c + c) = fld s (neighbours xs)"
    using uint_add_small [of "drop_bit s c" c] d(2) r(5) by (simp add: add.commute)
qed

lemma count_step_add:
  assumes "counts c s n B xs" and "uint (M :: u64) = fld s (low_mask s n)" and "2 * B < 2 ^ s"
  shows "uint ((drop_bit s c + c) AND M) = fld (2 * s) (pair_sums xs)"
proof -
  note t = count_sum [OF assms(1,3)]
  have "length xs = 2 * n" using assms(1) by (simp add: counts_def)
  then show ?thesis using fld_low [OF t(2,3)] t(1) assms(2) neighbours_low [of xs n s] by (simp add: unsigned_and_eq)
qed

lemma counts_next:
  assumes "counts c s n B xs" and "uint c' = fld (2 * s) (pair_sums xs)" and "n = 2 * m" and "2 * B < 2 ^ (2 * s)"
  shows "counts c' (2 * s) m (2 * B) (pair_sums xs)"
  using assms pair_sums_range [of xs B n] by (auto simp: counts_def)

lemma pair_sums_sum: "counts c s n B xs \<Longrightarrow> sum_list (pair_sums xs) = sum_list xs"
  using pair_sums_range [of xs B n] by (simp add: counts_def)

lemma low_split: "length xs = 2 * n \<Longrightarrow> fld s xs = fld s (low_fields xs) + 2 ^ s * fld s (low_fields (tl xs @ [0]))"
proof (induction n arbitrary: xs)
  case (Suc n)
  obtain a b ys where xs: "xs = a # b # ys" using Suc.prems by (auto simp: length_Suc_conv)
  have t: "low_fields (tl xs @ [0]) = b # 0 # low_fields (tl ys @ [0])"
    using Suc.prems by (cases ys) (simp_all add: xs)
  have ih: "fld s ys = fld s (low_fields ys) + 2 ^ s * fld s (low_fields (tl ys @ [0]))" using Suc.prems xs by (intro Suc.IH) simp
  show ?case unfolding t unfolding xs by (simp add: ih distrib_left)
qed simp

lemma fld_bits: "fld 1 (map (\<lambda>n. of_bool (bit (v :: u64) n)) [0..<64]) = uint v"
proof -
  have h: "fld 1 xs = horner_sum (\<lambda>x. x) 2 xs" for xs by (induction xs) simp_all
  have "horner_sum (\<lambda>x. x) 2 (map (of_bool :: bool \<Rightarrow> int) bs) = horner_sum of_bool 2 bs" for bs by (induction bs) simp_all
  from this [of "map (bit (uint v)) [0..<64]"] horner_sum_bit_eq_take_bit [of "uint v" 64]
  have e: "horner_sum (\<lambda>x. x) 2 (map of_bool (map (bit (uint v)) [0..<64])) = uint v" using take_uint [of v] by simp
  have "map (\<lambda>n. of_bool (bit v n) :: int) [0..<64] = map of_bool (map (bit (uint v)) [0..<64])"
    by (auto simp: bit_uint_iff simp del: upt_rec_numeral)
  then show ?thesis using e by (simp only: h)
qed

lemma count_step_sub:
  assumes "counts v 1 32 1 xs" and "uint (M :: u64) = fld 1 (low_mask 1 32)"
  shows "uint (v - (drop_bit 1 v AND M)) = fld 2 (pair_sums xs)"
proof -
  note d = countsD [OF assms(1)]
  have l: "length xs = 2 * 32" "uint v = fld 1 xs" using assms(1) by (auto simp: counts_def)
  have a: "uint (drop_bit 1 v AND M) = fld 1 (low_fields (tl xs @ [0]))"
    using fld_low [OF d(3,5)] assms(2) d(2) by (simp add: unsigned_and_eq)
  have s: "uint v = fld 1 (low_fields xs) + 2 * fld 1 (low_fields (tl xs @ [0]))" using low_split [OF l(1), of 1] l(2) by simp
  have p: "fld 2 (pair_sums xs) = fld 1 (low_fields xs) + fld 1 (low_fields (tl xs @ [0]))" using pairs_low [OF l(1), of 1] by simp
  have "0 \<le> fld 1 (low_fields xs)" using fld_low [OF d(1) l(1)] fld_nonneg [OF d(1)] by (metis AND_lower)
  moreover have "0 \<le> fld 1 (low_fields (tl xs @ [0]))" unfolding a [symmetric] by simp
  ultimately have "uint (drop_bit 1 v AND M) \<le> uint v" using a s by linarith
  then show ?thesis using a s p uint_sub_lem [of "drop_bit 1 v AND M" v] by linarith
qed

lemma low_half: "uint (ucast (ucast (ucast (x :: u64) :: u32) AND 0x00000000FFFFFFFF :: u64) :: u32) = take_bit 32 (uint x)"
proof -
  have m: "(0xFFFFFFFF :: u64) = mask 32" by (simp add: mask_eq_exp_minus_1)
  have "(ucast (ucast (ucast x :: u32) AND 0x00000000FFFFFFFF :: u64) :: u32) = ucast x"
    unfolding m by (intro bit_word_eqI) (simp add: bit_simps)
  then show ?thesis by (simp add: unsigned_ucast_eq)
qed

lemma bit_sum: "sum_list (map (\<lambda>n. of_bool (P n) :: int) [0..<k]) = int (card {n. n < k \<and> P n})"
proof (induction k)
  case (Suc k)
  have "{n. n < Suc k \<and> P n} = {n. n < k \<and> P n} \<union> (if P k then {k} else {})" by (auto simp: less_Suc_eq)
  then show ?case using Suc by (simp add: card_insert_if)
qed simp

text \<open>C40: The bit count is right. The sequence of shifts, masks and additions gives for every word the number of its bits that
  are set.\<close>

theorem bimCountSet_counts: "unat (bimCountSet v) = card {n. n < 64 \<and> bit v n}"
proof -
  let ?xs = "map (\<lambda>n. of_bool (bit v n) :: int) [0..<64]"
  have c0: "counts v 1 32 1 ?xs" using fld_bits [of v] by (auto simp: counts_def simp del: upt_rec_numeral)
  have m: "uint (0x5555555555555555 :: u64) = fld 1 (low_mask 1 32)" "uint (0x3333333333333333 :: u64) = fld 2 (low_mask 2 16)"
    "uint (0x0F0F0F0F0F0F0F0F :: u64) = fld 4 (low_mask 4 8)" "uint (0x00FF00FF00FF00FF :: u64) = fld 8 (low_mask 8 4)"
    "uint (0x0000FFFF0000FFFF :: u64) = fld 16 (low_mask 16 2)"
    by code_simp+
  let ?c1 = "v - (drop_bit 1 v AND 0x5555555555555555)"
  let ?c2 = "(drop_bit 2 ?c1 AND 0x3333333333333333) + (?c1 AND 0x3333333333333333)"
  let ?c3 = "(drop_bit 4 ?c2 + ?c2) AND 0x0F0F0F0F0F0F0F0F"
  let ?c4 = "(drop_bit 8 ?c3 + ?c3) AND 0x00FF00FF00FF00FF"
  let ?c5 = "(drop_bit 16 ?c4 + ?c4) AND 0x0000FFFF0000FFFF"
  let ?s = pair_sums
  have "counts ?c1 (2 * 1) 16 (2 * 1) (?s ?xs)" by (rule counts_next [OF c0]) (use count_step_sub [OF c0 m(1)] in simp_all)
  then have c1: "counts ?c1 2 16 2 (?s ?xs)" by simp
  have "counts ?c2 (2 * 2) 8 (2 * 2) (?s (?s ?xs))" by (rule counts_next [OF c1]) (use count_step_and [OF c1 m(2)] in simp_all)
  then have c2: "counts ?c2 4 8 4 (?s (?s ?xs))" by simp
  have "counts ?c3 (2 * 4) 4 (2 * 4) (?s (?s (?s ?xs)))" by (rule counts_next [OF c2]) (use count_step_add [OF c2 m(3)] in simp_all)
  then have c3: "counts ?c3 8 4 8 (?s (?s (?s ?xs)))" by simp
  have "counts ?c4 (2 * 8) 2 (2 * 8) (?s (?s (?s (?s ?xs))))" by (rule counts_next [OF c3]) (use count_step_add [OF c3 m(4)] in simp_all)
  then have c4: "counts ?c4 16 2 16 (?s (?s (?s (?s ?xs))))" by simp
  have "counts ?c5 (2 * 16) 1 (2 * 16) (?s (?s (?s (?s (?s ?xs)))))" by (rule counts_next [OF c4]) (use count_step_add [OF c4 m(5)] in simp_all)
  then have c5: "counts ?c5 32 1 32 (?s (?s (?s (?s (?s ?xs)))))" by simp
  define ys where "ys = ?s (?s (?s (?s (?s ?xs))))"
  have sum: "sum_list ys = int (card {n. n < 64 \<and> bit v n})"
    unfolding ys_def bit_sum [symmetric]
    using pair_sums_sum [OF c0] pair_sums_sum [OF c1] pair_sums_sum [OF c2] pair_sums_sum [OF c3] pair_sums_sum [OF c4] by simp
  have c: "counts ?c5 32 1 32 ys" using c5 unfolding ys_def .
  then obtain p q where ys: "ys = [p, q]" by (auto simp: counts_def length_Suc_conv numeral_2_eq_2)
  have r: "0 \<le> p" "p \<le> 32" "0 \<le> q" "q \<le> 32" using c ys by (auto simp: counts_def)
  have u: "uint (drop_bit 32 ?c5 + ?c5) = (p + q) + 2 ^ 32 * q" using count_sum(1) [OF c] by (simp add: ys neighbours_def)
  have "uint (bimCountSet v) = take_bit 32 (uint (drop_bit 32 ?c5 + ?c5))"
    unfolding bimCountSet_def Let_def by (rule low_half)
  also have "\<dots> = ((p + q) + 2 ^ 32 * q) mod 2 ^ 32" unfolding u by (simp add: take_bit_eq_mod)
  also have "\<dots> = (p + q) mod 2 ^ 32" by (rule mod_mult_self2)
  also have "\<dots> = p + q" using r by (intro mod_pos_pos_trivial) simp_all
  finally have "nat (uint (bimCountSet v)) = card {n. n < 64 \<and> bit v n}" using sum ys by simp
  then show ?thesis by (simp only: nat_uint_eq)
qed

subsection \<open>Ranges\<close>

definition bm_ok :: "bimBitmap \<Rightarrow> bool" where
  "bm_ok bm \<longleftrightarrow> length (bm_v bm) = unat (bm_sz bm) \<and> bm_base bm < bm_sz bm"

text \<open>The bits, counted from the base.\<close>

definition bm_bit :: "bimBitmap \<Rightarrow> nat \<Rightarrow> bool" where
  "bm_bit bm k = bit (bm_v bm ! bim_word bm k) (k mod 64)"

text \<open>What the result tells of the bits from one to another.\<close>

definition tells :: "(nat \<Rightarrow> bool) \<Rightarrow> nat \<Rightarrow> nat \<Rightarrow> bimIntersect \<Rightarrow> bool" where
  "tells P a b res \<longleftrightarrow>
     (res = BIM_NONE \<longleftrightarrow> (\<forall>k. a \<le> k \<and> k \<le> b \<longrightarrow> \<not> P k)) \<and> (res = BIM_FULL \<longleftrightarrow> (\<forall>k. a \<le> k \<and> k \<le> b \<longrightarrow> P k)) \<and>
     (res = BIM_START \<longrightarrow> (\<forall>k. a \<le> k \<and> k \<le> b \<longrightarrow> P k = (k = a))) \<and>
     (res = BIM_END \<longrightarrow> (\<forall>k. a \<le> k \<and> k \<le> b \<longrightarrow> P k = (k = b))) \<and>
     (res = BIM_EDGE \<longrightarrow> (\<forall>k. a \<le> k \<and> k \<le> b \<longrightarrow> P k = (k = a \<or> k = b)))"

lemma all_split_range:
  "a \<le> c \<Longrightarrow> c < b \<Longrightarrow> (\<forall>k. a \<le> k \<and> k \<le> b \<longrightarrow> Q k) \<longleftrightarrow> (\<forall>k. a \<le> k \<and> k \<le> c \<longrightarrow> Q k) \<and> (\<forall>k. Suc c \<le> k \<and> k \<le> b \<longrightarrow> Q k)"
  for k :: nat
  by (metis le_trans less_imp_le_nat not_less_eq_eq le_SucI)

lemma combine_cases:
  "bimTSRCombine r r' = BIM_NONE \<longleftrightarrow> r = BIM_NONE \<and> r' = BIM_NONE" "bimTSRCombine r r' = BIM_FULL \<longleftrightarrow> r = BIM_FULL \<and> r' = BIM_FULL"
  "bimTSRCombine r r' = BIM_START \<longleftrightarrow> r = BIM_START \<and> r' = BIM_NONE" "bimTSRCombine r r' = BIM_EDGE \<longleftrightarrow> r = BIM_START \<and> r' = BIM_END"
  "bimTSRCombine r r' \<noteq> BIM_END"
  by (cases r; cases r'; simp add: bimTSRCombine_def)+

lemma tells_combine:
  assumes "tells P a c r" "tells P (Suc c) b r'" "a \<le> c" "c < b"
  shows "tells P a b (bimTSRCombine r r')"
proof -
  note s = all_split_range [OF assms(3,4)]
  have "(\<forall>k. a \<le> k \<and> k \<le> b \<longrightarrow> P k = (k = a))" if "r = BIM_START" "r' = BIM_NONE"
    unfolding s using assms that by (auto simp: tells_def)
  moreover have "(\<forall>k. a \<le> k \<and> k \<le> b \<longrightarrow> P k = (k = a \<or> k = b))" if "r = BIM_START" "r' = BIM_END"
    unfolding s using assms that by (auto simp: tells_def)
  moreover have "(\<forall>k. a \<le> k \<and> k \<le> b \<longrightarrow> \<not> P k) \<longleftrightarrow> r = BIM_NONE \<and> r' = BIM_NONE" "(\<forall>k. a \<le> k \<and> k \<le> b \<longrightarrow> P k) \<longleftrightarrow> r = BIM_FULL \<and> r' = BIM_FULL"
    unfolding s using assms(1,2) by (simp_all add: tells_def)
  ultimately show ?thesis unfolding tells_def combine_cases by (simp add: combine_cases(5))
qed

lemma mask_bits: "n < 64 \<Longrightarrow> b < 64 \<Longrightarrow> bit (bimMaskA a AND bimMaskB b) n \<longleftrightarrow> a \<le> n \<and> n \<le> b"
  by (auto simp: bimMaskA_def bimMaskB_def bit_simps)

lemma inner_sets:
  assumes "a \<le> b" "b < 64"
  shows "bit (fst (bimTestAndSetInner v a b)) n \<longleftrightarrow> bit v n \<or> a \<le> n \<and> n \<le> b"
proof (cases "n < 64")
  case True
  then show ?thesis using mask_bits [OF True assms(2), of a] by (simp add: bimTestAndSetInner_def Let_def bit_or_iff)
next
  case False
  then show ?thesis using assms(2) bit_imp_le_length [of _ n] by (auto simp: bimTestAndSetInner_def Let_def dest: bit_imp_le_length)
qed

lemma inner_tells:
  assumes "a \<le> b" "b < 64"
  shows "tells (\<lambda>k. bit v (k - d)) (d + a) (d + b) (snd (bimTestAndSetInner v a b))"
proof -
  let ?m = "bimMaskA a AND bimMaskB b"
  have w: "(v AND ?m = x) \<longleftrightarrow> (\<forall>n. n < 64 \<longrightarrow> (bit v n \<and> a \<le> n \<and> n \<le> b) = bit x n)" for x
    using mask_bits [OF _ assms(2), of _ a] by (auto simp: bit_eq_iff bit_and_iff)
  have k: "(\<forall>k. d + a \<le> k \<and> k \<le> d + b \<longrightarrow> Q (k - d) k) \<longleftrightarrow> (\<forall>n. a \<le> n \<and> n \<le> b \<longrightarrow> Q n (d + n))" for Q
  proof safe
    fix n assume "\<forall>k. d + a \<le> k \<and> k \<le> d + b \<longrightarrow> Q (k - d) k" "a \<le> n" "n \<le> b"
    then show "Q n (d + n)" by (auto dest: spec [of _ "d + n"])
  next
    fix k assume "\<forall>n. a \<le> n \<and> n \<le> b \<longrightarrow> Q n (d + n)" "d + a \<le> k" "k \<le> d + b"
    then show "Q (k - d) k" by (auto dest: spec [of _ "k - d"])
  qed
  have lt: "n < 64" if "n \<le> b" for n using that assms(2) by simp
  have n: "v AND ?m = 0 \<longleftrightarrow> (\<forall>n. a \<le> n \<and> n \<le> b \<longrightarrow> \<not> bit v n)" using assms unfolding w by (auto intro: lt)
  have f: "v AND ?m = ?m \<longleftrightarrow> (\<forall>n. a \<le> n \<and> n \<le> b \<longrightarrow> bit v n)"
    using assms mask_bits [OF _ assms(2), of _ a] unfolding w by (auto intro: lt)
  have o: "v AND ?m = bimBit c \<longleftrightarrow> (\<forall>n. a \<le> n \<and> n \<le> b \<longrightarrow> bit v n = (n = c))" if "a \<le> c" "c \<le> b" for c
    using assms that unfolding w by (auto simp: bimBit_def bit_simps intro: lt)
  have oa: "v AND ?m = bimBit a \<longleftrightarrow> (\<forall>n. a \<le> n \<and> n \<le> b \<longrightarrow> bit v n = (n = a))"
    and ob: "v AND ?m = bimBit b \<longleftrightarrow> (\<forall>n. a \<le> n \<and> n \<le> b \<longrightarrow> bit v n = (n = b))" using o assms by simp_all
  define N F S E where "N = (\<forall>n. a \<le> n \<and> n \<le> b \<longrightarrow> \<not> bit v n)" and "F = (\<forall>n. a \<le> n \<and> n \<le> b \<longrightarrow> bit v n)"
    and "S = (\<forall>n. a \<le> n \<and> n \<le> b \<longrightarrow> bit v n = (n = a))" and "E = (\<forall>n. a \<le> n \<and> n \<le> b \<longrightarrow> bit v n = (n = b))"
  note defs = N_def [symmetric] F_def [symmetric] S_def [symmetric] E_def [symmetric]
  have res: "snd (bimTestAndSetInner v a b) = (if N then BIM_NONE else if F then BIM_FULL else if S then BIM_START else if E then BIM_END else BIM_PART)"
    unfolding bimTestAndSetInner_def Let_def snd_conv n f oa ob defs ..
  have nf: "\<not> (N \<and> F)" using assms(1) unfolding N_def F_def by blast
  have c: "d + n = d + a \<longleftrightarrow> n = a" "d + n = d + b \<longleftrightarrow> n = b" for n by simp_all
  show ?thesis
    unfolding tells_def k [of "\<lambda>n k. \<not> bit v n"] k [of "\<lambda>n k. bit v n"] k [of "\<lambda>n k. bit v n = (k = d + a)"]
      k [of "\<lambda>n k. bit v n = (k = d + b)"] k [of "\<lambda>n k. bit v n = (k = d + a \<or> k = d + b)"] c defs res
    using nf by simp
qed

lemma tells_cong: "(\<And>k. a \<le> k \<Longrightarrow> k \<le> b \<Longrightarrow> P k = Q k) \<Longrightarrow> tells P a b res = tells Q a b res"
  unfolding tells_def by (auto cong: conj_cong)

lemma phys_inj: "r < r' \<Longrightarrow> r' - r < sz \<Longrightarrow> (base + r) mod sz \<noteq> (base + r') mod sz" for r :: nat
proof
  assume r: "r < r'" "r' - r < sz" and "(base + r) mod sz = (base + r') mod sz"
  then have "sz dvd (base + r') - (base + r)" using mod_eq_dvd_iff_nat [of "base + r" "base + r'" sz] by simp
  then have "sz dvd r' - r" by simp
  then show False using r by (auto dest: dvd_imp_le)
qed

text \<open>The words strictly between the first and the last of a range.\<close>

lemma set_words_result:
  fixes sz base q :: nat
  assumes ph: "\<And>r. ph r = (base + r) mod sz" and "0 < sz"
  shows "\<lbrakk>0 < p; p \<le> q; q - p < sz; length v = sz; tells P a (64 * p - 1) res; a < 64 * p;
      \<And>r x. p \<le> r \<Longrightarrow> r < q \<Longrightarrow> x < 64 \<Longrightarrow> P (64 * r + x) = bit (v ! ph r) x\<rbrakk> \<Longrightarrow>
    \<exists>v' res'. set_words sz (ph q) v (ph p) res = Some (v', res') \<and> length v' = sz \<and> tells P a (64 * q - 1) res' \<and>
      (\<forall>r. p \<le> r \<and> r < q \<longrightarrow> v' ! ph r = fst (bimTestAndSetInner (v ! ph r) 0 63)) \<and>
      (\<forall>i. i < sz \<and> (\<forall>r. p \<le> r \<and> r < q \<longrightarrow> i \<noteq> ph r) \<longrightarrow> v' ! i = v ! i)"
proof (induction "q - p" arbitrary: p v res)
  case 0
  then show ?case by (subst set_words.simps) (auto intro: exI [of _ v])
next
  case (Suc n)
  then have pq: "p < q" by simp
  have ne: "ph p \<noteq> ph q" using phys_inj [OF pq Suc.prems(3)] by (simp add: ph)
  have nx: "(ph p + 1) mod sz = ph (Suc p)" by (simp add: ph mod_simps)
  have lt: "ph r < sz" for r using assms(2) by (simp add: ph)
  obtain w cur where w: "bimTestAndSetInner (v ! ph p) 0 63 = (w, cur)" by fastforce
  have other: "ph r \<noteq> ph p" if "Suc p \<le> r" "r < q" for r
  proof -
    have "r - p < sz" using that Suc.prems(3) by linarith
    then show ?thesis using phys_inj [of p r sz base] that(1) unfolding ph by (metis Suc_le_lessD)
  qed
  have t: "tells P (64 * p) (64 * p + 63) cur"
  proof -
    have "P k = bit (v ! ph p) (k - 64 * p)" if "64 * p \<le> k" "k \<le> 64 * p + 63" for k
      using Suc.prems(7) [of p "k - 64 * p"] pq that by simp
    then have "tells P (64 * p) (64 * p + 63) cur = tells (\<lambda>k. bit (v ! ph p) (k - 64 * p)) (64 * p) (64 * p + 63) cur"
      by (intro tells_cong) simp
    then show ?thesis using inner_tells [of 0 63 "v ! ph p" "64 * p"] w by simp
  qed
  have t': "tells P a (64 * Suc p - 1) (bimTSRCombine res cur)"
  proof -
    have e: "a \<le> 64 * p - 1" "Suc (64 * p - 1) = 64 * p" "64 * p - 1 < 64 * p + 63" "64 * Suc p - 1 = 64 * p + 63"
      using Suc.prems(1,6) by simp_all
    show ?thesis unfolding e(4) using tells_combine [OF Suc.prems(5), of "64 * p + 63" cur] t e(1-3) by simp
  qed
  have "\<exists>v' res'. set_words sz (ph q) (v[ph p := w]) (ph (Suc p)) (bimTSRCombine res cur) = Some (v', res') \<and> length v' = sz \<and>
      tells P a (64 * q - 1) res' \<and>
      (\<forall>r. Suc p \<le> r \<and> r < q \<longrightarrow> v' ! ph r = fst (bimTestAndSetInner (v[ph p := w] ! ph r) 0 63)) \<and>
      (\<forall>i. i < sz \<and> (\<forall>r. Suc p \<le> r \<and> r < q \<longrightarrow> i \<noteq> ph r) \<longrightarrow> v' ! i = v[ph p := w] ! i)"
    using Suc.hyps(2) Suc.prems t' other other [symmetric] by (intro Suc.hyps(1)) auto
  then obtain v' res' where ih: "set_words sz (ph q) (v[ph p := w]) (ph (Suc p)) (bimTSRCombine res cur) = Some (v', res')"
    "length v' = sz" "tells P a (64 * q - 1) res'"
    "\<And>r. Suc p \<le> r \<Longrightarrow> r < q \<Longrightarrow> v' ! ph r = fst (bimTestAndSetInner (v[ph p := w] ! ph r) 0 63)"
    "\<And>i. i < sz \<Longrightarrow> (\<And>r. Suc p \<le> r \<Longrightarrow> r < q \<Longrightarrow> i \<noteq> ph r) \<Longrightarrow> v' ! i = v[ph p := w] ! i" by auto
  have "set_words sz (ph q) v (ph p) res = Some (v', res')"
    using ih(1) ne w nx by (subst set_words.simps) simp
  moreover have "v' ! ph r = fst (bimTestAndSetInner (v ! ph r) 0 63)" if "p \<le> r" "r < q" for r
  proof (cases "r = p")
    case True
    have "v' ! ph p = v[ph p := w] ! ph p" using ih(5) [OF lt] other by metis
    then show ?thesis using True w lt Suc.prems(4) by simp
  next
    case False
    then show ?thesis using ih(4) [of r] other [of r] that by simp
  qed
  moreover have "v' ! i = v ! i" if "i < sz" "\<And>r. p \<le> r \<Longrightarrow> r < q \<Longrightarrow> i \<noteq> ph r" for i
  proof -
    have "i \<noteq> ph p" using that(2) [of p] pq by simp
    then show ?thesis using ih(5) [OF that(1)] that(2) by simp
  qed
  ultimately show ?case using ih(2,3) by blast
qed

lemma bit_div: "64 * (k div 64) + k mod 64 = k" "k mod 64 < 64" for k :: nat
  by simp_all

text \<open>The place of a word counted from the base.\<close>

definition bm_place :: "bimBitmap \<Rightarrow> nat \<Rightarrow> nat" where
  "bm_place bm r = (unat (bm_base bm) + r) mod unat (bm_sz bm)"

lemma bim_word_place: "bim_word bm k = bm_place bm (k div 64)"
  by (simp add: bim_word_def bm_place_def)

lemma place_upd [simp]: "bm_place (bm\<lparr>bm_v := v\<rparr>) = bm_place bm"
  by (simp add: bm_place_def fun_eq_iff)

lemma place_lt: "bm_ok bm \<Longrightarrow> bm_place bm r < unat (bm_sz bm)"
  by (auto simp: bm_ok_def bm_place_def word_less_nat_alt)

lemma place_inj: "\<lbrakk>r < unat (bm_sz bm); r' < unat (bm_sz bm)\<rbrakk> \<Longrightarrow> bm_place bm r = bm_place bm r' \<longleftrightarrow> r = r'"
proof -
  have ne: "bm_place bm r \<noteq> bm_place bm r'" if "r < r'" "r' < unat (bm_sz bm)" for r r'
  proof -
    have "r' - r < unat (bm_sz bm)" using that by linarith
    then show ?thesis using phys_inj [of r r' "unat (bm_sz bm)" "unat (bm_base bm)"] that(1) unfolding bm_place_def by blast
  qed
  then show "\<lbrakk>r < unat (bm_sz bm); r' < unat (bm_sz bm)\<rbrakk> \<Longrightarrow> bm_place bm r = bm_place bm r' \<longleftrightarrow> r = r'" by (metis nat_neq_iff)
qed

lemma bm_bit_place: "bm_bit bm k = bit (bm_v bm ! bm_place bm (k div 64)) (k mod 64)"
  by (simp add: bm_bit_def bim_word_place)

lemma bm_bit_word: "n < 64 \<Longrightarrow> bm_bit bm (64 * r + n) = bit (bm_v bm ! bm_place bm r) n"
  by (simp add: bm_bit_place)

lemma word_tells:
  assumes "n \<le> m" "m < 64"
  shows "tells (bm_bit bm) (64 * r + n) (64 * r + m) (snd (bimTestAndSetInner (bm_v bm ! bm_place bm r) n m))"
proof -
  have "bm_bit bm k = bit (bm_v bm ! bm_place bm r) (k - 64 * r)" if "64 * r + n \<le> k" "k \<le> 64 * r + m" for k
    using bm_bit_word [of "k - 64 * r" bm r] that assms by simp
  then show ?thesis
    using inner_tells [OF assms, of "bm_v bm ! bm_place bm r" "64 * r"]
      tells_cong [of "64 * r + n" "64 * r + m" "bm_bit bm" "\<lambda>k. bit (bm_v bm ! bm_place bm r) (k - 64 * r)"] by simp
qed

text \<open>The contract of a range, with the new words: first for a range in one word, then for one that spans several.\<close>

definition range_set :: "bimBitmap \<Rightarrow> u32 \<Rightarrow> u32 \<Rightarrow> u64 list \<Rightarrow> bimIntersect \<Rightarrow> bool" where
  "range_set bm a b v res \<longleftrightarrow> bimTestAndSetRange bm a b = Some (bm\<lparr>bm_v := v\<rparr>, res) \<and> length v = unat (bm_sz bm) \<and>
     tells (bm_bit bm) (unat a) (unat b) res \<and>
     (\<forall>k < 64 * unat (bm_sz bm). bit (v ! bm_place bm (k div 64)) (k mod 64) = (bm_bit bm k \<or> unat a \<le> k \<and> k \<le> unat b))"

lemma range_parts:
  assumes "bm_ok bm" "a \<le> b" "unat b < 64 * unat (bm_sz bm)"
  shows "0 < unat (bm_sz bm)" "bm_sz bm \<noteq> 0" "length (bm_v bm) = unat (bm_sz bm)"
    "unat a = 64 * (unat a div 64) + unat a mod 64" "unat b = 64 * (unat b div 64) + unat b mod 64"
    "unat a mod 64 < 64" "unat b mod 64 < 64" "unat a \<le> unat b" "unat a div 64 \<le> unat b div 64" "unat b div 64 < unat (bm_sz bm)"
  using assms by (auto simp: bm_ok_def word_less_nat_alt word_le_nat_alt div_le_mono less_mult_imp_div_less mult.commute)

lemma range_one:
  assumes "bm_ok bm" "a \<le> b" "unat b < 64 * unat (bm_sz bm)" and same: "unat a div 64 = unat b div 64"
  shows "\<exists>v res. range_set bm a b v res"
proof -
  define p q x y where defs: "p = unat a div 64" "q = unat b div 64" "x = unat a mod 64" "y = unat b mod 64"
  define sz where "sz = unat (bm_sz bm)"
  note r = range_parts [OF assms(1-3), folded defs sz_def]
  have sz: "0 < sz" "bm_sz bm \<noteq> 0" "length (bm_v bm) = sz" using r by simp_all
  have ab: "unat a = 64 * p + x" "unat b = 64 * q + y" "x < 64" "y < 64" "unat a \<le> unat b" using r by simp_all
  have pq: "p \<le> q" "q < sz" using r by simp_all
  let ?ph = "bm_place bm" and ?P = "bm_bit bm"
  have lt: "?ph r < sz" for r using place_lt [OF assms(1)] by (simp add: sz_def)
  note inj = place_inj [of _ bm, folded sz_def] and P = bm_bit_word and tells = word_tells
  have True: "p = q" using same by (simp add: defs)
  then have xy: "x \<le> y" using ab by simp
  obtain w res where w: "bimTestAndSetInner (bm_v bm ! ?ph p) x y = (w, res)" by fastforce
  have "bimTestAndSetRange bm a b = Some (bm\<lparr>bm_v := (bm_v bm)[?ph p := w]\<rparr>, res)"
    using sz(2) w True by (simp add: bimTestAndSetRange_def bim_word_place Let_def defs [symmetric])
  moreover have "tells ?P (unat a) (unat b) res" using tells [OF xy ab(4), of bm p] w ab True by simp
  moreover have "bit ((bm_v bm)[?ph p := w] ! ?ph (k div 64)) (k mod 64) = (?P k \<or> unat a \<le> k \<and> k \<le> unat b)" if k: "k < 64 * sz" for k
  proof (cases "k div 64 = p")
    case kp: True
    have "bit w (k mod 64) \<longleftrightarrow> ?P k \<or> x \<le> k mod 64 \<and> k mod 64 \<le> y"
      using inner_sets [OF xy ab(4), of "bm_v bm ! ?ph p" "k mod 64"] w kp by (simp add: bm_bit_place)
    moreover have "unat a \<le> k \<and> k \<le> unat b \<longleftrightarrow> x \<le> k mod 64 \<and> k mod 64 \<le> y"
      using bit_div [of k] kp ab True by linarith
    ultimately show ?thesis using kp lt sz by simp
  next
    case kp: False
    have "k div 64 < sz" using k by (simp add: less_mult_imp_div_less mult.commute)
    then have "?ph (k div 64) \<noteq> ?ph p" using kp inj pq True by simp
    moreover have "\<not> (unat a \<le> k \<and> k \<le> unat b)"
    proof
      assume "unat a \<le> k \<and> k \<le> unat b"
      then have "p \<le> k div 64" "k div 64 \<le> q" unfolding defs by (simp_all add: div_le_mono)
      then show False using kp True by simp
    qed
    ultimately show ?thesis by (auto simp: bm_bit_place)
  qed
  ultimately show ?thesis using sz by (intro exI [of _ "(bm_v bm)[?ph p := w]"] exI [of _ res]) (simp add: range_set_def sz_def)
qed

lemma range_many:
  assumes "bm_ok bm" "a \<le> b" "unat b < 64 * unat (bm_sz bm)" and span: "unat a div 64 < unat b div 64"
  shows "\<exists>v res. range_set bm a b v res"
proof -
  define p q x y where defs: "p = unat a div 64" "q = unat b div 64" "x = unat a mod 64" "y = unat b mod 64"
  define sz where "sz = unat (bm_sz bm)"
  note r = range_parts [OF assms(1-3), folded defs sz_def]
  have sz: "0 < sz" "bm_sz bm \<noteq> 0" "length (bm_v bm) = sz" using r by simp_all
  have ab: "unat a = 64 * p + x" "unat b = 64 * q + y" "x < 64" "y < 64" "unat a \<le> unat b" using r by simp_all
  have pq: "p \<le> q" "q < sz" using r by simp_all
  let ?ph = "bm_place bm" and ?P = "bm_bit bm"
  have lt: "?ph r < sz" for r using place_lt [OF assms(1)] by (simp add: sz_def)
  note inj = place_inj [of _ bm, folded sz_def] and P = bm_bit_word and tells = word_tells
  have pq': "p < q" using span by (simp add: defs)
  obtain w0 r0 where w0: "bimTestAndSetInner (bm_v bm ! ?ph p) x 63 = (w0, r0)" by fastforce
  let ?v0 = "(bm_v bm)[?ph p := w0]"
  have t0: "tells ?P (unat a) (64 * Suc p - 1) r0" using tells [of x 63 bm p] ab w0 by (simp add: algebra_simps)
  have "\<exists>v' res'. set_words sz (?ph q) ?v0 (?ph (Suc p)) r0 = Some (v', res') \<and> length v' = sz \<and>
      tells ?P (unat a) (64 * q - 1) res' \<and>
      (\<forall>r. Suc p \<le> r \<and> r < q \<longrightarrow> v' ! ?ph r = fst (bimTestAndSetInner (?v0 ! ?ph r) 0 63)) \<and>
      (\<forall>i. i < sz \<and> (\<forall>r. Suc p \<le> r \<and> r < q \<longrightarrow> i \<noteq> ?ph r) \<longrightarrow> v' ! i = ?v0 ! i)"
  proof (rule set_words_result [OF _ sz(1)])
    show "?ph r = (unat (bm_base bm) + r) mod sz" for r by (simp add: bm_place_def sz_def)
    show "?P (64 * r + n) = bit (?v0 ! ?ph r) n" if "Suc p \<le> r" "r < q" "n < 64" for r n
      using that P [of n bm r] inj [of r p] pq by simp
  qed (use pq pq' sz ab t0 in simp_all)
  then obtain v1 r1 where s: "set_words sz (?ph q) ?v0 (?ph (Suc p)) r0 = Some (v1, r1)" "length v1 = sz" "tells ?P (unat a) (64 * q - 1) r1"
    and mid: "\<And>r. Suc p \<le> r \<Longrightarrow> r < q \<Longrightarrow> v1 ! ?ph r = fst (bimTestAndSetInner (?v0 ! ?ph r) 0 63)"
    and rest: "\<And>i. i < sz \<Longrightarrow> (\<And>r. Suc p \<le> r \<Longrightarrow> r < q \<Longrightarrow> i \<noteq> ?ph r) \<Longrightarrow> v1 ! i = ?v0 ! i" by auto
  have kept: "v1 ! ?ph r = ?v0 ! ?ph r" if "r < sz" "\<not> (Suc p \<le> r \<and> r < q)" for r
  proof (rule rest [OF lt])
    fix r' assume "Suc p \<le> r'" "r' < q"
    then show "?ph r \<noteq> ?ph r'" using inj [of r r'] that pq(2) by auto
  qed
  have old: "v1 ! ?ph r = (bm_v bm) ! ?ph r" if "r < sz" "r < p \<or> q \<le> r" for r
  proof -
    have "?ph p \<noteq> ?ph r" using inj [of p r] that pq pq' by auto
    then show ?thesis using kept [of r] that pq' by auto
  qed
  have first: "v1 ! ?ph p = w0" using kept [of p] pq pq' lt sz by simp
  obtain w2 r2 where w2: "bimTestAndSetInner (v1 ! ?ph q) 0 y = (w2, r2)" by fastforce
  have nx: "(?ph p + 1) mod sz = ?ph (Suc p)" by (simp add: bm_place_def sz_def mod_simps)
  have pne: "?ph p \<noteq> ?ph q" using inj [of p q] pq pq' by simp
  have eq: "bimTestAndSetRange bm a b = Some (bm\<lparr>bm_v := v1[?ph q := w2]\<rparr>, bimTSRCombine r1 r2)"
    using sz(2) w0 s(1) w2 pne nx
    by (simp add: bimTestAndSetRange_def bim_word_place Let_def defs [symmetric] sz_def [symmetric])
  have "tells ?P (64 * q) (unat b) r2" using tells [of 0 y bm q] old [of q] w2 ab pq by simp
  then have "tells ?P (unat a) (unat b) (bimTSRCombine r1 r2)"
    using tells_combine [OF s(3), of "unat b" r2] ab pq' by simp
  moreover have "bit (v1[?ph q := w2] ! ?ph (k div 64)) (k mod 64) = (?P k \<or> unat a \<le> k \<and> k \<le> unat b)" if k: "k < 64 * sz" for k
  proof -
    have ks: "k div 64 < sz" using k by (simp add: less_mult_imp_div_less mult.commute)
    note kd = bit_div [of k]
    have Pk': "?P k = bit (bm_v bm ! ?ph (k div 64)) (k mod 64)" by (simp add: bm_bit_place)
    consider "k div 64 < p" | "k div 64 = p" | "p < k div 64" "k div 64 < q" | "k div 64 = q" | "q < k div 64" by linarith
    then show ?thesis
    proof cases
      case 1
      have "\<not> unat a \<le> k" using 1 kd ab by linarith
      then show ?thesis using 1 old [of "k div 64"] ks inj [of "k div 64" q] pq Pk' by simp
    next
      case 2
      have "bit w0 (k mod 64) \<longleftrightarrow> ?P k \<or> x \<le> k mod 64"
        using inner_sets [of x 63 "bm_v bm ! ?ph p" "k mod 64"] w0 2 ab Pk' kd by simp
      moreover have "unat a \<le> k \<and> k \<le> unat b \<longleftrightarrow> x \<le> k mod 64" using kd 2 ab pq' by linarith
      ultimately show ?thesis using 2 first pne by simp
    next
      case 3
      have "bit (v1 ! ?ph (k div 64)) (k mod 64)"
        using inner_sets [of 0 63 "?v0 ! ?ph (k div 64)" "k mod 64"] mid [of "k div 64"] 3 kd by simp
      moreover have "unat a \<le> k \<and> k \<le> unat b" using kd 3 ab by linarith
      ultimately show ?thesis using 3 inj [of "k div 64" q] ks pq by simp
    next
      case 4
      have "bit w2 (k mod 64) \<longleftrightarrow> ?P k \<or> k mod 64 \<le> y"
        using inner_sets [of 0 y "bm_v bm ! ?ph q" "k mod 64"] w2 4 ab Pk' old [of q] pq by simp
      moreover have "unat a \<le> k \<and> k \<le> unat b \<longleftrightarrow> k mod 64 \<le> y" using kd 4 ab pq' by linarith
      ultimately show ?thesis using 4 lt s(2) by simp
    next
      case 5
      have "\<not> k \<le> unat b" using 5 kd ab by linarith
      then show ?thesis using 5 old [of "k div 64"] ks inj [of "k div 64" q] pq Pk' by simp
    qed
  qed
  ultimately show ?thesis using eq s(2) by (intro exI [of _ "v1[?ph q := w2]"] exI [of _ "bimTSRCombine r1 r2"]) (simp add: range_set_def sz_def)
qed

text \<open>C39: Setting a range sets exactly the range and tells what was set before. For a range within the array, wherever its base has
  moved to: after the call a bit is set when it was before or lies in the range; the result is \<open>BIM_NONE\<close> exactly when no bit
  of the range was set before and \<open>BIM_FULL\<close> exactly when all of them were, and \<open>BIM_START\<close>, \<open>BIM_END\<close> and \<open>BIM_EDGE\<close> are returned only when
  exactly the first, the last, or the first and the last bit was set.\<close>

theorem bim_range_sets:
  assumes "bm_ok bm" and "a \<le> b" and "unat b < 64 * unat (bm_sz bm)"
  shows "\<exists>bm' res. bimTestAndSetRange bm a b = Some (bm', res) \<and> bm_ok bm' \<and>
    (\<forall>k < 64 * unat (bm_sz bm). bm_bit bm' k = (bm_bit bm k \<or> unat a \<le> k \<and> k \<le> unat b)) \<and>
    (res = BIM_NONE \<longleftrightarrow> (\<forall>k. unat a \<le> k \<and> k \<le> unat b \<longrightarrow> \<not> bm_bit bm k)) \<and>
    (res = BIM_FULL \<longleftrightarrow> (\<forall>k. unat a \<le> k \<and> k \<le> unat b \<longrightarrow> bm_bit bm k)) \<and>
    (res = BIM_START \<longrightarrow> (\<forall>k. unat a \<le> k \<and> k \<le> unat b \<longrightarrow> bm_bit bm k = (k = unat a))) \<and>
    (res = BIM_END \<longrightarrow> (\<forall>k. unat a \<le> k \<and> k \<le> unat b \<longrightarrow> bm_bit bm k = (k = unat b))) \<and>
    (res = BIM_EDGE \<longrightarrow> (\<forall>k. unat a \<le> k \<and> k \<le> unat b \<longrightarrow> bm_bit bm k = (k = unat a \<or> k = unat b)))"
proof -
  obtain v res where r: "range_set bm a b v res"
    using range_one [OF assms] range_many [OF assms] range_parts(9) [OF assms] by (meson le_neq_implies_less)
  then have "bm_ok (bm\<lparr>bm_v := v\<rparr>)" using assms(1) by (simp add: bm_ok_def range_set_def)
  then show ?thesis using r unfolding range_set_def tells_def
    by (intro exI [of _ "bm\<lparr>bm_v := v\<rparr>"] exI [of _ res]) (simp add: bm_bit_place)
qed

theorem bim_range_sets_witness:
  "\<exists>bm' res. bimTestAndSetRange (bimInit 200) 60 130 = Some (bm', res) \<and> bm_bit bm' 64 \<and> \<not> bm_bit bm' 131 \<and> res \<noteq> BIM_FULL"
proof -
  have sz: "bm_sz (bimInit 200) = 4" by (simp add: bimInit_def Let_def)
  have ok: "bm_ok (bimInit 200)" by (simp add: bm_ok_def bimInit_def Let_def)
  have z: "\<not> bm_bit (bimInit 200) k" if "k < 256" for k
  proof -
    have "k div 64 mod 4 < 4" by simp
    then show ?thesis by (simp add: bm_bit_def bim_word_def bimInit_def Let_def nth_replicate)
  qed
  have lt: "(60 :: u32) \<le> 130" "unat (130 :: u32) < 64 * unat (bm_sz (bimInit 200))" by (simp_all add: sz)
  obtain bm' res where r: "bimTestAndSetRange (bimInit 200) 60 130 = Some (bm', res)"
    "\<forall>k < 256. bm_bit bm' k = (bm_bit (bimInit 200) k \<or> 60 \<le> k \<and> k \<le> 130)"
    "res = BIM_FULL \<longleftrightarrow> (\<forall>k. 60 \<le> k \<and> k \<le> 130 \<longrightarrow> bm_bit (bimInit 200) k)"
    using bim_range_sets [OF ok lt] by (auto simp: sz)
  have "res \<noteq> BIM_FULL" using r(3) z [of 60] by auto
  then show ?thesis using r(1,2) z [of 131] by auto
qed

text \<open>Across two words the report is weaker than its names: a range of which exactly the last bit was set is reported as partly set.\<close>

lemma end_across_words: "map_option snd (Option.bind (bimTestAndSetRange (bimInit 128) 70 70) (\<lambda>(bm, r). bimTestAndSetRange bm 60 70)) = Some BIM_PART"
  by (simp add: bimTestAndSetRange_def bimInit_def bim_word_def Let_def bimTestAndSetInner_def bimMaskA_def bimMaskB_def bimBit_def
      set_words.simps bimTSRCombine_def mask_eq_exp_minus_1)

text \<open>Moving the base on by one word.\<close>

lemma bimShiftDown_moves:
  assumes "bm_ok bm" "k + 64 < 64 * unat (bm_sz bm)" "bimShiftDown bm = Some (bm', w)"
  shows "bm_bit bm' k = bm_bit bm (k + 64)" and "w = bm_v bm ! bm_place bm 0"
proof -
  have n: "0 < unat (bm_sz bm)" "unat (bm_base bm) < unat (bm_sz bm)" "bm_sz bm \<noteq> 0" "k div 64 + 1 < unat (bm_sz bm)"
    using assms(1,2) by (auto simp: bm_ok_def word_less_nat_alt)
  have b: "unat ((bm_base bm + 1) mod bm_sz bm) = (unat (bm_base bm) + 1) mod unat (bm_sz bm)"
    using n(2) unsigned_less [of "bm_sz bm", where 'a = nat] by (simp add: unat_mod unat_word_ariths)
  have e: "bm' = bm\<lparr>bm_v := (bm_v bm)[unat (bm_base bm) := 0], bm_base := (bm_base bm + 1) mod bm_sz bm\<rparr>" "w = bm_v bm ! unat (bm_base bm)"
    using assms(3) n(3) by (auto simp: bimShiftDown_def)
  have pl: "bm_place bm' (k div 64) = bm_place bm (k div 64 + 1)"
    by (simp add: e(1) bm_place_def b mod_simps add.assoc add.commute [of 1])
  have p0: "bm_place bm 0 = unat (bm_base bm)" using n(2) by (simp add: bm_place_def)
  have "bm_place bm (k div 64 + 1) \<noteq> unat (bm_base bm)" using place_inj [of "k div 64 + 1" bm 0] n p0 by simp
  then have "bm_v bm' ! bm_place bm' (k div 64) = bm_v bm ! bm_place bm ((k + 64) div 64)" unfolding pl by (simp add: e(1))
  then show "bm_bit bm' k = bm_bit bm (k + 64)" by (simp add: bm_bit_place)
  show "w = bm_v bm ! bm_place bm 0" using e(2) p0 by simp
qed

text \<open>The highest bit: the number of bits the value needs.\<close>

lemma high_bit_result: "\<lbrakk>k < 64; unat v < 2 ^ Suc k; r = high_bit v (push_bit k 1) (Suc k)\<rbrakk> \<Longrightarrow> unat v < 2 ^ r \<and> (\<forall>m < r. 2 ^ m \<le> unat v)"
proof (induction k arbitrary: r)
  case 0
  have "high_bit 0 1 1 = 0" by (subst high_bit.simps, simp, subst high_bit.simps) simp
  moreover have "high_bit v 1 1 = 1" if "v \<noteq> 0" using that by (subst high_bit.simps) (simp add: word_less_nat_alt unat_eq_0)
  ultimately show ?case using 0 unat_gt_0 [of v] by (cases "v = 0") (auto simp: Suc_le_eq)
next
  case (Suc k)
  have "(2 :: nat) ^ Suc k < 2 ^ 64" using Suc.prems(1) by (intro power_strict_increasing) simp_all
  then have p: "unat (push_bit (Suc k) (1 :: u64)) = 2 ^ Suc k"
    using Suc.prems(1) by (subst unsigned_push_bit_eq) (simp add: push_bit_eq_mult take_bit_nat_eq_self del: power_Suc)
  show ?case
  proof (cases "v < push_bit (Suc k) 1")
    case True
    then have v: "unat v < 2 ^ Suc k" using p by (simp only: word_less_nat_alt)
    have "drop_bit 1 (push_bit (Suc k) (1 :: u64)) = push_bit k 1"
      using Suc.prems(1) by (intro bit_word_eqI) (auto simp: bit_simps)
    then have "r = high_bit v (push_bit k 1) (Suc k)" using Suc.prems(3) True by (subst (asm) high_bit.simps) simp
    then show ?thesis using Suc.IH v Suc.prems(1) by simp
  next
    case False
    then have r: "r = Suc (Suc k)" using Suc.prems(3) by (subst (asm) high_bit.simps) simp
    have le: "2 ^ Suc k \<le> unat v" using False p by (simp only: word_less_nat_alt not_less)
    have "2 ^ m \<le> unat v" if "m < Suc (Suc k)" for m
    proof -
      have "2 ^ m \<le> (2 :: nat) ^ Suc k" using that by (intro power_increasing) simp_all
      then show ?thesis using le by (rule order_trans)
    qed
    then show ?thesis using Suc.prems(2) r by simp
  qed
qed

lemma bimHighBitSet_needs: "unat v < 2 ^ bimHighBitSet v \<and> (\<forall>m < bimHighBitSet v. 2 ^ m \<le> unat v)"
proof -
  have "(0x8000000000000000 :: u64) = push_bit 63 1" by (simp add: push_bit_eq_mult)
  then show ?thesis using high_bit_result [of 63 v] unsigned_less [of v, where 'a = nat] by (simp add: bimHighBitSet_def)
qed

end
