(* ===== verification/Spec2Isabelle.thy ===== *)
theory Spec2Isabelle
  imports SetupRun DecodeTrip FragOrder FlowPrint Bitmap
begin

text \<open>
  A verification library for QoF, a meter that reads packets, groups them into bidirectional flows with TCP performance
  measurements, and exports the flows as IPFIX records.

  \<^bold>\<open>The program.\<close> \<open>main\<close> (\<open>src/qof.c\<close>) reads its options and a YAML file (\<open>src/qofconfig.c\<close>), opens a trace and sets up the
  components, and runs the packet loop \<open>qfTraceMain\<close> (\<open>src/qofltrace.c\<close>). The loop reads packets in groups of
  thirty-two into the slots of a ring (\<open>src/ring.c\<close>): each is decoded (\<open>src/decode.c\<close>), perhaps delayed or dropped by the detuner
  (\<open>src/qofdetune.c\<close>) and, when it is a fragment, handed to the fragment table (\<open>src/yafrag.c\<close>). Behind each group \<open>src/yaflush.c\<close>
  empties the ring into the flow table (\<open>src/yaftab.c\<close>), which keeps its flows in a hash table and in two pickable queues
  (\<open>src/picq.c\<close>), observes TCP (\<open>src/qofrtt.c\<close>, \<open>qofack.c\<close>, \<open>qofrwin.c\<close>, \<open>qofopt.c\<close>, \<open>qofseq.c\<close>, with \<open>streamstat.c\<close>) and closes flows that are
  finished, too long active or idle. Closed flows are written by \<open>src/yafcore.c\<close>, which fills a C structure, chooses a template
  and calls the IPFIX library; interface numbers and directions come from \<open>src/qofifmap.c\<close> and \<open>src/qofmaclist.c\<close>, the output
  files, their rotation and locks from \<open>src/yafout.c\<close> and \<open>airframe/src/airlock.c\<close>. The text form of a flow uses the time and address
  printers of \<open>airframe/src/airutil.c\<close>.

  \<^bold>\<open>The theories\<close>, in the order in which they build on one another. Operations carry the names of the C functions, fields those of
  the structures, shortened by a prefix where two structures share a name. A loop or a part of a long function that is a
  definition of its own is listed with its function in the project's map.

  \<^item> \<open>QofPrelude\<close>: word types, pointers as optional addresses, generic lemmas on lists and words.
  \<^item> \<open>PicQ\<close> (\<open>picq.c\<close>): doubly linked queues as heaps of links; refinement of a double-ended list, contract \<open>pickable_queue\<close>.
  \<^item> \<open>Ring\<close> (\<open>ring.c\<close>): the ring of packet buffers; refinement of a bounded queue, contract \<open>fifo_buffer\<close>.
  \<^item> \<open>PacketTypes\<close> (\<open>decode.h\<close>, \<open>yafcore.h\<close>): flow keys and packet buffers.
  \<^item> \<open>StreamStat\<close>, \<open>TcpDyn\<close>, \<open>TcpSeq\<close> (\<open>streamstat.c\<close>, \<open>qofrtt.c\<close>, \<open>qofack.c\<close>, \<open>qofrwin.c\<close>, \<open>qofopt.c\<close>, \<open>qofseq.c\<close>): running statistics and the TCP
    observers, each against the machine or the set of octets it stands for.
  \<^item> \<open>GHash\<close>, \<open>FlowKey\<close>: the contract of a hash table and its instances; hash, equality and reversal of flow keys.
  \<^item> \<open>FlowTab\<close>, \<open>FlowTabInv\<close>, \<open>FlowTabFlush\<close> (\<open>yaftab.c\<close>): the flow table, its invariant, and histories of packets and flushes.
  \<^item> \<open>Decode\<close>, \<open>DecodeSafe\<close>, \<open>DecodeTrip\<close> (\<open>decode.c\<close>): the decoder on an array of captured octets, where a load behind the array is
    an abort; which frames never abort; decoding of encoded frames and options, and what the option observer makes of them.
  \<^item> \<open>Frag\<close>, \<open>FragInv\<close>, \<open>FragSpec\<close>, \<open>FragOrder\<close> (\<open>yafrag.c\<close>): the fragment table, its invariant, its histories, and reassembly whatever
    the order of the fragments.
  \<^item> \<open>Bitmap\<close> (\<open>bitmap.c\<close>): bit counting and ranges in an array of words that moves; not called by the meter.
  \<^item> \<open>Detune\<close> (\<open>qofdetune.c\<close>): the detuner against a leaky bucket.
  \<^item> \<open>Meter\<close>, \<open>MeterRun\<close>, \<open>MeterStop\<close> (\<open>qofltrace.c\<close>, \<open>yaflush.c\<close>): the packet loop over any output; what it does with a whole trace (locale
    \<open>meter_world\<close>), and that it ends on every trace and every behaviour of the output (locale \<open>meter_stops\<close>).
  \<^item> \<open>IfMap\<close>, \<open>MacList\<close> (\<open>qofifmap.c\<close>, \<open>qofmaclist.c\<close>): sorted maps of prefixes searched by bisection, and the address list.
  \<^item> \<open>Export\<close>, \<open>ExportSpec\<close>, \<open>ExportRun\<close> (\<open>yafcore.c\<close>): templates, the record structure, the filling of a record; which
    exported octets were assigned; writing over the library (locale \<open>fixbuf\<close>, interpreted on a buffer that keeps what it is given).
  \<^item> \<open>AirUtil\<close>, \<open>FlowPrint\<close>, \<open>Output\<close> (\<open>airutil.c\<close>, \<open>yafcore.c\<close>, \<open>yafout.c\<close>, \<open>airlock.c\<close>): printers, the text form of a flow, output
    files with rotation and locks.
  \<^item> \<open>ExportMeter\<close>: the loop on the real output operations, which meet the contract of \<open>MeterRun\<close>.
  \<^item> \<open>Config\<close>, \<open>ConfigSpec\<close>, \<open>ConfigTrip\<close> (\<open>qofconfig.c\<close>): the YAML document, the features a template enables beside those of the manual, the defaults; documents that
    list settings are read as they were meant.
  \<^item> \<open>Setup\<close>, \<open>SetupRun\<close> (\<open>qof.c\<close>, \<open>qofconfig.c\<close>, \<open>qofltrace.c\<close>): options, the set-up of the context, \<open>main\<close>, and the whole program from the
    command line to the records handed to the library. The error of the context is a flag that failing calls set; \<open>main\<close> crashes
    when the loop fails without one.

  \<^bold>\<open>What the theorems show.\<close> The properties that span components stand at the top. \<open>main_conserves\<close>: once the program has started, with
  whatever options and configuration, on a trace of frames read within the capture, with a library and a file system that do
  not fail and no signal to quit, it ends with exit code 0, no packet of a
  complete group is lost or counted twice between the trace and the collector, and the tables free what they made.
  \<open>meter_ends\<close>: the loop ends, however the output fails. \<open>meter_conserves\<close>: the accounting for any output that accepts its records.
  Below them every component has its invariant with the lemma that each operation keeps it (flow table, fragment table, ring,
  queues, output), the behaviour of its operations on every branch, and where the code implements something simpler the refinement
  of that: queues as lists, the ring as a bounded list under any interleaving, the sequence tracker as the set of missing octets, the completeness
  scan as gaplessness, the detuner as a leaky bucket, the maps as the one network that contains an address, the option flags as the options on the wire,
  the running variance as the variance of the samples, the bit count as the number of bits. Where the code implements its
  specification only in part, the theorem says both what always holds and when it is exact: the sequence tracker overstates the loss when a segment
  begins with octets already seen, the scan refuses overlapping fragments, the detuner passes more than a
  bucket after a drop, the flags miss options of value zero, a refused lock lets one process more hold it. The maps are searched for networks that do not overlap and were added in an order in
  which the insertion never copies overlapping memory, since \<open>memcpy\<close> is a parameter of which nothing is assumed. The features of a template
  are compared with those of the manual, and the exceptions are listed.
  Round trips cover frames, TCP options, calendar times and configuration documents. Behaviour that is not what a comment or the
  documentation says is stated as a lemma next to the operation, for example \<open>short_trace_lost\<close>, \<open>map_entry_interfaces\<close>,
  \<open>refusal_unlocks\<close>, \<open>overlap_seen_as_gap\<close>, \<open>detune_stays_full\<close>, \<open>trace_error_crashes\<close>.

  \<^bold>\<open>How C is modelled.\<close> Machine integers are words of their width and wrap as in C; signed ones are read with \<open>sint\<close>. A structure
  is a record, a pointer to a node of a table an address into a map that the table holds, with the list of freed addresses,
  so that double frees and leaks can be stated. A failed assertion, a null pointer or a load outside an array is the
  value \<open>None\<close>. Loops whose end depends on the data are \<open>partial_function (option)\<close>, for which \<open>None\<close> also stands for not ending,
  and the theorems prove that they give a result; other loops are functions with a termination proof. No fuel is used.

  \<^bold>\<open>Parameters.\<close> Code that is not part of the repository is an argument of the definitions: the hash tables of GLib (contract
  \<open>ghash_table\<close>), \<open>qsort\<close>, \<open>random\<close>, the trace library, the IPFIX library (contract \<open>fixbuf\<close>), the events of the YAML library, \<open>inet_pton\<close>, the
  clock, the file system, terminals, privileges and the option library; so are the contents of C variables that
  are read before they are written. Each contract is interpreted on a concrete instance, which the witnesses run.

  \<^bold>\<open>Not modelled.\<close> The printing of statistics to the log (\<open>yafstat.c\<close> and the dump
  functions of the tables), signal handlers, help texts and message texts have no effect on the
  meter's state. Of the ring, the reservations of several elements and the variants with a lock are left out: the meter has one thread
  and takes one element at a time. Of \<open>airframe\<close>, the options, log, privileges, daemons and multiple input and output are calls of GLib and
  of the operating system, and the last two are not used by the program. The public headers declare what the theories define.
\<close>

end
